(* ===== verification/Prelude.thy ===== *)
theory Prelude
  imports Main "HOL-Library.Word" "HOL-Library.Monad_Syntax"
begin

unbundle bit_operations_syntax

text \<open>
  Shared vocabulary of the development: machine integers, \<open>std::string\<close> and C strings,
  counted loops and first-match scans that may leave defined behaviour.

  Conventions used everywhere:
  \<^item> a result of type \<open>'a option\<close> is \<open>None\<close> when the C++ execution leaves defined behaviour
    (a read or write outside an object, a null dereference, flowing off the end of a function
    whose result is used, division by zero) and \<open>Some\<close> of the result otherwise; an error the
    code itself reports (\<open>return -1\<close>) is an ordinary value inside \<open>Some\<close>;
  \<^item> \<open>std::string\<close> is HOL's \<open>string\<close>, whose characters are bytes;
  \<^item> the target is little-endian x86-64, as the build files say (\<open>-m64\<close>), with signed \<open>char\<close>.
\<close>

type_synonym byte = "8 word"
type_synonym u16 = "16 word"
type_synonym u32 = "32 word"
type_synonym u64 = "64 word"

named_theorems bytes_simps \<open>laws of byte strings, C strings and their conversions\<close>
named_theorems rd_simps \<open>laws of the read primitives\<close>
named_theorems wr_simps \<open>laws of the write primitives\<close>

lemma unat_byte_less: "unat (b :: byte) < 256"
proof -
  have "(unat b :: nat) < 2 ^ LENGTH(8)" by (rule unsigned_less)
  then show ?thesis by simp
qed

section \<open>Characters and bytes\<close>

definition chr8 :: "byte \<Rightarrow> char" where
  "chr8 b = char_of (unat b)"

definition ord8 :: "char \<Rightarrow> byte" where
  "ord8 c = word_of_nat (of_char c)"

lemma chr8_ord8 [simp]: "chr8 (ord8 c) = c"
proof -
  have "(of_char c :: nat) < 256" by simp
  then have "unat (word_of_nat (of_char c) :: byte) = of_char c"
    by (simp add: unat_of_nat)
  then show ?thesis by (simp add: chr8_def ord8_def)
qed

lemma ord8_chr8 [simp]: "ord8 (chr8 b) = b"
proof -
  have "unat b < 256" by (rule unat_byte_less)
  then have "of_char (char_of (unat b) :: char) = unat b" by simp
  then show ?thesis by (simp add: chr8_def ord8_def)
qed

lemma ord8_inject [simp]: "ord8 c = ord8 d \<longleftrightarrow> c = d"
  by (metis chr8_ord8)

definition str_bytes :: "string \<Rightarrow> byte list" where
  "str_bytes s = map ord8 s"

lemma length_str_bytes [simp]: "length (str_bytes s) = length s"
  by (simp add: str_bytes_def)

lemma str_bytes_Nil [simp]: "str_bytes [] = []"
  by (simp add: str_bytes_def)

lemma str_bytes_Cons [simp]: "str_bytes (c # s) = ord8 c # str_bytes s"
  by (simp add: str_bytes_def)

lemma map_chr8_str_bytes [simp]: "map chr8 (str_bytes s) = s"
  by (simp add: str_bytes_def comp_def)

definition no_nul :: "string \<Rightarrow> bool" where
  "no_nul s \<longleftrightarrow> (\<forall>c \<in> set s. ord8 c \<noteq> 0)"

lemma no_nul_simps [simp]: "no_nul []" "no_nul (c # s) \<longleftrightarrow> ord8 c \<noteq> 0 \<and> no_nul s"
  by (auto simp: no_nul_def)

section \<open>C strings\<close>

text \<open>
  \<open>cstr bs\<close> is the string a \<open>char *\<close> denotes when \<open>bs\<close> are the bytes from the pointer to the
  end of its object: \<open>None\<close> when there is no NUL, and the read runs past the object.
\<close>

fun cstr :: "byte list \<Rightarrow> string option" where
  "cstr [] = None"
| "cstr (b # bs) = (if b = 0 then Some [] else map_option (\<lambda>s. chr8 b # s) (cstr bs))"

lemma cstr_str_bytes [bytes_simps]: "no_nul s \<Longrightarrow> cstr (str_bytes s @ 0 # rest) = Some s"
  by (induction s) auto

lemma cstr_str_bytes_zeros [bytes_simps]:
  "no_nul s \<Longrightarrow> 0 < n \<Longrightarrow> cstr (str_bytes s @ replicate n 0) = Some s"
  by (cases n) (auto simp: cstr_str_bytes)

lemma cstr_None_iff: "cstr bs = None \<longleftrightarrow> 0 \<notin> set bs"
  by (induction bs) auto

lemma cstr_no_nul: "cstr bs = Some s \<Longrightarrow> no_nul s"
  by (induction bs arbitrary: s) (auto split: if_splits)

lemma cstr_append: "cstr bs = Some s \<Longrightarrow> cstr (bs @ cs) = Some s"
  by (induction bs arbitrary: s) (auto split: if_splits)

text \<open>
  \<open>strncpy(p, s.c_str(), n)\<close>: the characters up to the first NUL, then NULs up to \<open>n\<close> bytes.
\<close>

definition strncpy_bytes :: "string \<Rightarrow> nat \<Rightarrow> byte list" where
  "strncpy_bytes s n =
     (let t = takeWhile (\<lambda>c. ord8 c \<noteq> 0) (take n s)
      in str_bytes t @ replicate (n - length t) 0)"

lemma length_strncpy_bytes [simp]: "length (strncpy_bytes s n) = n"
proof -
  have "length (takeWhile (\<lambda>c. ord8 c \<noteq> 0) (take n s)) \<le> n"
    by (rule order_trans [OF length_takeWhile_le]) simp
  then show ?thesis by (simp add: strncpy_bytes_def Let_def)
qed

lemma strncpy_bytes_no_nul [bytes_simps]:
  "no_nul s \<Longrightarrow> strncpy_bytes s (length s) = str_bytes s"
  by (auto simp: strncpy_bytes_def no_nul_def Let_def takeWhile_eq_all_conv [THEN iffD2])

section \<open>Counted loops and scans\<close>

text \<open>
  \<open>for_loop i k f s\<close> is \<open>for (j = i; j < i + k; j++) s = f j s;\<close>, stopping as soon as the body
  leaves defined behaviour.
\<close>

fun for_loop :: "nat \<Rightarrow> nat \<Rightarrow> (nat \<Rightarrow> 's \<Rightarrow> 's option) \<Rightarrow> 's \<Rightarrow> 's option" where
  "for_loop i 0 f s = Some s"
| "for_loop i (Suc k) f s = Option.bind (f i s) (for_loop (Suc i) k f)"

lemma for_loop_add:
  "for_loop i (k + m) f s = Option.bind (for_loop i k f s) (for_loop (i + k) m f)"
proof (induction k arbitrary: i s)
  case 0
  then show ?case by simp
next
  case (Suc k)
  show ?case by (cases "f i s") (simp_all add: Suc)
qed

lemma for_loop_snoc: "for_loop i (Suc k) f s = Option.bind (for_loop i k f s) (f (i + k))"
proof -
  have "for_loop (i + k) 1 f = f (i + k)" by (rule ext, rename_tac x, case_tac "f (i + k) x") simp_all
  with for_loop_add [of i k 1 f s] show ?thesis by (simp del: for_loop.simps)
qed

lemma for_loop_invariant:
  assumes "for_loop i k f s = Some t" and "P i s"
    and "\<And>j u v. i \<le> j \<Longrightarrow> j < i + k \<Longrightarrow> P j u \<Longrightarrow> f j u = Some v \<Longrightarrow> P (Suc j) v"
  shows "P (i + k) t"
  using assms
proof (induction k arbitrary: i s)
  case 0
  then show ?case by simp
next
  case (Suc k)
  from Suc.prems(1) obtain u where u: "f i s = Some u" "for_loop (Suc i) k f u = Some t"
    by (auto simp: bind_eq_Some_conv)
  have "P (Suc i) u" by (rule Suc.prems(3) [OF _ _ Suc.prems(2) u(1)]) auto
  then have "P (Suc i + k) t"
    by (rule Suc.IH [OF u(2)]) (auto intro: Suc.prems(3))
  then show ?case by simp
qed

lemma for_loop_total:
  assumes "P i s"
    and "\<And>j u. i \<le> j \<Longrightarrow> j < i + k \<Longrightarrow> P j u \<Longrightarrow> \<exists>v. f j u = Some v \<and> P (Suc j) v"
  shows "\<exists>t. for_loop i k f s = Some t \<and> P (i + k) t"
  using assms
proof (induction k arbitrary: i s)
  case 0
  then show ?case by simp
next
  case (Suc k)
  from Suc.prems(2) [OF _ _ Suc.prems(1)] obtain u where u: "f i s = Some u" "P (Suc i) u"
    by auto
  have "\<exists>t. for_loop (Suc i) k f u = Some t \<and> P (Suc i + k) t"
    by (rule Suc.IH [OF u(2)]) (auto intro: Suc.prems(2))
  with u(1) show ?case by auto
qed

text \<open>
  \<open>scan f i k\<close> is the search loop \<open>for (j = i; j < i + k; j++) if (f j) return j;\<close>: the first
  index whose test succeeds, where evaluating a test may itself leave defined behaviour.
\<close>

fun scan :: "(nat \<Rightarrow> bool option) \<Rightarrow> nat \<Rightarrow> nat \<Rightarrow> nat option option" where
  "scan f i 0 = Some None"
| "scan f i (Suc k) =
     Option.bind (f i) (\<lambda>b. if b then Some (Some i) else scan f (Suc i) k)"

lemma scan_hit:
  "scan f i k = Some (Some j) \<Longrightarrow>
     i \<le> j \<and> j < i + k \<and> f j = Some True \<and> (\<forall>l. i \<le> l \<and> l < j \<longrightarrow> f l = Some False)"
proof (induction k arbitrary: i)
  case 0
  then show ?case by simp
next
  case (Suc k)
  then obtain b where b: "f i = Some b" by (auto simp: bind_eq_Some_conv)
  show ?case
  proof (cases b)
    case True
    with Suc.prems b show ?thesis by auto
  next
    case False
    with Suc.prems b have "scan f (Suc i) k = Some (Some j)" by simp
    then have *: "Suc i \<le> j \<and> j < Suc i + k \<and> f j = Some True \<and>
        (\<forall>l. Suc i \<le> l \<and> l < j \<longrightarrow> f l = Some False)"
      by (rule Suc.IH)
    then show ?thesis using b False by (auto simp: Suc_le_eq nat_less_le)
  qed
qed

lemma scan_miss:
  "scan f i k = Some None \<longleftrightarrow> (\<forall>l. i \<le> l \<and> l < i + k \<longrightarrow> f l = Some False)"
proof (induction k arbitrary: i)
  case 0
  then show ?case by auto
next
  case (Suc k)
  show ?case
  proof (cases "f i = Some False")
    case True
    then have "scan f i (Suc k) = Some None \<longleftrightarrow>
        (\<forall>l. Suc i \<le> l \<and> l < Suc i + k \<longrightarrow> f l = Some False)"
      using Suc.IH [of "Suc i"] by simp
    also have "\<dots> \<longleftrightarrow> (\<forall>l. i \<le> l \<and> l < i + Suc k \<longrightarrow> f l = Some False)"
      using True by (auto simp: Suc_le_eq nat_less_le)
    finally show ?thesis .
  next
    case False
    then have "scan f i (Suc k) \<noteq> Some None" by (auto simp: bind_eq_Some_conv)
    moreover from False have "\<not> (\<forall>l. i \<le> l \<and> l < i + Suc k \<longrightarrow> f l = Some False)"
      by auto
    ultimately show ?thesis by blast
  qed
qed

lemma scan_first:
  assumes "i \<le> j" and "j < i + k" and "f j = Some True"
    and "\<And>l. i \<le> l \<Longrightarrow> l < j \<Longrightarrow> f l = Some False"
  shows "scan f i k = Some (Some j)"
  using assms
proof (induction k arbitrary: i)
  case 0
  then show ?case by simp
next
  case (Suc k)
  show ?case
  proof (cases "i = j")
    case True
    with Suc.prems show ?thesis by simp
  next
    case False
    with Suc.prems(1) have "i < j" by simp
    with Suc.prems(4) [of i] have "f i = Some False" by simp
    moreover have "scan f (Suc i) k = Some (Some j)"
      by (rule Suc.IH) (use Suc.prems \<open>i < j\<close> in auto)
    ultimately show ?thesis by simp
  qed
qed

lemma scan_total:
  assumes "\<And>l. i \<le> l \<Longrightarrow> l < i + k \<Longrightarrow> f l \<noteq> None"
  shows "\<exists>r. scan f i k = Some r"
  using assms
proof (induction k arbitrary: i)
  case 0
  then show ?case by simp
next
  case (Suc k)
  from Suc.prems [of i] obtain b where "f i = Some b" by auto
  moreover have "\<exists>r. scan f (Suc i) k = Some r" by (rule Suc.IH) (rule Suc.prems; simp)
  ultimately show ?case by auto
qed

text \<open>Search loops whose test cannot fault are scans of a total test.\<close>

lemma scan_Some_eq: "scan (\<lambda>l. Some (P l)) i k \<noteq> None"
  using scan_total [of i k "\<lambda>l. Some (P l)"] by auto

lemma scan_const: "scan (\<lambda>_. Some c) i k = Some (if c \<and> 0 < k then Some i else None)"
  by (induction k arbitrary: i) (auto split: if_splits)

lemma split_at:
  assumes "n \<le> length b"
  obtains x y where "b = x @ y" "length x = n"
  using assms that [of "take n b" "drop n b"] by simp

section \<open>What a computation yields\<close>

text \<open>Whatever value there is has the property; the rules follow the way a computation is composed.\<close>

definition yields :: "('a \<Rightarrow> bool) \<Rightarrow> 'a option \<Rightarrow> bool" where
  "yields P x \<longleftrightarrow> (\<forall>a. x = Some a \<longrightarrow> P a)"

lemma yieldsI: "(\<And>a. x = Some a \<Longrightarrow> P a) \<Longrightarrow> yields P x"
  by (simp add: yields_def)

lemma yieldsD: "yields P x \<Longrightarrow> x = Some a \<Longrightarrow> P a"
  by (simp add: yields_def)

lemma yields_None [simp]: "yields P None"
  by (simp add: yields_def)

lemma yields_rules:
  "P a \<Longrightarrow> yields P (Some a)"
  "yields P x \<Longrightarrow> yields P y \<Longrightarrow> yields P (if c then x else y)"
  "yields P x \<Longrightarrow> (\<And>a. P a \<Longrightarrow> yields P (k a)) \<Longrightarrow> yields P (Option.bind x k)"
  "yields P x \<Longrightarrow> (\<And>a. P a \<Longrightarrow> P (f a)) \<Longrightarrow> yields P (map_option f x)"
  by (auto simp: yields_def bind_eq_Some_conv)

lemma yields_any_bind: "(\<And>v. x = Some v \<Longrightarrow> yields P (k v)) \<Longrightarrow> yields P (Option.bind x k)"
  by (auto simp: yields_def bind_eq_Some_conv)

lemma yields_any_map: "(\<And>v. P (f v)) \<Longrightarrow> yields P (map_option f x)"
  by (auto simp: yields_def)

lemma yields_split: "(\<And>a b. yields P (f a b)) \<Longrightarrow> yields P (case p of (a, b) \<Rightarrow> f a b)"
  by (cases p) simp

lemma yields_case: "(\<And>v. yields P (f v)) \<Longrightarrow> yields P d \<Longrightarrow> yields P (case x of Some v \<Rightarrow> f v | None \<Rightarrow> d)"
  by (cases x) simp_all

end
