(* ===== verification/Buffer.thy ===== *)
theory Buffer
  imports Prelude
begin

text \<open>
  Raw memory as the frame code uses it. A read pointer \<open>p\<close> into a buffer is the list of the
  bytes from \<open>p\<close> to the end of the buffer object; a write pointer is the pair of the bytes
  before it and the bytes from it on. Reading or writing past the object is \<open>None\<close>.
  \<open>p - frameBuff\<close> is the number of bytes already passed. Multi-byte loads and stores are
  little-endian, as on the target.

  The interface \<open>wire_field\<close> states what a pair of a store and a load of one value owe each
  other; it is interpreted below for every kind of field the two protocols use.
\<close>

type_synonym ptr = "byte list"
type_synonym wptr = "byte list \<times> byte list"

section \<open>Little-endian words\<close>

fun le_enc :: "nat \<Rightarrow> 'a::len word \<Rightarrow> byte list" where
  "le_enc 0 w = []"
| "le_enc (Suc n) w = ucast w # le_enc n (drop_bit 8 w)"

fun le_dec :: "byte list \<Rightarrow> 'a::len word" where
  "le_dec [] = 0"
| "le_dec (b # bs) = ucast b OR push_bit 8 (le_dec bs)"

lemma length_le_enc [simp]: "length (le_enc n w) = n"
  by (induction n arbitrary: w) auto

lemma le_dec_le_enc: "(le_dec (le_enc n w) :: 'a::len word) = take_bit (8 * n) w"
proof (induction n arbitrary: w)
  case 0
  then show ?case by simp
next
  case (Suc n)
  show ?case
  proof (rule bit_word_eqI)
    fix k assume k: "k < LENGTH('a)"
    show "bit (le_dec (le_enc (Suc n) w) :: 'a word) k = bit (take_bit (8 * Suc n) w) k"
    proof (cases "k < 8")
      case True
      with k show ?thesis
        by (simp add: Suc bit_or_iff bit_push_bit_iff bit_take_bit_iff bit_unsigned_iff)
    next
      case False
      then have "k - 8 + 8 = k" by simp
      with False k show ?thesis
        by (auto simp: Suc bit_or_iff bit_push_bit_iff bit_take_bit_iff bit_unsigned_iff
            bit_drop_bit_eq dest: bit_imp_le_length)
    qed
  qed
qed

lemma le_dec_le_enc_full [simp]:
  "LENGTH('a) \<le> 8 * n \<Longrightarrow> (le_dec (le_enc n (w :: 'a::len word)) :: 'a word) = w"
proof -
  assume "LENGTH('a) \<le> 8 * n"
  then have "take_bit (8 * n) w = w"
    by (intro bit_word_eqI) (auto simp: bit_take_bit_iff)
  then show ?thesis by (simp add: le_dec_le_enc)
qed

lemma le_enc_le_dec [simp]:
  "8 * length bs \<le> LENGTH('a) \<Longrightarrow> le_enc (length bs) (le_dec bs :: 'a::len word) = bs"
proof (induction bs)
  case Nil
  then show ?case by simp
next
  case (Cons b bs)
  from Cons.prems have len: "8 + 8 * length bs \<le> LENGTH('a)" by simp
  have "(ucast (ucast b OR push_bit 8 (le_dec bs) :: 'a word) :: byte) = b"
  proof (rule bit_word_eqI)
    fix k assume "k < LENGTH(8)"
    then have "k < 8" by simp
    then show "bit (ucast (ucast b OR push_bit 8 (le_dec bs) :: 'a word) :: byte) k = bit b k"
      using len by (simp add: bit_unsigned_iff bit_or_iff bit_push_bit_iff)
  qed
  moreover have "drop_bit 8 (ucast b OR push_bit 8 (le_dec bs) :: 'a word) =
      take_bit (LENGTH('a) - 8) (le_dec bs)"
    by (rule bit_word_eqI)
      (auto simp: bit_drop_bit_eq bit_or_iff bit_push_bit_iff bit_unsigned_iff bit_take_bit_iff
        dest: bit_imp_le_length)
  moreover have "take_bit (LENGTH('a) - 8) (le_dec bs :: 'a word) = le_dec bs"
  proof -
    have "\<not> bit (le_dec bs :: 'a word) k" if "8 * length bs \<le> k" for k
      using that
    proof (induction bs arbitrary: k)
      case Nil
      then show ?case by simp
    next
      case (Cons c cs)
      then have "8 \<le> k" and "8 * length cs \<le> k - 8" by auto
      with Cons.IH [of "k - 8"] show ?case
        by (auto simp: bit_or_iff bit_push_bit_iff bit_unsigned_iff dest: bit_imp_le_length)
    qed
    then have high: "bit (le_dec bs :: 'a word) k \<Longrightarrow> k < LENGTH('a) - 8" for k
      using len by (cases "8 * length bs \<le> k") auto
    show ?thesis
      by (rule bit_word_eqI) (auto simp: bit_take_bit_iff dest: high)
  qed
  ultimately show ?case using Cons by simp
qed

section \<open>Loads\<close>

definition rd8 :: "ptr \<Rightarrow> (byte \<times> ptr) option" where
  "rd8 p = (case p of [] \<Rightarrow> None | b # q \<Rightarrow> Some (b, q))"

definition rd_bytes :: "nat \<Rightarrow> ptr \<Rightarrow> (byte list \<times> ptr) option" where
  "rd_bytes n p = (if n \<le> length p then Some (take n p, drop n p) else None)"

definition rd16 :: "ptr \<Rightarrow> (u16 \<times> ptr) option" where
  "rd16 p = map_option (\<lambda>(bs, q). (le_dec bs, q)) (rd_bytes 2 p)"

definition rd32 :: "ptr \<Rightarrow> (u32 \<times> ptr) option" where
  "rd32 p = map_option (\<lambda>(bs, q). (le_dec bs, q)) (rd_bytes 4 p)"

definition rd64 :: "ptr \<Rightarrow> (u64 \<times> ptr) option" where
  "rd64 p = map_option (\<lambda>(bs, q). (le_dec bs, q)) (rd_bytes 8 p)"

lemma rd8_Cons [rd_simps]: "rd8 (b # q) = Some (b, q)"
  by (simp add: rd8_def)

lemma rd8_Nil [rd_simps]: "rd8 [] = None"
  by (simp add: rd8_def)

lemma rd_bytes_append [rd_simps]: "length bs = n \<Longrightarrow> rd_bytes n (bs @ q) = Some (bs, q)"
  by (simp add: rd_bytes_def)

lemma rd16_enc [rd_simps]: "rd16 (le_enc 2 w @ q) = Some (w, q)"
  by (simp add: rd16_def rd_bytes_append)

lemma rd32_enc [rd_simps]: "rd32 (le_enc 4 w @ q) = Some (w, q)"
  by (simp add: rd32_def rd_bytes_append)

lemma rd64_enc [rd_simps]: "rd64 (le_enc 8 w @ q) = Some (w, q)"
  by (simp add: rd64_def rd_bytes_append)

text \<open>How many bytes a successful load consumes.\<close>

lemma rd8_length: "rd8 p = Some (x, q) \<Longrightarrow> length p = Suc (length q)"
  by (auto simp: rd8_def split: list.splits)

lemma rd_bytes_length: "rd_bytes n p = Some (bs, q) \<Longrightarrow> length p = n + length q \<and> length bs = n"
  by (auto simp: rd_bytes_def split: if_splits)

lemma rd16_length: "rd16 p = Some (x, q) \<Longrightarrow> length p = 2 + length q"
  by (auto simp: rd16_def dest: rd_bytes_length)

lemma rd32_length: "rd32 p = Some (x, q) \<Longrightarrow> length p = 4 + length q"
  by (auto simp: rd32_def dest: rd_bytes_length)

lemma rd64_length: "rd64 p = Some (x, q) \<Longrightarrow> length p = 8 + length q"
  by (auto simp: rd64_def dest: rd_bytes_length)

lemmas rd_lengths = rd8_length rd_bytes_length rd16_length rd32_length rd64_length

text \<open>A load consumes a fixed run of bytes and never looks beyond it.\<close>

definition local_read :: "(ptr \<Rightarrow> ('a \<times> ptr) option) \<Rightarrow> bool" where
  "local_read rd \<longleftrightarrow>
     (\<forall>p x q. rd p = Some (x, q) \<longrightarrow>
        length q \<le> length p \<and> (\<forall>r. rd (p @ r) = Some (x, q @ r)))"

lemma local_readD:
  "local_read rd \<Longrightarrow> rd p = Some (x, q) \<Longrightarrow> rd (p @ r) = Some (x, q @ r)"
  by (auto simp: local_read_def)

lemma local_read_rd8: "local_read rd8"
  by (auto simp: local_read_def rd8_def split: list.splits)

lemma local_read_rd_bytes: "local_read (rd_bytes n)"
  by (auto simp: local_read_def rd_bytes_def split: if_splits)

lemma local_read_map:
  assumes "local_read rd"
  shows "local_read (\<lambda>p. map_option (\<lambda>(x, q). (f x, q)) (rd p))"
  using assms unfolding local_read_def by (auto split: prod.splits)

lemma local_read_rd16: "local_read rd16"
  unfolding rd16_def by (rule local_read_map [OF local_read_rd_bytes])

lemma local_read_rd32: "local_read rd32"
  unfolding rd32_def by (rule local_read_map [OF local_read_rd_bytes])

lemma local_read_rd64: "local_read rd64"
  unfolding rd64_def by (rule local_read_map [OF local_read_rd_bytes])

lemma local_read_bind:
  assumes "local_read rd" and "\<And>x. local_read (k x)"
  shows "local_read (\<lambda>p. Option.bind (rd p) (\<lambda>(x, q). k x q))"
  unfolding local_read_def
proof (intro allI impI)
  fix p y r
  assume "Option.bind (rd p) (\<lambda>(x, q). k x q) = Some (y, r)"
  then obtain x q where x: "rd p = Some (x, q)" and y: "k x q = Some (y, r)"
    by (auto simp: bind_eq_Some_conv)
  from assms(1) x have 1: "length q \<le> length p" "\<And>t. rd (p @ t) = Some (x, q @ t)"
    by (auto simp: local_read_def)
  from assms(2) y have 2: "length r \<le> length q" "\<And>t. k x (q @ t) = Some (y, r @ t)"
    by (auto simp: local_read_def)
  from 1 2 show "length r \<le> length p \<and>
      (\<forall>t. Option.bind (rd (p @ t)) (\<lambda>(x, q). k x q) = Some (y, r @ t))"
    by auto
qed

lemma local_read_Some: "local_read (\<lambda>p. Some (x, p))"
  by (simp add: local_read_def)

section \<open>Stores\<close>

definition wr_bytes :: "byte list \<Rightarrow> wptr \<Rightarrow> wptr option" where
  "wr_bytes bs s =
     (if length bs \<le> length (snd s) then Some (fst s @ bs, drop (length bs) (snd s)) else None)"

definition wr8 :: "byte \<Rightarrow> wptr \<Rightarrow> wptr option" where
  "wr8 b = wr_bytes [b]"

definition wr16 :: "u16 \<Rightarrow> wptr \<Rightarrow> wptr option" where
  "wr16 w = wr_bytes (le_enc 2 w)"

definition wr32 :: "u32 \<Rightarrow> wptr \<Rightarrow> wptr option" where
  "wr32 w = wr_bytes (le_enc 4 w)"

text \<open>\<open>p += n\<close> without a store: the bytes keep what the buffer held.\<close>

definition skip :: "nat \<Rightarrow> wptr \<Rightarrow> wptr option" where
  "skip n s =
     (if n \<le> length (snd s) then Some (fst s @ take n (snd s), drop n (snd s)) else None)"

text \<open>The buffer a write pointer belongs to, and a pointer to its start.\<close>

definition buf_of :: "wptr \<Rightarrow> byte list" where
  "buf_of s = fst s @ snd s"

definition at_start :: "byte list \<Rightarrow> wptr" where
  "at_start b = ([], b)"

text \<open>A store through an older pointer into the same buffer, \<open>off\<close> bytes from its start.\<close>

definition patch :: "nat \<Rightarrow> byte list \<Rightarrow> byte list \<Rightarrow> byte list option" where
  "patch off bs b =
     (if off + length bs \<le> length b
      then Some (take off b @ bs @ drop (off + length bs) b) else None)"

lemma wr_bytes_wr_bytes [wr_simps]:
  "Option.bind (wr_bytes xs s) (wr_bytes ys) = wr_bytes (xs @ ys) s"
  by (auto simp: wr_bytes_def add.commute)

lemma wr_bytes_bind [wr_simps]:
  "Option.bind (wr_bytes xs s) (\<lambda>t. Option.bind (wr_bytes ys t) k) =
   Option.bind (wr_bytes (xs @ ys) s) k"
  by (auto simp: wr_bytes_def add.commute)

lemma wr_bytes_Nil [wr_simps]: "wr_bytes [] s = Some s"
  by (simp add: wr_bytes_def)

lemma wr8_Cons [wr_simps]: "wr8 v (pre, b # post) = Some (pre @ [v], post)"
  by (simp add: wr8_def wr_bytes_def)

lemma wr_bytes_fits:
  "length bs \<le> length post \<Longrightarrow> wr_bytes bs (pre, post) = Some (pre @ bs, drop (length bs) post)"
  by (simp add: wr_bytes_def)

lemma wr_bytes_overrun: "length post < length bs \<Longrightarrow> wr_bytes bs (pre, post) = None"
  by (simp add: wr_bytes_def)

lemma buf_of_wr_bytes:
  "wr_bytes bs (pre, post) = Some s \<Longrightarrow> length (buf_of s) = length pre + length post"
  by (auto simp: wr_bytes_def buf_of_def split: if_splits)

lemma length_patch: "patch off bs b = Some c \<Longrightarrow> length c = length b"
  by (auto simp: patch_def split: if_splits)

text \<open>
  The shape every framing function of the program has: a header is stored at the start of the
  buffer, four bytes are skipped for the length word, the body is stored, and the length word
  is patched in through the saved pointer.
\<close>

lemma framed_store:
  assumes "length hdr + 4 + length body \<le> length b"
  shows "Option.bind (wr_bytes hdr (at_start b)) (\<lambda>s.
           Option.bind (skip 4 s) (\<lambda>s. Option.bind (wr_bytes body s) (\<lambda>s.
             patch (length hdr) (le_enc 4 w) (buf_of s)))) =
         Some (hdr @ le_enc 4 w @ body @ drop (length hdr + 4 + length body) b)"
proof -
  have "length hdr \<le> length b" "4 \<le> length b - length hdr"
    "length body \<le> length b - (length hdr + 4)"
    using assms by linarith+
  then show ?thesis
    using assms
    by (simp add: wr_bytes_def skip_def at_start_def buf_of_def patch_def add.commute
        add.left_commute)
qed

lemma wr_bytes_over:
  "length x = length bs \<Longrightarrow> wr_bytes bs (pre, x @ post) = Some (pre @ bs, post)"
  by (simp add: wr_bytes_def)

lemma skip_over: "length x = n \<Longrightarrow> skip n (pre, x @ post) = Some (pre @ x, post)"
  by (simp add: skip_def)

lemma patch_over:
  "length pre = off \<Longrightarrow> length x = length bs \<Longrightarrow>
     patch off bs (pre @ x @ post) = Some (pre @ bs @ post)"
  by (auto simp: patch_def)

text \<open>A counted loop of stores is one store.\<close>

lemma for_loop_wr:
  assumes "\<And>j. i \<le> j \<Longrightarrow> j < i + k \<Longrightarrow> f j = wr_bytes (enc j)"
  shows "for_loop i k f = wr_bytes (concat (map enc [i..<i + k]))"
  using assms
proof (induction k arbitrary: i)
  case 0
  show ?case by (simp add: fun_eq_iff wr_simps)
next
  case (Suc k)
  have split: "[i..<i + Suc k] = i # [Suc i..<Suc i + k]" by (simp add: upt_rec)
  have "for_loop (Suc i) k f = wr_bytes (concat (map enc [Suc i..<Suc i + k]))"
    by (rule Suc.IH) (use Suc.prems in auto)
  moreover have "f i = wr_bytes (enc i)" using Suc.prems by simp
  ultimately show ?case
    by (intro ext) (simp only: split for_loop.simps wr_bytes_wr_bytes list.map concat.simps)
qed

section \<open>Length-prefixed strings\<close>

text \<open>
  \<open>*p = s.length(); p++; strncpy(p, s.c_str(), s.length()); p += s.length();\<close>
  The length is truncated to a byte.
\<close>

definition lstr_bytes :: "string \<Rightarrow> byte list" where
  "lstr_bytes s = word_of_nat (length s) # strncpy_bytes s (length s)"

definition wr_lstr :: "string \<Rightarrow> wptr \<Rightarrow> wptr option" where
  "wr_lstr s = wr_bytes (lstr_bytes s)"

text \<open>
  \<open>tmpLen = *p; p++; memset(tmp, 0, 256); memcpy(tmp, p, MIN(tmpLen, 256)); x = tmp; p += tmpLen;\<close>
  with \<open>char tmp[256]\<close>. The length is a byte, so at least one NUL stays behind the copy.
\<close>

definition rd_lstr :: "ptr \<Rightarrow> (string \<times> ptr) option" where
  "rd_lstr p = do {
     (n, p) \<leftarrow> rd8 p;
     (bs, p) \<leftarrow> rd_bytes (unat n) p;
     s \<leftarrow> cstr (bs @ replicate (256 - length bs) 0);
     Some (s, p)
   }"

definition wire_string :: "string \<Rightarrow> bool" where
  "wire_string s \<longleftrightarrow> no_nul s \<and> length s < 256"

lemma length_lstr_bytes [simp]: "length (lstr_bytes s) = Suc (length s)"
  by (simp add: lstr_bytes_def)

lemma rd_lstr_enc [rd_simps]:
  assumes "wire_string s"
  shows "rd_lstr (lstr_bytes s @ q) = Some (s, q)"
proof -
  from assms have s: "no_nul s" "length s < 256" by (auto simp: wire_string_def)
  then have n: "unat (word_of_nat (length s) :: byte) = length s"
    by (simp add: unat_of_nat)
  from s have "cstr (str_bytes s @ replicate (256 - length s) 0) = Some s"
    by (intro cstr_str_bytes_zeros) auto
  with s n show ?thesis
    by (simp add: rd_lstr_def lstr_bytes_def rd_simps strncpy_bytes_no_nul)
qed

lemma rd_lstr_total:
  assumes "rd8 p = Some (n, q)" and "unat n \<le> length q"
  shows "\<exists>s. rd_lstr p = Some (s, drop (unat n) q) \<and> wire_string s"
proof -
  have n: "unat n < 256" by (rule unat_byte_less)
  let ?bs = "take (unat n) q @ replicate (256 - unat n) (0::byte)"
  from n have "0 \<in> set ?bs" by simp
  then obtain s where s: "cstr ?bs = Some s"
    by (cases "cstr ?bs") (auto simp: cstr_None_iff)
  have "length s \<le> length (take (unat n) q)"
  proof -
    have "cstr (xs @ replicate m 0) = Some t \<Longrightarrow> length t \<le> length xs" for xs m t
    proof (induction xs arbitrary: t)
      case Nil
      then show ?case by (cases m) auto
    next
      case (Cons x xs)
      then show ?case by (auto split: if_splits)
    qed
    from this [OF s] show ?thesis .
  qed
  with s n assms cstr_no_nul [OF s] show ?thesis
    by (auto simp: rd_lstr_def rd_bytes_def wire_string_def)
qed

lemma local_read_rd_lstr: "local_read rd_lstr"
proof -
  have "local_read (\<lambda>p. Option.bind (rd8 p) (\<lambda>(n, p). Option.bind (rd_bytes (unat n) p)
      (\<lambda>(bs, p). Option.bind (cstr (bs @ replicate (256 - length bs) 0)) (\<lambda>s. Some (s, p)))))"
    by (intro local_read_bind local_read_rd8 local_read_rd_bytes)
      (auto simp: local_read_def bind_eq_Some_conv)
  then show ?thesis by (simp add: rd_lstr_def [abs_def])
qed

section \<open>The interface of a wire field\<close>

locale wire_field =
  fixes wr :: "'a \<Rightarrow> wptr \<Rightarrow> wptr option"
    and rd :: "ptr \<Rightarrow> ('a \<times> ptr) option"
    and enc :: "'a \<Rightarrow> byte list"
    and ok :: "'a \<Rightarrow> bool"
  assumes wr_enc: "wr x = wr_bytes (enc x)"
    and rd_enc: "ok x \<Longrightarrow> rd (enc x @ q) = Some (x, q)"
    and rd_local: "local_read rd"
begin

text \<open>What was stored is what is loaded, whatever surrounds it.\<close>

lemma store_load:
  assumes "ok x" and "wr x (pre, post) = Some s"
  shows "rd (drop (length pre) (buf_of s)) = Some (x, snd s)"
  using assms by (auto simp: wr_enc wr_bytes_def buf_of_def rd_enc split: if_splits)

text \<open>A store never touches the bytes before its pointer.\<close>

lemma store_frame:
  "wr x (pre, post) = Some s \<Longrightarrow> take (length pre) (buf_of s) = pre"
  by (auto simp: wr_enc wr_bytes_def buf_of_def split: if_splits)

text \<open>An array of \<open>n\<close> fields, stored and loaded one after the other.\<close>

definition rd_n :: "nat \<Rightarrow> ptr \<Rightarrow> ('a list \<times> ptr) option" where
  "rd_n n p = rec_nat (\<lambda>p. Some ([], p))
     (\<lambda>_ f p. Option.bind (rd p) (\<lambda>(x, q). Option.bind (f q) (\<lambda>(xs, r). Some (x # xs, r)))) n p"

lemma rd_n_enc: "\<forall>x \<in> set xs. ok x \<Longrightarrow> rd_n (length xs) (concat (map enc xs) @ q) = Some (xs, q)"
  by (induction xs) (auto simp: rd_n_def rd_enc)

end

interpretation u8_field: wire_field wr8 rd8 "\<lambda>b. [b]" "\<lambda>_. True"
  by unfold_locales (auto simp: wr8_def rd_simps local_read_rd8)

interpretation u16_field: wire_field wr16 rd16 "le_enc 2" "\<lambda>_. True"
  by unfold_locales (auto simp: wr16_def rd_simps local_read_rd16)

interpretation u32_field: wire_field wr32 rd32 "le_enc 4" "\<lambda>_. True"
  by unfold_locales (auto simp: wr32_def rd_simps local_read_rd32)

interpretation lstr_field: wire_field wr_lstr rd_lstr lstr_bytes wire_string
  by unfold_locales (auto simp: wr_lstr_def rd_simps local_read_rd_lstr)

end
