(* ===== verification/ProtocolTypes.thy ===== *)
theory ProtocolTypes
  imports Buffer
begin

text \<open>
  The data of \<open>inc/protocol.h\<close> and \<open>inc/protocol_CfgClient.h\<close>. A struct is a record whose
  fields keep the source's names behind a prefix of the struct (two structs may share a field
  name in C++, not in HOL). A \<open>float\<close> is the 32-bit pattern that is copied around. A scalar
  keeps its width; \<open>int32_t\<close> and \<open>uint32_t\<close> members are both 32-bit words, read as signed
  with \<open>sint\<close> where the code compares them as signed numbers.
\<close>

section \<open>inc/protocol.h\<close>

record ProtocolHead =
  ph_frameSize :: u32
  ph_type :: byte

record LoginInfo =
  li_devType :: byte
  li_MAC :: "byte list"
  li_nameLen :: byte
  li_name :: "byte list"
  li_devNumLen :: byte
  li_devNum :: "byte list"
  li_IP :: "byte list"
  li_MASK :: "byte list"
  li_gateway :: "byte list"
  li_serverIP :: "byte list"
  li_serverPort :: u16

record POINT =
  pt_x :: u32
  pt_y :: u32

record IllegalParkParam =
  ip_nNum1 :: u16
  ip_nNum2 :: u16
  ip_Area1 :: "POINT list"
  ip_Area2 :: "POINT list"
  ip_fHitThreshold :: u32
  ip_fScaleScreen :: u32
  ip_nIllegalParkMin :: u32

record RECT =
  rc_left :: u32
  rc_top :: u32
  rc_right :: u32
  rc_bottom :: u32

record SnapSchedule =
  ss_mode :: byte
  ss_reserve :: byte
  ss_RTSPaddrLen :: byte
  ss_RTSPaddr :: string
  ss_BrandNameLen :: byte
  ss_BrandName :: string
  ss_productTypeLen :: byte
  ss_productType :: string
  ss_illparkpara :: IllegalParkParam
  ss_rect :: RECT
  ss_plateMinWidth :: u32
  ss_plateMaxWidth :: u32
  ss_camNumLen :: byte
  ss_camNum :: string

record ThreeDirReq =
  td_ratioWidth :: u16
  td_ratioHeight :: u16
  td_zoomLeft :: u16
  td_zoomTop :: u16
  td_zoomRight :: u16
  td_zoombottom :: u16

text \<open>
  \<open>string picName[24]\<close> is a function of the index, bounded by \<open>MAX_PIC\<close> at each store. The
  pointers \<open>picData[24]\<close> and the member \<open>curRecvPicNum\<close> are never assigned or read by any code and
  are left out.
\<close>

record IlligalProcResult =
  ir_camNumLen :: byte
  ir_camNum :: string
  ir_plateVariety :: u32
  ir_plateColor :: byte
  ir_plateNumLen :: byte
  ir_plateNum :: string
  ir_vedioNameLen :: byte
  ir_vedioName :: string
  ir_picNum :: byte
  ir_rcvdSzie :: u32
  ir_frameSize :: u32
  ir_missionNum :: u32
  ir_capTime :: string
  ir_picName :: "nat \<Rightarrow> string"

record tagPoint =
  tp_leftTop :: u32
  tp_rightTop :: u32
  tp_leftBottom :: u32
  tp_rightBottom :: u32

record ScmDetectParam =
  sd_areaPts :: "tagPoint list"
  sd_contactLine :: "u32 list"
  sd_vecLaneLineNum :: u32
  sd_vecLaneLine :: "u32 list"

record VehicleFlowSchedule =
  vf_reserve :: "byte list"
  vf_RTSPaddrLen :: byte
  vf_RTSPaddr :: string
  vf_BrandNameLen :: byte
  vf_BrandName :: string
  vf_productTypeLen :: byte
  vf_productType :: string
  vf_scmDetPara :: ScmDetectParam
  vf_rect :: RECT
  vf_plateMinWidth :: u32
  vf_plateMaxWidth :: u32
  vf_camNumLen :: byte
  vf_camNum :: string

datatype RESPONE_TYPE =
  LOGIN_RESP | TARGET_LOCK_START_RESP | RIO_RESP | PANORAMA_RESP | SNAP_RESP
| TARGET_LOCK_END_RESP | DEV_STATUS_RESP | ILLEGAL_PART_POS_RESP | VEDIO_RCV_RESP

fun respone_code :: "RESPONE_TYPE \<Rightarrow> byte" where
  "respone_code LOGIN_RESP = 2"
| "respone_code TARGET_LOCK_START_RESP = 6"
| "respone_code RIO_RESP = 8"
| "respone_code PANORAMA_RESP = 10"
| "respone_code SNAP_RESP = 12"
| "respone_code TARGET_LOCK_END_RESP = 14"
| "respone_code DEV_STATUS_RESP = 18"
| "respone_code ILLEGAL_PART_POS_RESP = 22"
| "respone_code VEDIO_RCV_RESP = 24"

record Preset =
  pr_camNum :: string
  pr_presetNum :: u32
  pr_holdSeconds :: u32
  pr_mode :: u32
  pr_priority :: u32
  pr_plateMinWidth :: u32
  pr_plateMaxWidth :: u32
  pr_illparkpara :: IllegalParkParam
  pr_rect :: RECT

text \<open>\<open>Preset missionPreset[300]\<close> is a function of the index; an index of 300 or more faults.\<close>

record SDCcfg =
  sc_mode :: byte
  sc_reserve :: byte
  sc_IP :: string
  sc_port :: u32
  sc_m_usrName :: string
  sc_m_pwd :: string
  sc_RTSPaddr :: string
  sc_brandName :: string
  sc_productType :: string
  sc_plateMinWidth :: u32
  sc_plateMaxWidth :: u32
  sc_camNum :: string
  sc_missionNum :: u32
  sc_presetTotal :: byte
  sc_missionPreset :: "nat \<Rightarrow> Preset"

definition MAX_PRESET :: nat where
  "MAX_PRESET = 300"

definition MAX_AREA :: nat where
  "MAX_AREA = 10"

definition MAX_PIC :: nat where
  "MAX_PIC = 24"

definition MAGIC :: u32 where
  "MAGIC = 0x787e6533"

text \<open>A preset total is a byte, so a slot below it always exists.\<close>

lemma preset_slot: "i < unat (sc_presetTotal cfg) \<Longrightarrow> i < MAX_PRESET"
  using unat_byte_less [of "sc_presetTotal cfg"] by (simp add: MAX_PRESET_def)

section \<open>inc/protocol\_CfgClient.h\<close>

record ProtocolClientCfgHead =
  ch_frameSize :: u32
  ch_version :: string
  ch_type :: byte

record missionGroupChgReq =
  gr_ori_num :: u32
  gr_dts_num :: u32
  gr_type :: byte
  gr_num :: string

section \<open>Memory images\<close>

text \<open>
  \<open>memcpy(p, &x, sizeof x)\<close> copies the object's bytes. \<open>IllegalParkParam\<close> has two 16-bit
  members, twenty points and three 32-bit members, no padding: 176 bytes. \<open>RECT\<close> is four
  32-bit members in declaration order.
\<close>

definition point_bytes :: "POINT \<Rightarrow> byte list" where
  "point_bytes q = le_enc 4 (pt_x q) @ le_enc 4 (pt_y q)"

definition illpark_bytes :: "IllegalParkParam \<Rightarrow> byte list" where
  "illpark_bytes q = le_enc 2 (ip_nNum1 q) @ le_enc 2 (ip_nNum2 q) @
     concat (map point_bytes (ip_Area1 q)) @ concat (map point_bytes (ip_Area2 q)) @
     le_enc 4 (ip_fHitThreshold q) @ le_enc 4 (ip_fScaleScreen q) @
     le_enc 4 (ip_nIllegalParkMin q)"

definition rect_bytes :: "RECT \<Rightarrow> byte list" where
  "rect_bytes r = le_enc 4 (rc_left r) @ le_enc 4 (rc_top r) @ le_enc 4 (rc_right r) @
     le_enc 4 (rc_bottom r)"

definition wf_illpark :: "IllegalParkParam \<Rightarrow> bool" where
  "wf_illpark q \<longleftrightarrow> length (ip_Area1 q) = MAX_AREA \<and> length (ip_Area2 q) = MAX_AREA"

lemma length_point_bytes [simp]: "length (point_bytes q) = 8"
  by (simp add: point_bytes_def)

lemma length_concat_point_bytes [simp]: "length (concat (map point_bytes qs)) = 8 * length qs"
  by (induction qs) auto

lemma length_illpark_bytes: "wf_illpark q \<Longrightarrow> length (illpark_bytes q) = 176"
  by (simp add: wf_illpark_def illpark_bytes_def MAX_AREA_def)

lemma length_rect_bytes [simp]: "length (rect_bytes r) = 16"
  by (simp add: rect_bytes_def)

section \<open>Loads of structured fields\<close>

definition rd_point :: "ptr \<Rightarrow> (POINT \<times> ptr) option" where
  "rd_point p = do {
     (x, p) \<leftarrow> rd32 p;
     (y, p) \<leftarrow> rd32 p;
     Some (\<lparr>pt_x = x, pt_y = y\<rparr>, p)
   }"

definition wr_point :: "POINT \<Rightarrow> wptr \<Rightarrow> wptr option" where
  "wr_point q = wr_bytes (point_bytes q)"

lemma rd_point_enc [rd_simps]: "rd_point (point_bytes q @ p) = Some (q, p)"
  by (simp add: rd_point_def point_bytes_def rd_simps)

lemma local_read_rd_point: "local_read rd_point"
proof -
  have "local_read (\<lambda>p. Option.bind (rd32 p) (\<lambda>(x, p). Option.bind (rd32 p)
      (\<lambda>(y, p). Some (\<lparr>pt_x = x, pt_y = y\<rparr>, p))))"
    by (intro local_read_bind local_read_rd32) (simp add: local_read_def)
  then show ?thesis by (simp add: rd_point_def [abs_def])
qed

interpretation point_field: wire_field wr_point rd_point point_bytes "\<lambda>_. True"
  by unfold_locales (auto simp: wr_point_def rd_simps local_read_rd_point)

end
