(* ===== verification/DeviceTypes.thy ===== *)
theory DeviceTypes
  imports ProtocolTypes
begin

text \<open>
  The objects the server keeps: a camera (\<open>CSpeedDomeCam\<close> with its subclass \<open>CHIKCam\<close>), a
  capture device and a mission. A \<open>shared_ptr<CSpeedDomeCam>\<close> is an index into a heap of cameras
  or the null pointer \<open>None\<close>, so that two owners of one camera see each other's updates. The
  heap only grows: releasing the last owner is not modelled.
\<close>

section \<open>inc/SpeedDomeCam.h and inc/HIKCam.h\<close>

datatype SDCSTTAUS = FREE | BUSY

text \<open>
  \<open>dc_lUserID\<close> is the 32-bit unsigned member of \<open>CHIKCam\<close>, which hides the 64-bit one of the
  base class; every access of the program is through a \<open>CHIKCam\<close> method.
\<close>

record CSpeedDomeCam =
  dc_curPTZposion :: u32
  dc_isUsing :: SDCSTTAUS
  dc_presetTableID :: u32
  dc_m_sdcCfg :: SDCcfg
  dc_lUserID :: u32
  dc_online :: byte

type_synonym cam_ref = nat
type_synonym cam_heap = "CSpeedDomeCam list"

section \<open>inc/CaptureDevice.h\<close>

datatype STATUS =
  MISSION_FAILD | MISSION_COMPLETED | MISSION_PROCESSING | MISSION_READY | MISSION_EXIT

text \<open>The enumeration's numbers, which order the values.\<close>

fun status_num :: "STATUS \<Rightarrow> nat" where
  "status_num MISSION_FAILD = 0"
| "status_num MISSION_COMPLETED = 1"
| "status_num MISSION_PROCESSING = 2"
| "status_num MISSION_READY = 3"
| "status_num MISSION_EXIT = 4"

lemma status_num_inject [simp]: "status_num a = status_num b \<longleftrightarrow> a = b"
  by (cases a; cases b) auto

instantiation STATUS :: linorder
begin

definition less_eq_STATUS :: "STATUS \<Rightarrow> STATUS \<Rightarrow> bool" where
  "less_eq_STATUS a b \<longleftrightarrow> status_num a \<le> status_num b"

definition less_STATUS :: "STATUS \<Rightarrow> STATUS \<Rightarrow> bool" where
  "less_STATUS a b \<longleftrightarrow> status_num a < status_num b"

instance
  by intro_classes (auto simp: less_eq_STATUS_def less_STATUS_def)

end

text \<open>
  \<open>cd_timer\<close> is the expiry time, in seconds, of the device's \<open>deadline_timer\<close>, or \<open>None\<close> for the
  null pointer; \<open>cd_socket\<close> names the socket \<open>m_socket\<close> points to. \<open>run\<close> is an \<open>int8_t\<close> that
  holds 1 or a \<open>STATUS\<close> number.
\<close>

record CCaptureDevice =
  cd_isOnline :: byte
  cd_loginInfo :: LoginInfo
  cd_missionNum :: u32
  cd_missionStatus :: STATUS
  cd_devType :: string
  cd_IP :: string
  cd_MAC :: string
  cd_devNum :: string
  cd_devName :: string
  cd_curCamNum :: string
  cd_SpdDomeCam :: "cam_ref option"
  cd_timer :: "nat option"
  cd_socket :: "nat option"
  cd_run :: byte

section \<open>inc/mission.h\<close>

definition MAX_SDC :: nat where
  "MAX_SDC = 2400"

definition MAX_CAPDEV :: nat where
  "MAX_CAPDEV = 600"

record CMission =
  ms_missionNum :: u32
  ms_workMode :: u32
  ms_curSpdDomeCam :: u32
  ms_totalSpdDomeCam :: u32
  ms_totalCapDev :: u32
  ms_SpdDomeCam :: "nat \<Rightarrow> cam_ref option"
  ms_capDev :: "nat \<Rightarrow> CCaptureDevice"

section \<open>Sample objects\<close>

text \<open>Concrete values at which the theorems' hypotheses are shown to hold.\<close>

definition ip0 :: IllegalParkParam where
  "ip0 = \<lparr>ip_nNum1 = 0, ip_nNum2 = 0, ip_Area1 = replicate 10 \<lparr>pt_x = 0, pt_y = 0\<rparr>,
     ip_Area2 = replicate 10 \<lparr>pt_x = 0, pt_y = 0\<rparr>, ip_fHitThreshold = 0, ip_fScaleScreen = 0,
     ip_nIllegalParkMin = 0\<rparr>"

lemma wf_ip0: "wf_illpark ip0"
  by (simp add: wf_illpark_def ip0_def MAX_AREA_def)

definition preset0 :: Preset where
  "preset0 = \<lparr>pr_camNum = ''7'', pr_presetNum = 1, pr_holdSeconds = 120, pr_mode = 0,
     pr_priority = 0, pr_plateMinWidth = 80, pr_plateMaxWidth = 200, pr_illparkpara = ip0,
     pr_rect = \<lparr>rc_left = 0, rc_top = 0, rc_right = 1920, rc_bottom = 1080\<rparr>\<rparr>"

definition cfg0 :: SDCcfg where
  "cfg0 = \<lparr>sc_mode = 1, sc_reserve = 0, sc_IP = ''10.0.0.7'', sc_port = 8000,
     sc_m_usrName = ''admin'', sc_m_pwd = ''pw'', sc_RTSPaddr = ''rtsp'', sc_brandName = ''HIK'',
     sc_productType = ''DS'', sc_plateMinWidth = 80, sc_plateMaxWidth = 200, sc_camNum = ''7'',
     sc_missionNum = 3, sc_presetTotal = 2, sc_missionPreset = \<lambda>_. preset0\<rparr>"

definition dev0 :: CCaptureDevice where
  "dev0 = \<lparr>cd_isOnline = 1,
     cd_loginInfo = \<lparr>li_devType = 0, li_MAC = [], li_nameLen = 0, li_name = [], li_devNumLen = 0,
       li_devNum = [], li_IP = [], li_MASK = [], li_gateway = [], li_serverIP = [], li_serverPort = 0\<rparr>,
     cd_missionNum = 3, cd_missionStatus = MISSION_READY, cd_devType = ''1'', cd_IP = ''10.0.0.9.'',
     cd_MAC = ''0.'', cd_devNum = ''42'', cd_devName = ''dev'', cd_curCamNum = [],
     cd_SpdDomeCam = None, cd_timer = None, cd_socket = None, cd_run = 1\<rparr>"

definition cam0 :: CSpeedDomeCam where
  "cam0 = \<lparr>dc_curPTZposion = 0, dc_isUsing = FREE, dc_presetTableID = 0, dc_m_sdcCfg = cfg0,
     dc_lUserID = 0, dc_online = 0\<rparr>"

end
