(* ===== verification/DomeCam.thy ===== *)
theory DomeCam
  imports DeviceTypes
begin

text \<open>
  The cameras: \<open>CSpeedDomeCam\<close> (\<open>src/SpeedDomeCam.cpp\<close>, whose methods are empty) and \<open>CHIKCam\<close>
  (\<open>src/HIKCam.cpp\<close>), which drives a camera through the vendor's library. The library is not
  part of the sources: a call is a value of \<open>sdk_call\<close>, the calls made so far form a log, and
  the parameter \<open>sdk\<close> gives the 32-bit result of a call after any log. Nothing is assumed of it.
\<close>

section \<open>The vendor library\<close>

record NET_DVR_POINT_FRAME =
  fr_xTop :: int
  fr_yTop :: int
  fr_xBottom :: int
  fr_yBottom :: int

datatype sdk_call =
  NET_DVR_Init
| NET_DVR_SetConnectTime nat nat
| NET_DVR_SetReconnect nat bool
| NET_DVR_Login_V30 string u16 string string
| NET_DVR_SetExceptionCallBack_V30
| NET_DVR_Logout u32
| NET_DVR_Cleanup
| NET_DVR_PTZPreset_Other u32 nat nat u32
| NET_DVR_PTZSelZoomIn_EX u32 nat NET_DVR_POINT_FRAME
| NET_DVR_ResetLens u32 nat

type_synonym sdk_log = "sdk_call list"
type_synonym sdk = "sdk_log \<Rightarrow> sdk_call \<Rightarrow> u32"

definition GOTO_PRESET :: nat where
  "GOTO_PRESET = 39"

section \<open>Construction\<close>

text \<open>
  \<open>new CHIKCam\<close>: strings are empty, the constructor sets two members, every other member holds
  what the memory \<open>raw\<close> held.
\<close>

definition CHIKCam_new :: "CSpeedDomeCam \<Rightarrow> CSpeedDomeCam" where
  "CHIKCam_new raw = raw\<lparr>dc_curPTZposion := 0, dc_isUsing := FREE,
     dc_m_sdcCfg := (dc_m_sdcCfg raw)\<lparr>sc_IP := [], sc_m_usrName := [], sc_m_pwd := [],
       sc_RTSPaddr := [], sc_brandName := [], sc_productType := [], sc_camNum := [],
       sc_missionPreset := \<lambda>i. (sc_missionPreset (dc_m_sdcCfg raw) i)\<lparr>pr_camNum := []\<rparr>\<rparr>\<rparr>"

definition CHIKCam_login :: "CSpeedDomeCam \<Rightarrow> string \<Rightarrow> string \<Rightarrow> string \<Rightarrow> u32 \<Rightarrow> CSpeedDomeCam" where
  "CHIKCam_login raw usrName pwd IP port =
     (let c = CHIKCam_new raw
      in c\<lparr>dc_m_sdcCfg := (dc_m_sdcCfg c)\<lparr>sc_m_usrName := usrName, sc_m_pwd := pwd, sc_IP := IP,
           sc_port := port\<rparr>\<rparr>)"

text \<open>\<open>~CHIKCam\<close>\<close>

definition CHIKCam_delete :: "CSpeedDomeCam \<Rightarrow> sdk_log \<Rightarrow> sdk_log" where
  "CHIKCam_delete cam log = log @ [NET_DVR_Logout (dc_lUserID cam), NET_DVR_Cleanup]"

section \<open>Operations\<close>

text \<open>
  \<open>lUserID\<close> is unsigned, so the login's failure value -1 becomes a large number, and the code's
  test \<open>lUserID < 0\<close> is a comparison of unsigned numbers.
\<close>

definition Init :: "sdk \<Rightarrow> CSpeedDomeCam \<Rightarrow> sdk_log \<Rightarrow> int \<times> CSpeedDomeCam \<times> sdk_log" where
  "Init sdk cam log =
     (let cfg = dc_m_sdcCfg cam;
          log = log @ [NET_DVR_Init, NET_DVR_SetConnectTime 2000 1, NET_DVR_SetReconnect 10000 True];
          login = NET_DVR_Login_V30 (sc_IP cfg) (ucast (sc_port cfg)) (sc_m_usrName cfg) (sc_m_pwd cfg);
          cam = cam\<lparr>dc_lUserID := sdk log login\<rparr>;
          log = log @ [login]
      in if dc_lUserID cam < 0 then (- 1, cam, log @ [NET_DVR_Cleanup])
         else (0, cam, log @ [NET_DVR_SetExceptionCallBack_V30]))"

text \<open>\<open>deInit\<close> returns -1 when the logout fails; otherwise it ends without a \<open>return\<close> (\<open>None\<close>).\<close>

definition deInit :: "sdk \<Rightarrow> CSpeedDomeCam \<Rightarrow> sdk_log \<Rightarrow> int option \<times> sdk_log" where
  "deInit sdk cam log =
     (let logout = NET_DVR_Logout (dc_lUserID cam)
      in if dc_lUserID cam \<noteq> 0 then
           (if sdk log logout = 0 then (Some (- 1), log @ [logout, NET_DVR_Cleanup])
            else (None, log @ [logout, NET_DVR_Cleanup]))
         else (None, log @ [NET_DVR_Cleanup]))"

definition loginOut :: "sdk \<Rightarrow> CSpeedDomeCam \<Rightarrow> sdk_log \<Rightarrow> int \<times> sdk_log" where
  "loginOut sdk cam log =
     (let logout = NET_DVR_Logout (dc_lUserID cam)
      in if 0 \<le> dc_lUserID cam then
           (if sdk log logout = 0 then (- 1, log @ [logout]) else (0, log @ [logout]))
         else (0, log))"

definition TurnPTZPreset :: "sdk \<Rightarrow> CSpeedDomeCam \<Rightarrow> u32 \<Rightarrow> sdk_log \<Rightarrow> int \<times> sdk_log" where
  "TurnPTZPreset sdk cam presetNum log =
     (if sint presetNum < 1 then (- 1, log)
      else
        let c = NET_DVR_PTZPreset_Other (dc_lUserID cam) 1 GOTO_PRESET presetNum
        in (if sdk log c = 0 then - 1 else 0, log @ [c]))"

text \<open>
  \<open>x * 255 / ratio\<close> in \<open>int\<close>: the product of a 16-bit value and 255 does not overflow; a zero
  ratio is a division by zero. \<open>bCounter\<close> of the frame is never set and is left out.
\<close>

definition scale255 :: "u16 \<Rightarrow> u16 \<Rightarrow> int option" where
  "scale255 x ratio = (if ratio = 0 then None else Some (uint x * 255 div uint ratio))"

definition PTZSelZoomIn :: "sdk \<Rightarrow> CSpeedDomeCam \<Rightarrow> ThreeDirReq \<Rightarrow> sdk_log \<Rightarrow> (int \<times> sdk_log) option" where
  "PTZSelZoomIn sdk cam tdr log = do {
     xB \<leftarrow> scale255 (td_zoomRight tdr) (td_ratioWidth tdr);
     yB \<leftarrow> scale255 (td_zoombottom tdr) (td_ratioHeight tdr);
     xT \<leftarrow> scale255 (td_zoomLeft tdr) (td_ratioWidth tdr);
     yT \<leftarrow> scale255 (td_zoomTop tdr) (td_ratioHeight tdr);
     let c = NET_DVR_PTZSelZoomIn_EX (dc_lUserID cam) 1
       \<lparr>fr_xTop = xT, fr_yTop = yT, fr_xBottom = xB, fr_yBottom = yB\<rparr>;
     Some (if sdk log c = 0 then - 1 else 0, log @ [c])
   }"

definition ResetLens :: "sdk \<Rightarrow> CSpeedDomeCam \<Rightarrow> sdk_log \<Rightarrow> int \<times> sdk_log" where
  "ResetLens sdk cam log =
     (let c = NET_DVR_ResetLens (dc_lUserID cam) 1
      in (if sdk log c = 0 then - 1 else 0, log @ [c]))"

definition isOnline :: "CSpeedDomeCam \<Rightarrow> byte" where
  "isOnline cam = dc_online cam"

text \<open>The base class's methods do nothing and return no value.\<close>

definition base_method :: "sdk_log \<Rightarrow> int option \<times> sdk_log" where
  "base_method log = (None, log)"

section \<open>What holds of a camera\<close>

text \<open>
  \<open>Init\<close> reports success whatever the login answers: a failed login (-1) is kept as user
  0xFFFFFFFF, and the failure branch is never taken.
\<close>

theorem Init_never_fails:
  "fst (Init sdk cam log) = 0 \<and>
   (\<exists>calls. snd (snd (Init sdk cam log)) = log @ calls \<and> NET_DVR_Cleanup \<notin> set calls) \<and>
   dc_isUsing (fst (snd (Init sdk cam log))) = dc_isUsing cam \<and>
   dc_m_sdcCfg (fst (snd (Init sdk cam log))) = dc_m_sdcCfg cam \<and>
   dc_curPTZposion (fst (snd (Init sdk cam log))) = dc_curPTZposion cam"
  by (simp add: Init_def Let_def)

lemma Init_cases:
  "Init sdk cam log =
     (let cfg = dc_m_sdcCfg cam;
          l = log @ [NET_DVR_Init, NET_DVR_SetConnectTime 2000 1, NET_DVR_SetReconnect 10000 True];
          login = NET_DVR_Login_V30 (sc_IP cfg) (ucast (sc_port cfg)) (sc_m_usrName cfg) (sc_m_pwd cfg)
      in (0, cam\<lparr>dc_lUserID := sdk l login\<rparr>, l @ [login, NET_DVR_SetExceptionCallBack_V30]))"
  by (simp add: Init_def Let_def)

text \<open>
  A preset is only ever requested for a positive number, through the logged-in user's handle;
  \<open>TurnPTZPreset\<close> answers -1 exactly when the number is not positive or the library refuses.
\<close>

theorem TurnPTZPreset_guard:
  "TurnPTZPreset sdk cam n log =
     (let c = NET_DVR_PTZPreset_Other (dc_lUserID cam) 1 39 n
      in if 1 \<le> sint n \<and> sdk log c \<noteq> 0 then (0, log @ [c])
         else (- 1, if 1 \<le> sint n then log @ [c] else log))"
  by (simp add: TurnPTZPreset_def GOTO_PRESET_def Let_def)

lemma scale255_range:
  assumes "scale255 x ratio = Some v" and "x \<le> ratio"
  shows "0 \<le> v \<and> v \<le> 255"
proof -
  from assms have r: "ratio \<noteq> 0" and v: "v = uint x * 255 div uint ratio"
    by (auto simp: scale255_def split: if_splits)
  have pos: "0 < uint ratio" using r uint_ge_0 [of ratio] by (simp add: order_less_le unsigned_eq_0_iff)
  have "uint x * 255 \<le> 255 * uint ratio" using assms(2) by (simp add: word_le_def)
  then have "uint x * 255 div uint ratio \<le> 255 * uint ratio div uint ratio"
    using pos by (intro zdiv_mono1) auto
  with pos v show ?thesis by (auto simp: pos_imp_zdiv_nonneg_iff)
qed

text \<open>
  A zoom request is turned into one call with all four corners in 0..255 when the rectangle
  lies inside the picture; a picture of width or height zero divides by zero.
\<close>

theorem PTZSelZoomIn_scaled:
  assumes "td_zoomLeft tdr \<le> td_ratioWidth tdr" "td_zoomRight tdr \<le> td_ratioWidth tdr"
    and "td_zoomTop tdr \<le> td_ratioHeight tdr" "td_zoombottom tdr \<le> td_ratioHeight tdr"
  shows "(PTZSelZoomIn sdk cam tdr log = None \<longleftrightarrow> td_ratioWidth tdr = 0 \<or> td_ratioHeight tdr = 0) \<and>
    (\<forall>r l. PTZSelZoomIn sdk cam tdr log = Some (r, l) \<longrightarrow>
      (\<exists>f. l = log @ [NET_DVR_PTZSelZoomIn_EX (dc_lUserID cam) 1 f] \<and>
        (\<forall>v \<in> {fr_xTop f, fr_yTop f, fr_xBottom f, fr_yBottom f}. 0 \<le> v \<and> v \<le> 255) \<and>
        r = (if sdk log (NET_DVR_PTZSelZoomIn_EX (dc_lUserID cam) 1 f) = 0 then - 1 else 0)))"
proof (intro conjI allI impI)
  show "PTZSelZoomIn sdk cam tdr log = None \<longleftrightarrow> td_ratioWidth tdr = 0 \<or> td_ratioHeight tdr = 0"
    by (auto simp: PTZSelZoomIn_def scale255_def Let_def)
next
  fix r l
  assume "PTZSelZoomIn sdk cam tdr log = Some (r, l)"
  then obtain xB yB xT yT where v:
      "scale255 (td_zoomRight tdr) (td_ratioWidth tdr) = Some xB"
      "scale255 (td_zoombottom tdr) (td_ratioHeight tdr) = Some yB"
      "scale255 (td_zoomLeft tdr) (td_ratioWidth tdr) = Some xT"
      "scale255 (td_zoomTop tdr) (td_ratioHeight tdr) = Some yT"
    and r: "(r, l) = (let c = NET_DVR_PTZSelZoomIn_EX (dc_lUserID cam) 1
       \<lparr>fr_xTop = xT, fr_yTop = yT, fr_xBottom = xB, fr_yBottom = yB\<rparr>
       in (if sdk log c = 0 then - 1 else 0, log @ [c]))"
    by (auto simp: PTZSelZoomIn_def bind_eq_Some_conv Let_def)
  let ?f = "\<lparr>fr_xTop = xT, fr_yTop = yT, fr_xBottom = xB, fr_yBottom = yB\<rparr>"
  have "\<forall>v \<in> {xT, yT, xB, yB}. 0 \<le> v \<and> v \<le> 255"
    using scale255_range [OF v(1) assms(2)] scale255_range [OF v(2) assms(4)]
      scale255_range [OF v(3) assms(1)] scale255_range [OF v(4) assms(3)] by blast
  with r show "\<exists>f. l = log @ [NET_DVR_PTZSelZoomIn_EX (dc_lUserID cam) 1 f] \<and>
        (\<forall>v \<in> {fr_xTop f, fr_yTop f, fr_xBottom f, fr_yBottom f}. 0 \<le> v \<and> v \<le> 255) \<and>
        r = (if sdk log (NET_DVR_PTZSelZoomIn_EX (dc_lUserID cam) 1 f) = 0 then - 1 else 0)"
    by (intro exI [of _ ?f]) (simp add: Let_def)
qed

definition sdk_ok :: sdk where
  "sdk_ok log c = 1"

definition tdr1 :: ThreeDirReq where
  "tdr1 = \<lparr>td_ratioWidth = 1920, td_ratioHeight = 1080, td_zoomLeft = 0, td_zoomTop = 0,
     td_zoomRight = 960, td_zoombottom = 1080\<rparr>"

theorem PTZSelZoomIn_scaled_witness:
  "\<exists>f. PTZSelZoomIn sdk_ok cam0 tdr1 [] =
     Some (0, [NET_DVR_PTZSelZoomIn_EX (dc_lUserID cam0) 1 f]) \<and> fr_yBottom f \<le> 255"
proof -
  have *: "td_zoomLeft tdr1 \<le> td_ratioWidth tdr1" "td_zoomRight tdr1 \<le> td_ratioWidth tdr1"
    "td_zoomTop tdr1 \<le> td_ratioHeight tdr1" "td_zoombottom tdr1 \<le> td_ratioHeight tdr1"
    "td_ratioWidth tdr1 \<noteq> 0" "td_ratioHeight tdr1 \<noteq> 0"
    by (simp_all add: tdr1_def)
  note z = PTZSelZoomIn_scaled [OF *(1-4), of sdk_ok cam0 "[]"]
  from z * obtain r l where rl: "PTZSelZoomIn sdk_ok cam0 tdr1 [] = Some (r, l)"
    by (cases "PTZSelZoomIn sdk_ok cam0 tdr1 []") auto
  with z show ?thesis by (auto simp: sdk_ok_def)
qed

end
