(* ===== verification/Machine.thy ===== *)
theory Machine
  imports Prelude
begin

text \<open>
  Machines: a step takes an event and a state to the next state, or leaves defined behaviour. A
  run is a sequence of steps. The interface \<open>machine\<close> states that an invariant survives every step on a good
  event; \<open>simulation\<close> that the steps implement those of a specification through an abstraction.
\<close>

fun runs :: "('e \<Rightarrow> 's \<Rightarrow> 's option) \<Rightarrow> 'e list \<Rightarrow> 's \<Rightarrow> 's option" where
  "runs step [] s = Some s"
| "runs step (ev # evs) s = Option.bind (step ev s) (runs step evs)"

lemma runs_append: "runs step (evs @ fvs) s = Option.bind (runs step evs s) (runs step fvs)"
  by (induction evs arbitrary: s) (auto simp: bind_assoc split: bind_splits)

locale machine =
  fixes step :: "'e \<Rightarrow> 's \<Rightarrow> 's option"
    and inv :: "'s \<Rightarrow> bool"
    and good :: "'e \<Rightarrow> bool"
  assumes step_inv: "inv s \<Longrightarrow> good ev \<Longrightarrow> step ev s = Some t \<Longrightarrow> inv t"
begin

lemma runs_inv: "inv s \<Longrightarrow> list_all good evs \<Longrightarrow> runs step evs s = Some t \<Longrightarrow> inv t"
  by (induction evs arbitrary: s) (auto simp: bind_eq_Some_conv intro: step_inv)

text \<open>If in every good state the steps are defined, so are the runs.\<close>

lemma runs_total:
  assumes "\<And>s ev. inv s \<Longrightarrow> good ev \<Longrightarrow> step ev s \<noteq> None" and "inv s" and "list_all good evs"
  shows "\<exists>t. runs step evs s = Some t \<and> inv t"
  using assms(2,3)
proof (induction evs arbitrary: s)
  case Nil
  then show ?case by simp
next
  case (Cons ev evs)
  with assms(1) obtain u where u: "step ev s = Some u" by fastforce
  with Cons step_inv [OF Cons.prems(1) _ u] show ?case by simp
qed

end

locale simulation = machine +
  fixes spec :: "'e \<Rightarrow> 'a \<Rightarrow> 'a option"
    and abs :: "'s \<Rightarrow> 'a"
  assumes step_abs: "inv s \<Longrightarrow> good ev \<Longrightarrow> map_option abs (step ev s) = spec ev (abs s)"
begin

lemma runs_abs:
  assumes "inv s" and "list_all good evs"
  shows "map_option abs (runs step evs s) = runs spec evs (abs s)"
  using assms
proof (induction evs arbitrary: s)
  case Nil
  then show ?case by simp
next
  case (Cons ev evs)
  then have g: "good ev" "list_all good evs" by simp_all
  note a = step_abs [OF Cons.prems(1) g(1)]
  show ?case
  proof (cases "step ev s")
    case None
    with a show ?thesis by simp
  next
    case (Some t)
    with a have "spec ev (abs s) = Some (abs t)" by simp
    with Some Cons.IH [OF step_inv [OF Cons.prems(1) g(1) Some] g(2)] show ?thesis by simp
  qed
qed

end

end
