(* ===== verification/Slots.thy ===== *)
theory Slots
  imports Machine
begin

text \<open>
  The interface of a mission's two arrays. Each is a bounded sequence of items with a string key,
  which is searched from the front, extended at the end and closed up after a removal. \<open>slots\<close>
  states what the operations owe in terms of the list of items; its lemmas say what a client that
  adds, finds, removes and moves items may rely on.
\<close>

section \<open>The first item that passes a test\<close>

fun find_index :: "('a \<Rightarrow> bool) \<Rightarrow> 'a list \<Rightarrow> nat option" where
  "find_index P [] = None"
| "find_index P (x # xs) = (if P x then Some 0 else map_option Suc (find_index P xs))"

lemma find_index_None: "find_index P xs = None \<longleftrightarrow> (\<forall>x \<in> set xs. \<not> P x)"
  by (induction xs) auto

lemma find_index_Some:
  "find_index P xs = Some i \<Longrightarrow> i < length xs \<and> P (xs ! i) \<and> (\<forall>j < i. \<not> P (xs ! j))"
proof (induction xs arbitrary: i)
  case Nil
  then show ?case by simp
next
  case (Cons x xs)
  show ?case
  proof (cases "P x")
    case True
    with Cons.prems show ?thesis by simp
  next
    case False
    with Cons.prems obtain k where k: "find_index P xs = Some k" "i = Suc k" by auto
    with Cons.IH [OF k(1)] False show ?thesis by (auto simp: nth_Cons' less_Suc_eq_0_disj)
  qed
qed

lemma find_index_append:
  "find_index P (xs @ ys) =
     (case find_index P xs of Some i \<Rightarrow> Some i | None \<Rightarrow> map_option ((+) (length xs)) (find_index P ys))"
proof (induction xs)
  case Nil
  then show ?case by (simp add: option.map_ident id_def cong: map_option_cong)
next
  case (Cons x xs)
  then show ?case
    by (cases "find_index P xs"; cases "find_index P ys") auto
qed

lemma find_index_cong: "(\<And>x. x \<in> set xs \<Longrightarrow> P x = Q x) \<Longrightarrow> find_index P xs = find_index Q xs"
  by (induction xs) auto

lemma scan_find_index:
  assumes "\<And>i. i < length xs \<Longrightarrow> f (n + i) = Some (P (xs ! i))"
  shows "scan f n (length xs) = Some (map_option ((+) n) (find_index P xs))"
  using assms
proof (induction xs arbitrary: n)
  case Nil
  then show ?case by simp
next
  case (Cons x xs)
  have "f n = Some (P x)" using Cons.prems [of 0] by simp
  moreover have "scan f (Suc n) (length xs) = Some (map_option ((+) (Suc n)) (find_index P xs))"
    by (rule Cons.IH) (use Cons.prems [of "Suc _"] in simp)
  ultimately show ?case by (cases "find_index P xs") auto
qed

text \<open>A list without its \<open>i\<close>-th item\<close>

definition without :: "nat \<Rightarrow> 'a list \<Rightarrow> 'a list" where
  "without i xs = take i xs @ drop (Suc i) xs"

lemma length_without: "i < length xs \<Longrightarrow> length (without i xs) = length xs - 1"
  by (simp add: without_def)

lemma without_last [simp]: "without (length xs) (xs @ [x]) = xs"
  by (simp add: without_def)

lemma set_without: "set (without i xs) \<subseteq> set xs"
  by (auto simp: without_def dest: in_set_takeD in_set_dropD)

lemma map_without: "map f (without i xs) = without i (map f xs)"
  by (simp add: without_def take_map drop_map)

lemma split_nth: "i < length xs \<Longrightarrow> xs = take i xs @ xs ! i # drop (Suc i) xs"
  by (rule id_take_nth_drop)

lemma distinct_split:
  assumes "distinct xs" and "i < length xs"
  shows "distinct (take i xs @ xs ! i # drop (Suc i) xs)"
  using assms(1) by (subst split_nth [OF assms(2), symmetric])

lemma distinct_without: "distinct xs \<Longrightarrow> distinct (without i xs)"
proof (cases "i < length xs")
  case True
  assume "distinct xs"
  from distinct_split [OF this True] show ?thesis by (simp add: without_def)
next
  case False
  assume "distinct xs"
  with False show ?thesis by (simp add: without_def)
qed

lemma without_notin: "distinct xs \<Longrightarrow> i < length xs \<Longrightarrow> xs ! i \<notin> set (without i xs)"
  using distinct_split [of xs i] by (simp add: without_def)

lemma set_split: "i < length xs \<Longrightarrow> set xs = insert (xs ! i) (set (without i xs))"
  by (subst split_nth [of i xs]) (auto simp: without_def)

text \<open>
  \<open>for (j = i; j < tot; j++) a[j] = a[j + 1];\<close> on an array of \<open>cap\<close> slots, the loop by which
  \<open>src/mission.cpp\<close> removes the \<open>i\<close>-th of \<open>tot\<close> items.
\<close>

definition shift_step :: "nat \<Rightarrow> nat \<Rightarrow> (nat \<Rightarrow> 'a) \<Rightarrow> (nat \<Rightarrow> 'a) option" where
  "shift_step cap j a = (if j + 1 < cap then Some (a(j := a (j + 1))) else None)"

definition shift_down :: "nat \<Rightarrow> nat \<Rightarrow> nat \<Rightarrow> (nat \<Rightarrow> 'a) \<Rightarrow> (nat \<Rightarrow> 'a) option" where
  "shift_down cap i tot a = for_loop i (tot - i) (shift_step cap) a"

lemma shift_loop:
  "for_loop i k (shift_step cap) a =
     (if k = 0 \<or> i + k < cap
      then Some (\<lambda>j. if i \<le> j \<and> j < i + k then a (j + 1) else a j) else None)"
proof (induction k arbitrary: i a)
  case 0
  have "(\<lambda>j. if i \<le> j \<and> j < i + 0 then a (j + 1) else a j) = a" by (auto simp: fun_eq_iff)
  then show ?case by simp
next
  case (Suc k)
  show ?case
  proof (cases "i + 1 < cap")
    case True
    have "(\<lambda>j. if Suc i \<le> j \<and> j < Suc i + k then (a(i := a (i + 1))) (j + 1) else (a(i := a (i + 1))) j) =
        (\<lambda>j. if i \<le> j \<and> j < i + Suc k then a (j + 1) else a j)"
      by (auto simp: fun_eq_iff)
    moreover have "shift_step cap i a = Some (a(i := a (i + 1)))"
      using True by (simp add: shift_step_def)
    ultimately show ?thesis using True by (cases "k = 0") (simp_all only: for_loop.simps
        Option.bind.bind_lunit Suc.IH, auto simp: fun_eq_iff)
  next
    case False
    then show ?thesis by (simp add: shift_step_def)
  qed
qed

lemma map_shift:
  assumes "i < n"
  shows "map (\<lambda>j. if i \<le> j \<and> j < n then a (j + 1) else a j) [0..<n - 1] =
     without i (map a [0..<n])"
  using assms by (intro nth_equalityI) (auto simp: without_def nth_append)

section \<open>Sequences of operations\<close>

datatype 'a slot_op = Add 'a | Remove string

fun slot_step ::
  "('s \<Rightarrow> 'a \<Rightarrow> 's option) \<Rightarrow> ('s \<Rightarrow> string \<Rightarrow> (int \<times> 's) option) \<Rightarrow> 'a slot_op \<Rightarrow> 's \<Rightarrow> 's option" where
  "slot_step add remove (Add x) s = add s x"
| "slot_step add remove (Remove k) s = map_option snd (remove s k)"

text \<open>
  The specification: a list of keys of at most \<open>cap\<close>, where an addition appends, a removal takes the
  first occurrence away, and a full list can neither grow nor shrink.
\<close>

fun key_step :: "nat \<Rightarrow> ('a \<Rightarrow> string) \<Rightarrow> 'a slot_op \<Rightarrow> string list \<Rightarrow> string list option" where
  "key_step cap key (Add x) ks = (if length ks < cap then Some (ks @ [key x]) else None)"
| "key_step cap key (Remove k) ks =
     (if k \<notin> set ks then Some ks else if length ks < cap then Some (remove1 k ks) else None)"

lemma without_Suc: "without (Suc i) (x # xs) = x # without i xs"
  by (simp add: without_def)

lemma remove1_find_index:
  "find_index (\<lambda>x. key x = k) xs = Some i \<Longrightarrow> remove1 k (map key xs) = map key (without i xs)"
proof (induction xs arbitrary: i)
  case Nil
  then show ?case by simp
next
  case (Cons x xs)
  then show ?case by (auto simp: without_Suc split: if_splits) (simp add: without_def)
qed

section \<open>The interface\<close>

locale slots =
  fixes wf :: "'s \<Rightarrow> bool"
    and items :: "'s \<Rightarrow> 'a list"
    and key :: "'a \<Rightarrow> string"
    and cap :: nat
    and find :: "'s \<Rightarrow> string \<Rightarrow> nat option option"
    and add :: "'s \<Rightarrow> 'a \<Rightarrow> 's option"
    and remove :: "'s \<Rightarrow> string \<Rightarrow> (int \<times> 's) option"
  assumes bound: "wf s \<Longrightarrow> length (items s) \<le> cap"
    and find_first: "wf s \<Longrightarrow> find s k = Some (find_index (\<lambda>x. key x = k) (items s))"
    and add_room: "wf s \<Longrightarrow> length (items s) < cap \<Longrightarrow>
      \<exists>t y. add s x = Some t \<and> wf t \<and> key y = key x \<and> items t = items s @ [y]"
    and add_full: "wf s \<Longrightarrow> length (items s) = cap \<Longrightarrow> add s x = None"
    and remove_absent: "wf s \<Longrightarrow> find_index (\<lambda>x. key x = k) (items s) = None \<Longrightarrow>
      remove s k = Some (- 1, s)"
    and remove_present: "wf s \<Longrightarrow> find_index (\<lambda>x. key x = k) (items s) = Some i \<Longrightarrow>
      length (items s) < cap \<Longrightarrow>
      \<exists>t. remove s k = Some (0, t) \<and> wf t \<and> items t = without i (items s)"
    and remove_full: "wf s \<Longrightarrow> find_index (\<lambda>x. key x = k) (items s) \<noteq> None \<Longrightarrow>
      length (items s) = cap \<Longrightarrow> remove s k = None"
begin

abbreviation keys :: "'s \<Rightarrow> string list" where
  "keys s \<equiv> map key (items s)"

lemma add_iff: "wf s \<Longrightarrow> add s x \<noteq> None \<longleftrightarrow> length (items s) < cap"
  using add_room [of s x] add_full [of s x] bound [of s] by fastforce

lemma add_wf: "wf s \<Longrightarrow> add s x = Some t \<Longrightarrow> wf t \<and> keys t = keys s @ [key x]"
  using add_room [of s x] add_iff [of s x] by fastforce

text \<open>A key that was absent is found at the end after an addition; a key present keeps its place.\<close>

lemma find_after_add:
  assumes "wf s" and "add s x = Some t"
  shows "find t (key x) =
     Some (Some (case find_index (\<lambda>y. key y = key x) (items s) of
                   None \<Rightarrow> length (items s) | Some i \<Rightarrow> i))"
proof -
  from assms add_iff [OF assms(1), of x] have "length (items s) < cap" by simp
  with add_room [OF assms(1), of x] assms(2) obtain y
    where y: "wf t" "key y = key x" "items t = items s @ [y]" by auto
  then show ?thesis
    using find_first [OF y(1)] by (auto simp: find_index_append split: option.splits)
qed

lemma find_other_after_add:
  assumes "wf s" and "add s x = Some t" and "k \<noteq> key x"
  shows "find t k = find s k"
proof -
  from assms add_iff [OF assms(1), of x] have "length (items s) < cap" by simp
  with add_room [OF assms(1), of x] assms(2) obtain y
    where y: "wf t" "key y = key x" "items t = items s @ [y]" by auto
  then show ?thesis
    using find_first [OF y(1)] find_first [OF assms(1)] assms(3)
    by (auto simp: find_index_append split: option.splits)
qed

lemma remove_wf:
  assumes "wf s" and "remove s k = Some (r, t)"
  shows "wf t \<and> length (items t) = length (items s) - (if r = 0 then 1 else 0) \<and>
    (r = 0 \<longleftrightarrow> k \<in> set (keys s)) \<and> (r = 0 \<or> r = - 1)"
proof (cases "find_index (\<lambda>x. key x = k) (items s)")
  case None
  with remove_absent [OF assms(1) None] assms show ?thesis
    by (auto simp: find_index_None)
next
  case (Some i)
  have "length (items s) \<noteq> cap" using remove_full [OF assms(1)] Some assms(2) by fastforce
  with bound [OF assms(1)] have "length (items s) < cap" by simp
  with remove_present [OF assms(1) Some] assms(2)
  have t: "r = 0" "wf t" "items t = without i (items s)" by auto
  with find_index_Some [OF Some] show ?thesis by (auto simp: length_without)
qed

text \<open>With distinct keys a removed key is gone, and every other item is still there.\<close>

lemma remove_distinct:
  assumes "wf s" and "distinct (keys s)" and "remove s k = Some (0, t)"
  shows "distinct (keys t) \<and> k \<notin> set (keys t) \<and> set (keys t) = set (keys s) - {k}"
proof -
  from assms(3) remove_absent [OF assms(1), of k]
  obtain i where i: "find_index (\<lambda>x. key x = k) (items s) = Some i"
    by (cases "find_index (\<lambda>x. key x = k) (items s)") auto
  have "length (items s) \<noteq> cap" using remove_full [OF assms(1)] i assms(3) by fastforce
  with bound [OF assms(1)] have "length (items s) < cap" by simp
  with remove_present [OF assms(1) i] assms(3) have t: "items t = without i (items s)" by auto
  from find_index_Some [OF i] have ib: "i < length (keys s)" "keys s ! i = k" by auto
  have k: "keys t = without i (keys s)" by (simp add: t map_without)
  have "set (keys s) = insert k (set (without i (keys s)))"
    using set_split [OF ib(1)] ib(2) by simp
  moreover have "k \<notin> set (without i (keys s))" using without_notin [OF assms(2) ib(1)] ib(2) by simp
  ultimately show ?thesis using distinct_without [OF assms(2)] k by auto
qed

text \<open>Adding an item and removing it again restores the items, if its key was new.\<close>

lemma remove_after_add:
  assumes "wf s" and "add s x = Some t" and "key x \<notin> set (keys s)" and "Suc (length (items s)) < cap"
  shows "\<exists>u. remove t (key x) = Some (0, u) \<and> wf u \<and> items u = items s"
proof -
  from add_room [OF assms(1), of x] assms(2,4) obtain y
    where y: "wf t" "key y = key x" "items t = items s @ [y]" by auto
  have "find_index (\<lambda>x'. key x' = key x) (items s) = None"
    using assms(3) by (simp add: find_index_None) (metis image_eqI)
  then have "find_index (\<lambda>x'. key x' = key x) (items t) = Some (length (items s))"
    using y by (simp add: find_index_append)
  with remove_present [OF y(1)] assms(4) y(3) show ?thesis by fastforce
qed

text \<open>The operations implement the specification, step by step, faults included.\<close>

lemma step_refines:
  assumes "wf s"
  shows "map_option keys (slot_step add remove p s) = key_step cap key p (keys s) \<and>
    (\<forall>t. slot_step add remove p s = Some t \<longrightarrow> wf t)"
proof (cases p)
  case (Add x)
  show ?thesis
  proof (cases "length (items s) < cap")
    case True
    with Add add_room [OF assms True, of x] show ?thesis by auto
  next
    case False
    with bound [OF assms] have "length (items s) = cap" by simp
    with Add add_full [OF assms this, of x] show ?thesis by simp
  qed
next
  case (Remove k)
  show ?thesis
  proof (cases "find_index (\<lambda>x. key x = k) (items s)")
    case None
    moreover from None have "k \<notin> set (keys s)" by (auto simp: find_index_None)
    ultimately show ?thesis using Remove remove_absent [OF assms None] assms by simp
  next
    case (Some i)
    from find_index_Some [OF Some] have k: "k \<in> set (keys s)" by (auto intro: image_eqI [OF _ nth_mem])
    show ?thesis
    proof (cases "length (items s) < cap")
      case True
      with k Remove remove_present [OF assms Some True] remove1_find_index [OF Some] show ?thesis by auto
    next
      case False
      with bound [OF assms] have "length (items s) = cap" by simp
      with k Remove remove_full [OF assms _ this] Some show ?thesis by simp
    qed
  qed
qed

end

text \<open>So a run of the operations implements the run of the specification.\<close>

sublocale slots \<subseteq> refine: simulation "slot_step add remove" wf "\<lambda>_. True" "key_step cap key" keys
  by unfold_locales (simp_all add: step_refines)

end
