(* ===== verification/Mission.thy ===== *)
theory Mission
  imports DomeCam Slots
begin

text \<open>
  \<open>CMission\<close> of \<open>src/mission.cpp\<close>: the cameras and capture devices of one mission, in two arrays
  with a count each. No operation checks an index against the arrays' 2400 and 600 slots; an
  index past them faults, as does a null camera pointer. Operations without a \<open>return\<close> whose
  result no caller uses give their new state only. The mutexes, which make each operation
  atomic, are the atomicity of these definitions.
\<close>

section \<open>Access\<close>

definition deref :: "cam_heap \<Rightarrow> cam_ref option \<Rightarrow> CSpeedDomeCam option" where
  "deref cams r =
     (case r of None \<Rightarrow> None | Some i \<Rightarrow> if i < length cams then Some (cams ! i) else None)"

definition SDC_at :: "cam_heap \<Rightarrow> CMission \<Rightarrow> nat \<Rightarrow> CSpeedDomeCam option" where
  "SDC_at cams ms i = (if i < MAX_SDC then deref cams (ms_SpdDomeCam ms i) else None)"

definition CapDev_at :: "CMission \<Rightarrow> nat \<Rightarrow> CCaptureDevice option" where
  "CapDev_at ms i = (if i < MAX_CAPDEV then Some (ms_capDev ms i) else None)"

abbreviation camNum_of :: "CSpeedDomeCam \<Rightarrow> string" where
  "camNum_of c \<equiv> sc_camNum (dc_m_sdcCfg c)"

text \<open>The two search loops every operation starts with.\<close>

definition find_SDC :: "cam_heap \<Rightarrow> CMission \<Rightarrow> string \<Rightarrow> nat option option" where
  "find_SDC cams ms camNum =
     scan (\<lambda>i. map_option (\<lambda>c. camNum_of c = camNum) (SDC_at cams ms i))
       0 (unat (ms_totalSpdDomeCam ms))"

definition find_CapDev :: "CMission \<Rightarrow> string \<Rightarrow> nat option option" where
  "find_CapDev ms devNum =
     scan (\<lambda>i. map_option (\<lambda>d. devNum = cd_devNum d) (CapDev_at ms i))
       0 (unat (ms_totalCapDev ms))"

text \<open>\<open>SpdDomeCam[j]->m_sdcCfg\<close> is updated through the pointer.\<close>

definition upd_cam :: "cam_heap \<Rightarrow> cam_ref option \<Rightarrow> (CSpeedDomeCam \<Rightarrow> CSpeedDomeCam) \<Rightarrow> cam_heap option" where
  "upd_cam cams r f =
     (case r of
        None \<Rightarrow> None
      | Some i \<Rightarrow> if i < length cams then Some (cams[i := f (cams ! i)]) else None)"

abbreviation upd_cfg :: "(SDCcfg \<Rightarrow> SDCcfg) \<Rightarrow> CSpeedDomeCam \<Rightarrow> CSpeedDomeCam" where
  "upd_cfg f c \<equiv> c\<lparr>dc_m_sdcCfg := f (dc_m_sdcCfg c)\<rparr>"

section \<open>Cameras\<close>

text \<open>
  What \<open>addSDC\<close> copies into a fresh camera. The plate widths, the mode and the reserved byte stay
  as the memory of the new object had them.
\<close>

definition copy_SDC_cfg :: "SDCcfg \<Rightarrow> SDCcfg \<Rightarrow> SDCcfg" where
  "copy_SDC_cfg src dst = dst\<lparr>sc_m_usrName := sc_m_usrName src, sc_m_pwd := sc_m_pwd src,
     sc_IP := sc_IP src, sc_port := sc_port src, sc_missionNum := sc_missionNum src,
     sc_RTSPaddr := sc_RTSPaddr src, sc_brandName := sc_brandName src, sc_camNum := sc_camNum src,
     sc_productType := sc_productType src,
     sc_missionPreset := (\<lambda>j. if j < unat (sc_presetTotal src) then sc_missionPreset src j
       else sc_missionPreset dst j),
     sc_presetTotal := sc_presetTotal src\<rparr>"

definition addSDC ::
  "CSpeedDomeCam \<Rightarrow> cam_heap \<Rightarrow> CMission \<Rightarrow> CSpeedDomeCam \<Rightarrow> (cam_heap \<times> CMission) option" where
  "addSDC raw cams ms sdc =
     (let n = unat (ms_totalSpdDomeCam ms)
      in if n < MAX_SDC then
           Some (cams @ [upd_cfg (copy_SDC_cfg (dc_m_sdcCfg sdc)) (CHIKCam_new raw)],
             ms\<lparr>ms_SpdDomeCam := (ms_SpdDomeCam ms)(n := Some (length cams)),
                ms_totalSpdDomeCam := ms_totalSpdDomeCam ms + 1\<rparr>)
         else None)"

definition addSDC_ptr ::
  "CSpeedDomeCam \<Rightarrow> cam_heap \<Rightarrow> CMission \<Rightarrow> cam_ref option \<Rightarrow> (cam_heap \<times> CMission) option" where
  "addSDC_ptr raw cams ms sdc = Option.bind (deref cams sdc) (addSDC raw cams ms)"

definition remove_at :: "CMission \<Rightarrow> nat \<Rightarrow> CMission option" where
  "remove_at ms i = do {
     a \<leftarrow> shift_down MAX_SDC i (unat (ms_totalSpdDomeCam ms)) (ms_SpdDomeCam ms);
     Some (ms\<lparr>ms_SpdDomeCam := a, ms_totalSpdDomeCam := ms_totalSpdDomeCam ms - 1\<rparr>)
   }"

text \<open>Both overloads of \<open>removeSDC\<close>: by number, and by the number of a given camera.\<close>

definition removeSDC :: "cam_heap \<Rightarrow> CMission \<Rightarrow> string \<Rightarrow> (int \<times> CMission) option" where
  "removeSDC cams ms camNum = do {
     r \<leftarrow> find_SDC cams ms camNum;
     (case r of
        None \<Rightarrow> Some (- 1, ms)
      | Some i \<Rightarrow> map_option (\<lambda>ms. (0, ms)) (remove_at ms i))
   }"

definition removeSDC_cam :: "cam_heap \<Rightarrow> CMission \<Rightarrow> CSpeedDomeCam \<Rightarrow> (int \<times> CMission) option" where
  "removeSDC_cam cams ms sdc = removeSDC cams ms (camNum_of sdc)"

text \<open>What \<open>updateSDC\<close> copies: as \<open>addSDC\<close>, less the camera number, which is already equal.\<close>

definition update_SDC_cfg :: "SDCcfg \<Rightarrow> SDCcfg \<Rightarrow> SDCcfg" where
  "update_SDC_cfg src dst = (copy_SDC_cfg src dst)\<lparr>sc_camNum := sc_camNum dst\<rparr>"

definition updateSDC ::
  "cam_heap \<Rightarrow> CMission \<Rightarrow> CSpeedDomeCam \<Rightarrow> (int \<times> cam_heap \<times> CMission) option" where
  "updateSDC cams ms sdc = do {
     r \<leftarrow> find_SDC cams ms (camNum_of sdc);
     (case r of
        None \<Rightarrow> Some (- 1, cams, ms)
      | Some i \<Rightarrow> do {
          cams \<leftarrow> upd_cam cams (ms_SpdDomeCam ms i) (upd_cfg (update_SDC_cfg (dc_m_sdcCfg sdc)));
          c \<leftarrow> SDC_at cams ms i;
          ms \<leftarrow> (if sc_missionNum (dc_m_sdcCfg c) = - 1 then remove_at ms i else Some ms);
          Some (0, cams, ms)
        })
   }"

definition updateSDCmissionGroup ::
  "cam_heap \<Rightarrow> CMission \<Rightarrow> missionGroupChgReq \<Rightarrow> (int \<times> cam_heap) option" where
  "updateSDCmissionGroup cams ms req = do {
     r \<leftarrow> find_SDC cams ms (gr_num req);
     (case r of
        None \<Rightarrow> Some (- 1, cams)
      | Some i \<Rightarrow> map_option (\<lambda>cams. (0, cams))
          (upd_cam cams (ms_SpdDomeCam ms i) (upd_cfg (\<lambda>cfg. cfg\<lparr>sc_missionNum := gr_dts_num req\<rparr>))))
   }"

text \<open>The end of \<open>getSDC\<close> is reached without a \<open>return\<close> when no camera has the number.\<close>

definition getSDC :: "cam_heap \<Rightarrow> CMission \<Rightarrow> string \<Rightarrow> cam_ref option option" where
  "getSDC cams ms camNum = do {
     r \<leftarrow> find_SDC cams ms camNum;
     map_option (\<lambda>i. ms_SpdDomeCam ms i) r
   }"

text \<open>
  The round-robin search of \<open>getFreeSDC\<close>: \<open>k\<close> rounds are left and \<open>j\<close> is the slot last looked at.
  \<open>j > total - 1\<close> compares unsigned 32-bit numbers.
\<close>

fun getFreeSDC_loop :: "cam_heap \<Rightarrow> CMission \<Rightarrow> nat \<Rightarrow> u32 \<Rightarrow> u32 option option" where
  "getFreeSDC_loop cams ms 0 j = Some None"
| "getFreeSDC_loop cams ms (Suc k) j =
     (let j = j + 1;
          j = (if j > ms_totalSpdDomeCam ms - 1 then 0 else j)
      in Option.bind (SDC_at cams ms (unat j))
           (\<lambda>c. if dc_isUsing c = FREE then Some (Some j) else getFreeSDC_loop cams ms k j))"

text \<open>The result is the slot, or -1 with the caller's pointer untouched (\<open>None\<close>).\<close>

definition getFreeSDC ::
  "cam_heap \<Rightarrow> CMission \<Rightarrow> (int \<times> cam_ref option option \<times> cam_heap \<times> CMission) option" where
  "getFreeSDC cams ms = do {
     r \<leftarrow> getFreeSDC_loop cams ms (unat (ms_totalSpdDomeCam ms)) (ms_curSpdDomeCam ms);
     (case r of
        None \<Rightarrow> Some (- 1, None, cams, ms)
      | Some j \<Rightarrow> do {
          let p = ms_SpdDomeCam ms (unat j);
          cams \<leftarrow> upd_cam cams p (\<lambda>c. c\<lparr>dc_isUsing := BUSY\<rparr>);
          Some (sint j, Some p, cams, ms\<lparr>ms_curSpdDomeCam := j\<rparr>)
        })
   }"

text \<open>\<open>missionPreset[presetTotal++] = *preset\<close>: the count is a byte and wraps.\<close>

definition push_preset :: "Preset \<Rightarrow> SDCcfg \<Rightarrow> SDCcfg" where
  "push_preset p cfg = cfg\<lparr>sc_missionPreset :=
       (sc_missionPreset cfg)(unat (sc_presetTotal cfg) := p),
     sc_presetTotal := sc_presetTotal cfg + 1\<rparr>"

definition addPreset :: "cam_heap \<Rightarrow> CMission \<Rightarrow> Preset \<Rightarrow> (int \<times> cam_heap) option" where
  "addPreset cams ms preset = do {
     r \<leftarrow> find_SDC cams ms (pr_camNum preset);
     (case r of
        None \<Rightarrow> Some (- 1, cams)
      | Some i \<Rightarrow> map_option (\<lambda>cams. (0, cams))
          (upd_cam cams (ms_SpdDomeCam ms i) (upd_cfg (push_preset preset))))
   }"

text \<open>\<open>showCfg\<close> prints; what remains of it is that it reads every camera of the mission.\<close>

definition showCfg :: "cam_heap \<Rightarrow> CMission \<Rightarrow> unit option" where
  "showCfg cams ms =
     for_loop 0 (unat (ms_totalSpdDomeCam ms))
       (\<lambda>i u. map_option (\<lambda>_. ()) (SDC_at cams ms i)) ()"

definition SpeedDomeCamInit ::
  "sdk \<Rightarrow> cam_heap \<Rightarrow> CMission \<Rightarrow> u16 \<Rightarrow> sdk_log \<Rightarrow> (int \<times> cam_heap \<times> sdk_log) option" where
  "SpeedDomeCamInit sdk cams ms index log = do {
     c \<leftarrow> SDC_at cams ms (unat index);
     let (_, c, log) = Init sdk c log;
     cams \<leftarrow> upd_cam cams (ms_SpdDomeCam ms (unat index)) (\<lambda>_. c);
     Some (0, cams, log)
   }"

section \<open>Capture devices\<close>

definition CMission_match :: "CMission \<Rightarrow> CCaptureDevice \<Rightarrow> int option" where
  "CMission_match ms dev =
     map_option (\<lambda>r. case r of Some _ \<Rightarrow> 0 | None \<Rightarrow> - 1) (find_CapDev ms (cd_devNum dev))"

definition copy_CapDev :: "CCaptureDevice \<Rightarrow> CCaptureDevice \<Rightarrow> CCaptureDevice" where
  "copy_CapDev src dst = dst\<lparr>cd_devName := cd_devName src, cd_devNum := cd_devNum src,
     cd_devType := cd_devType src, cd_IP := cd_IP src, cd_MAC := cd_MAC src,
     cd_missionNum := cd_missionNum src\<rparr>"

definition updateCapdev ::
  "cam_heap \<Rightarrow> CMission \<Rightarrow> CCaptureDevice \<Rightarrow> (int \<times> CMission) option" where
  "updateCapdev cams ms dev = do {
     r \<leftarrow> find_CapDev ms (cd_devNum dev);
     (case r of
        None \<Rightarrow> Some (- 1, ms)
      | Some i \<Rightarrow> do {
          let d = (copy_CapDev dev (ms_capDev ms i))\<lparr>cd_isOnline := cd_isOnline dev\<rparr>;
          d \<leftarrow> (case cd_SpdDomeCam dev of
                 None \<Rightarrow> Some d
               | Some p \<Rightarrow> map_option (\<lambda>c. d\<lparr>cd_curCamNum := camNum_of c\<rparr>) (deref cams (Some p)));
          Some (0, ms\<lparr>ms_capDev := (ms_capDev ms)(i := d)\<rparr>)
        })
   }"

definition addCapDev :: "CMission \<Rightarrow> CCaptureDevice \<Rightarrow> CMission option" where
  "addCapDev ms dev =
     (let n = unat (ms_totalCapDev ms)
      in if n < MAX_CAPDEV then
           Some (ms\<lparr>ms_capDev := (ms_capDev ms)(n := copy_CapDev dev (ms_capDev ms n)),
             ms_totalCapDev := ms_totalCapDev ms + 1\<rparr>)
         else None)"

definition removeCapDev :: "CMission \<Rightarrow> string \<Rightarrow> (int \<times> CMission) option" where
  "removeCapDev ms devNum = do {
     r \<leftarrow> find_CapDev ms devNum;
     (case r of
        None \<Rightarrow> Some (- 1, ms)
      | Some i \<Rightarrow> do {
          a \<leftarrow> shift_down MAX_CAPDEV i (unat (ms_totalCapDev ms)) (ms_capDev ms);
          Some (0, ms\<lparr>ms_capDev := a, ms_totalCapDev := ms_totalCapDev ms - 1\<rparr>)
        })
   }"

text \<open>A pointer into the device array is its index; the missing \<open>return\<close> is again a fault.\<close>

definition getCapDev :: "CMission \<Rightarrow> string \<Rightarrow> nat option" where
  "getCapDev ms devNum = Option.bind (find_CapDev ms devNum) id"

end
