(* ===== verification/MissionFacts.thy ===== *)
theory MissionFacts
  imports Mission
begin

text \<open>
  A mission as lists: its cameras and its capture devices in slot order. Each array implements
  the interface \<open>slots\<close>; the properties of single operations follow.
\<close>

section \<open>The invariant and the abstract view\<close>

definition wf_cams :: "cam_heap \<times> CMission \<Rightarrow> bool" where
  "wf_cams s \<longleftrightarrow> (case s of (cams, ms) \<Rightarrow>
     unat (ms_totalSpdDomeCam ms) \<le> MAX_SDC \<and>
     (\<forall>i < unat (ms_totalSpdDomeCam ms). \<exists>r < length cams. ms_SpdDomeCam ms i = Some r))"

definition cam_refs :: "CMission \<Rightarrow> cam_ref list" where
  "cam_refs ms = map (\<lambda>i. the (ms_SpdDomeCam ms i)) [0..<unat (ms_totalSpdDomeCam ms)]"

definition cam_list :: "cam_heap \<times> CMission \<Rightarrow> CSpeedDomeCam list" where
  "cam_list s = map (\<lambda>r. fst s ! r) (cam_refs (snd s))"

definition wf_devs :: "CMission \<Rightarrow> bool" where
  "wf_devs ms \<longleftrightarrow> unat (ms_totalCapDev ms) \<le> MAX_CAPDEV"

definition dev_list :: "CMission \<Rightarrow> CCaptureDevice list" where
  "dev_list ms = map (ms_capDev ms) [0..<unat (ms_totalCapDev ms)]"

lemma length_cam_list [simp]: "length (cam_list (cams, ms)) = unat (ms_totalSpdDomeCam ms)"
  by (simp add: cam_list_def cam_refs_def)

lemma length_cam_refs [simp]: "length (cam_refs ms) = unat (ms_totalSpdDomeCam ms)"
  by (simp add: cam_refs_def)

lemma length_dev_list [simp]: "length (dev_list ms) = unat (ms_totalCapDev ms)"
  by (simp add: dev_list_def)

lemma SDC_at_wf:
  assumes "wf_cams (cams, ms)" and "i < unat (ms_totalSpdDomeCam ms)"
  shows "SDC_at cams ms i = Some (cam_list (cams, ms) ! i)"
    and "\<exists>r < length cams. ms_SpdDomeCam ms i = Some r \<and> cam_list (cams, ms) ! i = cams ! r \<and>
      cam_refs ms ! i = r"
  using assms by (auto simp: wf_cams_def SDC_at_def deref_def cam_list_def cam_refs_def)

lemma find_SDC_list:
  assumes "wf_cams (cams, ms)"
  shows "find_SDC cams ms k = Some (find_index (\<lambda>c. camNum_of c = k) (cam_list (cams, ms)))"
proof -
  have "scan (\<lambda>i. map_option (\<lambda>c. camNum_of c = k) (SDC_at cams ms i)) 0 (length (cam_list (cams, ms)))
      = Some (map_option ((+) 0) (find_index (\<lambda>c. camNum_of c = k) (cam_list (cams, ms))))"
    by (rule scan_find_index) (use SDC_at_wf(1) [OF assms] in simp)
  then show ?thesis by (simp add: find_SDC_def option.map_ident cong: map_option_cong)
qed

lemma find_CapDev_list:
  assumes "wf_devs ms"
  shows "find_CapDev ms k = Some (find_index (\<lambda>d. cd_devNum d = k) (dev_list ms))"
proof -
  have "scan (\<lambda>i. map_option (\<lambda>d. k = cd_devNum d) (CapDev_at ms i)) 0 (length (dev_list ms))
      = Some (map_option ((+) 0) (find_index (\<lambda>d. k = cd_devNum d) (dev_list ms)))"
    by (rule scan_find_index) (use assms in \<open>simp add: wf_devs_def CapDev_at_def dev_list_def\<close>)
  then show ?thesis
    by (simp add: find_CapDev_def option.map_ident eq_commute [of k] cong: map_option_cong)
qed

section \<open>Adding\<close>

lemma unat_inc: "unat (n :: u32) < 2400 \<Longrightarrow> unat (n + 1) = Suc (unat n)"
  by (simp add: unat_word_ariths)

lemma unat_dec: "0 < unat (n :: u32) \<Longrightarrow> unat (n - 1) = unat n - 1"
  by (metis unat_minus_one unat_0 less_irrefl)

definition fresh_SDC :: "CSpeedDomeCam \<Rightarrow> CSpeedDomeCam \<Rightarrow> CSpeedDomeCam" where
  "fresh_SDC raw sdc = upd_cfg (copy_SDC_cfg (dc_m_sdcCfg sdc)) (CHIKCam_new raw)"

text \<open>
  The settings of the new object, field by field: those of the old one, but for the mode, the reserved byte, both plate
  widths and the presets that are not in use, which are those of the memory the object is made in.
\<close>

definition copied_cfg :: "SDCcfg \<Rightarrow> SDCcfg \<Rightarrow> SDCcfg" where
  "copied_cfg raw old = old\<lparr>sc_mode := sc_mode raw, sc_reserve := sc_reserve raw,
     sc_plateMinWidth := sc_plateMinWidth raw, sc_plateMaxWidth := sc_plateMaxWidth raw,
     sc_missionPreset := (\<lambda>j. if j < unat (sc_presetTotal old) then sc_missionPreset old j
       else (sc_missionPreset raw j)\<lparr>pr_camNum := []\<rparr>)\<rparr>"

lemma fresh_SDC_cfg:
  "fresh_SDC raw sdc = raw\<lparr>dc_curPTZposion := 0, dc_isUsing := FREE,
     dc_m_sdcCfg := copied_cfg (dc_m_sdcCfg raw) (dc_m_sdcCfg sdc)\<rparr>"
  by (simp add: fresh_SDC_def CHIKCam_new_def copy_SDC_cfg_def copied_cfg_def fun_eq_iff)

lemma copied_cfg_missionNum:
  "copied_cfg raw (old\<lparr>sc_missionNum := n\<rparr>) = (copied_cfg raw old)\<lparr>sc_missionNum := n\<rparr>"
  by (simp add: copied_cfg_def cong: if_cong)

lemma addSDC_list:
  assumes "wf_cams (cams, ms)" and "unat (ms_totalSpdDomeCam ms) < MAX_SDC"
  shows "\<exists>ms'. addSDC raw cams ms sdc = Some (cams @ [fresh_SDC raw sdc], ms') \<and>
    wf_cams (cams @ [fresh_SDC raw sdc], ms') \<and>
    cam_refs ms' = cam_refs ms @ [length cams] \<and>
    cam_list (cams @ [fresh_SDC raw sdc], ms') = cam_list (cams, ms) @ [fresh_SDC raw sdc] \<and>
    ms_capDev ms' = ms_capDev ms \<and> ms_totalCapDev ms' = ms_totalCapDev ms \<and>
    ms_missionNum ms' = ms_missionNum ms"
proof -
  let ?n = "unat (ms_totalSpdDomeCam ms)"
  let ?ms = "ms\<lparr>ms_SpdDomeCam := (ms_SpdDomeCam ms)(?n := Some (length cams)),
     ms_totalSpdDomeCam := ms_totalSpdDomeCam ms + 1\<rparr>"
  have n: "unat (ms_totalSpdDomeCam ms + 1) = Suc ?n"
    using assms(2) by (intro unat_inc) (simp add: MAX_SDC_def)
  have refs: "cam_refs ?ms = cam_refs ms @ [length cams]"
    by (simp add: cam_refs_def n)
  moreover have "\<forall>r \<in> set (cam_refs ms). r < length cams"
    using assms(1) by (auto simp: wf_cams_def cam_refs_def)
  then have "cam_list (cams @ [fresh_SDC raw sdc], ?ms) = cam_list (cams, ms) @ [fresh_SDC raw sdc]"
    by (simp add: cam_list_def refs nth_append)
  moreover have "wf_cams (cams @ [fresh_SDC raw sdc], ?ms)"
    unfolding wf_cams_def prod.case
  proof (intro conjI allI impI)
    show "unat (ms_totalSpdDomeCam ?ms) \<le> MAX_SDC" using assms(2) n by simp
    fix i assume "i < unat (ms_totalSpdDomeCam ?ms)"
    then have "i < ?n \<or> i = ?n" using n by auto
    then show "\<exists>r < length (cams @ [fresh_SDC raw sdc]). ms_SpdDomeCam ?ms i = Some r"
      using assms(1) by (auto simp: wf_cams_def)
  qed
  ultimately show ?thesis
    using assms(2) by (simp add: addSDC_def Let_def fresh_SDC_def)
qed

lemma fresh_SDC_camNum [simp]: "camNum_of (fresh_SDC raw sdc) = camNum_of sdc"
  by (simp add: fresh_SDC_def copy_SDC_cfg_def)

lemma remove_at_list:
  assumes "wf_cams (cams, ms)" and "i < unat (ms_totalSpdDomeCam ms)"
    and "unat (ms_totalSpdDomeCam ms) < MAX_SDC"
  shows "\<exists>ms'. remove_at ms i = Some ms' \<and> wf_cams (cams, ms') \<and>
    cam_refs ms' = without i (cam_refs ms) \<and>
    cam_list (cams, ms') = without i (cam_list (cams, ms)) \<and>
    ms_capDev ms' = ms_capDev ms \<and> ms_totalCapDev ms' = ms_totalCapDev ms"
proof -
  let ?n = "unat (ms_totalSpdDomeCam ms)"
  let ?a = "\<lambda>j. if i \<le> j \<and> j < ?n then ms_SpdDomeCam ms (j + 1) else ms_SpdDomeCam ms j"
  let ?ms = "ms\<lparr>ms_SpdDomeCam := ?a, ms_totalSpdDomeCam := ms_totalSpdDomeCam ms - 1\<rparr>"
  have n: "unat (ms_totalSpdDomeCam ms - 1) = ?n - 1" by (rule unat_dec) (use assms in simp)
  have sh: "shift_down MAX_SDC i ?n (ms_SpdDomeCam ms) = Some ?a"
    using assms by (simp add: shift_down_def shift_loop)
  have "map the (map ?a [0..<?n - 1]) = map the (without i (map (ms_SpdDomeCam ms) [0..<?n]))"
    by (simp only: map_shift [OF assms(2)])
  then have refs: "cam_refs ?ms = without i (cam_refs ms)"
    by (simp add: cam_refs_def n map_without comp_def)
  moreover have "cam_list (cams, ?ms) = without i (cam_list (cams, ms))"
    by (simp add: cam_list_def refs map_without)
  moreover have "wf_cams (cams, ?ms)"
    using assms by (auto simp: wf_cams_def n)
  moreover have "remove_at ms i = Some ?ms" by (simp add: remove_at_def sh)
  ultimately show ?thesis by auto
qed

lemma remove_at_full:
  assumes "i < unat (ms_totalSpdDomeCam ms)" and "unat (ms_totalSpdDomeCam ms) = MAX_SDC"
  shows "remove_at ms i = None"
  using assms by (simp add: remove_at_def shift_down_def shift_loop)

lemma removeSDC_list:
  assumes "wf_cams (cams, ms)"
  shows "removeSDC cams ms k =
     (case find_index (\<lambda>c. camNum_of c = k) (cam_list (cams, ms)) of
        None \<Rightarrow> Some (- 1, ms)
      | Some i \<Rightarrow> map_option (\<lambda>ms. (0, ms)) (remove_at ms i))"
  by (simp add: removeSDC_def find_SDC_list [OF assms])

lemma addSDC_full: "unat (ms_totalSpdDomeCam ms) = MAX_SDC \<Longrightarrow> addSDC raw cams ms sdc = None"
  by (simp add: addSDC_def)

interpretation cam_slots: slots wf_cams cam_list camNum_of MAX_SDC
  "\<lambda>s. find_SDC (fst s) (snd s)"
  "\<lambda>s. addSDC raw (fst s) (snd s)"
  "\<lambda>s k. map_option (\<lambda>(r, ms). (r, fst s, ms)) (removeSDC (fst s) (snd s) k)"
  for raw
proof (unfold_locales, goal_cases)
  case (1 s)
  then show ?case by (cases s) (simp add: wf_cams_def)
next
  case (2 s k)
  then show ?case by (cases s) (simp add: find_SDC_list)
next
  case (3 s x)
  obtain cams ms where s: "s = (cams, ms)" by (cases s)
  from 3 s addSDC_list [of cams ms raw x] show ?case by fastforce
next
  case (4 s x)
  then show ?case by (cases s) (simp add: addSDC_full)
next
  case (5 s k)
  then show ?case by (cases s) (simp add: removeSDC_list)
next
  case (6 s k i)
  obtain cams ms where s: "s = (cams, ms)" by (cases s)
  from 6(2) have "i < unat (ms_totalSpdDomeCam ms)" by (auto simp: s dest: find_index_Some)
  with 6 s remove_at_list [of cams ms i] show ?case by (fastforce simp: removeSDC_list)
next
  case (7 s k)
  obtain cams ms i where s: "s = (cams, ms)"
    and i: "find_index (\<lambda>x. camNum_of x = k) (cam_list s) = Some i"
    using 7(2) by (cases s) auto
  then have "i < unat (ms_totalSpdDomeCam ms)" by (auto dest: find_index_Some)
  with 7 s i show ?case by (simp add: removeSDC_list remove_at_full)
qed

lemma addCapDev_list:
  assumes "unat (ms_totalCapDev ms) < MAX_CAPDEV"
  shows "\<exists>ms' d. addCapDev ms dev = Some ms' \<and> wf_devs ms' \<and>
    d = copy_CapDev dev (ms_capDev ms (unat (ms_totalCapDev ms))) \<and>
    dev_list ms' = dev_list ms @ [d] \<and> ms_SpdDomeCam ms' = ms_SpdDomeCam ms \<and>
    ms_totalSpdDomeCam ms' = ms_totalSpdDomeCam ms \<and> ms_missionNum ms' = ms_missionNum ms"
proof -
  have "unat (ms_totalCapDev ms + 1) = Suc (unat (ms_totalCapDev ms))"
    using assms by (intro unat_inc) (simp add: MAX_CAPDEV_def)
  with assms show ?thesis
    by (simp add: addCapDev_def Let_def wf_devs_def dev_list_def)
qed

lemma removeCapDev_list:
  assumes "wf_devs ms" and "find_index (\<lambda>d. cd_devNum d = k) (dev_list ms) = Some i"
  shows "if unat (ms_totalCapDev ms) < MAX_CAPDEV
    then \<exists>ms'. removeCapDev ms k = Some (0, ms') \<and> wf_devs ms' \<and>
      dev_list ms' = without i (dev_list ms) \<and> ms_SpdDomeCam ms' = ms_SpdDomeCam ms \<and>
      ms_totalSpdDomeCam ms' = ms_totalSpdDomeCam ms
    else removeCapDev ms k = None"
proof -
  let ?n = "unat (ms_totalCapDev ms)"
  have i: "i < ?n" using find_index_Some [OF assms(2)] by simp
  have n: "unat (ms_totalCapDev ms - 1) = ?n - 1" by (rule unat_dec) (use i in simp)
  show ?thesis
    using assms i
    by (auto simp: removeCapDev_def find_CapDev_list shift_down_def shift_loop wf_devs_def n
        dev_list_def map_shift [OF i, simplified] simp del: map_eq_conv)
qed

lemma copy_CapDev_devNum [simp]: "cd_devNum (copy_CapDev src dst) = cd_devNum src"
  by (simp add: copy_CapDev_def)

interpretation dev_slots: slots wf_devs dev_list cd_devNum MAX_CAPDEV find_CapDev addCapDev removeCapDev
proof (unfold_locales, goal_cases)
  case (1 s)
  then show ?case by (simp add: wf_devs_def)
next
  case (2 s k)
  then show ?case by (rule find_CapDev_list)
next
  case (3 s x)
  then show ?case using addCapDev_list [of s x] by auto
next
  case (4 s x)
  then show ?case by (simp add: addCapDev_def)
next
  case (5 s k)
  then show ?case by (simp add: removeCapDev_def find_CapDev_list)
next
  case (6 s k i)
  then show ?case using removeCapDev_list [of s k i] by auto
next
  case (7 s k)
  then obtain i where "find_index (\<lambda>x. cd_devNum x = k) (dev_list s) = Some i" by auto
  with 7 removeCapDev_list [of s k i] show ?case by simp
qed

section \<open>The round-robin search\<close>

text \<open>The slot after \<open>j\<close>, going round; a \<open>curSpdDomeCam\<close> beyond the cameras starts over at 0.\<close>

definition next_slot :: "nat \<Rightarrow> nat \<Rightarrow> nat" where
  "next_slot n j = (if Suc j < n then Suc j else 0)"

lemma next_slot_word:
  assumes "0 < unat n"
  shows "unat (if j + 1 > n - 1 then 0 else j + 1 :: u32) = next_slot (unat n) (unat j)"
proof -
  have n: "unat (n - 1) = unat n - 1" using assms by (rule unat_dec)
  show ?thesis
  proof (cases "j = - 1")
    case True
    have "unat n \<le> unat (- 1 :: u32)" by (simp flip: word_le_nat_alt)
    with True show ?thesis by (simp add: next_slot_def word_less_nat_alt)
  next
    case False
    then have "unat (j + 1) = Suc (unat j)" using unatSuc [of j] by (simp add: add.commute add_eq_0_iff)
    with assms n show ?thesis by (auto simp: next_slot_def word_less_nat_alt)
  qed
qed

lemma find_index_map: "find_index P (map f xs) = find_index (P \<circ> f) xs"
  by (induction xs) auto

lemma next_slot_mod: "s < n \<Longrightarrow> next_slot n s = Suc s mod n"
  by (simp add: next_slot_def Suc_lessI mod_Suc)

lemma getFreeSDC_loop_list:
  fixes ms cams defines "n \<equiv> unat (ms_totalSpdDomeCam ms)"
  assumes "wf_cams (cams, ms)" and "0 < n" and "s = next_slot n (unat j)"
  shows "getFreeSDC_loop cams ms k j =
     Some (map_option (\<lambda>i. word_of_nat ((s + i) mod n))
       (find_index (\<lambda>i. dc_isUsing (cam_list (cams, ms) ! ((s + i) mod n)) = FREE) [0..<k]))"
  using assms(4)
proof (induction k arbitrary: j s)
  case 0
  then show ?case by simp
next
  case (Suc k)
  let ?j = "if j + 1 > ms_totalSpdDomeCam ms - 1 then 0 else j + 1"
  have uj: "unat ?j = s" using next_slot_word assms(3) Suc.prems unfolding n_def by simp
  have sn: "s < n" using assms(3) Suc.prems by (auto simp: next_slot_def split: if_splits)
  have at: "SDC_at cams ms (unat ?j) = Some (cam_list (cams, ms) ! s)"
    using SDC_at_wf(1) [OF assms(2)] sn uj unfolding n_def by simp
  have "word_of_nat (unat ?j) = ?j" by simp
  then have w: "word_of_nat s = ?j" unfolding uj .
  have split: "[0..<Suc k] = 0 # map Suc [0..<k]" by (simp add: upt_conv_Cons map_Suc_upt del: upt_Suc)
  have IH: "getFreeSDC_loop cams ms k ?j =
     Some (map_option (\<lambda>i. word_of_nat ((Suc s mod n + i) mod n))
       (find_index (\<lambda>i. dc_isUsing (cam_list (cams, ms) ! ((Suc s mod n + i) mod n)) = FREE) [0..<k]))"
    by (rule Suc.IH) (simp add: uj next_slot_mod [OF sn])
  show ?case
  proof (cases "dc_isUsing (cam_list (cams, ms) ! s) = FREE")
    case True
    then show ?thesis using at w sn unfolding split by (simp add: Let_def)
  next
    case False
    then have "getFreeSDC_loop cams ms (Suc k) j = getFreeSDC_loop cams ms k ?j"
      using at by (simp add: Let_def)
    then show ?thesis
      using False sn unfolding IH split
      by (simp add: find_index_map comp_def option.map_comp mod_simps)
  qed
qed

lemma find_rotate:
  assumes "length xs = n"
  shows "find_index (\<lambda>i. P (xs ! ((s + i) mod n))) [0..<n] = find_index P (rotate s xs)"
proof -
  have "map (\<lambda>i. xs ! ((s + i) mod n)) [0..<n] = rotate s xs"
    using assms by (intro nth_equalityI) (auto simp: nth_rotate)
  then have "find_index P (rotate s xs) = find_index P (map (\<lambda>i. xs ! ((s + i) mod n)) [0..<n])"
    by simp
  then show ?thesis by (simp add: find_index_map comp_def)
qed

definition free_slot :: "cam_heap \<times> CMission \<Rightarrow> nat option" where
  "free_slot s =
     (let n = length (cam_list s); start = next_slot n (unat (ms_curSpdDomeCam (snd s)))
      in map_option (\<lambda>i. (start + i) mod n)
           (find_index (\<lambda>c. dc_isUsing c = FREE) (rotate start (cam_list s))))"

lemma getFreeSDC_eq:
  assumes "wf_cams (cams, ms)"
  shows "getFreeSDC cams ms =
     (case free_slot (cams, ms) of
        None \<Rightarrow> Some (- 1, None, cams, ms)
      | Some j \<Rightarrow>
          let r = cam_refs ms ! j
          in Some (int j, Some (Some r), cams[r := (cams ! r)\<lparr>dc_isUsing := BUSY\<rparr>],
               ms\<lparr>ms_curSpdDomeCam := word_of_nat j\<rparr>))"
proof -
  let ?n = "unat (ms_totalSpdDomeCam ms)" and ?c = "unat (ms_curSpdDomeCam ms)"
  have n: "?n \<le> MAX_SDC" using assms by (simp add: wf_cams_def)
  have loop: "getFreeSDC_loop cams ms ?n (ms_curSpdDomeCam ms) =
      Some (map_option word_of_nat (free_slot (cams, ms)))"
  proof (cases "?n = 0")
    case True
    then have "cam_list (cams, ms) = []" by (metis length_0_conv length_cam_list)
    with True show ?thesis by (simp add: free_slot_def Let_def)
  next
    case False
    then show ?thesis
      using getFreeSDC_loop_list [OF assms, of "next_slot ?n ?c" "ms_curSpdDomeCam ms" ?n]
        find_rotate [of "cam_list (cams, ms)" ?n "\<lambda>c. dc_isUsing c = FREE" "next_slot ?n ?c"]
      by (simp add: free_slot_def Let_def option.map_comp comp_def)
  qed
  show ?thesis
  proof (cases "free_slot (cams, ms)")
    case None
    then show ?thesis by (simp add: getFreeSDC_def loop)
  next
    case (Some j)
    then have j: "j < ?n"
      by (auto simp: free_slot_def Let_def dest!: find_index_Some)
    have u: "unat (word_of_nat j :: u32) = j"
      using j n by (simp add: unat_of_nat MAX_SDC_def)
    have "sint (word_of_nat j :: u32) = int j"
      by (simp add: signed_of_nat, rule signed_take_bit_int_eq_self)
        (use j n in \<open>simp_all add: MAX_SDC_def\<close>)
    moreover obtain r where "r < length cams" "ms_SpdDomeCam ms j = Some r" "cam_refs ms ! j = r"
      using SDC_at_wf(2) [OF assms j] by auto
    ultimately show ?thesis
      using Some by (simp add: getFreeSDC_def loop u upd_cam_def Let_def)
  qed
qed

lemma free_slot_Some:
  assumes "wf_cams s" and "free_slot s = Some j"
  shows "j < length (cam_list s) \<and> dc_isUsing (cam_list s ! j) = FREE"
proof -
  let ?n = "length (cam_list s)" and ?st = "next_slot (length (cam_list s)) (unat (ms_curSpdDomeCam (snd s)))"
  from assms(2) obtain i where i: "find_index (\<lambda>c. dc_isUsing c = FREE) (rotate ?st (cam_list s)) = Some i"
    "j = (?st + i) mod ?n" by (auto simp: free_slot_def Let_def)
  from find_index_Some [OF i(1)] show ?thesis by (auto simp: nth_rotate i(2)) (metis gr_implies_not0 mod_less_divisor neq0_conv)
qed

lemma free_slot_None: "free_slot s = None \<longleftrightarrow> (\<forall>c \<in> set (cam_list s). dc_isUsing c \<noteq> FREE)"
  by (simp add: free_slot_def Let_def find_index_None)

lemma only_free_slot:
  assumes "wf_cams s" and "cam_list s = xs @ [c]" and "dc_isUsing c = FREE" and "\<forall>x \<in> set xs. dc_isUsing x \<noteq> FREE"
  shows "free_slot s = Some (length xs)"
proof -
  obtain j where j: "free_slot s = Some j" using free_slot_None [of s] assms(2,3) by fastforce
  from free_slot_Some [OF assms(1) j] assms(2,4) have "j = length xs"
    by (auto simp: nth_append less_Suc_eq split: if_splits)
  with j show ?thesis by simp
qed

text \<open>
  C11: \<open>getFreeSDC\<close> hands out a camera exactly when one is free: the first free one in slot order
  starting after the last camera handed out and going round. It marks that camera busy, remembers
  its slot and changes nothing else; when all are busy it answers -1 and leaves the state.
\<close>

theorem getFreeSDC_round_robin:
  assumes "wf_cams (cams, ms)"
  shows "getFreeSDC cams ms =
     (let n = length (cam_list (cams, ms)); start = next_slot n (unat (ms_curSpdDomeCam ms))
      in case find_index (\<lambda>c. dc_isUsing c = FREE) (rotate start (cam_list (cams, ms))) of
           None \<Rightarrow> Some (- 1, None, cams, ms)
         | Some i \<Rightarrow>
             let j = (start + i) mod n; r = cam_refs ms ! j
             in Some (int j, Some (Some r), cams[r := (cams ! r)\<lparr>dc_isUsing := BUSY\<rparr>],
                  ms\<lparr>ms_curSpdDomeCam := word_of_nat j\<rparr>)) \<and>
    (fst (the (getFreeSDC cams ms)) = - 1 \<longleftrightarrow>
      (\<forall>c \<in> set (cam_list (cams, ms)). dc_isUsing c \<noteq> FREE))"
proof
  show "getFreeSDC cams ms =
     (let n = length (cam_list (cams, ms)); start = next_slot n (unat (ms_curSpdDomeCam ms))
      in case find_index (\<lambda>c. dc_isUsing c = FREE) (rotate start (cam_list (cams, ms))) of
           None \<Rightarrow> Some (- 1, None, cams, ms)
         | Some i \<Rightarrow>
             let j = (start + i) mod n; r = cam_refs ms ! j
             in Some (int j, Some (Some r), cams[r := (cams ! r)\<lparr>dc_isUsing := BUSY\<rparr>],
                  ms\<lparr>ms_curSpdDomeCam := word_of_nat j\<rparr>))"
    unfolding getFreeSDC_eq [OF assms] free_slot_def by (simp add: Let_def split: option.split)
  show "fst (the (getFreeSDC cams ms)) = - 1 \<longleftrightarrow>
      (\<forall>c \<in> set (cam_list (cams, ms)). dc_isUsing c \<noteq> FREE)"
    unfolding free_slot_None [symmetric] getFreeSDC_eq [OF assms]
    by (simp add: Let_def split: option.split)
qed

text \<open>A mission with \<open>k\<close> cameras, all of them in the heap.\<close>

definition mission0 :: "nat \<Rightarrow> CMission" where
  "mission0 k = \<lparr>ms_missionNum = 3, ms_workMode = 0, ms_curSpdDomeCam = 0,
     ms_totalSpdDomeCam = word_of_nat k, ms_totalCapDev = 0,
     ms_SpdDomeCam = \<lambda>i. if i < k then Some i else None, ms_capDev = \<lambda>_. dev0\<rparr>"

lemma wf_mission0: "k \<le> MAX_SDC \<Longrightarrow> k \<le> length cams \<Longrightarrow> wf_cams (cams, mission0 k)"
  by (simp add: wf_cams_def mission0_def unat_of_nat MAX_SDC_def)

theorem getFreeSDC_round_robin_witness:
  "map_option fst (getFreeSDC [cam0, cam0\<lparr>dc_isUsing := BUSY\<rparr>, cam0] (mission0 3)) = Some 2"
proof -
  have "wf_cams ([cam0, cam0\<lparr>dc_isUsing := BUSY\<rparr>, cam0], mission0 3)"
    by (rule wf_mission0) (simp_all add: MAX_SDC_def)
  moreover have "cam_list ([cam0, cam0\<lparr>dc_isUsing := BUSY\<rparr>, cam0], mission0 3) =
      [cam0, cam0\<lparr>dc_isUsing := BUSY\<rparr>, cam0]"
  proof -
    have "[0..<3] = [0, 1, 2 :: nat]" by code_simp
    then show ?thesis by (simp add: cam_list_def cam_refs_def mission0_def)
  qed
  moreover have "next_slot (Suc (Suc (Suc 0))) 0 = Suc 0" by (simp add: next_slot_def)
  moreover have "ms_curSpdDomeCam (mission0 3) = 0" "dc_isUsing cam0 = FREE"
    by (simp_all add: mission0_def cam0_def)
  ultimately show ?thesis
    using getFreeSDC_round_robin [of "[cam0, cam0\<lparr>dc_isUsing := BUSY\<rparr>, cam0]" "mission0 3"]
    by (simp add: Let_def)
qed

section \<open>Cameras\<close>

lemma find_key_None: "find_index (\<lambda>x. f x = k) xs = None \<longleftrightarrow> k \<notin> f ` set xs"
  by (induction xs) auto

text \<open>
  C16: the cameras and the devices of a mission implement a list of numbers: after any sequence of
  additions and removals the arrays hold the items of the numbers the specification \<open>key_step\<close>
  computes, in its order, and the sequence faults exactly where the specification has no result.
\<close>

theorem mission_refines_lists:
  assumes "wf_cams (cams, ms)" and "wf_devs ms"
  shows "map_option (\<lambda>s. map camNum_of (cam_list s))
      (runs (slot_step (\<lambda>s. addSDC raw (fst s) (snd s))
        (\<lambda>s k. map_option (\<lambda>(r, ms). (r, fst s, ms)) (removeSDC (fst s) (snd s) k))) ps (cams, ms)) =
      runs (key_step MAX_SDC camNum_of) ps (map camNum_of (cam_list (cams, ms))) \<and>
    map_option (\<lambda>m. map cd_devNum (dev_list m)) (runs (slot_step addCapDev removeCapDev) qs ms) =
      runs (key_step MAX_CAPDEV cd_devNum) qs (map cd_devNum (dev_list ms))"
  using cam_slots.refine.runs_abs [OF assms(1), of ps raw] dev_slots.refine.runs_abs [OF assms(2), of qs]
  by (simp add: list.pred_True)

theorem mission_refines_lists_witness:
  "map_option (\<lambda>m. map cd_devNum (dev_list m))
     (runs (slot_step addCapDev removeCapDev) [Add dev0, Add (dev0\<lparr>cd_devNum := ''43''\<rparr>), Remove ''42'', Remove ''9''] (mission0 0)) =
     Some [''43'']"
proof -
  let ?qs = "[Add dev0, Add (dev0\<lparr>cd_devNum := ''43''\<rparr>), Remove ''42'', Remove ''9'']"
  have wf: "wf_cams ([], mission0 0)" "wf_devs (mission0 0)" and none: "dev_list (mission0 0) = []"
    by (simp_all add: wf_cams_def wf_devs_def mission0_def dev_list_def)
  from wf have "map_option (\<lambda>m. map cd_devNum (dev_list m)) (runs (slot_step addCapDev removeCapDev) ?qs (mission0 0)) =
      runs (key_step MAX_CAPDEV cd_devNum) ?qs (map cd_devNum (dev_list (mission0 0)))"
    by (rule mission_refines_lists [THEN conjunct2])
  also have "\<dots> = Some [''43'']"
    by (simp add: none MAX_CAPDEV_def dev0_def)
  finally show ?thesis .
qed

definition sdc8 :: CSpeedDomeCam where
  "sdc8 = cam0\<lparr>dc_m_sdcCfg := cfg0\<lparr>sc_camNum := ''8''\<rparr>\<rparr>"

lemma sample_camNum [simp]: "camNum_of cam0 = ''7''" "camNum_of sdc8 = ''8''"
  by (simp_all add: cam0_def cfg0_def sdc8_def)

lemma getSDC_list:
  assumes "wf_cams (cams, ms)"
  shows "getSDC cams ms k =
     map_option (\<lambda>i. ms_SpdDomeCam ms i) (find_index (\<lambda>c. camNum_of c = k) (cam_list (cams, ms)))"
  by (simp add: getSDC_def find_SDC_list [OF assms])

text \<open>
  C17: a camera with a new number that is added to a mission with fewer than 2399 cameras is the one \<open>getSDC\<close> finds under
  its number, no other number's answer changes, and removing it gives the former cameras back.
\<close>

theorem addSDC_getSDC_removeSDC:
  assumes "wf_cams (cams, ms)" and "Suc (unat (ms_totalSpdDomeCam ms)) < MAX_SDC"
    and "camNum_of sdc \<notin> camNum_of ` set (cam_list (cams, ms))"
  shows "\<exists>cams' ms' ms''. addSDC raw cams ms sdc = Some (cams', ms') \<and>
    getSDC cams' ms' (camNum_of sdc) = Some (Some (length cams)) \<and>
    cams' ! length cams = fresh_SDC raw sdc \<and>
    (\<forall>k. k \<noteq> camNum_of sdc \<longrightarrow> find_SDC cams' ms' k = find_SDC cams ms k) \<and>
    removeSDC cams' ms' (camNum_of sdc) = Some (0, ms'') \<and>
    cam_list (cams', ms'') = cam_list (cams, ms)"
proof -
  let ?n = "unat (ms_totalSpdDomeCam ms)"
  from addSDC_list [OF assms(1), of raw sdc] assms(2) obtain ms' where
    add: "addSDC raw cams ms sdc = Some (cams @ [fresh_SDC raw sdc], ms')"
    and wf: "wf_cams (cams @ [fresh_SDC raw sdc], ms')"
    and refs: "cam_refs ms' = cam_refs ms @ [length cams]"
    and l: "cam_list (cams @ [fresh_SDC raw sdc], ms') = cam_list (cams, ms) @ [fresh_SDC raw sdc]"
    by auto
  have len: "unat (ms_totalSpdDomeCam ms') = Suc ?n" using arg_cong [OF l, of length] by simp
  have "find_index (\<lambda>c. camNum_of c = camNum_of sdc) (cam_list (cams, ms)) = None"
    unfolding find_key_None by (rule assms(3))
  then have i: "find_index (\<lambda>c. camNum_of c = camNum_of sdc)
      (cam_list (cams @ [fresh_SDC raw sdc], ms')) = Some ?n"
    by (simp add: l find_index_append)
  have "ms_SpdDomeCam ms' ?n = Some (cam_refs ms' ! ?n)" using SDC_at_wf(2) [OF wf, of ?n] len by auto
  then have "ms_SpdDomeCam ms' ?n = Some (length cams)"
    by (simp add: refs nth_append)
  then have get: "getSDC (cams @ [fresh_SDC raw sdc]) ms' (camNum_of sdc) = Some (Some (length cams))"
    by (simp add: getSDC_list [OF wf] i)
  have "find_SDC (cams @ [fresh_SDC raw sdc]) ms' k = find_SDC cams ms k" if "k \<noteq> camNum_of sdc" for k
    using cam_slots.find_other_after_add [of "(cams, ms)" raw sdc _ k] assms(1) add that by auto
  moreover obtain ms'' where "removeSDC (cams @ [fresh_SDC raw sdc]) ms' (camNum_of sdc) = Some (0, ms'')"
    "cam_list (cams @ [fresh_SDC raw sdc], ms'') = cam_list (cams, ms)"
    using cam_slots.remove_after_add [of "(cams, ms)" raw sdc] assms add by auto
  ultimately show ?thesis using add get by auto
qed

theorem addSDC_getSDC_removeSDC_witness:
  "\<exists>cams' ms'. addSDC cam0 [cam0] (mission0 1) sdc8 = Some (cams', ms') \<and>
     getSDC cams' ms' ''8'' = Some (Some 1)"
proof -
  have wf: "wf_cams ([cam0], mission0 1)" by (rule wf_mission0) (simp_all add: MAX_SDC_def)
  have "cam_list ([cam0], mission0 1) = [cam0]"
    by (simp add: cam_list_def cam_refs_def mission0_def)
  then have k: "camNum_of sdc8 \<notin> camNum_of ` set (cam_list ([cam0], mission0 1))" by simp
  have n: "Suc (unat (ms_totalSpdDomeCam (mission0 1))) < MAX_SDC"
    by (simp add: mission0_def MAX_SDC_def)
  show ?thesis
    using addSDC_getSDC_removeSDC [OF wf n k, of cam0] by auto
qed

text \<open>
  \<open>addSDC\<close> stores a copy of every network and preset setting but not the plate widths, the
  mode and the reserved byte: those of the new camera are whatever its memory held.
\<close>

theorem addSDC_copies:
  assumes "addSDC raw cams ms sdc = Some (cams', ms')"
  shows "\<exists>c. cams' = cams @ [c] \<and> dc_isUsing c = FREE \<and> dc_curPTZposion c = 0 \<and>
    dc_m_sdcCfg c = (dc_m_sdcCfg sdc)\<lparr>
      sc_mode := sc_mode (dc_m_sdcCfg raw), sc_reserve := sc_reserve (dc_m_sdcCfg raw),
      sc_plateMinWidth := sc_plateMinWidth (dc_m_sdcCfg raw),
      sc_plateMaxWidth := sc_plateMaxWidth (dc_m_sdcCfg raw),
      sc_missionPreset := sc_missionPreset (dc_m_sdcCfg c)\<rparr> \<and>
    (\<forall>j < unat (sc_presetTotal (dc_m_sdcCfg sdc)).
      sc_missionPreset (dc_m_sdcCfg c) j = sc_missionPreset (dc_m_sdcCfg sdc) j)"
  using assms
  by (auto simp: addSDC_def Let_def copy_SDC_cfg_def CHIKCam_new_def split: if_splits)

theorem addSDC_copies_witness:
  "\<exists>c ms'. addSDC sdc8 [] (mission0 0) cam0 = Some ([c], ms') \<and>
     sc_camNum (dc_m_sdcCfg c) = ''7'' \<and> sc_plateMaxWidth (dc_m_sdcCfg c) = 200"
proof -
  obtain cams' ms' where a: "addSDC sdc8 [] (mission0 0) cam0 = Some (cams', ms')"
    by (simp add: addSDC_def mission0_def MAX_SDC_def)
  from addSDC_copies [OF a] obtain c where c: "cams' = [c]"
    "dc_m_sdcCfg c = (dc_m_sdcCfg cam0)\<lparr>
      sc_mode := sc_mode (dc_m_sdcCfg sdc8), sc_reserve := sc_reserve (dc_m_sdcCfg sdc8),
      sc_plateMinWidth := sc_plateMinWidth (dc_m_sdcCfg sdc8),
      sc_plateMaxWidth := sc_plateMaxWidth (dc_m_sdcCfg sdc8),
      sc_missionPreset := sc_missionPreset (dc_m_sdcCfg c)\<rparr>" by auto
  have "sc_camNum (dc_m_sdcCfg c) = ''7''" "sc_plateMaxWidth (dc_m_sdcCfg c) = 200"
    by (subst c(2), simp add: sdc8_def cfg0_def cam0_def)+
  with a c(1) show ?thesis by auto
qed

text \<open>
  A full mission can neither take nor lose a camera: adding a 2401st writes past the array,
  and closing the gap of a removed one reads past it.
\<close>

theorem full_mission_faults:
  assumes "wf_cams (cams, ms)" and "unat (ms_totalSpdDomeCam ms) = 2400"
    and "k \<in> camNum_of ` set (cam_list (cams, ms))"
  shows "addSDC raw cams ms sdc = None \<and> removeSDC cams ms k = None"
  using cam_slots.add_full [of "(cams, ms)" raw sdc] cam_slots.remove_full [of "(cams, ms)" k] assms
  by (simp add: MAX_SDC_def find_key_None)

theorem full_mission_faults_witness:
  "removeSDC (replicate 2400 cam0) (mission0 2400) ''7'' = None"
proof -
  have wf: "wf_cams (replicate 2400 cam0, mission0 2400)"
    by (rule wf_mission0) (simp_all add: MAX_SDC_def)
  have n: "unat (ms_totalSpdDomeCam (mission0 2400)) = 2400" by (simp add: mission0_def)
  have "cam_list (replicate 2400 cam0, mission0 2400) ! 0 = cam0"
    by (simp add: cam_list_def cam_refs_def mission0_def n [unfolded mission0_def])
  moreover have "0 < length (cam_list (replicate 2400 cam0, mission0 2400))" using n by simp
  ultimately have "cam0 \<in> set (cam_list (replicate 2400 cam0, mission0 2400))" by (metis nth_mem)
  then have "''7'' \<in> camNum_of ` set (cam_list (replicate 2400 cam0, mission0 2400))"
    by (rule rev_image_eqI) simp
  from full_mission_faults [OF wf n this] show ?thesis by blast
qed

text \<open>
  \<open>addPreset\<close> appends to the first camera that has the preset's camera number and touches no
  other camera; the count is a byte, so the 256th preset makes the camera one without presets.
\<close>

theorem addPreset_appends:
  assumes "wf_cams (cams, ms)"
  shows "addPreset cams ms p =
     (case find_index (\<lambda>c. camNum_of c = pr_camNum p) (cam_list (cams, ms)) of
        None \<Rightarrow> Some (- 1, cams)
      | Some i \<Rightarrow>
          let r = cam_refs ms ! i; cfg = dc_m_sdcCfg (cams ! r); t = sc_presetTotal cfg
          in Some (0, cams[r := (cams ! r)\<lparr>dc_m_sdcCfg := cfg\<lparr>
               sc_missionPreset := (sc_missionPreset cfg)(unat t := p),
               sc_presetTotal := (if t = 255 then 0 else t + 1)\<rparr>\<rparr>]))"
proof (cases "find_index (\<lambda>c. camNum_of c = pr_camNum p) (cam_list (cams, ms))")
  case None
  then show ?thesis by (simp add: addPreset_def find_SDC_list [OF assms])
next
  case (Some i)
  then have "i < unat (ms_totalSpdDomeCam ms)" by (auto dest: find_index_Some)
  from SDC_at_wf(2) [OF assms this] obtain r where
    r: "r < length cams" "ms_SpdDomeCam ms i = Some r" "cam_refs ms ! i = r" by auto
  have wrap: "(256 :: byte) = 0" by simp
  from r Some show ?thesis
    by (auto simp: addPreset_def find_SDC_list [OF assms] upd_cam_def push_preset_def Let_def wrap)
qed

theorem addPreset_appends_witness:
  "map_option (\<lambda>(r, cs). (r, sc_presetTotal (dc_m_sdcCfg (hd cs))))
     (addPreset [cam0] (mission0 1) preset0) = Some (0, 3)"
proof -
  have wf: "wf_cams ([cam0], mission0 1)" by (rule wf_mission0) (simp_all add: MAX_SDC_def)
  have "cam_list ([cam0], mission0 1) = [cam0]" "cam_refs (mission0 1) = [0]"
    by (simp_all add: cam_list_def cam_refs_def mission0_def)
  moreover have "pr_camNum preset0 = ''7''" by (simp add: preset0_def)
  moreover have "sc_presetTotal (dc_m_sdcCfg cam0) = 2" by (simp add: cam0_def cfg0_def)
  ultimately show ?thesis
    using addPreset_appends [OF wf, of preset0] by (simp add: Let_def)
qed

text \<open>
  \<open>updateSDC\<close> with mission -1 does not only update: it takes the camera out of the mission it
  was found in, also out of the ungrouped cameras.
\<close>

theorem updateSDC_minus_one_removes:
  assumes "wf_cams (cams, ms)" and "unat (ms_totalSpdDomeCam ms) < 2400"
    and "find_index (\<lambda>c. camNum_of c = camNum_of sdc) (cam_list (cams, ms)) = Some i"
    and "sc_missionNum (dc_m_sdcCfg sdc) = - 1"
  shows "\<exists>ms'. updateSDC cams ms sdc =
      Some (0, cams[cam_refs ms ! i := upd_cfg (update_SDC_cfg (dc_m_sdcCfg sdc)) (cams ! (cam_refs ms ! i))], ms') \<and>
    cam_refs ms' = without i (cam_refs ms)"
proof -
  from assms(3) have i: "i < unat (ms_totalSpdDomeCam ms)" by (auto dest: find_index_Some)
  from SDC_at_wf(2) [OF assms(1) i] obtain r where
    r: "r < length cams" "ms_SpdDomeCam ms i = Some r" "cam_refs ms ! i = r" by auto
  have "i < MAX_SDC" using i assms(2) by (simp add: MAX_SDC_def)
  moreover obtain ms' where "remove_at ms i = Some ms'" "cam_refs ms' = without i (cam_refs ms)"
    using remove_at_list [OF assms(1) i] assms(2) by (auto simp: MAX_SDC_def)
  ultimately show ?thesis
    using r assms(3,4)
    by (simp add: updateSDC_def find_SDC_list [OF assms(1)] upd_cam_def SDC_at_def deref_def
        update_SDC_cfg_def copy_SDC_cfg_def)
qed

theorem updateSDC_minus_one_removes_witness:
  "\<exists>cams' ms'. updateSDC [cam0, sdc8] (mission0 2) (upd_cfg (sc_missionNum_update (\<lambda>_. - 1)) sdc8) =
     Some (0, cams', ms') \<and> cam_refs ms' = [0]"
proof -
  have wf: "wf_cams ([cam0, sdc8], mission0 2)" by (rule wf_mission0) (simp_all add: MAX_SDC_def)
  have u: "[0..<2] = [0, 1 :: nat]" by code_simp
  have l: "cam_list ([cam0, sdc8], mission0 2) = [cam0, sdc8]" and r: "cam_refs (mission0 2) = [0, 1]"
    by (simp_all add: cam_list_def cam_refs_def mission0_def u)
  have n: "unat (ms_totalSpdDomeCam (mission0 2)) < 2400" by (simp add: mission0_def)
  let ?c = "upd_cfg (sc_missionNum_update (\<lambda>_. - 1)) sdc8"
  have "find_index (\<lambda>c. camNum_of c = camNum_of ?c) (cam_list ([cam0, sdc8], mission0 2)) = Some 1"
    by (simp add: l)
  from updateSDC_minus_one_removes [OF wf n this] show ?thesis
    by (auto simp: r without_def)
qed

text \<open>
  \<open>getSDC\<close> and \<open>getCapDev\<close> answer with the first object of the given number and, when there is
  none, run off their end without a result, which their callers then use.
\<close>

theorem get_absent_faults:
  assumes "wf_cams (cams, ms)" and "wf_devs ms"
  shows "(getSDC cams ms k = None \<longleftrightarrow> k \<notin> camNum_of ` set (cam_list (cams, ms))) \<and>
    (getCapDev ms k = None \<longleftrightarrow> k \<notin> cd_devNum ` set (dev_list ms)) \<and>
    (\<forall>j. getCapDev ms k = Some j \<longrightarrow>
      cd_devNum (dev_list ms ! j) = k \<and> (\<forall>l < j. cd_devNum (dev_list ms ! l) \<noteq> k))"
  using find_index_Some [of "\<lambda>d. cd_devNum d = k" "dev_list ms"]
  by (simp add: getSDC_list [OF assms(1)] getCapDev_def find_CapDev_list [OF assms(2)] find_key_None)

theorem get_absent_faults_witness:
  "getSDC [cam0] (mission0 1) ''8'' = None \<and> getCapDev (mission0 1) ''42'' = None"
proof -
  have wf: "wf_cams ([cam0], mission0 1)" by (rule wf_mission0) (simp_all add: MAX_SDC_def)
  have d: "wf_devs (mission0 1)" by (simp add: wf_devs_def mission0_def)
  have "cam_list ([cam0], mission0 1) = [cam0]" "dev_list (mission0 1) = []"
    by (simp_all add: cam_list_def cam_refs_def dev_list_def mission0_def)
  with get_absent_faults [OF wf d, of "''8''"] get_absent_faults [OF wf d, of "''42''"]
  show ?thesis by simp
qed

end
