(* ===== verification/MissionMap.thy ===== *)
theory MissionMap
  imports MissionFacts
begin

text \<open>
  The global missions of \<open>src/mission.cpp\<close>: a \<open>std::map<int, CMission>\<close>, kept as an association
  list in ascending order of the keys, the mission \<open>G_missionUnstart\<close> of the ungrouped objects,
  the list of results \<open>G_illegalCapVectorMap\<close> and the heap of cameras they all point into.
  The loops over the map compare the mission's own number, not its key.
\<close>

record world =
  w_cams :: cam_heap
  w_missions :: "(int \<times> CMission) list"
  w_unstart :: CMission
  w_results :: "IlligalProcResult list"

section \<open>The map\<close>

text \<open>\<open>insert\<close> leaves an existing key's mission alone.\<close>

fun map_insert :: "int \<Rightarrow> 'a \<Rightarrow> (int \<times> 'a) list \<Rightarrow> (int \<times> 'a) list" where
  "map_insert k v [] = [(k, v)]"
| "map_insert k v ((l, w) # xs) =
     (if k < l then (k, v) # (l, w) # xs
      else if k = l then (l, w) # xs
      else (l, w) # map_insert k v xs)"

fun map_erase :: "int \<Rightarrow> (int \<times> 'a) list \<Rightarrow> (int \<times> 'a) list" where
  "map_erase k [] = []"
| "map_erase k ((l, w) # xs) = (if k = l then xs else (l, w) # map_erase k xs)"

definition MissionAdd :: "CMission \<Rightarrow> world \<Rightarrow> world" where
  "MissionAdd msi w = w\<lparr>w_missions := map_insert (sint (ms_missionNum msi)) msi (w_missions w)\<rparr>"

definition MissionDelete :: "CMission \<Rightarrow> world \<Rightarrow> world" where
  "MissionDelete msi w = w\<lparr>w_missions := map_erase (sint (ms_missionNum msi)) (w_missions w)\<rparr>"

text \<open>
  \<open>find\<close> may be the end of the map. The code forms the address of \<open>second\<close> of it, which C++ leaves undefined; the
  pointer is never null, so the tests of the callers do not help.
\<close>

definition MissionGet :: "int \<Rightarrow> world \<Rightarrow> CMission option" where
  "MissionGet num w = map_of (w_missions w) num"

definition set_mission :: "nat \<Rightarrow> CMission \<Rightarrow> world \<Rightarrow> world" where
  "set_mission i ms w = w\<lparr>w_missions := (w_missions w)[i := (fst (w_missions w ! i), ms)]\<rparr>"

text \<open>The first mission whose own number is \<open>num\<close>\<close>

definition find_mission :: "u32 \<Rightarrow> world \<Rightarrow> nat option" where
  "find_mission num w = find_index (\<lambda>(_, ms). num = ms_missionNum ms) (w_missions w)"

definition mission_at :: "nat \<Rightarrow> world \<Rightarrow> CMission" where
  "mission_at i w = snd (w_missions w ! i)"

section \<open>Operations on the mission of a number\<close>

fun MissionMatch_loop :: "(int \<times> CMission) list \<Rightarrow> CCaptureDevice \<Rightarrow> int option" where
  "MissionMatch_loop [] dev = Some (- 1)"
| "MissionMatch_loop ((k, ms) # xs) dev = do {
     r \<leftarrow> CMission_match ms dev;
     (if r = 0 then Some (sint (ms_missionNum ms)) else MissionMatch_loop xs dev)
   }"

definition MissionMatch :: "CCaptureDevice \<Rightarrow> world \<Rightarrow> int option" where
  "MissionMatch dev w = MissionMatch_loop (w_missions w) dev"

definition MissionAddSDC :: "CSpeedDomeCam \<Rightarrow> CSpeedDomeCam \<Rightarrow> world \<Rightarrow> (int \<times> world) option" where
  "MissionAddSDC raw sdc w =
     (case find_mission (sc_missionNum (dc_m_sdcCfg sdc)) w of
        None \<Rightarrow> Some (- 1, w)
      | Some i \<Rightarrow> do {
          (cams, ms) \<leftarrow> addSDC raw (w_cams w) (mission_at i w) sdc;
          Some (0, set_mission i ms (w\<lparr>w_cams := cams\<rparr>))
        })"

text \<open>\<open>MissionAddPreset\<close> offers the preset to every mission in turn until one takes it.\<close>

fun MissionAddPreset_loop ::
  "cam_heap \<Rightarrow> (int \<times> CMission) list \<Rightarrow> Preset \<Rightarrow> (int \<times> cam_heap) option" where
  "MissionAddPreset_loop cams [] preset = Some (- 1, cams)"
| "MissionAddPreset_loop cams ((k, ms) # xs) preset = do {
     (r, cams) \<leftarrow> addPreset cams ms preset;
     (if r = 0 then Some (0, cams) else MissionAddPreset_loop cams xs preset)
   }"

definition MissionAddPreset :: "Preset \<Rightarrow> world \<Rightarrow> (int \<times> world) option" where
  "MissionAddPreset preset w =
     map_option (\<lambda>(r, cams). (r, w\<lparr>w_cams := cams\<rparr>))
       (MissionAddPreset_loop (w_cams w) (w_missions w) preset)"

definition MissionUpdateSDC :: "CSpeedDomeCam \<Rightarrow> CSpeedDomeCam \<Rightarrow> world \<Rightarrow> (int \<times> world) option" where
  "MissionUpdateSDC raw sdc w =
     (case find_mission (sc_missionNum (dc_m_sdcCfg sdc)) w of
        None \<Rightarrow> Some (- 1, w)
      | Some i \<Rightarrow> do {
          (r, cams, ms) \<leftarrow> updateSDC (w_cams w) (mission_at i w) sdc;
          (cams, ms) \<leftarrow> (if r = - 1 then addSDC raw cams ms sdc else Some (cams, ms));
          Some (0, set_mission i ms (w\<lparr>w_cams := cams\<rparr>))
        })"

definition MissionAddCapDev :: "CCaptureDevice \<Rightarrow> world \<Rightarrow> (int \<times> world) option" where
  "MissionAddCapDev dev w =
     (case find_mission (cd_missionNum dev) w of
        None \<Rightarrow> Some (- 1, w)
      | Some i \<Rightarrow> map_option (\<lambda>ms. (0, set_mission i ms w)) (addCapDev (mission_at i w) dev))"

section \<open>Moving cameras between missions\<close>

text \<open>
  \<open>sdc->m_sdcCfg.missionNum = req.dts_num\<close> through the shared pointer, a null pointer being a
  fault.
\<close>

definition set_missionNum :: "u32 \<Rightarrow> cam_heap \<Rightarrow> cam_ref option \<Rightarrow> cam_heap option" where
  "set_missionNum num cams p = upd_cam cams p (upd_cfg (\<lambda>cfg. cfg\<lparr>sc_missionNum := num\<rparr>))"

text \<open>From the ungrouped cameras into the mission \<open>dts_num\<close>\<close>

definition move_SDC_in ::
  "CSpeedDomeCam \<Rightarrow> missionGroupChgReq \<Rightarrow> nat \<Rightarrow> world \<Rightarrow> (int \<times> world) option" where
  "move_SDC_in raw req i w = do {
     sdc \<leftarrow> getSDC (w_cams w) (w_unstart w) (gr_num req);
     (if sdc = None then Some (- 1, w)
      else do {
        cams \<leftarrow> set_missionNum (gr_dts_num req) (w_cams w) sdc;
        (cams, ms) \<leftarrow> addSDC_ptr raw cams (mission_at i w) sdc;
        _ \<leftarrow> showCfg cams ms;
        (_, un) \<leftarrow> removeSDC cams (w_unstart w) (gr_num req);
        Some (0, set_mission i ms (w\<lparr>w_cams := cams, w_unstart := un\<rparr>))
      })
   }"

text \<open>From the mission \<open>ori_num\<close> to the ungrouped cameras\<close>

definition move_SDC_out ::
  "CSpeedDomeCam \<Rightarrow> missionGroupChgReq \<Rightarrow> nat \<Rightarrow> world \<Rightarrow> (int \<times> world) option" where
  "move_SDC_out raw req i w = do {
     sdc \<leftarrow> getSDC (w_cams w) (mission_at i w) (gr_num req);
     cams \<leftarrow> set_missionNum (gr_dts_num req) (w_cams w) sdc;
     (cams, un) \<leftarrow> addSDC_ptr raw cams (w_unstart w) sdc;
     _ \<leftarrow> showCfg cams un;
     (_, ms) \<leftarrow> removeSDC cams (mission_at i w) (gr_num req);
     Some (0, set_mission i ms (w\<lparr>w_cams := cams, w_unstart := un\<rparr>))
   }"

definition MissionUpdateSDCMissionGroup ::
  "CSpeedDomeCam \<Rightarrow> missionGroupChgReq \<Rightarrow> world \<Rightarrow> (int \<times> world) option" where
  "MissionUpdateSDCMissionGroup raw req w =
     (if gr_ori_num req = - 1 then
        (case find_mission (gr_dts_num req) w of
           None \<Rightarrow> Some (- 1, w) | Some i \<Rightarrow> move_SDC_in raw req i w)
      else
        (case find_mission (gr_ori_num req) w of
           None \<Rightarrow> Some (- 1, w) | Some i \<Rightarrow> move_SDC_out raw req i w))"

section \<open>Moving capture devices between missions\<close>

text \<open>
  \<open>getCapDev\<close> gives a pointer into the array of the mission it searched; the test for a null
  pointer never holds. The device's number of mission is set in place before it is copied.
\<close>

definition retag_CapDev :: "u32 \<Rightarrow> nat \<Rightarrow> CMission \<Rightarrow> CMission" where
  "retag_CapDev num j ms =
     ms\<lparr>ms_capDev := (ms_capDev ms)(j := (ms_capDev ms j)\<lparr>cd_missionNum := num\<rparr>)\<rparr>"

definition move_CapDev_in :: "missionGroupChgReq \<Rightarrow> nat \<Rightarrow> world \<Rightarrow> (int \<times> world) option" where
  "move_CapDev_in req i w = do {
     j \<leftarrow> getCapDev (w_unstart w) (gr_num req);
     let un = retag_CapDev (gr_dts_num req) j (w_unstart w);
     ms \<leftarrow> addCapDev (mission_at i w) (ms_capDev un j);
     _ \<leftarrow> showCfg (w_cams w) ms;
     (_, un) \<leftarrow> removeCapDev un (gr_num req);
     Some (0, set_mission i ms (w\<lparr>w_unstart := un\<rparr>))
   }"

definition move_CapDev_out :: "missionGroupChgReq \<Rightarrow> nat \<Rightarrow> world \<Rightarrow> (int \<times> world) option" where
  "move_CapDev_out req i w = do {
     j \<leftarrow> getCapDev (mission_at i w) (gr_num req);
     let ms = retag_CapDev (gr_dts_num req) j (mission_at i w);
     un \<leftarrow> addCapDev (w_unstart w) (ms_capDev ms j);
     _ \<leftarrow> showCfg (w_cams w) un;
     (_, ms) \<leftarrow> removeCapDev ms (gr_num req);
     Some (0, set_mission i ms (w\<lparr>w_unstart := un\<rparr>))
   }"

definition MissionUpdateCapDevMissionGroup ::
  "missionGroupChgReq \<Rightarrow> world \<Rightarrow> (int \<times> world) option" where
  "MissionUpdateCapDevMissionGroup req w =
     (if gr_ori_num req = - 1 then
        (case find_mission (gr_dts_num req) w of
           None \<Rightarrow> Some (- 1, w) | Some i \<Rightarrow> move_CapDev_in req i w)
      else
        (case find_mission (gr_ori_num req) w of
           None \<Rightarrow> Some (- 1, w) | Some i \<Rightarrow> move_CapDev_out req i w))"

end
