(* ===== verification/Protocol.thy ===== *)
theory Protocol
  imports ProtocolTypes
begin

text \<open>
  \<open>CProtocol\<close> of \<open>src/protocol.cpp\<close>: parsing the capture devices' frames and packaging the
  server's. A \<open>NULL\<close> pointer argument is \<open>None\<close>. Byte order, character-set conversion, local
  time, \<open>boost::lexical_cast\<close> and the file system belong to the host and are gathered in the
  record \<open>host\<close>, which every function that uses one of them takes as an argument.
\<close>

section \<open>The host\<close>

record host =
  h_setlocale :: "string \<Rightarrow> bool"
  h_mbstowcs :: "string \<Rightarrow> nat list option"
  h_wcstombs :: "nat list \<Rightarrow> string option"
  h_localtime :: "string \<Rightarrow> u64 \<Rightarrow> string"
  h_open :: "string \<Rightarrow> bool"
  h_lexical_cast :: "int \<Rightarrow> string"

datatype fs_op = Mkdir string | Append string "byte list"

section \<open>Byte order\<close>

definition reversebytes_uint16t :: "u16 \<Rightarrow> u16" where
  "reversebytes_uint16t v = push_bit 8 (v AND 0x00FF) OR drop_bit 8 (v AND 0xFF00)"

definition reversebytes_uint32t :: "u32 \<Rightarrow> u32" where
  "reversebytes_uint32t v =
     push_bit 24 (v AND 0x000000FF) OR push_bit 8 (v AND 0x0000FF00) OR
     drop_bit 8 (v AND 0x00FF0000) OR drop_bit 24 (v AND 0xFF000000)"

definition reversebytes_uint64t :: "u64 \<Rightarrow> u64" where
  "reversebytes_uint64t v =
     (let high = ucast (reversebytes_uint32t (ucast v)) :: u64;
          low = ucast (reversebytes_uint32t (ucast (drop_bit 32 v))) :: u64
      in push_bit 32 high + low)"

text \<open>\<open>ntohl\<close>, \<open>htonl\<close>, \<open>ntohs\<close>, \<open>htons\<close> on a little-endian host: the value with its bytes reversed.\<close>

definition ntohl :: "u32 \<Rightarrow> u32" where
  "ntohl w = le_dec (rev (le_enc 4 w))"

definition ntohs :: "u16 \<Rightarrow> u16" where
  "ntohs w = le_dec (rev (le_enc 2 w))"

lemma le_enc_ntohl: "le_enc 4 (ntohl w) = rev (le_enc 4 w)"
proof -
  have "le_enc (length (rev (le_enc 4 w))) (le_dec (rev (le_enc 4 w)) :: u32) = rev (le_enc 4 w)"
    by (rule le_enc_le_dec) simp
  then show ?thesis by (simp add: ntohl_def)
qed

lemma ntohl_ntohl [simp]: "ntohl (ntohl w) = w"
  by (subst (1) ntohl_def) (simp add: le_enc_ntohl)

lemma le_enc_2: "le_enc 2 w = [ucast w, ucast (drop_bit 8 w)]"
  by (simp add: numeral_eq_Suc)

lemma le_enc_4:
  "le_enc 4 w = [ucast w, ucast (drop_bit 8 w), ucast (drop_bit 16 w), ucast (drop_bit 24 w)]"
  by (simp add: numeral_eq_Suc)

lemma ntohs_eq_reversebytes: "reversebytes_uint16t w = ntohs w"
proof -
  have m: "(0x00FF :: u16) = mask 8" "(0xFF00 :: u16) = push_bit 8 (mask 8)"
    by (simp_all add: mask_eq_exp_minus_1)
  show ?thesis
    unfolding ntohs_def reversebytes_uint16t_def m le_enc_2
    by (rule bit_word_eqI)
      (auto simp: bit_or_iff bit_and_iff bit_push_bit_iff bit_drop_bit_eq bit_mask_iff bit_unsigned_iff)
qed

lemma ntohl_eq_reversebytes: "reversebytes_uint32t w = ntohl w"
proof -
  have m: "(0x000000FF :: u32) = mask 8" "(0x0000FF00 :: u32) = push_bit 8 (mask 8)"
    "(0x00FF0000 :: u32) = push_bit 16 (mask 8)" "(0xFF000000 :: u32) = push_bit 24 (mask 8)"
    by (simp_all add: mask_eq_exp_minus_1)
  show ?thesis
    unfolding ntohl_def reversebytes_uint32t_def m le_enc_4
    by (rule bit_word_eqI)
      (auto simp: bit_or_iff bit_and_iff bit_push_bit_iff bit_drop_bit_eq bit_mask_iff bit_unsigned_iff)
qed


section \<open>Parsing fixed-layout frames\<close>

definition ParseFrameHead :: "ptr option \<Rightarrow> int \<Rightarrow> ProtocolHead \<Rightarrow> (int \<times> ProtocolHead) option" where
  "ParseFrameHead frameBuff buffSize head =
     (case frameBuff of
        None \<Rightarrow> Some (- 1, head)
      | Some p \<Rightarrow>
          if buffSize < 0 then Some (- 1, head)
          else do {
            (w, p) \<leftarrow> rd32 p;
            (t, p) \<leftarrow> rd8 p;
            Some (0, head\<lparr>ph_frameSize := ntohl w, ph_type := t\<rparr>)
          })"

text \<open>\<open>memcpy(dst, p, n)\<close> into a larger array keeps the array's tail.\<close>

definition memcpy_into :: "byte list \<Rightarrow> byte list \<Rightarrow> byte list option" where
  "memcpy_into bs dst =
     (if length bs \<le> length dst then Some (bs @ drop (length bs) dst) else None)"

definition ParseLoginInfo :: "ptr option \<Rightarrow> int \<Rightarrow> LoginInfo \<Rightarrow> (int \<times> LoginInfo) option" where
  "ParseLoginInfo frameBuff buffSize li =
     (case frameBuff of
        None \<Rightarrow> Some (- 1, li)
      | Some f \<Rightarrow>
          if buffSize < 0 then Some (- 1, li)
          else do {
            (dt, p) \<leftarrow> rd8 f;
            (mac, p) \<leftarrow> rd_bytes 6 p;
            (nl, p) \<leftarrow> rd8 p;
            (nm, p) \<leftarrow> rd_bytes (unat nl) p;
            name \<leftarrow> memcpy_into nm (li_name li);
            (dl, p) \<leftarrow> rd8 p;
            (dn, p) \<leftarrow> rd_bytes (unat dl) p;
            devNum \<leftarrow> memcpy_into dn (li_devNum li);
            (ip, p) \<leftarrow> rd_bytes 4 p;
            (mask, p) \<leftarrow> rd_bytes 4 p;
            (gw, p) \<leftarrow> rd_bytes 4 p;
            (sip, p) \<leftarrow> rd_bytes 4 p;
            (port, _) \<leftarrow> rd16 p;
            Some (int (length f) - int (length p),
              li\<lparr>li_devType := dt, li_MAC := mac, li_nameLen := nl, li_name := name,
                 li_devNumLen := dl, li_devNum := devNum, li_IP := ip, li_MASK := mask,
                 li_gateway := gw, li_serverIP := sip, li_serverPort := ntohs port\<rparr>)
          })"

definition ParseTDR :: "ptr option \<Rightarrow> int \<Rightarrow> ThreeDirReq \<Rightarrow> (int \<times> ThreeDirReq) option" where
  "ParseTDR frameBuff buffSize tdr =
     (case frameBuff of
        None \<Rightarrow> Some (- 1, tdr)
      | Some f \<Rightarrow>
          if buffSize < 0 then Some (- 1, tdr)
          else do {
            (_, p) \<leftarrow> rd32 f;
            (_, p) \<leftarrow> rd8 p;
            (rw, p) \<leftarrow> rd16 p;
            (rh, p) \<leftarrow> rd16 p;
            (zl, p) \<leftarrow> rd16 p;
            (zt, p) \<leftarrow> rd16 p;
            (zr, p) \<leftarrow> rd16 p;
            (zb, p) \<leftarrow> rd16 p;
            Some (int (length f) - int (length p),
              tdr\<lparr>td_ratioWidth := rw, td_ratioHeight := rh, td_zoomLeft := zl,
                  td_zoomTop := zt, td_zoomRight := zr, td_zoombottom := zb\<rparr>)
          })"

section \<open>Character-set conversion\<close>

text \<open>
  \<open>gbk2utf8(utfstr, srcstr, maxutfstrlen)\<close>: the host converts GBK to wide characters and these
  to UTF-8; the function returns the length and stores the bytes with a final NUL.
\<close>

definition gbk2utf8 :: "host \<Rightarrow> byte list \<Rightarrow> ptr option \<Rightarrow> nat \<Rightarrow> (int \<times> byte list) option" where
  "gbk2utf8 h utfstr srcstr maxlen =
     (case srcstr of
        None \<Rightarrow> Some (- 1, utfstr)
      | Some src \<Rightarrow>
          if \<not> h_setlocale h ''zh_CN.gbk'' then Some (- 1, utfstr)
          else do {
            s \<leftarrow> cstr src;
            (case h_mbstowcs h s of
               None \<Rightarrow> Some (- 1, utfstr)
             | Some ws \<Rightarrow>
                 if ws = [] then Some (- 1, utfstr)
                 else if \<not> h_setlocale h ''zh_CN.utf8'' then Some (- 1, utfstr)
                 else
                   (case h_wcstombs h ws of
                      None \<Rightarrow> Some (- 1, utfstr)
                    | Some u \<Rightarrow>
                        if u = [] then Some (- 1, utfstr)
                        else if maxlen \<le> length u then Some (- 1, utfstr)
                        else do {
                          d \<leftarrow> patch 0 (str_bytes u @ [0]) utfstr;
                          Some (int (length u), d)
                        }))
          })"

text \<open>
  Both snapshot parsers convert the plate into \<open>char cutf8[124]\<close> and then store
  \<open>cutf8[size] = 0\<close> without looking at \<open>size\<close>: an index of \<open>-1\<close> is outside the array.
\<close>

definition plate_utf8 :: "host \<Rightarrow> byte list \<Rightarrow> string option" where
  "plate_utf8 h tmpStr = do {
     (size, cutf8) \<leftarrow> gbk2utf8 h (replicate 124 0) (Some tmpStr) 124;
     cutf8 \<leftarrow> (if size < 0 then None else patch (nat size) [0] cutf8);
     cstr cutf8
   }"

section \<open>Snapshot results\<close>

text \<open>
  \<open>ParseSnapResult\<close> (frame type 11, first segment). \<open>stk\<close> is what the uninitialised
  \<open>char tmpStr[1024]\<close> holds. The pointer is not advanced over the plate number.
\<close>

definition ParseSnapResult ::
  "host \<Rightarrow> byte list \<Rightarrow> ptr option \<Rightarrow> int \<Rightarrow> IlligalProcResult \<Rightarrow>
   (int \<times> IlligalProcResult) option" where
  "ParseSnapResult h stk frameBuff buffSize res =
     (case frameBuff of
        None \<Rightarrow> Some (- 1, res)
      | Some f \<Rightarrow>
          if buffSize < 0 then Some (- 1, res)
          else do {
            (fs, p) \<leftarrow> rd32 f;
            (_, p) \<leftarrow> rd8 p;
            (cl, p) \<leftarrow> rd8 p;
            (bs, p) \<leftarrow> rd_bytes (min (unat cl) 1024) p;
            tmpStr \<leftarrow> memcpy_into bs stk;
            cam \<leftarrow> cstr tmpStr;
            (pv, p) \<leftarrow> rd32 p;
            (pc, p) \<leftarrow> rd8 p;
            (pl, p) \<leftarrow> rd8 p;
            (bs, _) \<leftarrow> rd_bytes (min (unat pl) 1024) p;
            tmpStr \<leftarrow> memcpy_into bs tmpStr;
            plate \<leftarrow> plate_utf8 h tmpStr;
            (vl, p) \<leftarrow> rd8 p;
            (bs, p) \<leftarrow> rd_bytes (min (unat vl) 1024) p;
            tmpStr \<leftarrow> memcpy_into bs tmpStr;
            vedio \<leftarrow> cstr tmpStr;
            (pn, p) \<leftarrow> rd8 p;
            (t, p) \<leftarrow> rd64 p;
            let szTmp = h_localtime h ''%Y%m%d%H%M%S'' (t div 1000);
            Some (int (length f) - int (length p) + int (length szTmp),
              res\<lparr>ir_frameSize := fs, ir_camNumLen := cl, ir_camNum := cam,
                  ir_plateVariety := pv, ir_plateColor := pc, ir_plateNumLen := pl,
                  ir_plateNum := plate, ir_vedioNameLen := vl, ir_vedioName := vedio,
                  ir_picNum := pn, ir_capTime := szTmp\<rparr>)
          })"

text \<open>
  The part of \<open>ParseSnapResultPic\<close> before the pictures. Here the temporary is cleared before
  the camera and the plate number, but not before the video name.
\<close>

definition ParseSnapResultPic_head ::
  "host \<Rightarrow> byte list \<Rightarrow> ptr \<Rightarrow> IlligalProcResult \<Rightarrow> (IlligalProcResult \<times> ptr) option" where
  "ParseSnapResultPic_head h stk f res = do {
     (fs, p) \<leftarrow> rd32 f;
     (_, p) \<leftarrow> rd8 p;
     (cl, p) \<leftarrow> rd8 p;
     (bs, p) \<leftarrow> rd_bytes (min (unat cl) 1024) p;
     tmpStr \<leftarrow> memcpy_into bs (replicate (length stk) 0);
     cam \<leftarrow> cstr tmpStr;
     (pv, p) \<leftarrow> rd32 p;
     (pc, p) \<leftarrow> rd8 p;
     (pl, p) \<leftarrow> rd8 p;
     (bs, p) \<leftarrow> rd_bytes (min (unat pl) 1024) p;
     tmpStr \<leftarrow> memcpy_into bs (replicate (length stk) 0);
     plate \<leftarrow> plate_utf8 h tmpStr;
     (vl, p) \<leftarrow> rd8 p;
     (bs, p) \<leftarrow> rd_bytes (min (unat vl) 1024) p;
     tmpStr \<leftarrow> memcpy_into bs tmpStr;
     vedio \<leftarrow> cstr tmpStr;
     (pn, p) \<leftarrow> rd8 p;
     Some (res\<lparr>ir_frameSize := fs, ir_camNumLen := cl, ir_camNum := cam,
               ir_plateVariety := pv, ir_plateColor := pc, ir_plateNumLen := pl,
               ir_plateNum := plate, ir_vedioNameLen := vl, ir_vedioName := vedio,
               ir_picNum := pn\<rparr>, p)
   }"

text \<open>One round of the picture loop: the state is the result, the directory, the pointer and
  the file-system calls made so far.\<close>

type_synonym pic_state = "IlligalProcResult \<times> string \<times> ptr \<times> fs_op list"

definition ParseSnapResultPic_step :: "host \<Rightarrow> nat \<Rightarrow> pic_state \<Rightarrow> pic_state option" where
  "ParseSnapResultPic_step h i s = (case s of (res, dir, p, ops) \<Rightarrow> do {
     (t, p) \<leftarrow> rd64 p;
     let tt = t div 1000;
     let szTmp = h_localtime h ''%Y%m%d%H%M%S'' tt;
     let (res, dir, ops) =
       (if i = 0 then
          (res\<lparr>ir_capTime := h_localtime h ''%Y-%m-%d.%H:%M:%S'' tt\<rparr>,
           dir @ szTmp @ ''/'', ops @ [Mkdir (dir @ szTmp)])
        else (res, dir, ops));
     let fileName = dir @ ir_camNum res @ ''-'' @ ir_plateNum res @ ''-'' @ szTmp @ ''-'' @
       h_lexical_cast h (int i) @ ''_'' @ h_lexical_cast h (int i) @ ''.jpg'';
     (size, p) \<leftarrow> rd32 p;
     res \<leftarrow> (if i < MAX_PIC then Some (res\<lparr>ir_picName := (ir_picName res)(i := fileName)\<rparr>)
            else None);
     (if h_open h fileName then do {
        (bs, p) \<leftarrow> rd_bytes (unat size) p;
        Some (res, dir, p, ops @ [Append fileName bs])
      } else Some (res, dir, p, ops))
   })"

definition ParseSnapResultPic ::
  "host \<Rightarrow> byte list \<Rightarrow> ptr option \<Rightarrow> int \<Rightarrow> IlligalProcResult \<Rightarrow>
   (int \<times> IlligalProcResult \<times> fs_op list) option" where
  "ParseSnapResultPic h stk frameBuff buffSize res =
     (case frameBuff of
        None \<Rightarrow> Some (- 1, res, [])
      | Some f \<Rightarrow>
          if buffSize < 0 then Some (- 1, res, [])
          else do {
            (res, p) \<leftarrow> ParseSnapResultPic_head h stk f res;
            let dir = ''/home/pic/'' @ ir_camNum res;
            (res, _, _, ops) \<leftarrow> for_loop 0 (unat (ir_picNum res)) (ParseSnapResultPic_step h)
              (res, dir @ ''/'', p, [Mkdir dir]);
            Some (buffSize, res, ops)
          })"


section \<open>Packaging\<close>

definition PackageResponeFrame ::
  "byte list option \<Rightarrow> RESPONE_TYPE \<Rightarrow> byte \<Rightarrow> (int \<times> byte list) option" where
  "PackageResponeFrame frameBuff responeType respone =
     (case frameBuff of
        None \<Rightarrow> Some (- 1, [])
      | Some b \<Rightarrow> do {
          b \<leftarrow> patch 0 (replicate 6 0) b;
          b \<leftarrow> patch 4 [respone_code responeType] b;
          b \<leftarrow> patch 5 [respone] b;
          b \<leftarrow> patch 0 (le_enc 4 (6 :: u32)) b;
          Some (6, b)
        })"

definition PackageSnapScheduleFrame ::
  "byte list option \<Rightarrow> SnapSchedule \<Rightarrow> (int \<times> byte list \<times> SnapSchedule) option" where
  "PackageSnapScheduleFrame frameBuff vfs =
     (case frameBuff of
        None \<Rightarrow> Some (- 1, [], vfs)
      | Some b \<Rightarrow> do {
          b \<leftarrow> patch 4 [4] b;
          let vfs = vfs\<lparr>ss_mode := 1\<rparr>;
          s \<leftarrow> skip 5 (at_start b);
          s \<leftarrow> wr8 (ss_mode vfs) s;
          s \<leftarrow> skip 1 s;
          s \<leftarrow> wr_lstr (ss_RTSPaddr vfs) s;
          s \<leftarrow> wr_lstr (ss_BrandName vfs) s;
          s \<leftarrow> wr_lstr (ss_productType vfs) s;
          s \<leftarrow> wr_bytes (illpark_bytes (ss_illparkpara vfs)) s;
          s \<leftarrow> wr_bytes (rect_bytes (ss_rect vfs)) s;
          s \<leftarrow> wr32 (ss_plateMinWidth vfs) s;
          s \<leftarrow> wr32 (ss_plateMinWidth vfs) s;
          s \<leftarrow> wr_lstr (ss_camNum vfs) s;
          b \<leftarrow> patch 0 (le_enc 4 (word_of_nat (length (fst s)) :: u32)) (buf_of s);
          Some (int (length (fst s)), b, vfs)
        })"

definition PackageVehicleFlowScheduleFrame ::
  "byte list option \<Rightarrow> VehicleFlowSchedule \<Rightarrow> (int \<times> byte list) option" where
  "PackageVehicleFlowScheduleFrame frameBuff vfs =
     (case frameBuff of
        None \<Rightarrow> Some (- 1, [])
      | Some b \<Rightarrow> do {
          b \<leftarrow> patch 4 [4] b;
          s \<leftarrow> skip 5 (at_start b);
          s \<leftarrow> wr_lstr (vf_RTSPaddr vfs) s;
          s \<leftarrow> wr_lstr (vf_BrandName vfs) s;
          s \<leftarrow> wr_lstr (vf_productType vfs) s;
          s \<leftarrow> skip 108 s;
          s \<leftarrow> wr32 (ntohl (rc_left (vf_rect vfs))) s;
          s \<leftarrow> wr32 (ntohl (rc_right (vf_rect vfs))) s;
          s \<leftarrow> wr32 (ntohl (rc_top (vf_rect vfs))) s;
          s \<leftarrow> wr32 (ntohl (rc_bottom (vf_rect vfs))) s;
          s \<leftarrow> wr32 (ntohl 10) s;
          s \<leftarrow> wr32 (ntohl 30) s;
          s \<leftarrow> wr_lstr (vf_camNum vfs) s;
          b \<leftarrow> patch 0 (le_enc 4 (word_of_nat (length (fst s)) :: u32)) (buf_of s);
          Some (int (length (fst s)), b)
        })"

section \<open>The magic number of the capture-device protocol\<close>

fun match_at :: "byte list \<Rightarrow> ptr \<Rightarrow> bool option" where
  "match_at [] p = Some True"
| "match_at (x # xs) p =
     Option.bind (rd8 p) (\<lambda>(b, q). if x = b then match_at xs q else Some False)"

definition magic_bytes :: "byte list" where
  "magic_bytes = [2, 1, 4, 3, 6, 5, 8, 7]"

definition FindMagic :: "ptr \<Rightarrow> int \<Rightarrow> int option" where
  "FindMagic frameBuff buffSize =
     map_option (\<lambda>r. case r of Some i \<Rightarrow> int i | None \<Rightarrow> - 1)
       (scan (\<lambda>i. match_at magic_bytes (drop i frameBuff)) 0 (nat (buffSize - 8)))"

section \<open>Device numbers\<close>

text \<open>
  \<open>ispunct\<close> in the C locale. The copy \<open>new char[size]; strcpy\<close> stores \<open>size + 1\<close> bytes into
  an allocation of \<open>size\<close>; the string has no NUL inside when it came from a C string. The
  empty string returns \<open>false\<close>, that is 0.
\<close>

definition ispunct :: "byte \<Rightarrow> bool" where
  "ispunct b \<longleftrightarrow> (33 \<le> b \<and> b \<le> 47) \<or> (58 \<le> b \<and> b \<le> 64) \<or> (91 \<le> b \<and> b \<le> 96) \<or> (123 \<le> b \<and> b \<le> 126)"

fun bad_chars :: "string \<Rightarrow> nat" where
  "bad_chars [] = 0"
| "bad_chars (c # s) =
     (if ord8 c \<le> 127 \<and> ispunct (ord8 c) then Suc (bad_chars s) else bad_chars s)"

definition checkTextChineseOrNumberOrLetter :: "string \<Rightarrow> int" where
  "checkTextChineseOrNumberOrLetter str =
     (if length str \<le> 0 then 0 else if bad_chars str > 0 then - 1 else 0)"


section \<open>Byte order: what is proved\<close>

lemma le_enc_ntohs: "le_enc 2 (ntohs w) = rev (le_enc 2 w)"
proof -
  have "le_enc (length (rev (le_enc 2 w))) (le_dec (rev (le_enc 2 w)) :: u16) = rev (le_enc 2 w)"
    by (rule le_enc_le_dec) simp
  then show ?thesis by (simp add: ntohs_def)
qed

lemma ntohs_ntohs [simp]: "ntohs (ntohs w) = w"
  by (subst (1) ntohs_def) (simp add: le_enc_ntohs)

lemma le_enc_append:
  "le_enc (m + n) w = le_enc m w @ le_enc n (drop_bit (8 * m) w)"
  by (induction m arbitrary: w) (auto simp: drop_bit_drop_bit add.commute)

lemma le_enc_ucast:
  fixes v :: "'a::len word"
  assumes "8 * n \<le> LENGTH('b)"
  shows "le_enc n (ucast v :: 'b::len word) = le_enc n v"
  using assms
proof (induction n arbitrary: v)
  case 0
  then show ?case by simp
next
  case (Suc n)
  have "(ucast (ucast v :: 'b word) :: byte) = ucast v"
    using Suc.prems by (intro bit_word_eqI) (auto simp: bit_unsigned_iff)
  moreover have "le_enc n (drop_bit 8 (ucast v :: 'b word)) = le_enc n (drop_bit 8 v)"
  proof -
    have "drop_bit 8 (ucast v :: 'b word) = take_bit (LENGTH('b) - 8) (ucast (drop_bit 8 v))"
      by (rule bit_word_eqI)
        (auto simp: bit_drop_bit_eq bit_unsigned_iff bit_take_bit_iff dest: bit_imp_le_length)
    moreover have "le_enc n (take_bit m x :: 'b word) = le_enc n x" if "8 * n \<le> m" for m x
      using that
    proof (induction n arbitrary: m x)
      case 0
      then show ?case by simp
    next
      case (Suc k)
      have "(ucast (take_bit m x) :: byte) = ucast x"
        using Suc.prems by (intro bit_word_eqI) (auto simp: bit_unsigned_iff bit_take_bit_iff)
      moreover have "drop_bit 8 (take_bit m x) = take_bit (m - 8) (drop_bit 8 x)"
        by (simp add: drop_bit_take_bit)
      ultimately show ?case using Suc by simp
    qed
    ultimately show ?thesis using Suc by simp
  qed
  ultimately show ?case by simp
qed

lemma le_enc_reversebytes64: "le_enc 8 (reversebytes_uint64t v) = rev (le_enc 8 v)"
proof -
  let ?hi = "ucast (ntohl (ucast v)) :: u64"
  let ?lo = "ucast (ntohl (ucast (drop_bit 32 v))) :: u64"
  have disj: "push_bit 32 ?hi AND ?lo = 0"
    by (rule bit_word_eqI)
      (auto simp: bit_and_iff bit_push_bit_iff bit_unsigned_iff dest: bit_imp_le_length)
  have sum: "reversebytes_uint64t v = push_bit 32 ?hi OR ?lo"
    using disj by (simp add: reversebytes_uint64t_def ntohl_eq_reversebytes disjunctive_add_eq_or)
  have low: "(ucast (reversebytes_uint64t v) :: u32) = ntohl (ucast (drop_bit 32 v))"
    unfolding sum by (rule bit_word_eqI)
      (auto simp: bit_or_iff bit_push_bit_iff bit_unsigned_iff)
  have high: "(ucast (drop_bit 32 (reversebytes_uint64t v)) :: u32) = ntohl (ucast v)"
    unfolding sum by (rule bit_word_eqI)
      (auto simp: bit_or_iff bit_push_bit_iff bit_unsigned_iff bit_drop_bit_eq
        dest: bit_imp_le_length)
  have split8: "le_enc 8 x = le_enc 4 (ucast x :: u32) @ le_enc 4 (ucast (drop_bit 32 x) :: u32)"
    for x :: u64
    using le_enc_append [of 4 4 x] by (simp add: le_enc_ucast)
  show ?thesis
    unfolding split8 low high le_enc_ntohl by simp
qed

text \<open>
  The three byte-reversal helpers reverse the bytes of their argument in memory, so each
  is its own inverse.
\<close>

theorem reversebytes_reverse_memory:
  "le_enc 2 (reversebytes_uint16t a) = rev (le_enc 2 a) \<and>
   le_enc 4 (reversebytes_uint32t b) = rev (le_enc 4 b) \<and>
   le_enc 8 (reversebytes_uint64t c) = rev (le_enc 8 c) \<and>
   reversebytes_uint16t (reversebytes_uint16t a) = a \<and>
   reversebytes_uint32t (reversebytes_uint32t b) = b \<and>
   reversebytes_uint64t (reversebytes_uint64t c) = c"
proof -
  have "le_dec (le_enc 8 (reversebytes_uint64t (reversebytes_uint64t c))) = (c :: u64)"
    by (simp only: le_enc_reversebytes64 rev_rev_ident) simp
  then have "reversebytes_uint64t (reversebytes_uint64t c) = c" by simp
  then show ?thesis
    by (simp add: ntohs_eq_reversebytes ntohl_eq_reversebytes le_enc_ntohs le_enc_ntohl
        le_enc_reversebytes64)
qed

end
