(* ===== verification/CaptureDevice.thy ===== *)
theory CaptureDevice
  imports Protocol Mission
begin

text \<open>
  \<open>CCaptureDevice\<close> of \<open>src/CaptureDevice.cpp\<close>: the timer-driven tour of a capture device's camera
  through its presets. What the code does to the outside (timer, socket, sleeping) is the list
  \<open>ds_out\<close> of events; \<open>ds_failed\<close> is the function's static counter, which all devices share.
\<close>

datatype dev_event =
  TimerArmed nat
| TimerCancelled
| AsyncWrite nat "byte list"
| Slept nat

record dev_state =
  ds_dev :: CCaptureDevice
  ds_cams :: cam_heap
  ds_log :: sdk_log
  ds_failed :: u32
  ds_out :: "dev_event list"

section \<open>Login and timer\<close>

text \<open>
  \<open>lexical_cast<string>\<close> of a character array is the C string in it; the decimal digits of a byte
  come from the host. \<open>IP\<close> and \<open>MAC\<close> are appended to, so a second \<open>init\<close> doubles them.
\<close>

definition dotted :: "host \<Rightarrow> byte list \<Rightarrow> string" where
  "dotted h bs = concat (map (\<lambda>b. h_lexical_cast h (uint b) @ ''.'') bs)"

definition CapDev_init :: "host \<Rightarrow> CCaptureDevice \<Rightarrow> nat option \<Rightarrow> LoginInfo \<Rightarrow> CCaptureDevice option" where
  "CapDev_init h dev socket li = do {
     name \<leftarrow> cstr (li_name li);
     num \<leftarrow> cstr (li_devNum li);
     (if length (li_IP li) = 4 \<and> length (li_MAC li) = 6 then
        Some (dev\<lparr>cd_socket := socket, cd_devName := name, cd_devNum := num,
          cd_devType := [chr8 (li_devType li)],
          cd_IP := cd_IP dev @ dotted h (li_IP li), cd_MAC := cd_MAC dev @ dotted h (li_MAC li)\<rparr>)
      else None)
   }"

text \<open>\<open>handle_write\<close>: whether the device deletes itself, for the error's message if there is one\<close>

definition CapDev_handle_write :: "string option \<Rightarrow> bool" where
  "CapDev_handle_write error =
     (case error of None \<Rightarrow> False | Some msg \<Rightarrow> ''Operation canceled'' @ [CHR 0x0D, CHR 0x0A] = msg)"

text \<open>\<open>timer->expires_at(timer->expires_at() + seconds(n)); timer->async_wait(...)\<close>\<close>

definition rearm :: "nat \<Rightarrow> dev_state \<Rightarrow> dev_state option" where
  "rearm n s =
     (case cd_timer (ds_dev s) of
        None \<Rightarrow> None
      | Some t \<Rightarrow> Some (s\<lparr>ds_dev := (ds_dev s)\<lparr>cd_timer := Some (t + n)\<rparr>,
          ds_out := ds_out s @ [TimerArmed (t + n)]\<rparr>))"

abbreviation set_dev :: "(CCaptureDevice \<Rightarrow> CCaptureDevice) \<Rightarrow> dev_state \<Rightarrow> dev_state" where
  "set_dev f s \<equiv> s\<lparr>ds_dev := f (ds_dev s)\<rparr>"

definition on_cam :: "(CSpeedDomeCam \<Rightarrow> CSpeedDomeCam) \<Rightarrow> dev_state \<Rightarrow> dev_state option" where
  "on_cam f s = map_option (\<lambda>cams. s\<lparr>ds_cams := cams\<rparr>)
     (upd_cam (ds_cams s) (cd_SpdDomeCam (ds_dev s)) f)"

definition the_cam :: "dev_state \<Rightarrow> CSpeedDomeCam option" where
  "the_cam s = deref (ds_cams s) (cd_SpdDomeCam (ds_dev s))"

definition preset_at :: "CSpeedDomeCam \<Rightarrow> u32 \<Rightarrow> Preset option" where
  "preset_at c i = (if unat i < MAX_PRESET then Some (sc_missionPreset (dc_m_sdcCfg c) (unat i)) else None)"

section \<open>One round of the mission\<close>

text \<open>Presets are held for at least two minutes; the configured time is read as a signed number.\<close>

definition holdtime :: "Preset \<Rightarrow> nat" where
  "holdtime pr = (if sint (pr_holdSeconds pr) < 120 then 120 else nat (sint (pr_holdSeconds pr)))"

text \<open>A failed \<open>Init\<close> frees the camera and restarts the tour, and the round goes on.\<close>

definition loop_init :: "sdk \<Rightarrow> dev_state \<Rightarrow> dev_state option" where
  "loop_init sdk s = do {
     c \<leftarrow> the_cam s;
     let (r, c, log) = Init sdk c (ds_log s);
     s \<leftarrow> on_cam (\<lambda>_. c) (s\<lparr>ds_log := log\<rparr>);
     (if r = - 1 then
        on_cam (\<lambda>c. c\<lparr>dc_isUsing := FREE, dc_curPTZposion := 0\<rparr>)
          (set_dev (\<lambda>d. d\<lparr>cd_missionStatus := MISSION_FAILD\<rparr>) s)
      else Some s)
   }"

text \<open>
  Turning to the current preset. Failures are counted over all devices and never forgotten by a
  success; the fourth fails the mission of the device it happens to.
\<close>

definition loop_turn :: "sdk \<Rightarrow> dev_state \<Rightarrow> dev_state option" where
  "loop_turn sdk s = do {
     c \<leftarrow> the_cam s;
     pr \<leftarrow> preset_at c (dc_curPTZposion c);
     let (r, log) = TurnPTZPreset sdk c (pr_presetNum pr) (ds_log s);
     let s = s\<lparr>ds_log := log\<rparr>;
     (if r = - 1 then do {
        let s = s\<lparr>ds_failed := ds_failed s + 1\<rparr>;
        s \<leftarrow> (if 3 < sint (ds_failed s) then
                map_option (\<lambda>s. s\<lparr>ds_failed := 0\<rparr>)
                  (on_cam (\<lambda>c. c\<lparr>dc_isUsing := FREE\<rparr>)
                    (set_dev (\<lambda>d. d\<lparr>cd_missionStatus := MISSION_FAILD\<rparr>) s))
              else Some s);
        rearm 1 s
      } else rearm (holdtime pr) s)
   }"

text \<open>
  The schedule sent to the device. \<open>vfs\<close> and \<open>data_write\<close> are on the stack and hold \<open>raw\<close> and
  \<open>stk\<close>; the strings of \<open>vfs\<close> are assigned, its length members are not used.
\<close>

definition snap_schedule :: "SnapSchedule \<Rightarrow> CSpeedDomeCam \<Rightarrow> Preset \<Rightarrow> SnapSchedule" where
  "snap_schedule raw c pr =
     (let cfg = dc_m_sdcCfg c
      in raw\<lparr>ss_RTSPaddr := sc_RTSPaddr cfg, ss_BrandName := sc_brandName cfg,
           ss_camNum := sc_camNum cfg, ss_productType := sc_productType cfg,
           ss_plateMaxWidth := sc_plateMaxWidth cfg, ss_plateMinWidth := sc_plateMinWidth cfg,
           ss_illparkpara := pr_illparkpara pr, ss_rect := pr_rect pr\<rparr>)"

definition loop_send :: "SnapSchedule \<Rightarrow> byte list \<Rightarrow> dev_state \<Rightarrow> dev_state option" where
  "loop_send raw stk s = do {
     c \<leftarrow> the_cam s;
     pr \<leftarrow> preset_at c (dc_curPTZposion c);
     (frameLen, data_write, _) \<leftarrow> PackageSnapScheduleFrame (Some stk) (snap_schedule raw c pr);
     sock \<leftarrow> cd_socket (ds_dev s);
     Some (s\<lparr>ds_out := ds_out s @ [AsyncWrite sock (take (nat frameLen) data_write)]\<rparr>)
   }"

text \<open>The next preset, or the end of the tour, which blocks for the last preset's holding time.\<close>

definition loop_advance :: "sdk \<Rightarrow> dev_state \<Rightarrow> dev_state option" where
  "loop_advance sdk s = do {
     s \<leftarrow> on_cam (\<lambda>c. c\<lparr>dc_curPTZposion := dc_curPTZposion c + 1\<rparr>) s;
     c \<leftarrow> the_cam s;
     (if ucast (sc_presetTotal (dc_m_sdcCfg c)) \<le> dc_curPTZposion c then do {
        pr \<leftarrow> preset_at c (dc_curPTZposion c - 1);
        let (_, log) = loginOut sdk c (ds_log s);
        on_cam (\<lambda>c. c\<lparr>dc_curPTZposion := 0, dc_isUsing := FREE\<rparr>)
          (set_dev (\<lambda>d. d\<lparr>cd_missionStatus := MISSION_COMPLETED\<rparr>)
            (s\<lparr>ds_log := log, ds_out := ds_out s @ [Slept (holdtime pr)]\<rparr>))
      } else Some s)
   }"

definition idle :: "dev_state \<Rightarrow> bool option" where
  "idle s =
     (if cd_missionStatus (ds_dev s) = MISSION_COMPLETED \<or>
         cd_missionStatus (ds_dev s) = MISSION_FAILD \<or> cd_SpdDomeCam (ds_dev s) = None
      then Some True
      else map_option (\<lambda>c. sc_presetTotal (dc_m_sdcCfg c) = 0) (the_cam s))"

definition MissoinLoop :: "sdk \<Rightarrow> SnapSchedule \<Rightarrow> byte list \<Rightarrow> dev_state \<Rightarrow> dev_state option" where
  "MissoinLoop sdk raw stk s =
     (if cd_run (ds_dev s) = 4 then
        (case cd_timer (ds_dev s) of
           None \<Rightarrow> None
         | Some _ \<Rightarrow> Some (s\<lparr>ds_out := ds_out s @ [TimerCancelled]\<rparr>))
      else do {
        i \<leftarrow> idle s;
        (if i then (if cd_timer (ds_dev s) = None then Some s else rearm 1 s)
         else do {
           s \<leftarrow> loop_init sdk s;
           s \<leftarrow> loop_turn sdk s;
           s \<leftarrow> loop_send raw stk s;
           loop_advance sdk s
         })
      })"

section \<open>Control\<close>

text \<open>
  \<open>_start\<close> runs on a thread of its own: it sets the timer three seconds ahead and then runs the
  loop each time the timer expires, until a round does not wait again. \<open>rounds n\<close> is the state
  after \<open>n\<close> expiries.
\<close>

definition CapDev_start :: "nat \<Rightarrow> dev_state \<Rightarrow> dev_state" where
  "CapDev_start now s =
     (if cd_run (ds_dev s) \<noteq> 0
      then s\<lparr>ds_dev := (ds_dev s)\<lparr>cd_timer := Some (now + 3)\<rparr>,
             ds_out := ds_out s @ [TimerArmed (now + 3)]\<rparr>
      else s)"

fun rounds :: "sdk \<Rightarrow> SnapSchedule \<Rightarrow> byte list \<Rightarrow> nat \<Rightarrow> dev_state \<Rightarrow> dev_state option" where
  "rounds sdk raw stk 0 s = Some s"
| "rounds sdk raw stk (Suc n) s = Option.bind (MissoinLoop sdk raw stk s) (rounds sdk raw stk n)"

definition reload_Preset :: "sdk \<Rightarrow> dev_state \<Rightarrow> dev_state option" where
  "reload_Preset sdk s = do {
     c \<leftarrow> the_cam s;
     (if 0 < dc_curPTZposion c then do {
        pr \<leftarrow> preset_at c (dc_curPTZposion c - 1);
        let (_, log) = TurnPTZPreset sdk c (pr_presetNum pr) (ds_log s);
        Some (s\<lparr>ds_log := log\<rparr>)
      } else Some s)
   }"

definition threeD_Request :: "sdk \<Rightarrow> dev_state \<Rightarrow> ThreeDirReq \<Rightarrow> (int \<times> dev_state) option" where
  "threeD_Request sdk s tdr =
     (if cd_SpdDomeCam (ds_dev s) = None then Some (- 1, s)
      else do {
        c \<leftarrow> the_cam s;
        (r, log) \<leftarrow> PTZSelZoomIn sdk c tdr (ds_log s);
        Some (r, s\<lparr>ds_log := log\<rparr>)
      })"

definition CapDev_stop :: "sdk \<Rightarrow> dev_state \<Rightarrow> dev_state option" where
  "CapDev_stop sdk s =
     (if cd_SpdDomeCam (ds_dev s) = None then Some s
      else do {
        c \<leftarrow> the_cam s;
        let (_, log) = loginOut sdk c (ds_log s);
        on_cam (\<lambda>c. c\<lparr>dc_isUsing := FREE\<rparr>) (set_dev (\<lambda>d. d\<lparr>cd_run := 4\<rparr>) (s\<lparr>ds_log := log\<rparr>))
      })"

end
