(* ===== verification/Session.thy ===== *)
theory Session
  imports MissionMap CaptureDevice
begin

text \<open>
  The session of one capture device, \<open>CCaptureDevSession\<close> of \<open>inc/session.h\<close>. What the session
  owns is the record \<open>session\<close>; what it shares with the other sessions is \<open>env\<close>: the missions,
  the calls made to the vendor library, the static failure counter of the tour and the effects
  on the outside in order. Every pending read of the socket is one \<open>ReadMore\<close> of that list.
\<close>

definition MAX_PACKET_LEN :: nat where
  "MAX_PACKET_LEN = 84210"

definition PIC_SIZE :: nat where
  "PIC_SIZE = 10485760"

datatype event =
  ReadMore
| Reply "byte list"
| Device dev_event
| File fs_op
| Deleted

record env =
  e_world :: world
  e_log :: sdk_log
  e_failed :: u32
  e_out :: "event list"

text \<open>
  \<open>curPicDataPos\<close> is its distance from \<open>picData\<close>; \<open>se_freeThis\<close> and \<open>se_recvCaprure\<close> are the
  flags read as booleans; \<open>se_alive\<close> says that the object has not been deleted. The pointer
  \<open>mission\<close> is only used by the handler that has just set it and is a local there.
\<close>

record session =
  se_socket :: nat
  se_data :: "byte list"
  se_picData :: "byte list"
  se_curPicDataPos :: nat
  se_data_write :: "byte list"
  se_recv_times :: u32
  se_status :: byte
  se_freeThis :: bool
  se_capDev :: CCaptureDevice
  se_res :: IlligalProcResult
  se_rcvdSzie :: u32
  se_recvCaprure :: bool
  se_alive :: bool

text \<open>What the locals of a handler hold before they are assigned.\<close>

record uninit =
  un_head :: ProtocolHead
  un_loginInfo :: LoginInfo
  un_tdr :: ThreeDirReq
  un_tmpStr :: "byte list"

datatype completion = Failed string | Transferred "byte list"

abbreviation set_capDev :: "(CCaptureDevice \<Rightarrow> CCaptureDevice) \<Rightarrow> session \<Rightarrow> session" where
  "set_capDev f s \<equiv> s\<lparr>se_capDev := f (se_capDev s)\<rparr>"

abbreviation emit :: "event list \<Rightarrow> env \<Rightarrow> env" where
  "emit evs e \<equiv> e\<lparr>e_out := e_out e @ evs\<rparr>"

section \<open>Construction\<close>

text \<open>
  The constructor of the session and of the device in it; members that neither initialises keep
  what \<open>raw\<close> holds.
\<close>

definition CCaptureDevice_new :: "CCaptureDevice \<Rightarrow> CCaptureDevice" where
  "CCaptureDevice_new raw = raw\<lparr>cd_isOnline := 0, cd_run := 1, cd_missionStatus := MISSION_READY,
     cd_loginInfo := \<lparr>li_devType = 0, li_MAC = replicate 6 0, li_nameLen = 0,
       li_name = replicate (length (li_name (cd_loginInfo raw))) 0, li_devNumLen = 0,
       li_devNum = replicate (length (li_devNum (cd_loginInfo raw))) 0, li_IP = replicate 4 0,
       li_MASK = replicate 4 0, li_gateway = replicate 4 0, li_serverIP = replicate 4 0,
       li_serverPort = 0\<rparr>,
     cd_devType := [], cd_IP := [], cd_MAC := [], cd_devNum := [], cd_devName := [],
     cd_curCamNum := [], cd_SpdDomeCam := None, cd_timer := None\<rparr>"

definition CCaptureDevSession :: "session \<Rightarrow> session" where
  "CCaptureDevSession raw = raw\<lparr>se_recv_times := 0, se_data := replicate MAX_PACKET_LEN 0,
     se_picData := replicate PIC_SIZE 0, se_curPicDataPos := 0, se_status := 1,
     se_freeThis := True, se_capDev := CCaptureDevice_new (se_capDev raw),
     se_res := (se_res raw)\<lparr>ir_camNum := [], ir_plateNum := [], ir_vedioName := [],
       ir_capTime := [], ir_picName := \<lambda>_. []\<rparr>,
     se_recvCaprure := False, se_alive := True\<rparr>"

definition session_start :: "env \<Rightarrow> env" where
  "session_start e = emit [ReadMore] e"

section \<open>Parts of the handlers\<close>

text \<open>The device of the session works on the shared cameras.\<close>

definition as_dev :: "session \<Rightarrow> env \<Rightarrow> dev_state" where
  "as_dev s e = \<lparr>ds_dev = se_capDev s, ds_cams = w_cams (e_world e), ds_log = e_log e,
     ds_failed = e_failed e, ds_out = []\<rparr>"

definition put_dev :: "dev_state \<Rightarrow> session \<Rightarrow> env \<Rightarrow> session \<times> env" where
  "put_dev d s e = (s\<lparr>se_capDev := ds_dev d\<rparr>,
     emit (map Device (ds_out d))
       (e\<lparr>e_world := (e_world e)\<lparr>w_cams := ds_cams d\<rparr>, e_log := ds_log d, e_failed := ds_failed d\<rparr>))"

text \<open>A reply: the frame is packaged into \<open>data_write\<close> and an asynchronous write begun.\<close>

definition respond :: "RESPONE_TYPE \<Rightarrow> byte \<Rightarrow> session \<Rightarrow> env \<Rightarrow> (session \<times> env) option" where
  "respond t v s e = do {
     (frameLen, b) \<leftarrow> PackageResponeFrame (Some (se_data_write s)) t v;
     let s = s\<lparr>se_data_write := b\<rparr>;
     Some (s, if 0 < frameLen then emit [Reply (take (nat frameLen) b)] e else e)
   }"

text \<open>Writing through the pointer \<open>MissionGet\<close> returned\<close>

definition put_mission :: "int \<Rightarrow> CMission \<Rightarrow> cam_heap \<Rightarrow> env \<Rightarrow> env" where
  "put_mission k ms cams e = e\<lparr>e_world := (e_world e)\<lparr>w_cams := cams,
     w_missions := map (\<lambda>(l, m). (l, if l = k then ms else m)) (w_missions (e_world e))\<rparr>\<rparr>"

definition match_device :: "session \<Rightarrow> env \<Rightarrow> session option" where
  "match_device s e = map_option (\<lambda>r. set_capDev (\<lambda>d. d\<lparr>cd_missionNum := word_of_int r\<rparr>) s)
     (MissionMatch (se_capDev s) (e_world e))"

abbreviation mission_key :: "session \<Rightarrow> int" where
  "mission_key s \<equiv> sint (cd_missionNum (se_capDev s))"

text \<open>
  What login and the first heartbeat of an idle device have in common: the device gets the free
  camera \<open>p\<close>, its tour starts, the mission's copy of it is refreshed and the reply is 1.
\<close>

definition give_camera ::
  "nat \<Rightarrow> cam_ref \<Rightarrow> CMission \<Rightarrow> session \<Rightarrow> env \<Rightarrow> (session \<times> env) option" where
  "give_camera now p ms s e = do {
     let s = set_capDev (\<lambda>d. d\<lparr>cd_SpdDomeCam := Some p, cd_missionStatus := MISSION_READY\<rparr>) s;
     _ \<leftarrow> deref (w_cams (e_world e)) (Some p);
     let (s, e) = put_dev (CapDev_start now (as_dev s e)) s e;
     let s = set_capDev (\<lambda>d. d\<lparr>cd_isOnline := 1\<rparr>) s;
     (_, ms) \<leftarrow> updateCapdev (w_cams (e_world e)) ms (se_capDev s);
     respond LOGIN_RESP 1 s (put_mission (mission_key s) ms (w_cams (e_world e)) e)
   }"

text \<open>
  \<open>boost::shared_ptr<CSpeedDomeCam> spdDomeCam; mission->getFreeSDC(spdDomeCam);\<close> and the test
  for null, on the device's mission
\<close>

definition take_free_camera :: "nat \<Rightarrow> session \<Rightarrow> env \<Rightarrow> (session \<times> env) option" where
  "take_free_camera now s e = do {
     ms \<leftarrow> MissionGet (mission_key s) (e_world e);
     (_, spdDomeCam, cams, ms) \<leftarrow> getFreeSDC (w_cams (e_world e)) ms;
     let e = put_mission (mission_key s) ms cams e;
     (case spdDomeCam of Some (Some p) \<Rightarrow> give_camera now p ms s e | _ \<Rightarrow> Some (s, e))
   }"

section \<open>Login\<close>

text \<open>The Boolean says whether the end of the handler, which reads again, is reached.\<close>

definition handle_login ::
  "host \<Rightarrow> uninit \<Rightarrow> nat \<Rightarrow> nat \<Rightarrow> session \<Rightarrow> env \<Rightarrow> (bool \<times> session \<times> env) option" where
  "handle_login h un now bytes_transferred s e = do {
     (_, loginInfo) \<leftarrow> ParseLoginInfo (Some (drop 5 (se_data s))) (int bytes_transferred - 5)
       (un_loginInfo un);
     strDevNum \<leftarrow> cstr (li_devNum loginInfo);
     (if checkTextChineseOrNumberOrLetter strDevNum = - 1 then
        map_option (Pair False) (respond LOGIN_RESP 0 s e)
      else do {
        dev \<leftarrow> CapDev_init h (se_capDev s) (Some (se_socket s)) loginInfo;
        s \<leftarrow> match_device (s\<lparr>se_capDev := dev\<rparr>) e;
        (if cd_missionNum (se_capDev s) = - 1 then Some (True, s, e)
         else map_option (Pair True) (take_free_camera now s e))
      })
   }"

section \<open>Heartbeat\<close>

text \<open>
  The next mission of a device whose tour is over. When no camera is free the device keeps the
  one it had. The last line of the code prints that camera's number.
\<close>

definition next_mission :: "session \<Rightarrow> env \<Rightarrow> (bool \<times> session \<times> env) option" where
  "next_mission s e = do {
     s \<leftarrow> match_device s e;
     (if cd_missionNum (se_capDev s) = - 1 then Some (False, s, e)
      else do {
        ms \<leftarrow> MissionGet (mission_key s) (e_world e);
        (_, p, cams, ms) \<leftarrow> getFreeSDC (w_cams (e_world e)) ms;
        let s = (case p of None \<Rightarrow> s | Some p \<Rightarrow> set_capDev (\<lambda>d. d\<lparr>cd_SpdDomeCam := p\<rparr>) s);
        let s = set_capDev (\<lambda>d. d\<lparr>cd_missionStatus := MISSION_READY\<rparr>) s;
        (_, ms) \<leftarrow> updateCapdev cams ms (se_capDev s);
        _ \<leftarrow> deref cams (cd_SpdDomeCam (se_capDev s));
        Some (True, s, put_mission (mission_key s) ms cams e)
      })
   }"

text \<open>The mission of a device without a camera; here the mission is fetched before the test for -1.\<close>

definition first_mission :: "nat \<Rightarrow> session \<Rightarrow> env \<Rightarrow> (session \<times> env) option" where
  "first_mission now s e = do {
     s \<leftarrow> match_device s e;
     _ \<leftarrow> MissionGet (mission_key s) (e_world e);
     (if cd_missionNum (se_capDev s) = - 1 then Some (s, e) else take_free_camera now s e)
   }"

definition handle_heartbeat :: "nat \<Rightarrow> session \<Rightarrow> env \<Rightarrow> (session \<times> env) option" where
  "handle_heartbeat now s e = do {
     (go, s, e) \<leftarrow>
       (if cd_missionStatus (se_capDev s) = MISSION_COMPLETED \<or>
           cd_missionStatus (se_capDev s) = MISSION_FAILD
        then next_mission s e else Some (True, s, e));
     (if go \<and> (cd_SpdDomeCam (se_capDev s) = None \<or> cd_missionNum (se_capDev s) = - 1)
      then first_mission now s e else Some (s, e))
   }"

section \<open>Requests of a device at work\<close>

definition handle_3d :: "sdk \<Rightarrow> uninit \<Rightarrow> nat \<Rightarrow> session \<Rightarrow> env \<Rightarrow> (session \<times> env) option" where
  "handle_3d sdk un bytes_transferred s e = do {
     let s = s\<lparr>se_status := 0\<rparr>;
     (_, tdr) \<leftarrow> ParseTDR (Some (se_data s)) (int bytes_transferred) (un_tdr un);
     (_, d) \<leftarrow> threeD_Request sdk (as_dev s e) tdr;
     let (s, e) = put_dev d s e;
     respond RIO_RESP 1 s e
   }"

definition handle_illegal_stop :: "sdk \<Rightarrow> session \<Rightarrow> env \<Rightarrow> (session \<times> env) option" where
  "handle_illegal_stop sdk s e = do {
     let s = s\<lparr>se_status := 0\<rparr>;
     d \<leftarrow> reload_Preset sdk (as_dev s e);
     Some (put_dev d s e)
   }"

text \<open>
  The first segment of a snapshot result. \<open>frameSize\<close> is unsigned; the accumulation starts when
  it is between 1 and ten megabytes less one.
\<close>

definition handle_snap :: "host \<Rightarrow> uninit \<Rightarrow> nat \<Rightarrow> session \<Rightarrow> env \<Rightarrow> (session \<times> env) option" where
  "handle_snap h un bytes_transferred s e = do {
     (_, res) \<leftarrow> ParseSnapResult h (un_tmpStr un) (Some (se_data s)) (int bytes_transferred)
       (se_res s);
     let s = s\<lparr>se_res := res\<lparr>ir_missionNum := cd_missionNum (se_capDev s),
       ir_rcvdSzie := word_of_nat bytes_transferred\<rparr>\<rparr>;
     s \<leftarrow> (if 0 < ir_frameSize (se_res s) \<and> ir_frameSize (se_res s) < 10485760 then do {
            pic \<leftarrow> patch 0 (take bytes_transferred (se_data s)) (se_picData s);
            Some (s\<lparr>se_picData := pic, se_curPicDataPos := bytes_transferred,
              se_rcvdSzie := se_rcvdSzie s + word_of_nat bytes_transferred,
              se_recvCaprure := True\<rparr>)
          } else Some s);
     respond SNAP_RESP 0 s e
   }"

text \<open>
  A further segment. The result is complete when more than \<open>frameSize\<close> bytes are there; it is
  then stored with the pictures written to files, and the buffer is cleared.
\<close>

definition store_result :: "host \<Rightarrow> uninit \<Rightarrow> session \<Rightarrow> env \<Rightarrow> (session \<times> env) option" where
  "store_result h un s e = do {
     (_, res, ops) \<leftarrow> ParseSnapResultPic h (un_tmpStr un) (Some (se_picData s))
       (int (se_curPicDataPos s)) (se_res s);
     let e = emit (map File ops) e;
     s \<leftarrow> match_device (s\<lparr>se_res := res\<rparr>) e;
     _ \<leftarrow> MissionGet (mission_key s) (e_world e);
     Some (s\<lparr>se_picData := replicate PIC_SIZE 0, se_recvCaprure := False, se_rcvdSzie := 0\<rparr>,
       e\<lparr>e_world := (e_world e)\<lparr>w_results := w_results (e_world e) @ [res]\<rparr>\<rparr>)
   }"

definition handle_segment :: "host \<Rightarrow> uninit \<Rightarrow> nat \<Rightarrow> session \<Rightarrow> env \<Rightarrow> (session \<times> env) option" where
  "handle_segment h un bytes_transferred s e = do {
     pic \<leftarrow> patch (se_curPicDataPos s) (take bytes_transferred (se_data s)) (se_picData s);
     let s = s\<lparr>se_rcvdSzie := se_rcvdSzie s + word_of_nat bytes_transferred, se_picData := pic,
       se_curPicDataPos := se_curPicDataPos s + bytes_transferred\<rparr>;
     (if unat (ir_frameSize (se_res s)) < se_curPicDataPos s then store_result h un s e
      else Some (s, e))
   }"

section \<open>The handlers\<close>

text \<open>The message types, by number; every other type is ignored.\<close>

definition handle_frame ::
  "host \<Rightarrow> sdk \<Rightarrow> uninit \<Rightarrow> nat \<Rightarrow> nat \<Rightarrow> session \<Rightarrow> env \<Rightarrow> (bool \<times> session \<times> env) option" where
  "handle_frame h sdk un now bytes_transferred s e = do {
     (_, head) \<leftarrow> ParseFrameHead (Some (se_data s)) (int bytes_transferred) (un_head un);
     (if ph_type head = 1 then handle_login h un now bytes_transferred s e
      else map_option (Pair True)
        (if ph_type head = 101 then handle_heartbeat now s e
         else if ph_type head = 5 then Some (s\<lparr>se_status := 0\<rparr>, e)
         else if ph_type head = 7 then handle_3d sdk un bytes_transferred s e
         else if ph_type head = 9 then handle_illegal_stop sdk s e
         else if ph_type head = 11 then handle_snap h un bytes_transferred s e
         else if ph_type head = 17 then respond DEV_STATUS_RESP 0 s e
         else if ph_type head = 21 then respond ILLEGAL_PART_POS_RESP 0 s e
         else if ph_type head = 3 then Some (s\<lparr>se_status := 0\<rparr>, e)
         else Some (s, e)))
   }"

text \<open>\<open>capDev.stop()\<close> and, when the flag still allows it, the deletion of the session\<close>

definition stop_device :: "sdk \<Rightarrow> session \<Rightarrow> env \<Rightarrow> (session \<times> env) option" where
  "stop_device sdk s e = map_option (\<lambda>d. put_dev d s e) (CapDev_stop sdk (as_dev s e))"

definition delete_this :: "session \<times> env \<Rightarrow> session \<times> env" where
  "delete_this se = (case se of (s, e) \<Rightarrow>
     (s\<lparr>se_freeThis := False, se_alive := False\<rparr>, emit [Deleted] e))"

text \<open>A handler that runs after the deletion uses freed memory.\<close>

definition handle_read ::
  "host \<Rightarrow> sdk \<Rightarrow> uninit \<Rightarrow> nat \<Rightarrow> completion \<Rightarrow> session \<Rightarrow> env \<Rightarrow> (session \<times> env) option" where
  "handle_read h sdk un now c s e =
     (if \<not> se_alive s then None
      else (case c of
        Failed _ \<Rightarrow>
          if se_freeThis s then map_option delete_this (stop_device sdk s e) else Some (s, e)
      | Transferred bs \<Rightarrow> do {
          data \<leftarrow> patch 0 bs (se_data s);
          let s = s\<lparr>se_data := data, se_recv_times := se_recv_times s + 1\<rparr>;
          (go, s, e) \<leftarrow>
            (if se_recvCaprure s then map_option (Pair True) (handle_segment h un (length bs) s e)
             else handle_frame h sdk un now (length bs) s e);
          Some (s, if go then emit [ReadMore] e else e)
        }))"

definition handle_write :: "sdk \<Rightarrow> string option \<Rightarrow> session \<Rightarrow> env \<Rightarrow> (session \<times> env) option" where
  "handle_write sdk error s e =
     (if \<not> se_alive s then None
      else (case error of
        None \<Rightarrow> Some (s, session_start e)
      | Some _ \<Rightarrow> map_option (\<lambda>(s, e). if se_freeThis s then delete_this (s, e) else (s, e))
          (stop_device sdk s e)))"

end
