(* ===== verification/Crc16.thy ===== *)
theory Crc16
  imports Buffer
begin

text \<open>
  The checksum of \<open>src/protocol_CfgClient.cpp\<close>: two tables of 256 bytes and a loop over the
  frame. The frame's bytes are \<open>int8_t\<close>: a byte of 0x80 or more is negative, and so is the
  table index it gives.
\<close>

definition auchCRCHi :: "byte list" where
  "auchCRCHi =
   [0x00, 0xC1, 0x81, 0x40, 0x01, 0xC0, 0x80, 0x41, 0x01, 0xC0, 0x80, 0x41,
    0x00, 0xC1, 0x81, 0x40, 0x01, 0xC0, 0x80, 0x41, 0x00, 0xC1, 0x81, 0x40,
    0x00, 0xC1, 0x81, 0x40, 0x01, 0xC0, 0x80, 0x41, 0x01, 0xC0, 0x80, 0x41,
    0x00, 0xC1, 0x81, 0x40, 0x00, 0xC1, 0x81, 0x40, 0x01, 0xC0, 0x80, 0x41,
    0x00, 0xC1, 0x81, 0x40, 0x01, 0xC0, 0x80, 0x41, 0x01, 0xC0, 0x80, 0x41,
    0x00, 0xC1, 0x81, 0x40, 0x01, 0xC0, 0x80, 0x41, 0x00, 0xC1, 0x81, 0x40,
    0x00, 0xC1, 0x81, 0x40, 0x01, 0xC0, 0x80, 0x41, 0x00, 0xC1, 0x81, 0x40,
    0x01, 0xC0, 0x80, 0x41, 0x01, 0xC0, 0x80, 0x41, 0x00, 0xC1, 0x81, 0x40,
    0x00, 0xC1, 0x81, 0x40, 0x01, 0xC0, 0x80, 0x41, 0x01, 0xC0, 0x80, 0x41,
    0x00, 0xC1, 0x81, 0x40, 0x01, 0xC0, 0x80, 0x41, 0x00, 0xC1, 0x81, 0x40,
    0x00, 0xC1, 0x81, 0x40, 0x01, 0xC0, 0x80, 0x41, 0x01, 0xC0, 0x80, 0x41,
    0x00, 0xC1, 0x81, 0x40, 0x00, 0xC1, 0x81, 0x40, 0x01, 0xC0, 0x80, 0x41,
    0x00, 0xC1, 0x81, 0x40, 0x01, 0xC0, 0x80, 0x41, 0x01, 0xC0, 0x80, 0x41,
    0x00, 0xC1, 0x81, 0x40, 0x00, 0xC1, 0x81, 0x40, 0x01, 0xC0, 0x80, 0x41,
    0x01, 0xC0, 0x80, 0x41, 0x00, 0xC1, 0x81, 0x40, 0x01, 0xC0, 0x80, 0x41,
    0x00, 0xC1, 0x81, 0x40, 0x00, 0xC1, 0x81, 0x40, 0x01, 0xC0, 0x80, 0x41,
    0x00, 0xC1, 0x81, 0x40, 0x01, 0xC0, 0x80, 0x41, 0x01, 0xC0, 0x80, 0x41,
    0x00, 0xC1, 0x81, 0x40, 0x01, 0xC0, 0x80, 0x41, 0x00, 0xC1, 0x81, 0x40,
    0x00, 0xC1, 0x81, 0x40, 0x01, 0xC0, 0x80, 0x41, 0x01, 0xC0, 0x80, 0x41,
    0x00, 0xC1, 0x81, 0x40, 0x00, 0xC1, 0x81, 0x40, 0x01, 0xC0, 0x80, 0x41,
    0x00, 0xC1, 0x81, 0x40, 0x01, 0xC0, 0x80, 0x41, 0x01, 0xC0, 0x80, 0x41,
    0x00, 0xC1, 0x81, 0x40]"

definition auchCRCLo :: "byte list" where
  "auchCRCLo =
   [0x00, 0xC0, 0xC1, 0x01, 0xC3, 0x03, 0x02, 0xC2, 0xC6, 0x06, 0x07, 0xC7,
    0x05, 0xC5, 0xC4, 0x04, 0xCC, 0x0C, 0x0D, 0xCD, 0x0F, 0xCF, 0xCE, 0x0E,
    0x0A, 0xCA, 0xCB, 0x0B, 0xC9, 0x09, 0x08, 0xC8, 0xD8, 0x18, 0x19, 0xD9,
    0x1B, 0xDB, 0xDA, 0x1A, 0x1E, 0xDE, 0xDF, 0x1F, 0xDD, 0x1D, 0x1C, 0xDC,
    0x14, 0xD4, 0xD5, 0x15, 0xD7, 0x17, 0x16, 0xD6, 0xD2, 0x12, 0x13, 0xD3,
    0x11, 0xD1, 0xD0, 0x10, 0xF0, 0x30, 0x31, 0xF1, 0x33, 0xF3, 0xF2, 0x32,
    0x36, 0xF6, 0xF7, 0x37, 0xF5, 0x35, 0x34, 0xF4, 0x3C, 0xFC, 0xFD, 0x3D,
    0xFF, 0x3F, 0x3E, 0xFE, 0xFA, 0x3A, 0x3B, 0xFB, 0x39, 0xF9, 0xF8, 0x38,
    0x28, 0xE8, 0xE9, 0x29, 0xEB, 0x2B, 0x2A, 0xEA, 0xEE, 0x2E, 0x2F, 0xEF,
    0x2D, 0xED, 0xEC, 0x2C, 0xE4, 0x24, 0x25, 0xE5, 0x27, 0xE7, 0xE6, 0x26,
    0x22, 0xE2, 0xE3, 0x23, 0xE1, 0x21, 0x20, 0xE0, 0xA0, 0x60, 0x61, 0xA1,
    0x63, 0xA3, 0xA2, 0x62, 0x66, 0xA6, 0xA7, 0x67, 0xA5, 0x65, 0x64, 0xA4,
    0x6C, 0xAC, 0xAD, 0x6D, 0xAF, 0x6F, 0x6E, 0xAE, 0xAA, 0x6A, 0x6B, 0xAB,
    0x69, 0xA9, 0xA8, 0x68, 0x78, 0xB8, 0xB9, 0x79, 0xBB, 0x7B, 0x7A, 0xBA,
    0xBE, 0x7E, 0x7F, 0xBF, 0x7D, 0xBD, 0xBC, 0x7C, 0xB4, 0x74, 0x75, 0xB5,
    0x77, 0xB7, 0xB6, 0x76, 0x72, 0xB2, 0xB3, 0x73, 0xB1, 0x71, 0x70, 0xB0,
    0x50, 0x90, 0x91, 0x51, 0x93, 0x53, 0x52, 0x92, 0x96, 0x56, 0x57, 0x97,
    0x55, 0x95, 0x94, 0x54, 0x9C, 0x5C, 0x5D, 0x9D, 0x5F, 0x9F, 0x9E, 0x5E,
    0x5A, 0x9A, 0x9B, 0x5B, 0x99, 0x59, 0x58, 0x98, 0x88, 0x48, 0x49, 0x89,
    0x4B, 0x8B, 0x8A, 0x4A, 0x4E, 0x8E, 0x8F, 0x4F, 0x8D, 0x4D, 0x4C, 0x8C,
    0x44, 0x84, 0x85, 0x45, 0x87, 0x47, 0x46, 0x86, 0x82, 0x42, 0x43, 0x83,
    0x41, 0x81, 0x80, 0x40]"

definition table_at :: "byte list \<Rightarrow> int \<Rightarrow> byte option" where
  "table_at t i = (if 0 \<le> i \<and> i < int (length t) then Some (t ! nat i) else None)"

text \<open>
  \<open>iIndex = (int)(ucCRCLo ^ pucFrame[i++])\<close>: both operands are promoted to \<open>int\<close>, the frame's
  byte with its sign.
\<close>

definition crc_index :: "byte \<Rightarrow> byte \<Rightarrow> int" where
  "crc_index lo b = (uint lo) XOR (sint b)"

fun Crc16_loop :: "byte list \<Rightarrow> nat \<Rightarrow> byte \<Rightarrow> byte \<Rightarrow> (byte \<times> byte) option" where
  "Crc16_loop p 0 hi lo = Some (hi, lo)"
| "Crc16_loop p (Suc n) hi lo = do {
     (b, p) \<leftarrow> rd8 p;
     let iIndex = crc_index lo b;
     t \<leftarrow> table_at auchCRCHi iIndex;
     u \<leftarrow> table_at auchCRCLo iIndex;
     Crc16_loop p n u (hi XOR t)
   }"

definition Crc16 :: "ptr \<Rightarrow> nat \<Rightarrow> u16 option" where
  "Crc16 pucFrame usLen =
     map_option (\<lambda>(hi, lo). push_bit 8 (ucast hi) OR ucast lo) (Crc16_loop pucFrame usLen 0xFF 0xFF)"

section \<open>The checksum without tables\<close>

text \<open>
  The reference is the reflected CRC-16 with polynomial 0xA001 and initial value 0xFFFF, one bit
  at a time.
\<close>

definition crc_bit :: "u16 \<Rightarrow> u16" where
  "crc_bit x = (if bit x 0 then drop_bit 1 x XOR 0xA001 else drop_bit 1 x)"

definition crc_byte :: "byte \<Rightarrow> u16 \<Rightarrow> u16" where
  "crc_byte b c = (crc_bit ^^ 8) (c XOR ucast b)"

definition crc_ref :: "byte list \<Rightarrow> u16" where
  "crc_ref bs = fold crc_byte bs 0xFFFF"

lemma crc_bit_xor: "crc_bit (x XOR y) = crc_bit x XOR crc_bit y"
proof -
  have "drop_bit 1 (x XOR y) = drop_bit 1 x XOR drop_bit 1 y"
    by (rule bit_word_eqI) (auto simp: bit_simps)
  then show ?thesis
    by (cases "bit x 0"; cases "bit y 0") (auto simp: crc_bit_def bit_xor_iff ac_simps)
qed

lemma crc_bits_xor: "(crc_bit ^^ k) (x XOR y) = (crc_bit ^^ k) x XOR (crc_bit ^^ k) y"
  by (induction k) (simp_all add: crc_bit_xor)

lemma crc_bits_high:
  "k \<le> 8 \<Longrightarrow> (crc_bit ^^ k) (push_bit k (ucast (h :: byte))) = ucast h"
proof (induction k)
  case 0
  then show ?case by simp
next
  case (Suc k)
  have "crc_bit (push_bit (Suc k) (ucast h)) = push_bit k (ucast h)"
  proof -
    have "\<not> bit (push_bit (Suc k) (ucast h :: u16)) 0" by (subst bit_push_bit_iff) simp
    moreover have "drop_bit 1 (push_bit (Suc k) (ucast h :: u16)) = push_bit k (ucast h)"
      using Suc.prems
      by (intro bit_word_eqI)
        (auto simp: bit_drop_bit_eq bit_push_bit_iff bit_unsigned_iff
          simp del: push_bit_Suc drop_bit_Suc dest: bit_imp_le_length)
    ultimately show ?thesis by (simp add: crc_bit_def del: push_bit_Suc)
  qed
  with Suc show ?case by (simp add: funpow_Suc_right del: funpow.simps)
qed

lemma length_tables: "length auchCRCHi = 256" "length auchCRCLo = 256"
  by code_simp+

text \<open>The tables hold the eight bit steps of every byte value.\<close>

lemma crc_bits_8:
  "(crc_bit ^^ 8) x =
     crc_bit (crc_bit (crc_bit (crc_bit (crc_bit (crc_bit (crc_bit (crc_bit x)))))))"
  by (simp add: numeral_eq_Suc)

lemma all_bytes: "map word_of_nat [0..<256] =
     [0, 1, 2, 3, 4, 5, 6, 7, 8, 9, 10, 11, 12, 13, 14, 15,
      16, 17, 18, 19, 20, 21, 22, 23, 24, 25, 26, 27, 28, 29, 30, 31,
      32, 33, 34, 35, 36, 37, 38, 39, 40, 41, 42, 43, 44, 45, 46, 47,
      48, 49, 50, 51, 52, 53, 54, 55, 56, 57, 58, 59, 60, 61, 62, 63,
      64, 65, 66, 67, 68, 69, 70, 71, 72, 73, 74, 75, 76, 77, 78, 79,
      80, 81, 82, 83, 84, 85, 86, 87, 88, 89, 90, 91, 92, 93, 94, 95,
      96, 97, 98, 99, 100, 101, 102, 103, 104, 105, 106, 107, 108, 109, 110, 111,
      112, 113, 114, 115, 116, 117, 118, 119, 120, 121, 122, 123, 124, 125, 126, 127,
      128, 129, 130, 131, 132, 133, 134, 135, 136, 137, 138, 139, 140, 141, 142, 143,
      144, 145, 146, 147, 148, 149, 150, 151, 152, 153, 154, 155, 156, 157, 158, 159,
      160, 161, 162, 163, 164, 165, 166, 167, 168, 169, 170, 171, 172, 173, 174, 175,
      176, 177, 178, 179, 180, 181, 182, 183, 184, 185, 186, 187, 188, 189, 190, 191,
      192, 193, 194, 195, 196, 197, 198, 199, 200, 201, 202, 203, 204, 205, 206, 207,
      208, 209, 210, 211, 212, 213, 214, 215, 216, 217, 218, 219, 220, 221, 222, 223,
      224, 225, 226, 227, 228, 229, 230, 231, 232, 233, 234, 235, 236, 237, 238, 239,
      240, 241, 242, 243, 244, 245, 246, 247, 248, 249, 250, 251, 252, 253, 254, 255 :: u16]"
  by code_simp

lemma tables_check:
  "map (crc_bit ^^ 8) (map word_of_nat [0..<256]) =
     map2 (\<lambda>l h. push_bit 8 (ucast l) OR ucast h) auchCRCLo auchCRCHi"
  unfolding all_bytes by (simp add: crc_bits_8 crc_bit_def auchCRCLo_def auchCRCHi_def)

lemma tables_nat:
  assumes "i < 256"
  shows "(crc_bit ^^ 8) (word_of_nat i) =
     push_bit 8 (ucast (auchCRCLo ! i)) OR ucast (auchCRCHi ! i)"
proof -
  have "map (crc_bit ^^ 8) (map word_of_nat [0..<256]) ! i =
      map2 (\<lambda>l h. push_bit 8 (ucast l) OR ucast h) auchCRCLo auchCRCHi ! i"
    by (simp only: tables_check)
  with assms show ?thesis by (simp add: length_tables)
qed

lemma tables_byte:
  "(crc_bit ^^ 8) (ucast x) =
     push_bit 8 (ucast (auchCRCLo ! unat x)) OR ucast (auchCRCHi ! unat (x :: byte))"
  using tables_nat [OF unat_byte_less [of x]] by simp

definition crc_reg :: "byte \<times> byte \<Rightarrow> u16" where
  "crc_reg r = push_bit 8 (ucast (fst r)) OR ucast (snd r)"

lemma crc_byte_tables:
  "crc_byte b (crc_reg (hi, lo)) =
     crc_reg (auchCRCLo ! unat (lo XOR b), hi XOR auchCRCHi ! unat (lo XOR b))"
proof -
  have "crc_reg (hi, lo) XOR ucast b = push_bit 8 (ucast hi) XOR ucast (lo XOR b)"
    by (rule bit_word_eqI)
      (auto simp: crc_reg_def bit_simps bit_unsigned_iff dest: bit_imp_le_length)
  then have "crc_byte b (crc_reg (hi, lo)) =
      ucast hi XOR (push_bit 8 (ucast (auchCRCLo ! unat (lo XOR b))) OR
                    ucast (auchCRCHi ! unat (lo XOR b)))"
    by (simp only: crc_byte_def crc_bits_xor crc_bits_high [OF order_refl] tables_byte)
  also have "\<dots> = crc_reg (auchCRCLo ! unat (lo XOR b), hi XOR auchCRCHi ! unat (lo XOR b))"
    by (rule bit_word_eqI)
      (auto simp: crc_reg_def bit_simps bit_unsigned_iff dest: bit_imp_le_length)
  finally show ?thesis .
qed

lemma byte_wrap:
  assumes "0 \<le> k" and "k < (256 :: int)"
  shows "(k + 128) mod 256 - 128 = (if k < 128 then k else k - 256)"
proof (cases "k < 128")
  case True
  with assms show ?thesis by (simp add: mod_pos_pos_trivial)
next
  case False
  have "(k + 128) mod 256 = (k - 128 + 256) mod 256" by (simp add: add.commute)
  also have "\<dots> = (k - 128) mod 256" by (rule mod_add_self2)
  also have "\<dots> = k - 128" using assms False by (intro mod_pos_pos_trivial) auto
  finally show ?thesis using False by simp
qed

lemma byte_sint: "sint (b :: byte) = (if uint b < 128 then uint b else uint b - 256)"
proof -
  have "sint b = (uint b + 128) mod 256 - 128"
    by (simp add: sint_uint signed_take_bit_eq_take_bit_shift take_bit_eq_mod)
  moreover have "uint b < 256" using uint_lt2p [of b] by simp
  ultimately show ?thesis by (simp only: byte_wrap [OF uint_ge_0])
qed

lemma crc_index_nonneg:
  assumes "b < 0x80"
  shows "crc_index lo b = uint (lo XOR b)"
proof -
  from assms have "uint b < 128" by (simp add: word_less_def)
  then have "sint b = uint b" by (simp add: byte_sint)
  then show ?thesis by (simp add: crc_index_def unsigned_xor_eq)
qed

lemma crc_index_neg:
  assumes "\<not> b < 0x80"
  shows "crc_index lo b < 0"
proof -
  from assms have "\<not> uint b < 128" by (simp add: word_less_def)
  moreover have "uint b < 256" using uint_lt2p [of b] by simp
  ultimately have "sint b < 0" by (simp add: byte_sint)
  moreover have "\<not> uint lo < 0" by (simp add: not_less)
  ultimately show ?thesis unfolding crc_index_def xor_negative_int_iff by blast
qed

lemma table_at_crc:
  assumes "length t = 256"
  shows "table_at t (crc_index lo b) = (if b < 0x80 then Some (t ! unat (lo XOR b)) else None)"
proof (cases "b < 0x80")
  case True
  have "uint (lo XOR b) < 256" using uint_lt2p [of "lo XOR b"] by simp
  moreover have "nat (uint (lo XOR b)) = unat (lo XOR b)" by (rule nat_uint_eq)
  ultimately show ?thesis
    using True uint_ge_0 [of "lo XOR b"]
    by (simp only: crc_index_nonneg [OF True] table_at_def assms) simp
next
  case False
  then show ?thesis using crc_index_neg [of b lo] by (simp add: table_at_def)
qed

lemma Crc16_loop_ref:
  "map_option crc_reg (Crc16_loop p n hi lo) =
     (if n \<le> length p \<and> (\<forall>b \<in> set (take n p). b < 0x80)
      then Some (fold crc_byte (take n p) (crc_reg (hi, lo))) else None)"
proof (induction n arbitrary: p hi lo)
  case 0
  then show ?case by simp
next
  case (Suc n)
  show ?case
  proof (cases p)
    case Nil
    then show ?thesis by (simp add: rd_simps)
  next
    case (Cons b q)
    note IH = Suc.IH [of q "auchCRCLo ! unat (lo XOR b)" "hi XOR auchCRCHi ! unat (lo XOR b)",
        folded crc_byte_tables]
    show ?thesis
    proof (cases "b < 0x80")
      case True
      then have "map_option crc_reg (Crc16_loop p (Suc n) hi lo) =
          map_option crc_reg (Crc16_loop q n (auchCRCLo ! unat (lo XOR b))
            (hi XOR auchCRCHi ! unat (lo XOR b)))"
        by (simp add: Cons rd_simps table_at_crc length_tables)
      then show ?thesis unfolding IH using True Cons by simp
    next
      case False
      then show ?thesis by (simp add: Cons rd_simps table_at_crc length_tables)
    qed
  qed
qed

lemma Crc16_crc_ref:
  "Crc16 p n =
     (if n \<le> length p \<and> (\<forall>b \<in> set (take n p). b < 0x80) then Some (crc_ref (take n p)) else None)"
proof -
  have "Crc16 p n = map_option crc_reg (Crc16_loop p n 0xFF 0xFF)"
    by (simp add: Crc16_def crc_reg_def [abs_def] split_def)
  moreover have "crc_reg (0xFF, 0xFF) = 0xFFFF" by (simp add: crc_reg_def)
  ultimately show ?thesis by (simp add: Crc16_loop_ref crc_ref_def)
qed

text \<open>
  C29: the table-driven \<open>Crc16\<close> is the reflected CRC-16 with polynomial 0xA001 and initial value
  0xFFFF exactly when the frame is long enough and holds no byte of 0x80 or more; such a byte is
  a negative \<open>int8_t\<close> and indexes the tables out of bounds.
\<close>

theorem Crc16_reference:
  "Crc16 p n =
     (if n \<le> length p \<and> (\<forall>b \<in> set (take n p). b < 0x80) then Some (crc_ref (take n p)) else None)"
  by (rule Crc16_crc_ref)

theorem Crc16_reference_witness:
  "Crc16 (str_bytes ''12'') 2 = Some (crc_ref (str_bytes ''12''))"
  by (simp add: Crc16_reference ord8_def)

end
