(* ===== verification/CfgProtocol.thy ===== *)
theory CfgProtocol
  imports Protocol Crc16 DeviceTypes
begin

text \<open>
  \<open>CProtocolClientCfg\<close> of \<open>src/protocol_CfgClient.cpp\<close>: the frames exchanged with the
  configuration client. \<open>ParseFrameHead\<close>, \<open>ParseChangeGroupReq\<close> and \<open>ParseSDCcfgInfo\<close> have no
  \<open>return\<close> and no caller uses their result, so they are modelled by what they store. Names that
  \<open>CProtocol\<close> also has carry the prefix \<open>cfg_\<close>.
\<close>

section \<open>Finding the frame\<close>

text \<open>The loop counts, but the pointer it compares through never moves.\<close>

definition cfg_FindMagic :: "ptr option \<Rightarrow> int \<Rightarrow> int option" where
  "cfg_FindMagic frameBuff buffSize =
     (case frameBuff of
        None \<Rightarrow> Some (- 1)
      | Some p \<Rightarrow>
          if buffSize < 0 then Some (- 1)
          else map_option (\<lambda>r. case r of Some i \<Rightarrow> int i | None \<Rightarrow> - 1)
            (scan (\<lambda>i. map_option (\<lambda>(w, _). w = MAGIC) (rd32 p)) 0 (nat (buffSize - 8))))"

text \<open>\<open>p = frameBuff + magicPos + 5\<close>\<close>

definition cfg_seek :: "ptr option \<Rightarrow> int \<Rightarrow> ptr option" where
  "cfg_seek frameBuff buffSize = do {
     magicPos \<leftarrow> cfg_FindMagic frameBuff buffSize;
     f \<leftarrow> frameBuff;
     (_, p) \<leftarrow> rd_bytes (nat (magicPos + 5)) f;
     Some p
   }"

section \<open>Parsing\<close>

text \<open>The head all four parsers read: the type, then three version bytes printed with dots.\<close>

definition cfg_read_head ::
  "host \<Rightarrow> ptr \<Rightarrow> ProtocolClientCfgHead \<Rightarrow> (ProtocolClientCfgHead \<times> ptr) option" where
  "cfg_read_head h p head = do {
     (t, p) \<leftarrow> rd8 p;
     (a, p) \<leftarrow> rd8 p;
     (b, p) \<leftarrow> rd8 p;
     (c, p) \<leftarrow> rd8 p;
     Some (head\<lparr>ch_type := t,
       ch_version := h_lexical_cast h (uint a) @ ''.'' @ h_lexical_cast h (uint b) @ ''.'' @
         h_lexical_cast h (uint c)\<rparr>, p)
   }"

definition cfg_ParseFrameHead ::
  "host \<Rightarrow> ptr option \<Rightarrow> int \<Rightarrow> ProtocolClientCfgHead \<Rightarrow> ProtocolClientCfgHead option" where
  "cfg_ParseFrameHead h frameBuff buffSize head = do {
     p \<leftarrow> cfg_seek frameBuff buffSize;
     (head, _) \<leftarrow> cfg_read_head h p head;
     Some head
   }"

definition ParseAddGroupReq ::
  "host \<Rightarrow> ptr option \<Rightarrow> int \<Rightarrow> ProtocolClientCfgHead \<Rightarrow> (int \<times> u32) option" where
  "ParseAddGroupReq h frameBuff buffSize head = do {
     p \<leftarrow> cfg_seek frameBuff buffSize;
     (head, p) \<leftarrow> cfg_read_head h p head;
     (fs, p) \<leftarrow> rd32 p;
     (missionNum, p) \<leftarrow> rd32 p;
     f \<leftarrow> frameBuff;
     Some (int (length f) - int (length p), missionNum)
   }"

definition ParseChangeGroupReq ::
  "host \<Rightarrow> ptr option \<Rightarrow> int \<Rightarrow> ProtocolClientCfgHead \<Rightarrow> missionGroupChgReq \<Rightarrow>
   missionGroupChgReq option" where
  "ParseChangeGroupReq h frameBuff buffSize head req = do {
     p \<leftarrow> cfg_seek frameBuff buffSize;
     (head, p) \<leftarrow> cfg_read_head h p head;
     (fs, p) \<leftarrow> rd32 p;
     (t, p) \<leftarrow> rd8 p;
     (ori, p) \<leftarrow> rd32 p;
     (dts, p) \<leftarrow> rd32 p;
     (num, p) \<leftarrow> rd_lstr p;
     Some (req\<lparr>gr_type := t, gr_ori_num := ori, gr_dts_num := dts, gr_num := num\<rparr>)
   }"

text \<open>The scalar part of \<open>ParseSDCcfgInfo\<close>, up to the number of presets.\<close>

definition ParseSDCcfgInfo_fields :: "ptr \<Rightarrow> SDCcfg \<Rightarrow> (SDCcfg \<times> ptr) option" where
  "ParseSDCcfgInfo_fields p cfg = do {
     (mode, p) \<leftarrow> rd8 p;
     (ip, p) \<leftarrow> rd_lstr p;
     (port, p) \<leftarrow> rd32 p;
     (usr, p) \<leftarrow> rd_lstr p;
     (pwd, p) \<leftarrow> rd_lstr p;
     (rtsp, p) \<leftarrow> rd_lstr p;
     (brand, p) \<leftarrow> rd_lstr p;
     (product, p) \<leftarrow> rd_lstr p;
     (minw, p) \<leftarrow> rd32 p;
     (maxw, p) \<leftarrow> rd32 p;
     (cam, p) \<leftarrow> rd_lstr p;
     (mission, p) \<leftarrow> rd32 p;
     (total, p) \<leftarrow> rd8 p;
     Some (cfg\<lparr>sc_mode := mode, sc_IP := ip, sc_port := port, sc_m_usrName := usr,
       sc_m_pwd := pwd, sc_RTSPaddr := rtsp, sc_brandName := brand, sc_productType := product,
       sc_plateMinWidth := minw, sc_plateMaxWidth := maxw, sc_camNum := cam,
       sc_missionNum := mission, sc_presetTotal := total\<rparr>, p)
   }"

text \<open>
  \<open>for (j = 0; j < nNum; j++) { Area[j].x = ...; Area[j].y = ...; }\<close> over \<open>POINT Area[10]\<close>.
  The count is a signed 16-bit member, so a negative one reads no point.
\<close>

definition parse_area_step :: "nat \<Rightarrow> POINT list \<times> ptr \<Rightarrow> (POINT list \<times> ptr) option" where
  "parse_area_step j s = (case s of (area, p) \<Rightarrow>
     if j < length area then do {
       (q, p) \<leftarrow> rd_point p;
       Some (area[j := q], p)
     } else None)"

definition parse_area :: "u16 \<Rightarrow> POINT list \<Rightarrow> ptr \<Rightarrow> (POINT list \<times> ptr) option" where
  "parse_area nNum area p = for_loop 0 (nat (sint nNum)) parse_area_step (area, p)"

definition parse_preset :: "ptr \<Rightarrow> Preset \<Rightarrow> (Preset \<times> ptr) option" where
  "parse_preset p pr = do {
     (num, p) \<leftarrow> rd32 p;
     (hold, p) \<leftarrow> rd32 p;
     (mode, p) \<leftarrow> rd32 p;
     (prio, p) \<leftarrow> rd32 p;
     (minw, p) \<leftarrow> rd32 p;
     (maxw, p) \<leftarrow> rd32 p;
     (n1, p) \<leftarrow> rd32 p;
     (n2, p) \<leftarrow> rd32 p;
     let ip = (pr_illparkpara pr)\<lparr>ip_nNum1 := ucast n1, ip_nNum2 := ucast n2\<rparr>;
     (a1, p) \<leftarrow> parse_area (ip_nNum1 ip) (ip_Area1 ip) p;
     (a2, p) \<leftarrow> parse_area (ip_nNum2 ip) (ip_Area2 ip) p;
     (scale, p) \<leftarrow> rd32 p;
     (l, p) \<leftarrow> rd32 p;
     (r, p) \<leftarrow> rd32 p;
     (b, p) \<leftarrow> rd32 p;
     (t, p) \<leftarrow> rd32 p;
     Some (pr\<lparr>pr_presetNum := num, pr_holdSeconds := hold, pr_mode := mode, pr_priority := prio,
       pr_plateMinWidth := minw, pr_plateMaxWidth := maxw,
       pr_illparkpara := ip\<lparr>ip_Area1 := a1, ip_Area2 := a2, ip_fScaleScreen := scale\<rparr>,
       pr_rect := \<lparr>rc_left = l, rc_top = t, rc_right = r, rc_bottom = b\<rparr>\<rparr>, p)
   }"

definition ParseSDCcfgInfo_step :: "nat \<Rightarrow> SDCcfg \<times> ptr \<Rightarrow> (SDCcfg \<times> ptr) option" where
  "ParseSDCcfgInfo_step i s = (case s of (cfg, p) \<Rightarrow>
     if i < MAX_PRESET then do {
       (pr, p) \<leftarrow> parse_preset p (sc_missionPreset cfg i);
       Some (cfg\<lparr>sc_missionPreset := (sc_missionPreset cfg)(i := pr)\<rparr>, p)
     } else None)"

definition ParseSDCcfgInfo ::
  "host \<Rightarrow> ptr option \<Rightarrow> int \<Rightarrow> ProtocolClientCfgHead \<Rightarrow> SDCcfg \<Rightarrow> SDCcfg option" where
  "ParseSDCcfgInfo h frameBuff buffSize head sdcCfg = do {
     p \<leftarrow> cfg_seek frameBuff buffSize;
     (head, p) \<leftarrow> cfg_read_head h p head;
     (sdcCfg, p) \<leftarrow> ParseSDCcfgInfo_fields p sdcCfg;
     (sdcCfg, _) \<leftarrow> for_loop 0 (unat (sc_presetTotal sdcCfg)) ParseSDCcfgInfo_step (sdcCfg, p);
     Some sdcCfg
   }"

section \<open>Packaging\<close>

text \<open>The head of every frame the server sends: the magic in network order, type, version 1.0.0.\<close>

definition cfg_head_bytes :: "byte \<Rightarrow> byte list" where
  "cfg_head_bytes t = le_enc 4 (ntohl MAGIC) @ [t, 1, 0, 0]"

definition packageSDCrespone ::
  "byte list option \<Rightarrow> int \<Rightarrow> byte \<Rightarrow> (int \<times> byte list) option" where
  "packageSDCrespone buff buffLen result =
     (case buff of
        None \<Rightarrow> Some (- 1, [])
      | Some b \<Rightarrow>
          if buffLen < 0 then Some (- 1, b)
          else do {
            s \<leftarrow> wr_bytes (cfg_head_bytes 4) (at_start b);
            let frameLen = length (fst s);
            s \<leftarrow> skip 4 s;
            s \<leftarrow> wr8 1 s;
            crc \<leftarrow> Crc16 (buf_of s) (length (fst s));
            s \<leftarrow> wr16 (ntohs crc) s;
            b \<leftarrow> patch frameLen (le_enc 4 (word_of_nat (length (fst s)) :: u32)) (buf_of s);
            Some (int (length (fst s)), b)
          })"

definition packageGroupInfo ::
  "byte list option \<Rightarrow> int \<Rightarrow> byte \<Rightarrow> (int \<times> byte list) option" where
  "packageGroupInfo buff buffLen groupNum =
     (case buff of
        None \<Rightarrow> Some (- 1, [])
      | Some b \<Rightarrow>
          if buffLen < 0 then Some (- 1, b)
          else do {
            s \<leftarrow> wr_bytes (cfg_head_bytes 9) (at_start b);
            let frameLen = length (fst s);
            s \<leftarrow> skip 4 s;
            s \<leftarrow> wr32 (scast groupNum) s;
            crc \<leftarrow> Crc16 (buf_of s) (length (fst s));
            s \<leftarrow> wr16 (ntohs crc) s;
            b \<leftarrow> patch frameLen (le_enc 4 (word_of_nat (length (fst s)) :: u32)) (buf_of s);
            Some (int (length (fst s)), b)
          })"

definition package_area_step :: "POINT list \<Rightarrow> nat \<Rightarrow> wptr \<Rightarrow> wptr option" where
  "package_area_step area j s = (if j < length area then wr_point (area ! j) s else None)"

definition package_preset :: "Preset \<Rightarrow> wptr \<Rightarrow> wptr option" where
  "package_preset pr s = do {
     s \<leftarrow> wr_lstr (pr_camNum pr) s;
     s \<leftarrow> wr32 (pr_presetNum pr) s;
     s \<leftarrow> wr32 (pr_holdSeconds pr) s;
     s \<leftarrow> wr32 (pr_mode pr) s;
     s \<leftarrow> wr32 (pr_priority pr) s;
     s \<leftarrow> wr32 (pr_plateMinWidth pr) s;
     s \<leftarrow> wr32 (pr_plateMaxWidth pr) s;
     let ip = pr_illparkpara pr;
     s \<leftarrow> wr32 (scast (ip_nNum1 ip)) s;
     s \<leftarrow> wr32 (scast (ip_nNum2 ip)) s;
     s \<leftarrow> for_loop 0 (nat (sint (ip_nNum1 ip))) (package_area_step (ip_Area1 ip)) s;
     s \<leftarrow> for_loop 0 (nat (sint (ip_nNum2 ip))) (package_area_step (ip_Area2 ip)) s;
     s \<leftarrow> wr32 (ip_fScaleScreen ip) s;
     s \<leftarrow> wr32 (rc_left (pr_rect pr)) s;
     s \<leftarrow> wr32 (rc_right (pr_rect pr)) s;
     s \<leftarrow> wr32 (rc_bottom (pr_rect pr)) s;
     wr32 (rc_top (pr_rect pr)) s
   }"

text \<open>
  \<open>buffLen\<close> is unsigned: the guard \<open>buffLen < 0\<close> never holds. The checksum covers a fixed 100
  bytes from offset 4, whatever the frame's length.
\<close>

definition packageSDCinfo ::
  "byte list option \<Rightarrow> u32 \<Rightarrow> SDCcfg option \<Rightarrow> (int \<times> byte list) option" where
  "packageSDCinfo buff buffLen sdcCfg =
     (case (buff, sdcCfg) of
        (Some b, Some cfg) \<Rightarrow> do {
          b \<leftarrow> patch 0 (replicate (unat buffLen) 0) b;
          s \<leftarrow> wr_bytes (cfg_head_bytes 6) (at_start b);
          let frameLen = length (fst s);
          s \<leftarrow> skip 4 s;
          s \<leftarrow> wr8 1 s;
          s \<leftarrow> wr_lstr (sc_IP cfg) s;
          s \<leftarrow> wr32 (sc_port cfg) s;
          s \<leftarrow> wr_lstr (sc_m_usrName cfg) s;
          s \<leftarrow> wr_lstr (sc_m_pwd cfg) s;
          s \<leftarrow> wr_lstr (sc_RTSPaddr cfg) s;
          s \<leftarrow> wr_lstr (sc_brandName cfg) s;
          s \<leftarrow> wr_lstr (sc_productType cfg) s;
          s \<leftarrow> wr32 (sc_plateMinWidth cfg) s;
          s \<leftarrow> wr32 (sc_plateMaxWidth cfg) s;
          s \<leftarrow> wr_lstr (sc_camNum cfg) s;
          s \<leftarrow> wr32 (sc_missionNum cfg) s;
          s \<leftarrow> wr8 (sc_presetTotal cfg) s;
          s \<leftarrow> for_loop 0 (unat (sc_presetTotal cfg))
            (\<lambda>i s. if i < MAX_PRESET then package_preset (sc_missionPreset cfg i) s else None) s;
          b \<leftarrow> patch frameLen (le_enc 4 (word_of_nat (length (fst s)) :: u32)) (buf_of s);
          let s = (take (length (fst s)) b, drop (length (fst s)) b);
          crc \<leftarrow> Crc16 (drop 4 b) 100;
          s \<leftarrow> wr16 crc s;
          Some (int (length (fst s)), buf_of s)
        }
      | _ \<Rightarrow> Some (- 1, []))"

text \<open>
  An empty current camera number is replaced by \<open>"-1"\<close> in the device itself. The result is the
  frame's length, the device and the buffer. The comparison with \<open>MAGIC\<close> at the start has an
  empty body; its load stays.
\<close>

definition packageCapDevinfo ::
  "byte list option \<Rightarrow> u32 \<Rightarrow> CCaptureDevice option \<Rightarrow>
   (int \<times> CCaptureDevice option \<times> byte list) option" where
  "packageCapDevinfo buff buffLen capDev =
     (case (buff, capDev) of
        (Some b, Some dev) \<Rightarrow> do {
          _ \<leftarrow> rd32 b;
          s \<leftarrow> wr_bytes (cfg_head_bytes 5) (at_start b);
          let frameLen = length (fst s);
          s \<leftarrow> skip 4 s;
          s \<leftarrow> wr_lstr (cd_devNum dev) s;
          s \<leftarrow> wr_lstr (cd_IP dev) s;
          s \<leftarrow> wr_lstr (cd_MAC dev) s;
          s \<leftarrow> wr_lstr (cd_devType dev) s;
          s \<leftarrow> wr_lstr (cd_devName dev) s;
          let dev = (if cd_curCamNum dev = [] then dev\<lparr>cd_curCamNum := ''-1''\<rparr> else dev);
          s \<leftarrow> wr_lstr (cd_curCamNum dev) s;
          s \<leftarrow> wr32 (cd_missionNum dev) s;
          s \<leftarrow> wr8 (cd_isOnline dev) s;
          let len = (word_of_nat (length (fst s)) :: u32);
          b \<leftarrow> patch frameLen (le_enc 4 len) (buf_of s);
          Some (sint len, Some dev, b)
        }
      | _ \<Rightarrow> Some (- 1, capDev, []))"

text \<open>
  The pictures are read back from the file system: \<open>rfile path\<close> is the content of a file that
  can be opened, \<open>None\<close> when it cannot.
\<close>

definition get_file_size :: "(string \<Rightarrow> byte list option) \<Rightarrow> string \<Rightarrow> u64" where
  "get_file_size rfile path =
     (case rfile path of None \<Rightarrow> - 1 | Some bs \<Rightarrow> word_of_nat (length bs))"

definition package_pic_step ::
  "(string \<Rightarrow> byte list option) \<Rightarrow> (nat \<Rightarrow> string) \<Rightarrow> nat \<Rightarrow> wptr \<Rightarrow> wptr option" where
  "package_pic_step rfile picName i s =
     (if i < MAX_PIC then do {
        s \<leftarrow> wr_lstr (picName i) s;
        (case rfile (picName i) of
           Some bs \<Rightarrow> wr_bytes (take (unat (get_file_size rfile (picName i))) bs) s
         | None \<Rightarrow> Some s)
      } else None)"

definition packageCapResultInfo ::
  "(string \<Rightarrow> byte list option) \<Rightarrow> byte list option \<Rightarrow> u32 \<Rightarrow> IlligalProcResult \<Rightarrow> bool \<Rightarrow>
   (int \<times> byte list) option" where
  "packageCapResultInfo rfile buff buffLen res sendPic =
     (case buff of
        None \<Rightarrow> Some (- 1, [])
      | Some b \<Rightarrow> do {
          _ \<leftarrow> rd32 b;
          s \<leftarrow> wr_bytes (cfg_head_bytes 3) (at_start b);
          let frameLen = length (fst s);
          s \<leftarrow> skip 4 s;
          s \<leftarrow> wr_lstr (ir_camNum res) s;
          s \<leftarrow> wr32 (ir_plateVariety res) s;
          s \<leftarrow> wr8 (ir_plateColor res) s;
          s \<leftarrow> wr_lstr (ir_plateNum res) s;
          s \<leftarrow> wr_lstr (ir_vedioName res) s;
          s \<leftarrow> wr8 (if sendPic then ir_picNum res else 0) s;
          s \<leftarrow> wr32 (ir_missionNum res) s;
          s \<leftarrow> wr_lstr (ir_capTime res) s;
          s \<leftarrow> (if sendPic
               then for_loop 0 (unat (ir_picNum res)) (package_pic_step rfile (ir_picName res)) s
               else Some s);
          let len = (word_of_nat (length (fst s)) :: u32);
          b \<leftarrow> patch frameLen (le_enc 4 len) (buf_of s);
          Some (sint len, b)
        })"

section \<open>Byte order\<close>

definition cfg_reversebytes_uint32t :: "u32 \<Rightarrow> u32" where
  "cfg_reversebytes_uint32t v =
     push_bit 24 (v AND 0x000000FF) OR push_bit 8 (v AND 0x0000FF00) OR
     drop_bit 8 (v AND 0x00FF0000) OR drop_bit 24 (v AND 0xFF000000)"

definition cfg_reversebytes_uint64t :: "u64 \<Rightarrow> u64" where
  "cfg_reversebytes_uint64t v =
     (let high = ucast (cfg_reversebytes_uint32t (ucast v)) :: u64;
          low = ucast (cfg_reversebytes_uint32t (ucast (drop_bit 32 v))) :: u64
      in push_bit 32 high + low)"

definition cfg_reversebytes_uint16t :: "u16 \<Rightarrow> u16" where
  "cfg_reversebytes_uint16t v = push_bit 8 (v AND 0x00FF) OR drop_bit 8 (v AND 0xFF00)"

text \<open>They are those of the other protocol.\<close>

lemma cfg_reversebytes:
  "cfg_reversebytes_uint16t v = reversebytes_uint16t v" "cfg_reversebytes_uint32t w = reversebytes_uint32t w"
  "cfg_reversebytes_uint64t x = reversebytes_uint64t x"
  by (simp_all add: cfg_reversebytes_uint16t_def cfg_reversebytes_uint32t_def cfg_reversebytes_uint64t_def
      reversebytes_uint16t_def reversebytes_uint32t_def reversebytes_uint64t_def)

end
