(* ===== verification/Sql.thy ===== *)
theory Sql
  imports MissionMap Protocol
begin

text \<open>
  The database access of \<open>src/sql_conn.cpp\<close>. SQLite is not part of the repository: it is the
  parameter \<open>sqlite\<close>, which says whether a database opens and which rows a statement reports to
  the callback, given the statements executed before. The model builds the statements byte by byte
  and runs the callback on the rows.
\<close>

type_synonym row = "(string \<times> string option) list"

record sqlite =
  sq_open :: "string \<Rightarrow> bool"
  sq_rows :: "string list \<Rightarrow> string \<Rightarrow> row list"

text \<open>
  \<open>boost::lexical_cast\<close> from a string to an \<open>int32_t\<close>, a \<open>uint32_t\<close> or a float, \<open>None\<close> when it throws;
  the exception would pass through the C code of SQLite.
\<close>

record parser =
  lc_int :: "string \<Rightarrow> u32 option"
  lc_uint :: "string \<Rightarrow> u32 option"
  lc_float :: "string \<Rightarrow> u32 option"

text \<open>The object of a connection and the static objects the callback fills in.\<close>

record CSQL_conn =
  cn_dbName :: string
  cn_open :: bool

record sql_state =
  q_log :: "string list"
  q_mission :: CMission
  q_capdev :: CCaptureDevice
  q_SDC :: CSpeedDomeCam
  q_preset :: Preset
  q_world :: world

section \<open>Connections\<close>

definition setParam :: "string \<Rightarrow> CSQL_conn \<Rightarrow> CSQL_conn" where
  "setParam conn_str c = c\<lparr>cn_dbName := conn_str\<rparr>"

definition initConnection :: "sqlite \<Rightarrow> CSQL_conn \<Rightarrow> int \<times> CSQL_conn" where
  "initConnection db c =
     (if sq_open db (cn_dbName c) then (0, c\<lparr>cn_open := True\<rparr>) else (- 1, c\<lparr>cn_open := False\<rparr>))"

definition releaseConnection :: "CSQL_conn \<Rightarrow> CSQL_conn" where
  "releaseConnection c = c\<lparr>cn_open := False\<rparr>"

text \<open>
  \<open>sqlite3_exec\<close>: every row goes to the callback; using a handle that is not open is undefined.
  An error of the statement is only printed.
\<close>

definition exec ::
  "sqlite \<Rightarrow> CSQL_conn \<Rightarrow> (row \<Rightarrow> sql_state \<Rightarrow> sql_state option) \<Rightarrow> string \<Rightarrow> sql_state \<Rightarrow>
   sql_state option" where
  "exec db c callback sql st =
     (if cn_open c then
        fold (\<lambda>r s. Option.bind s (callback r)) (sq_rows db (q_log st) sql)
          (Some (st\<lparr>q_log := q_log st @ [sql]\<rparr>))
      else None)"

section \<open>The callback\<close>

text \<open>Table \<open>SDCs\<close>: the camera is added when its last column comes.\<close>

definition add_loaded_SDC :: "CSpeedDomeCam \<Rightarrow> sql_state \<Rightarrow> sql_state option" where
  "add_loaded_SDC raw st = do {
     (r, w) \<leftarrow> MissionAddSDC raw (q_SDC st) (q_world st);
     let st = st\<lparr>q_world := w\<rparr>;
     (if r = - 1 then do {
        let st = st\<lparr>q_SDC := upd_cfg (\<lambda>cfg. cfg\<lparr>sc_missionNum := - 1\<rparr>) (q_SDC st)\<rparr>;
        (cams, un) \<leftarrow> addSDC raw (w_cams w) (w_unstart w) (q_SDC st);
        Some (st\<lparr>q_world := w\<lparr>w_cams := cams, w_unstart := un\<rparr>\<rparr>)
      } else Some st)
   }"

abbreviation set_SDC :: "(SDCcfg \<Rightarrow> SDCcfg) \<Rightarrow> sql_state \<Rightarrow> sql_state" where
  "set_SDC f st \<equiv> st\<lparr>q_SDC := upd_cfg f (q_SDC st)\<rparr>"

definition column_SDCs ::
  "parser \<Rightarrow> CSpeedDomeCam \<Rightarrow> string \<Rightarrow> string \<Rightarrow> sql_state \<Rightarrow> sql_state option" where
  "column_SDCs lc raw sColName sColVal st =
     (if ''missionID'' = sColName then
        map_option (\<lambda>v. set_SDC (\<lambda>c. c\<lparr>sc_missionNum := v\<rparr>) st) (lc_int lc sColVal)
      else if ''camNum'' = sColName then Some (set_SDC (\<lambda>c. c\<lparr>sc_camNum := sColVal\<rparr>) st)
      else if ''IP'' = sColName then Some (set_SDC (\<lambda>c. c\<lparr>sc_IP := sColVal\<rparr>) st)
      else if ''port'' = sColName then
        map_option (\<lambda>v. set_SDC (\<lambda>c. c\<lparr>sc_port := v\<rparr>) st) (lc_int lc sColVal)
      else if ''usrName'' = sColName then Some (set_SDC (\<lambda>c. c\<lparr>sc_m_usrName := sColVal\<rparr>) st)
      else if ''pwd'' = sColName then Some (set_SDC (\<lambda>c. c\<lparr>sc_m_pwd := sColVal\<rparr>) st)
      else if ''RTSPaddr'' = sColName then Some (set_SDC (\<lambda>c. c\<lparr>sc_RTSPaddr := sColVal\<rparr>) st)
      else if ''brandName'' = sColName then Some (set_SDC (\<lambda>c. c\<lparr>sc_brandName := sColVal\<rparr>) st)
      else if ''productType'' = sColName then Some (set_SDC (\<lambda>c. c\<lparr>sc_productType := sColVal\<rparr>) st)
      else if ''presetNum'' = sColName then do {
        v \<leftarrow> lc_int lc sColVal;
        add_loaded_SDC raw (st\<lparr>q_SDC := (q_SDC st)\<lparr>dc_presetTableID := v\<rparr>\<rparr>)
      }
      else Some st)"

text \<open>Table \<open>missions\<close>\<close>

definition column_missions :: "parser \<Rightarrow> string \<Rightarrow> string \<Rightarrow> sql_state \<Rightarrow> sql_state option" where
  "column_missions lc sColName sColVal st =
     (if ''ID'' = sColName then do {
        v \<leftarrow> lc_int lc sColVal;
        let ms = (q_mission st)\<lparr>ms_missionNum := v\<rparr>;
        Some (st\<lparr>q_mission := ms, q_world := MissionAdd ms (q_world st)\<rparr>)
      } else Some st)"

text \<open>Table \<open>capDevs\<close>: the device is added when its name comes.\<close>

definition add_loaded_CapDev :: "sql_state \<Rightarrow> sql_state option" where
  "add_loaded_CapDev st = do {
     (r, w) \<leftarrow> MissionAddCapDev (q_capdev st) (q_world st);
     let st = st\<lparr>q_world := w\<rparr>;
     (if r = - 1 then do {
        let st = st\<lparr>q_capdev := (q_capdev st)\<lparr>cd_missionNum := - 1\<rparr>\<rparr>;
        un \<leftarrow> addCapDev (w_unstart w) (q_capdev st);
        Some (st\<lparr>q_world := w\<lparr>w_unstart := un\<rparr>\<rparr>)
      } else Some st)
   }"

definition column_capDevs :: "parser \<Rightarrow> string \<Rightarrow> string \<Rightarrow> sql_state \<Rightarrow> sql_state option" where
  "column_capDevs lc sColName sColVal st =
     (if ''missionID'' = sColName then
        map_option (\<lambda>v. st\<lparr>q_capdev := (q_capdev st)\<lparr>cd_missionNum := v\<rparr>\<rparr>) (lc_int lc sColVal)
      else if ''IP'' = sColName then Some (st\<lparr>q_capdev := (q_capdev st)\<lparr>cd_IP := sColVal\<rparr>\<rparr>)
      else if ''devType'' = sColName then Some (st\<lparr>q_capdev := (q_capdev st)\<lparr>cd_devType := sColVal\<rparr>\<rparr>)
      else if ''MAC'' = sColName then Some (st\<lparr>q_capdev := (q_capdev st)\<lparr>cd_MAC := sColVal\<rparr>\<rparr>)
      else if ''devNum'' = sColName then Some (st\<lparr>q_capdev := (q_capdev st)\<lparr>cd_devNum := sColVal\<rparr>\<rparr>)
      else if ''devName'' = sColName then
        add_loaded_CapDev (st\<lparr>q_capdev := (q_capdev st)\<lparr>cd_devName := sColVal\<rparr>\<rparr>)
      else Some st)"

text \<open>
  Table \<open>preset\<close>: forty columns hold the coordinates of the two areas. The table of them says
  whether the area is the second one, the index of the point and whether the column is its y.
\<close>

definition area_columns :: "(string \<times> bool \<times> nat \<times> bool) list" where
  "area_columns =
    [(''Area1x0'', False, 0, False), (''Area1y0'', False, 0, True),
     (''Area2x0'', True, 0, False), (''Area2y0'', True, 0, True),
     (''Area1x1'', False, 1, False), (''Area1y1'', False, 1, True),
     (''Area2x1'', True, 1, False), (''Area2y1'', True, 1, True),
     (''Area1x2'', False, 2, False), (''Area1y2'', False, 2, True),
     (''Area2x2'', True, 2, False), (''Area2y2'', True, 2, True),
     (''Area1x3'', False, 3, False), (''Area1y3'', False, 3, True),
     (''Area2x3'', True, 3, False), (''Area2y3'', True, 3, True),
     (''Area1x4'', False, 4, False), (''Area1y4'', False, 4, True),
     (''Area2x4'', True, 4, False), (''Area2y4'', True, 4, True),
     (''Area1x5'', False, 5, False), (''Area1y5'', False, 5, True),
     (''Area2x5'', True, 5, False), (''Area2y5'', True, 5, True),
     (''Area1x6'', False, 6, False), (''Area1y6'', False, 6, True),
     (''Area2x6'', True, 6, False), (''Area2y6'', True, 6, True),
     (''Area1x7'', False, 7, False), (''Area1y7'', False, 7, True),
     (''Area2x7'', True, 7, False), (''Area2y7'', True, 7, True),
     (''Area1x8'', False, 8, False), (''Area1y8'', False, 8, True),
     (''Area2x8'', True, 8, False), (''Area2y8'', True, 8, True),
     (''Area1x9'', False, 9, False), (''Area1y9'', False, 9, True),
     (''Area2x9'', True, 9, False), (''Area2y9'', True, 9, True)]"

definition set_point :: "nat \<Rightarrow> bool \<Rightarrow> u32 \<Rightarrow> POINT list \<Rightarrow> POINT list" where
  "set_point i y v ps =
     ps[i := (if y then (ps ! i)\<lparr>pt_y := v\<rparr> else (ps ! i)\<lparr>pt_x := v\<rparr>)]"

definition set_area_column :: "bool \<times> nat \<times> bool \<Rightarrow> u32 \<Rightarrow> IllegalParkParam \<Rightarrow> IllegalParkParam" where
  "set_area_column col v ip = (case col of (second, i, y) \<Rightarrow>
     if second then ip\<lparr>ip_Area2 := set_point i y v (ip_Area2 ip)\<rparr>
     else ip\<lparr>ip_Area1 := set_point i y v (ip_Area1 ip)\<rparr>)"

abbreviation set_preset :: "(Preset \<Rightarrow> Preset) \<Rightarrow> sql_state \<Rightarrow> sql_state" where
  "set_preset f st \<equiv> st\<lparr>q_preset := f (q_preset st)\<rparr>"

abbreviation upd_ip :: "(IllegalParkParam \<Rightarrow> IllegalParkParam) \<Rightarrow> Preset \<Rightarrow> Preset" where
  "upd_ip f p \<equiv> p\<lparr>pr_illparkpara := f (pr_illparkpara p)\<rparr>"

abbreviation upd_rect :: "(RECT \<Rightarrow> RECT) \<Rightarrow> Preset \<Rightarrow> Preset" where
  "upd_rect f p \<equiv> p\<lparr>pr_rect := f (pr_rect p)\<rparr>"

text \<open>The preset is added when its last coordinate comes.\<close>

definition add_loaded_preset :: "sql_state \<Rightarrow> sql_state option" where
  "add_loaded_preset st = do {
     (r, w) \<leftarrow> MissionAddPreset (q_preset st) (q_world st);
     (if r = - 1 then do {
        (_, cams) \<leftarrow> addPreset (w_cams w) (w_unstart w) (q_preset st);
        Some (st\<lparr>q_world := w\<lparr>w_cams := cams\<rparr>\<rparr>)
      } else Some (st\<lparr>q_world := w\<rparr>))
   }"

text \<open>The integer columns of a preset, less the areas; \<open>nNum1\<close> and \<open>nNum2\<close> are narrowed to 16 bits.\<close>

definition preset_columns :: "(string \<times> (u32 \<Rightarrow> Preset \<Rightarrow> Preset)) list" where
  "preset_columns =
    [(''num'', \<lambda>v p. p\<lparr>pr_presetNum := v\<rparr>),
     (''holdSeconds'', \<lambda>v p. p\<lparr>pr_holdSeconds := v\<rparr>),
     (''mode'', \<lambda>v p. p\<lparr>pr_mode := v\<rparr>),
     (''priority'', \<lambda>v p. p\<lparr>pr_priority := v\<rparr>),
     (''plateMinWidth'', \<lambda>v p. p\<lparr>pr_plateMinWidth := v\<rparr>),
     (''plateMaxWidth'', \<lambda>v p. p\<lparr>pr_plateMaxWidth := v\<rparr>),
     (''nNum1'', \<lambda>v. upd_ip (\<lambda>ip. ip\<lparr>ip_nNum1 := ucast v\<rparr>)),
     (''nNum2'', \<lambda>v. upd_ip (\<lambda>ip. ip\<lparr>ip_nNum2 := ucast v\<rparr>)),
     (''rectLeft'', \<lambda>v. upd_rect (\<lambda>r. r\<lparr>rc_left := v\<rparr>)),
     (''rectRight'', \<lambda>v. upd_rect (\<lambda>r. r\<lparr>rc_right := v\<rparr>)),
     (''rectBottom'', \<lambda>v. upd_rect (\<lambda>r. r\<lparr>rc_bottom := v\<rparr>))]"

definition column_preset :: "parser \<Rightarrow> string \<Rightarrow> string \<Rightarrow> sql_state \<Rightarrow> sql_state option" where
  "column_preset lc sColName sColVal st =
     (if ''SDC_ID'' = sColName then Some (set_preset (\<lambda>p. p\<lparr>pr_camNum := sColVal\<rparr>) st)
      else if ''fScaleScreen'' = sColName then
        map_option (\<lambda>v. set_preset (upd_ip (\<lambda>ip. ip\<lparr>ip_fScaleScreen := v\<rparr>)) st) (lc_float lc sColVal)
      else if ''rectTop'' = sColName then do {
        v \<leftarrow> lc_uint lc sColVal;
        add_loaded_preset (set_preset (upd_rect (\<lambda>r. r\<lparr>rc_top := v\<rparr>)) st)
      }
      else (case map_of preset_columns sColName of
        Some f \<Rightarrow> map_option (\<lambda>v. set_preset (f v) st) (lc_uint lc sColVal)
      | None \<Rightarrow>
          (case map_of area_columns sColName of
             Some col \<Rightarrow> map_option (\<lambda>v. set_preset (upd_ip (set_area_column col v)) st) (lc_uint lc sColVal)
           | None \<Rightarrow> Some st)))"

text \<open>
  The loop over the columns of a row. A NULL column cannot be made a \<open>string\<close>. \<open>raw\<close> is what a
  fresh camera's memory holds.
\<close>

fun callback ::
  "parser \<Rightarrow> CSpeedDomeCam \<Rightarrow> string \<Rightarrow> row \<Rightarrow> sql_state \<Rightarrow> sql_state option" where
  "callback lc raw tableName [] st = Some st"
| "callback lc raw tableName ((sColName, v) # cols) st = do {
     sColVal \<leftarrow> v;
     st \<leftarrow> (if ''SDCs'' = tableName then column_SDCs lc raw sColName sColVal st
           else if ''missions'' = tableName then column_missions lc sColName sColVal st
           else if ''capDevs'' = tableName then column_capDevs lc sColName sColVal st
           else if ''preset'' = tableName then column_preset lc sColName sColVal st
           else Some st);
     callback lc raw tableName cols st
   }"

text \<open>With a null \<open>tableName\<close> the first row is a fault.\<close>

fun null_callback :: "row \<Rightarrow> sql_state \<Rightarrow> sql_state option" where
  "null_callback [] st = Some st"
| "null_callback (c # cols) st = None"

section \<open>Statements\<close>

definition select ::
  "sqlite \<Rightarrow> parser \<Rightarrow> CSpeedDomeCam \<Rightarrow> CSQL_conn \<Rightarrow> string \<Rightarrow> sql_state \<Rightarrow> sql_state option" where
  "select db lc raw c tableName = exec db c (callback lc raw tableName) (''SELECT * from '' @ tableName)"

definition select_mission ::
  "host \<Rightarrow> sqlite \<Rightarrow> parser \<Rightarrow> CSpeedDomeCam \<Rightarrow> CSQL_conn \<Rightarrow> string \<Rightarrow> u32 \<Rightarrow> sql_state \<Rightarrow>
   sql_state option" where
  "select_mission h db lc raw c tableName missionID =
     exec db c (callback lc raw tableName)
       (''SELECT * FROM '' @ tableName @ '' WHERE missionID='' @ h_lexical_cast h (sint missionID))"

text \<open>
  \<open>sprintf(sql, ...)\<close> into \<open>char sql[1024]\<close>: the pieces of the statement, a \<open>%s\<close> being a C string
  and a \<open>%d\<close> the decimals of a signed number. A longer statement is written past the array.
\<close>

definition sprintf_sql :: "string list \<Rightarrow> string option" where
  "sprintf_sql parts = (let s = concat parts in if length s < 1024 then Some s else None)"

definition c_str :: "string \<Rightarrow> string" where
  "c_str s = takeWhile (\<lambda>c. ord8 c \<noteq> 0) s"

text \<open>The quotation mark of SQL strings\<close>

definition quote :: string where
  "quote = [CHR 0x27]"

definition quoted :: "string \<Rightarrow> string" where
  "quoted s = quote @ c_str s @ quote"

definition decimal :: "host \<Rightarrow> u32 \<Rightarrow> string" where
  "decimal h v = h_lexical_cast h (sint v)"

fun commas :: "string list \<Rightarrow> string" where
  "commas [] = []"
| "commas [x] = x"
| "commas (x # xs) = x @ '','' @ commas xs"

section \<open>Creating the tables\<close>

definition create_SDCs :: string where
  "create_SDCs =
     ''CREATE TABLE SDCs('' @
     ''camNum TEXT PRIMARY KEY     NOT NULL,'' @
     ''missionID  INT NOT NULL,'' @
     ''IP           TEXT    NOT NULL,'' @
     ''port            INT     NOT NULL,'' @
     ''usrName        TEXT,'' @
     ''pwd         TEXT,'' @
     ''RTSPaddr        TEXT,'' @
     ''brandName        TEXT,'' @
     ''productType        TEXT,'' @
     ''presetNum        INT );''"

definition create_missions :: string where
  "create_missions =
     ''CREATE TABLE missions('' @
     ''ID INT PRIMARY KEY     NOT NULL,'' @
     ''SDC_ID           TEXT    NOT NULL,'' @
     ''capDevID            INT     NOT NULL);''"

definition create_capDevs :: string where
  "create_capDevs =
     ''CREATE TABLE capDevs('' @
     ''devNum TEXT PRIMARY KEY     NOT NULL,'' @
     ''missionID INT  NOT NULL,'' @
     ''IP           TEXT    NOT NULL,'' @
     ''devType        TEXT,'' @
     ''MAC        TEXT,'' @
     ''devName        TEXT );''"

definition create_preset :: string where
  "create_preset =
     ''CREATE TABLE preset('' @
     ''num           INT    NOT NULL,'' @
     ''SDC_ID           TEXT    NOT NULL,'' @
     ''holdSeconds           INT    NOT NULL,'' @
     ''mode           INT    NOT NULL,'' @
     ''priority            INT     NOT NULL,'' @
     ''plateMinWidth           INT    NOT NULL,'' @
     ''plateMaxWidth           INT    NOT NULL,'' @
     ''nNum1           INT    NOT NULL,'' @
     ''nNum2           INT    NOT NULL,'' @
     ''Area1x0           INT    NOT NULL,'' @
     ''Area1y0           INT    NOT NULL,'' @
     ''Area1x1           INT    NOT NULL,'' @
     ''Area1y1           INT    NOT NULL,'' @
     ''Area1x2           INT    NOT NULL,'' @
     ''Area1y2           INT    NOT NULL,'' @
     ''Area1x3           INT    NOT NULL,'' @
     ''Area1y3           INT    NOT NULL,'' @
     ''Area1x4           INT    NOT NULL,'' @
     ''Area1y4           INT    NOT NULL,'' @
     ''Area1x5           INT    NOT NULL,'' @
     ''Area1y5           INT    NOT NULL,'' @
     ''Area1x6           INT    NOT NULL,'' @
     ''Area1y6           INT    NOT NULL,'' @
     ''Area1x7           INT    NOT NULL,'' @
     ''Area1y7           INT    NOT NULL,'' @
     ''Area1x8           INT    NOT NULL,'' @
     ''Area1y8           INT    NOT NULL,'' @
     ''Area1x9           INT    NOT NULL,'' @
     ''Area1y9           INT    NOT NULL,'' @
     ''Area2x0           INT    NOT NULL,'' @
     ''Area2y0           INT    NOT NULL,'' @
     ''Area2x1           INT    NOT NULL,'' @
     ''Area2y1           INT    NOT NULL,'' @
     ''Area2x2           INT    NOT NULL,'' @
     ''Area2y2           INT    NOT NULL,'' @
     ''Area2x3           INT    NOT NULL,'' @
     ''Area2y3           INT    NOT NULL,'' @
     ''Area2x4           INT    NOT NULL,'' @
     ''Area2y4           INT    NOT NULL,'' @
     ''Area2x5           INT    NOT NULL,'' @
     ''Area2y5           INT    NOT NULL,'' @
     ''Area2x6           INT    NOT NULL,'' @
     ''Area2y6           INT    NOT NULL,'' @
     ''Area2x7           INT    NOT NULL,'' @
     ''Area2y7           INT    NOT NULL,'' @
     ''Area2x8           INT    NOT NULL,'' @
     ''Area2y8           INT    NOT NULL,'' @
     ''Area2x9           INT    NOT NULL,'' @
     ''Area2y9           INT    NOT NULL,'' @
     ''fScaleScreen           REAL    NOT NULL,'' @
     ''rectLeft           INT    NOT NULL,'' @
     ''rectRight           INT    NOT NULL,'' @
     ''rectBottom           INT    NOT NULL,'' @
     ''rectTop           INT    NOT NULL,'' @
     ''photo           TEXT    NOT NULL);''"

definition createTable :: "sqlite \<Rightarrow> CSQL_conn \<Rightarrow> sql_state \<Rightarrow> sql_state option" where
  "createTable db c st = do {
     st \<leftarrow> exec db c null_callback create_SDCs st;
     st \<leftarrow> exec db c null_callback create_missions st;
     st \<leftarrow> exec db c null_callback create_capDevs st;
     exec db c null_callback create_preset st
   }"

section \<open>Inserting\<close>

definition insert_SDC_sql :: "host \<Rightarrow> SDCcfg \<Rightarrow> string option" where
  "insert_SDC_sql h sdc = sprintf_sql
     [''INSERT INTO SDCs (camNum,missionID,IP,port,usrName,pwd,RTSPaddr,brandName,productType,presetNum) '',
      ''VALUES ('', quoted (sc_camNum sdc), '', '', decimal h (sc_missionNum sdc), '', '',
      quoted (sc_IP sdc), '', '', decimal h (sc_port sdc), '', '', quoted (sc_m_usrName sdc), '', '',
      quoted (sc_m_pwd sdc), '', '', quoted (sc_RTSPaddr sdc), '', '', quoted (sc_brandName sdc), '', '',
      quoted (sc_productType sdc), '', '', h_lexical_cast h (uint (sc_presetTotal sdc)), ''); '']"

definition preset_sql_columns :: string where
  "preset_sql_columns =
     ''INSERT INTO preset (num,SDC_ID,holdSeconds,mode,priority,plateMinWidth,'' @
     ''plateMaxWidth,nNum1,nNum2,Area1x0,Area1y0,Area1x1,Area1y1,Area1x2,Area1y2,'' @
     ''Area1x3,Area1y3,Area1x4,Area1y4,Area1x5,Area1y5,Area1x6,Area1y6,Area1x7,Area1y7,'' @
     ''Area1x8,Area1y8,Area1x9,Area1y9,'' @
     ''Area2x0,Area2y0,Area2x1,Area2y1,Area2x2,Area2y2,'' @
     ''Area2x3,Area2y3,Area2x4,Area2y4,Area2x5,Area2y5,Area2x6,Area2y6,Area2x7,Area2y7,'' @
     ''Area2x8,Area2y8,Area2x9,Area2y9,'' @
     ''fScaleScreen,rectLeft,rectRight,rectBottom,rectTop,photo) ''"

text \<open>
  The values of a preset. \<open>fScaleScreen\<close> has just been set to 2, which \<open>%0.2f\<close> prints as
  \<open>2.00\<close>.
\<close>

definition preset_sql_values :: "host \<Rightarrow> string \<Rightarrow> Preset \<Rightarrow> string" where
  "preset_sql_values h camNum p =
     (let ip = pr_illparkpara p; r = pr_rect p; pts = (\<lambda>ps. concat (map (\<lambda>q. [decimal h (pt_x q), decimal h (pt_y q)]) ps))
      in commas ([decimal h (pr_presetNum p), quoted camNum, decimal h (pr_holdSeconds p),
           decimal h (pr_mode p), decimal h (pr_priority p), decimal h (pr_plateMinWidth p),
           decimal h (pr_plateMaxWidth p), h_lexical_cast h (sint (ip_nNum1 ip)),
           h_lexical_cast h (sint (ip_nNum2 ip))] @ pts (ip_Area1 ip) @ pts (ip_Area2 ip) @
         [''2.00'', decimal h (rc_left r), decimal h (rc_right r), decimal h (rc_bottom r),
          decimal h (rc_top r), quoted ''NULL'']))"

definition insert_preset_sql :: "host \<Rightarrow> string \<Rightarrow> Preset \<Rightarrow> string option" where
  "insert_preset_sql h camNum p =
     sprintf_sql [preset_sql_columns, ''VALUES ('', preset_sql_values h camNum p, ''); '']"

text \<open>Before a preset is stored its rectangle and scale are overwritten, in the caller's object.\<close>

definition fixed_rect :: "Preset \<Rightarrow> Preset" where
  "fixed_rect p = p\<lparr>pr_rect := \<lparr>rc_left = 178, rc_top = 164, rc_right = 1787, rc_bottom = 876\<rparr>,
     pr_illparkpara := (pr_illparkpara p)\<lparr>ip_fScaleScreen := 0x40000000\<rparr>\<rparr>"

definition insert_preset_step ::
  "host \<Rightarrow> sqlite \<Rightarrow> CSQL_conn \<Rightarrow> nat \<Rightarrow> SDCcfg \<times> sql_state \<Rightarrow> (SDCcfg \<times> sql_state) option" where
  "insert_preset_step h db c i s = (case s of (sdc, st) \<Rightarrow> do {
     let p = fixed_rect (sc_missionPreset sdc i);
     let sdc = sdc\<lparr>sc_missionPreset := (sc_missionPreset sdc)(i := p)\<rparr>;
     sql \<leftarrow> insert_preset_sql h (sc_camNum sdc) p;
     st \<leftarrow> exec db c null_callback sql st;
     Some (sdc, st)
   })"

definition insert_SDC ::
  "host \<Rightarrow> sqlite \<Rightarrow> CSQL_conn \<Rightarrow> SDCcfg \<Rightarrow> sql_state \<Rightarrow> (SDCcfg \<times> sql_state) option" where
  "insert_SDC h db c sdc st = do {
     sql \<leftarrow> insert_SDC_sql h sdc;
     st \<leftarrow> exec db c null_callback sql st;
     for_loop 0 (unat (sc_presetTotal sdc)) (insert_preset_step h db c) (sdc, st)
   }"

definition insert_CapDev ::
  "host \<Rightarrow> sqlite \<Rightarrow> CSQL_conn \<Rightarrow> CCaptureDevice \<Rightarrow> sql_state \<Rightarrow> sql_state option" where
  "insert_CapDev h db c d st = do {
     sql \<leftarrow> sprintf_sql
       [''INSERT INTO capDevs (devNum,missionID,IP,devType,MAC,devName) '',
        ''VALUES ('', quoted (cd_devNum d), '', '', decimal h (cd_missionNum d), '', '', quoted (cd_IP d),
        '', '', quoted (cd_devType d), '', '', quoted (cd_MAC d), '', '', quoted (cd_devName d), ''); ''];
     exec db c null_callback sql st
   }"

definition insert_mission ::
  "host \<Rightarrow> sqlite \<Rightarrow> CSQL_conn \<Rightarrow> CMission \<Rightarrow> sql_state \<Rightarrow> sql_state option" where
  "insert_mission h db c mis st = do {
     sql \<leftarrow> sprintf_sql [''INSERT INTO missions (ID,SDC_ID,capDevID) '', ''VALUES ('',
       decimal h (ms_missionNum mis), '', 0, 0); ''];
     exec db c null_callback sql st
   }"

section \<open>Updating\<close>

definition update_CapDev ::
  "host \<Rightarrow> sqlite \<Rightarrow> CSQL_conn \<Rightarrow> CCaptureDevice \<Rightarrow> sql_state \<Rightarrow> sql_state option" where
  "update_CapDev h db c d st = do {
     sql \<leftarrow> sprintf_sql
       [''UPDATE capDevs SET missionID='', decimal h (cd_missionNum d), '',IP='', quoted (cd_IP d),
        '',devType='', quoted (cd_devType d), '',MAC='', quoted (cd_MAC d), '',devName='',
        quoted (cd_devName d), '' where devNum='', quoted (cd_devNum d), '';''];
     exec db c null_callback sql st
   }"

text \<open>The presets are not updated; the end of the function has no \<open>return\<close>.\<close>

definition update_SDC :: "host \<Rightarrow> sqlite \<Rightarrow> CSQL_conn \<Rightarrow> SDCcfg \<Rightarrow> sql_state \<Rightarrow> sql_state option" where
  "update_SDC h db c sdc st = do {
     sql \<leftarrow> sprintf_sql
       [''UPDATE SDCs SET missionID='', decimal h (sc_missionNum sdc), '',IP='', quoted (sc_IP sdc),
        '',port='', decimal h (sc_port sdc), '',usrName='', quoted (sc_m_usrName sdc), '',pwd='',
        quoted (sc_m_pwd sdc), '',RTSPaddr='', quoted (sc_RTSPaddr sdc), '',brandName='',
        quoted (sc_brandName sdc), '',productType='', quoted (sc_productType sdc), '',presetNum='',
        h_lexical_cast h (uint (sc_presetTotal sdc)), '' WHERE camNum='', quoted (sc_camNum sdc), ''; ''];
     exec db c null_callback sql st
   }"

text \<open>A request of another type executes what the uninitialised array \<open>stk\<close> holds.\<close>

definition update_group ::
  "host \<Rightarrow> byte list \<Rightarrow> sqlite \<Rightarrow> CSQL_conn \<Rightarrow> missionGroupChgReq \<Rightarrow> sql_state \<Rightarrow> sql_state option" where
  "update_group h stk db c req st = do {
     sql \<leftarrow> (if gr_type req = 0 then
              sprintf_sql [''UPDATE SDCs SET missionID='', decimal h (gr_dts_num req), '' '',
                ''WHERE camNum='', quoted (gr_num req), ''; '']
            else if gr_type req = 1 then
              sprintf_sql [''UPDATE capDevs SET missionID='', decimal h (gr_dts_num req), '' '',
                ''WHERE devNum='', quoted (gr_num req), ''; '']
            else cstr stk);
     exec db c null_callback sql st
   }"

text \<open>
  Two leftovers of a tutorial that nothing calls. Their callback argument is a \<open>char *\<close> that the
  callback takes for a \<open>string *\<close>.
\<close>

definition update_company :: "sqlite \<Rightarrow> CSQL_conn \<Rightarrow> sql_state \<Rightarrow> sql_state option" where
  "update_company db c = exec db c null_callback
     (''UPDATE COMPANY set SALARY = 25000.00 where ID=1; '' @ ''SELECT * from COMPANY'')"

definition sql_delete :: "sqlite \<Rightarrow> CSQL_conn \<Rightarrow> sql_state \<Rightarrow> sql_state option" where
  "sql_delete db c = exec db c null_callback
     (''DELETE from COMPANY where ID=2; '' @ ''SELECT * from COMPANY'')"

end
