(* ===== verification/MissionConfig.thy ===== *)
theory MissionConfig
  imports Sql
begin

text \<open>
  Loading the configuration at the start of the program: \<open>src/mission_config.cpp\<close>. The reading of
  an XML file is disabled in the source.
\<close>

definition connection0 :: CSQL_conn where
  "connection0 = \<lparr>cn_dbName = [], cn_open = False\<rparr>"

text \<open>
  The tables are created, which fails when they exist, and read in the order missions, cameras,
  capture devices, presets. The end of the function prints mission 0, found or not.
\<close>

definition DBloadConfig ::
  "sqlite \<Rightarrow> parser \<Rightarrow> CSpeedDomeCam \<Rightarrow> string \<Rightarrow> sql_state \<Rightarrow> sql_state option" where
  "DBloadConfig db lc raw ConfigFile st = do {
     let (_, c) = initConnection db (setParam ConfigFile connection0);
     st \<leftarrow> createTable db c st;
     st \<leftarrow> select db lc raw c ''missions'' st;
     st \<leftarrow> select db lc raw c ''SDCs'' st;
     st \<leftarrow> select db lc raw c ''capDevs'' st;
     st \<leftarrow> select db lc raw c ''preset'' st;
     _ \<leftarrow> MissionGet 0 (q_world st);
     Some st
   }"

end
