(* ===== verification/ConfigSession.thy ===== *)
theory ConfigSession
  imports Session CfgProtocol MissionConfig
begin

text \<open>
  The session of one configuration client, \<open>CConfigSession\<close> of \<open>inc/config_session.h\<close>: the requests
  that change the cameras and the missions, and the periodic update that sends the client
  everything. It shares the environment \<open>env\<close> with the sessions of the capture devices and the
  database with nobody.
\<close>

definition SEND_LEN :: nat where
  "SEND_LEN = 1024"

text \<open>
  \<open>k_timer\<close> is the expiry time of \<open>timer\<close>, \<open>None\<close> for the null pointer; \<open>k_waiting\<close> says that a
  wait is pending on it and \<open>k_ready\<close> counts the cancelled waits whose handler has not run yet:
  the handler \<open>updateMissionInfo\<close> is bound without the error, so it runs for them as well.
\<close>

record cfg_session =
  k_data :: "byte list"
  k_data_write :: "byte list"
  k_recv_times :: u32
  k_timer :: "nat option"
  k_waiting :: bool
  k_ready :: nat
  k_run :: bool
  k_curCapResult :: nat
  k_freeThis :: bool

text \<open>What the locals of \<open>handle_read\<close> and a camera allocated by it hold before they are assigned\<close>

record cfg_uninit =
  uc_head :: ProtocolClientCfgHead
  uc_sdcCfg :: SDCcfg
  uc_sdc :: CSpeedDomeCam
  uc_new :: CSpeedDomeCam
  uc_req :: missionGroupChgReq
  uc_msi :: CMission
  uc_sql :: "byte list"

type_synonym cfg_state = "cfg_session \<times> env"

section \<open>Construction\<close>

definition CConfigSession :: "cfg_session \<Rightarrow> cfg_session" where
  "CConfigSession raw = raw\<lparr>k_data := replicate MAX_PACKET_LEN 0, k_recv_times := 0, k_timer := None,
     k_waiting := False, k_ready := 0, k_run := True, k_curCapResult := 0, k_freeThis := True\<rparr>"

definition CSpeedDomeCam_new :: "CSpeedDomeCam \<Rightarrow> CSpeedDomeCam" where
  "CSpeedDomeCam_new raw = raw\<lparr>dc_curPTZposion := 0, dc_isUsing := FREE\<rparr>"

definition CMission_new :: "CMission \<Rightarrow> CMission" where
  "CMission_new raw = raw\<lparr>ms_curSpdDomeCam := 0, ms_totalSpdDomeCam := 0, ms_totalCapDev := 0,
     ms_SpdDomeCam := \<lambda>_. None, ms_capDev := \<lambda>i. CCaptureDevice_new (ms_capDev raw i)\<rparr>"

definition cfg_start :: "env \<Rightarrow> env" where
  "cfg_start e = emit [ReadMore] e"

section \<open>The update\<close>

text \<open>
  Every frame is packaged into the one buffer \<open>data_write\<close>, and an asynchronous write of its first
  \<open>SEND_LEN\<close> bytes is begun, whatever the frame's length. \<open>Reply\<close> records these bytes as they are
  when the write begins; the next frame overwrites them while the write is pending.
\<close>

definition begin_write :: "byte list \<Rightarrow> cfg_state \<Rightarrow> cfg_state" where
  "begin_write b st = (case st of (s, e) \<Rightarrow>
     (s\<lparr>k_data_write := b\<rparr>, emit [Reply (take SEND_LEN b)] e))"

definition send_respone :: "cfg_state \<Rightarrow> cfg_state option" where
  "send_respone st = do {
     (_, b) \<leftarrow> packageSDCrespone (Some (k_data_write (fst st))) (int MAX_PACKET_LEN) 1;
     Some (begin_write b st)
   }"

text \<open>The mission's number is narrowed to the byte \<open>groupNum\<close>.\<close>

definition send_group :: "nat \<Rightarrow> cfg_state \<Rightarrow> cfg_state option" where
  "send_group i st = do {
     (_, b) \<leftarrow> packageGroupInfo (Some (k_data_write (fst st))) (int MAX_PACKET_LEN)
       (ucast (ms_missionNum (mission_at i (e_world (snd st)))));
     Some (begin_write b st)
   }"

definition send_CapDev :: "nat \<Rightarrow> CMission \<times> cfg_state \<Rightarrow> (CMission \<times> cfg_state) option" where
  "send_CapDev i mst = (case mst of (ms, st) \<Rightarrow> do {
     dev \<leftarrow> CapDev_at ms i;
     (_, dev, b) \<leftarrow> packageCapDevinfo (Some (k_data_write (fst st))) (word_of_nat MAX_PACKET_LEN) (Some dev);
     dev \<leftarrow> dev;
     Some (ms\<lparr>ms_capDev := (ms_capDev ms)(i := dev)\<rparr>, begin_write b st)
   })"

definition send_SDC :: "CMission \<Rightarrow> nat \<Rightarrow> cfg_state \<Rightarrow> cfg_state option" where
  "send_SDC ms i st = do {
     c \<leftarrow> SDC_at (w_cams (e_world (snd st))) ms i;
     (_, b) \<leftarrow> packageSDCinfo (Some (k_data_write (fst st))) (word_of_nat MAX_PACKET_LEN)
       (Some (dc_m_sdcCfg c));
     Some (begin_write b st)
   }"

text \<open>The devices and the cameras of one mission\<close>

definition send_mission :: "CMission \<Rightarrow> cfg_state \<Rightarrow> (CMission \<times> cfg_state) option" where
  "send_mission ms st = do {
     (ms, st) \<leftarrow> for_loop 0 (unat (ms_totalCapDev ms)) send_CapDev (ms, st);
     st \<leftarrow> for_loop 0 (unat (ms_totalSpdDomeCam ms)) (send_SDC ms) st;
     Some (ms, st)
   }"

definition send_mission_at :: "nat \<Rightarrow> cfg_state \<Rightarrow> cfg_state option" where
  "send_mission_at i st = do {
     (ms, s, e) \<leftarrow> send_mission (mission_at i (e_world (snd st))) st;
     Some (s, e\<lparr>e_world := set_mission i ms (e_world e)\<rparr>)
   }"

definition send_unstart :: "cfg_state \<Rightarrow> cfg_state option" where
  "send_unstart st = do {
     (ms, s, e) \<leftarrow> send_mission (w_unstart (e_world (snd st))) st;
     Some (s, e\<lparr>e_world := (e_world e)\<lparr>w_unstart := ms\<rparr>\<rparr>)
   }"

text \<open>
  The loop over the results, \<open>i\<close> counting. A result that is skipped counts twice. Without pictures
  the file system is not read.
\<close>

definition send_result :: "(string \<Rightarrow> byte list option) \<Rightarrow> IlligalProcResult \<Rightarrow> cfg_state \<Rightarrow> cfg_state option" where
  "send_result rfile res st = do {
     (_, b) \<leftarrow> packageCapResultInfo rfile (Some (k_data_write (fst st))) (word_of_nat MAX_PACKET_LEN) res False;
     Some (begin_write b st)
   }"

fun send_results ::
  "(string \<Rightarrow> byte list option) \<Rightarrow> nat \<Rightarrow> IlligalProcResult list \<Rightarrow> cfg_state \<Rightarrow>
   (nat \<times> cfg_state) option" where
  "send_results rfile i [] st = Some (i, st)"
| "send_results rfile i (r # rs) st =
     (if i < k_curCapResult (fst st) then send_results rfile (i + 2) rs st
      else Option.bind (send_result rfile r st) (send_results rfile (i + 1) rs))"

definition update :: "(string \<Rightarrow> byte list option) \<Rightarrow> cfg_state \<Rightarrow> cfg_state option" where
  "update rfile st = do {
     st \<leftarrow> send_respone st;
     let n = length (w_missions (e_world (snd st)));
     st \<leftarrow> for_loop 0 n send_group st;
     st \<leftarrow> for_loop 0 n send_mission_at st;
     st \<leftarrow> send_unstart st;
     (i, s, e) \<leftarrow> send_results rfile 0 (w_results (e_world (snd st))) st;
     Some (s\<lparr>k_curCapResult := i\<rparr>, e)
   }"

section \<open>The timer of the update\<close>

text \<open>
  \<open>_updateTimerStart\<close> runs in a thread of its own. Its new timer replaces the old one, which
  cancels a wait pending on that.
\<close>

definition cancelled :: "cfg_session \<Rightarrow> cfg_session" where
  "cancelled s = s\<lparr>k_ready := k_ready s + (if k_waiting s then 1 else 0), k_waiting := False\<rparr>"

definition updateTimerStart :: "nat \<Rightarrow> cfg_session \<Rightarrow> cfg_session" where
  "updateTimerStart now s = (cancelled s)\<lparr>k_timer := Some (now + 3), k_waiting := True\<rparr>"

text \<open>\<open>updateMissionInfo\<close>; \<open>cancel\<close> and \<open>expires_at\<close> cancel a wait pending on the timer.\<close>

definition updateMissionInfo :: "(string \<Rightarrow> byte list option) \<Rightarrow> cfg_state \<Rightarrow> cfg_state option" where
  "updateMissionInfo rfile st = (case st of (s, e) \<Rightarrow>
     if \<not> k_run s then
       map_option (\<lambda>_. (cancelled s, e)) (k_timer s)
     else do {
       (s, e) \<leftarrow> update rfile (s, e);
       t \<leftarrow> k_timer s;
       Some ((cancelled s)\<lparr>k_timer := Some (t + 3), k_waiting := True\<rparr>, e)
     })"

text \<open>
  The service of the timer runs a handler when there is one: that of a cancelled wait at any time,
  that of the pending one when the timer has expired.
\<close>

definition timer_enabled :: "nat \<Rightarrow> cfg_session \<Rightarrow> bool" where
  "timer_enabled now s \<longleftrightarrow>
     0 < k_ready s \<or> k_waiting s \<and> (case k_timer s of None \<Rightarrow> False | Some t \<Rightarrow> t \<le> now)"

definition timer_handler :: "(string \<Rightarrow> byte list option) \<Rightarrow> cfg_state \<Rightarrow> cfg_state option" where
  "timer_handler rfile st = (case st of (s, e) \<Rightarrow>
     updateMissionInfo rfile
       (if 0 < k_ready s then s\<lparr>k_ready := k_ready s - 1\<rparr> else s\<lparr>k_waiting := False\<rparr>, e))"

section \<open>The requests\<close>

text \<open>The database sees the missions of the environment.\<close>

definition with_db ::
  "(sql_state \<Rightarrow> ('a \<times> sql_state) option) \<Rightarrow> env \<Rightarrow> sql_state \<Rightarrow> ('a \<times> env \<times> sql_state) option" where
  "with_db f e q = do {
     (x, q) \<leftarrow> f (q\<lparr>q_world := e_world e\<rparr>);
     Some (x, e\<lparr>e_world := q_world q\<rparr>, q)
   }"

abbreviation no_result :: "sql_state option \<Rightarrow> (unit \<times> sql_state) option" where
  "no_result r \<equiv> map_option (Pair ()) r"

text \<open>\<open>CSQL_conn::getInstance()\<close>, \<open>setParam("ms.db")\<close> and \<open>initConnection()\<close>\<close>

definition open_db :: "sqlite \<Rightarrow> CSQL_conn" where
  "open_db db = snd (initConnection db (setParam ''ms.db'' connection0))"

abbreviation set_world :: "world \<Rightarrow> env \<Rightarrow> env" where
  "set_world w e \<equiv> e\<lparr>e_world := w\<rparr>"

text \<open>Type 6: a new camera is stored and becomes an ungrouped one, with the settings as overwritten.\<close>

definition request_add_SDC ::
  "host \<Rightarrow> sqlite \<Rightarrow> cfg_uninit \<Rightarrow> nat \<Rightarrow> cfg_session \<Rightarrow> env \<Rightarrow> sql_state \<Rightarrow> (env \<times> sql_state) option" where
  "request_add_SDC h db uc n s e q = do {
     sdcCfg \<leftarrow> ParseSDCcfgInfo h (Some (k_data s)) (int n) (uc_head uc) (uc_sdcCfg uc);
     (sdcCfg, e, q) \<leftarrow> with_db (insert_SDC h db (open_db db) sdcCfg) e q;
     let sdc = (CSpeedDomeCam_new (uc_sdc uc))\<lparr>dc_m_sdcCfg := sdcCfg\<rparr>;
     let w = e_world e;
     (cams, un) \<leftarrow> addSDC (uc_new uc) (w_cams w) (w_unstart w) sdc;
     Some (set_world (w\<lparr>w_cams := cams, w_unstart := un\<rparr>) e, q)
   }"

definition unstart_updateSDC :: "CSpeedDomeCam \<Rightarrow> world \<Rightarrow> world option" where
  "unstart_updateSDC sdc w = do {
     (_, cams, un) \<leftarrow> updateSDC (w_cams w) (w_unstart w) sdc;
     Some (w\<lparr>w_cams := cams, w_unstart := un\<rparr>)
   }"

text \<open>Type 7: the settings of a camera are changed. The ungrouped cameras are updated in any case.\<close>

definition request_update_SDC ::
  "host \<Rightarrow> sqlite \<Rightarrow> cfg_uninit \<Rightarrow> nat \<Rightarrow> cfg_session \<Rightarrow> env \<Rightarrow> sql_state \<Rightarrow> (env \<times> sql_state) option" where
  "request_update_SDC h db uc n s e q = do {
     sdcCfg \<leftarrow> ParseSDCcfgInfo h (Some (k_data s)) (int n) (uc_head uc) (uc_sdcCfg uc);
     (_, e, q) \<leftarrow> with_db (no_result \<circ> update_SDC h db (open_db db) sdcCfg) e q;
     let sdc = (CSpeedDomeCam_new (uc_sdc uc))\<lparr>dc_m_sdcCfg := sdcCfg\<rparr>;
     w \<leftarrow> (if sc_missionNum sdcCfg = - 1 then unstart_updateSDC sdc (e_world e)
          else map_option snd (MissionUpdateSDC (uc_new uc) sdc (e_world e)));
     w \<leftarrow> unstart_updateSDC sdc w;
     Some (set_world w e, q)
   }"

text \<open>Type 8: a camera or a capture device changes its mission.\<close>

definition change_group :: "CSpeedDomeCam \<Rightarrow> missionGroupChgReq \<Rightarrow> world \<Rightarrow> world option" where
  "change_group raw req w =
     (if gr_type req = 0 then map_option snd (MissionUpdateSDCMissionGroup raw req w)
      else if gr_type req = 1 then map_option snd (MissionUpdateCapDevMissionGroup req w)
      else Some w)"

definition request_change_group ::
  "host \<Rightarrow> sqlite \<Rightarrow> cfg_uninit \<Rightarrow> nat \<Rightarrow> cfg_session \<Rightarrow> env \<Rightarrow> sql_state \<Rightarrow> (env \<times> sql_state) option" where
  "request_change_group h db uc n s e q = do {
     req \<leftarrow> ParseChangeGroupReq h (Some (k_data s)) (int n) (uc_head uc) (uc_req uc);
     (if gr_num req = [] \<or> gr_ori_num req = gr_dts_num req then Some (e, q)
      else do {
        (_, e, q) \<leftarrow> with_db (no_result \<circ> update_group h (uc_sql uc) db (open_db db) req) e q;
        w \<leftarrow> change_group (uc_new uc) req (e_world e);
        Some (set_world w e, q)
      })
   }"

text \<open>Type 9: a mission is added, then stored.\<close>

definition request_add_group ::
  "host \<Rightarrow> sqlite \<Rightarrow> cfg_uninit \<Rightarrow> nat \<Rightarrow> cfg_session \<Rightarrow> env \<Rightarrow> sql_state \<Rightarrow> (env \<times> sql_state) option" where
  "request_add_group h db uc n s e q = do {
     (_, num) \<leftarrow> ParseAddGroupReq h (Some (k_data s)) (int n) (uc_head uc);
     let msi = (CMission_new (uc_msi uc))\<lparr>ms_missionNum := num\<rparr>;
     let e = set_world (MissionAdd msi (e_world e)) e;
     (_, e, q) \<leftarrow> with_db (no_result \<circ> insert_mission h db (open_db db) msi) e q;
     Some (e, q)
   }"

section \<open>The handlers\<close>

text \<open>A failed read or write stops the updates; the deletion of the session is commented out.\<close>

definition cfg_failed :: "cfg_session \<Rightarrow> cfg_session" where
  "cfg_failed s = s\<lparr>k_run := False, k_freeThis := False\<rparr>"

text \<open>The request types, by number; every other type is ignored.\<close>

definition cfg_request ::
  "host \<Rightarrow> sqlite \<Rightarrow> cfg_uninit \<Rightarrow> nat \<Rightarrow> nat \<Rightarrow> byte \<Rightarrow> cfg_session \<Rightarrow> env \<Rightarrow> sql_state \<Rightarrow>
   (cfg_session \<times> env \<times> sql_state) option" where
  "cfg_request h db uc now n t s e q =
     (if t = 6 then map_option (Pair s) (request_add_SDC h db uc n s e q)
      else if t = 7 then map_option (Pair s) (request_update_SDC h db uc n s e q)
      else if t = 8 then map_option (Pair s) (request_change_group h db uc n s e q)
      else if t = 9 then map_option (Pair s) (request_add_group h db uc n s e q)
      else if t = 4 then Some (updateTimerStart now s, e, q)
      else Some (s, e, q))"

text \<open>After a request nothing is read: only the end of a write reads again.\<close>

definition cfg_handle_read ::
  "host \<Rightarrow> sqlite \<Rightarrow> cfg_uninit \<Rightarrow> nat \<Rightarrow> completion \<Rightarrow> cfg_session \<Rightarrow> env \<Rightarrow> sql_state \<Rightarrow>
   (cfg_session \<times> env \<times> sql_state) option" where
  "cfg_handle_read h db uc now c s e q =
     (case c of
        Failed _ \<Rightarrow> Some (cfg_failed s, e, q)
      | Transferred bs \<Rightarrow> do {
          data \<leftarrow> patch 0 bs (k_data s);
          let s = s\<lparr>k_data := data, k_recv_times := k_recv_times s + 1\<rparr>;
          head \<leftarrow> cfg_ParseFrameHead h (Some (k_data s)) (int (length bs)) (uc_head uc);
          cfg_request h db uc now (length bs) (ch_type head) s e q
        })"

definition cfg_handle_write :: "string option \<Rightarrow> cfg_session \<Rightarrow> env \<Rightarrow> cfg_session \<times> env" where
  "cfg_handle_write error s e =
     (case error of None \<Rightarrow> (s, cfg_start e) | Some _ \<Rightarrow> (cfg_failed s, e))"

text \<open>\<open>handle_write2\<close>, which nothing is bound to any more\<close>

definition cfg_handle_write2 :: "string option \<Rightarrow> cfg_session \<Rightarrow> cfg_session" where
  "cfg_handle_write2 error s = (case error of None \<Rightarrow> s | Some _ \<Rightarrow> cfg_failed s)"

end
