(* ===== verification/Server.thy ===== *)
theory Server
  imports ConfigSession
begin

text \<open>
  The pool of I/O services (\<open>inc/service_pool.h\<close>), the servers that accept connections
  (\<open>inc/server.h\<close>) and the start of the program (\<open>src/ipc-server.cpp\<close>). Sockets and threads are
  not modelled further than which service a session is given and whether an accept is pending.
\<close>

section \<open>The pool of services\<close>

text \<open>
  A service runs once its thread is started and until it is stopped: the \<open>work\<close> object keeps it from
  running out of work.
\<close>

record io_service =
  sv_started :: bool
  sv_stopped :: bool

record io_service_pool =
  sp_io_services :: "io_service list"
  sp_next_io_service :: nat

definition io_service_pool_new :: "nat \<Rightarrow> io_service_pool" where
  "io_service_pool_new pool_size =
     \<lparr>sp_io_services = replicate pool_size \<lparr>sv_started = False, sv_stopped = False\<rparr>, sp_next_io_service = 0\<rparr>"

definition pool_start :: "io_service_pool \<Rightarrow> io_service_pool" where
  "pool_start p = p\<lparr>sp_io_services := map (\<lambda>s. s\<lparr>sv_started := True\<rparr>) (sp_io_services p)\<rparr>"

text \<open>\<open>join\<close> returns when every thread has ended.\<close>

definition pool_join_returns :: "io_service_pool \<Rightarrow> bool" where
  "pool_join_returns p \<longleftrightarrow> (\<forall>s \<in> set (sp_io_services p). sv_started s \<longrightarrow> sv_stopped s)"

definition pool_stop :: "io_service_pool \<Rightarrow> io_service_pool" where
  "pool_stop p = p\<lparr>sp_io_services := map (\<lambda>s. s\<lparr>sv_stopped := True\<rparr>) (sp_io_services p)\<rparr>"

text \<open>The service is its index; an empty pool has none, and \<open>io_services_[0]\<close> does not exist.\<close>

definition get_io_service :: "io_service_pool \<Rightarrow> (nat \<times> io_service_pool) option" where
  "get_io_service p =
     (let i = sp_next_io_service p; n = length (sp_io_services p)
      in if i < n then Some (i, p\<lparr>sp_next_io_service := (if Suc i = n then 0 else Suc i)\<rparr>) else None)"

section \<open>The servers\<close>

text \<open>
  \<open>sr_pending\<close> is the service of the session whose accept is pending; \<open>sr_sessions\<close> are the services
  of the sessions that were started, in order.
\<close>

record server =
  sr_port :: int
  sr_io_service_pool :: io_service_pool
  sr_acceptor :: nat
  sr_type :: int
  sr_pending :: "nat option"
  sr_sessions :: "nat list"

text \<open>A new session on the next service and an accept for it\<close>

definition async_accept :: "server \<Rightarrow> server option" where
  "async_accept s = do {
     (i, p) \<leftarrow> get_io_service (sr_io_service_pool s);
     Some (s\<lparr>sr_io_service_pool := p, sr_pending := Some i\<rparr>)
   }"

definition server_new :: "int \<Rightarrow> nat \<Rightarrow> int \<Rightarrow> server option" where
  "server_new port thread_cnt type = do {
     (i, p) \<leftarrow> get_io_service (io_service_pool_new thread_cnt);
     async_accept \<lparr>sr_port = port, sr_io_service_pool = p, sr_acceptor = i, sr_type = type,
       sr_pending = None, sr_sessions = []\<rparr>
   }"

text \<open>The completion of the accept: after an error this server accepts no more.\<close>

definition handle_accept :: "string option \<Rightarrow> server \<Rightarrow> server option" where
  "handle_accept error s = do {
     i \<leftarrow> sr_pending s;
     let s = s\<lparr>sr_pending := None\<rparr>;
     (case error of
        None \<Rightarrow> async_accept (s\<lparr>sr_sessions := sr_sessions s @ [i]\<rparr>)
      | Some _ \<Rightarrow> Some s)
   }"

definition handle_accept_cfg :: "string option \<Rightarrow> server \<Rightarrow> server option" where
  "handle_accept_cfg error s = do {
     i \<leftarrow> sr_pending s;
     let s = s\<lparr>sr_pending := None\<rparr>;
     async_accept (case error of None \<Rightarrow> s\<lparr>sr_sessions := sr_sessions s @ [i]\<rparr> | Some _ \<Rightarrow> s)
   }"

text \<open>The handler bound by the constructor\<close>

definition accept_handler :: "string option \<Rightarrow> server \<Rightarrow> server option" where
  "accept_handler error s = (if sr_type s = 0 then handle_accept error s else handle_accept_cfg error s)"

text \<open>\<open>run\<close> starts the services and waits for them.\<close>

definition server_run :: "server \<Rightarrow> server" where
  "server_run s = s\<lparr>sr_io_service_pool := pool_start (sr_io_service_pool s)\<rparr>"

definition server_run_returns :: "server \<Rightarrow> bool" where
  "server_run_returns s = pool_join_returns (sr_io_service_pool (server_run s))"

section \<open>The program\<close>

definition ServerMissionStart :: "server option" where
  "ServerMissionStart = map_option server_run (server_new 6061 200 0)"

definition ServerConfigStart :: "server option" where
  "ServerConfigStart = map_option server_run (server_new 6062 20 1)"

definition main ::
  "sqlite \<Rightarrow> parser \<Rightarrow> CSpeedDomeCam \<Rightarrow> sql_state \<Rightarrow> (sql_state \<times> server \<times> server) option" where
  "main db lc raw st = do {
     st \<leftarrow> DBloadConfig db lc raw ''ms.db'' st;
     s1 \<leftarrow> ServerMissionStart;
     s2 \<leftarrow> ServerConfigStart;
     Some (st, s1, s2)
   }"

section \<open>Round robin\<close>

text \<open>\<open>n\<close> calls of \<open>get_io_service\<close>\<close>

fun get_io_services :: "nat \<Rightarrow> io_service_pool \<Rightarrow> (nat list \<times> io_service_pool) option" where
  "get_io_services 0 p = Some ([], p)"
| "get_io_services (Suc n) p = do {
     (i, p) \<leftarrow> get_io_service p;
     (is, p) \<leftarrow> get_io_services n p;
     Some (i # is, p)
   }"

lemma get_io_service_mod:
  assumes "sp_next_io_service p < length (sp_io_services p)"
  shows "get_io_service p = Some (sp_next_io_service p,
    p\<lparr>sp_next_io_service := Suc (sp_next_io_service p) mod length (sp_io_services p)\<rparr>)"
  using assms by (auto simp: get_io_service_def Let_def)

lemma get_io_services_mod:
  assumes "sp_next_io_service p < length (sp_io_services p)"
  shows "get_io_services k p = Some
    (map (\<lambda>j. (sp_next_io_service p + j) mod length (sp_io_services p)) [0..<k],
     p\<lparr>sp_next_io_service := (sp_next_io_service p + k) mod length (sp_io_services p)\<rparr>)"
  using assms
proof (induction k arbitrary: p)
  case 0
  then show ?case by simp
next
  case (Suc k)
  let ?n = "length (sp_io_services p)"
  let ?q = "p\<lparr>sp_next_io_service := Suc (sp_next_io_service p) mod ?n\<rparr>"
  have pos: "0 < ?n" using Suc.prems by auto
  then have "sp_next_io_service ?q < length (sp_io_services ?q)" by simp
  note IH = Suc.IH [OF this]
  have l: "[0..<Suc k] = 0 # map Suc [0..<k]" by (simp add: map_Suc_upt upt_conv_Cons del: upt_Suc)
  show ?case
    unfolding l using Suc.prems
    by (simp add: get_io_service_mod IH mod_simps comp_def)
qed

text \<open>
  The services are given out in turn: the \<open>k\<close>-th call on a pool of \<open>n\<close> services gives service
  \<open>k mod n\<close>, so no \<open>n\<close> calls in a row give one service twice.
\<close>

theorem get_io_service_round_robin:
  assumes "0 < n"
  shows "map_option fst (get_io_services k (io_service_pool_new n)) = Some (map (\<lambda>j. j mod n) [0..<k])"
  using get_io_services_mod [of "io_service_pool_new n" k] assms by (simp add: io_service_pool_new_def)

corollary get_io_service_round_robin_witness:
  "map_option fst (get_io_services 5 (io_service_pool_new 3)) = Some [0, 1, 2, 0, 1]"
  using get_io_service_round_robin [of 3 5] by (simp add: upt_rec numeral_2_eq_2)

section \<open>Accepting\<close>

text \<open>The completions of a server's accepts, in order; without a pending accept there are none.\<close>

fun accepts :: "string option list \<Rightarrow> server \<Rightarrow> server option" where
  "accepts [] s = Some s"
| "accepts (err # errs) s =
     (if sr_pending s = None then Some s else Option.bind (accept_handler err s) (accepts errs))"

definition server_inv :: "server \<Rightarrow> bool" where
  "server_inv s \<longleftrightarrow> sp_next_io_service (sr_io_service_pool s) < length (sp_io_services (sr_io_service_pool s))"

lemma async_accept_total:
  assumes "server_inv s"
  shows "\<exists>t i. async_accept s = Some t \<and> server_inv t \<and> sr_pending t = Some i \<and> sr_type t = sr_type s \<and>
    sr_sessions t = sr_sessions s"
proof -
  from assms have "0 < length (sp_io_services (sr_io_service_pool s))" by (auto simp: server_inv_def)
  with assms show ?thesis by (simp add: async_accept_def server_inv_def get_io_service_mod)
qed

lemma server_new_inv:
  assumes "0 < n"
  shows "\<exists>s i. server_new port n t = Some s \<and> server_inv s \<and> sr_pending s = Some i \<and> sr_type s = t \<and>
    sr_sessions s = []"
proof -
  have "get_io_service (io_service_pool_new n) = Some (0, (io_service_pool_new n)\<lparr>sp_next_io_service := Suc 0 mod n\<rparr>)"
    using assms get_io_service_mod [of "io_service_pool_new n"] by (simp add: io_service_pool_new_def)
  with assms async_accept_total [of "\<lparr>sr_port = port, sr_io_service_pool =
      (io_service_pool_new n)\<lparr>sp_next_io_service := Suc 0 mod n\<rparr>, sr_acceptor = 0, sr_type = t,
      sr_pending = None, sr_sessions = []\<rparr>"]
  show ?thesis by (auto simp: server_new_def server_inv_def io_service_pool_new_def)
qed

lemma accepts_total:
  assumes "server_inv s" and "sr_pending s \<noteq> None"
  shows "\<exists>t. accepts errs s = Some t \<and>
    length (sr_sessions t) = length (sr_sessions s) +
      (if sr_type s = 0 then length (takeWhile (\<lambda>e. e = None) errs) else length (filter (\<lambda>e. e = None) errs)) \<and>
    (sr_pending t = None \<longleftrightarrow> sr_type s = 0 \<and> list_ex (\<lambda>e. e \<noteq> None) errs)"
  using assms
proof (induction errs arbitrary: s)
  case Nil
  then show ?case by simp
next
  case (Cons e errs)
  from Cons.prems(2) obtain i where i: "sr_pending s = Some i" by auto
  let ?s = "s\<lparr>sr_pending := None\<rparr>" and ?t = "s\<lparr>sr_pending := None, sr_sessions := sr_sessions s @ [i]\<rparr>"
  have inv: "server_inv ?s" "server_inv ?t" using Cons.prems(1) by (simp_all add: server_inv_def)
  show ?case
  proof (cases "sr_type s = 0 \<and> e \<noteq> None")
    case True
    then have "accept_handler e s = Some ?s" by (auto simp: accept_handler_def handle_accept_def i)
    moreover have "accepts errs ?s = Some ?s" by (cases errs) simp_all
    ultimately show ?thesis using True i by auto
  next
    case False
    from async_accept_total [OF inv(1)] async_accept_total [OF inv(2)] False obtain t where
      t: "accept_handler e s = Some t" "server_inv t" "sr_pending t \<noteq> None" "sr_type t = sr_type s"
      "length (sr_sessions t) = length (sr_sessions s) + (if e = None then 1 else 0)"
      by (cases e) (auto simp: accept_handler_def handle_accept_def handle_accept_cfg_def i)
    from Cons.IH [OF t(2,3)] t i False show ?thesis by (cases e) auto
  qed
qed

text \<open>
  One failed accept ends the server of the capture devices and not that of the clients. The
  first, with port 6061, starts a session for each accept before the first that fails and then has
  none pending; the second, with port 6062, starts one for each accept that succeeds and goes on.
\<close>

theorem failed_accept_ends_mission_server:
  "\<exists>s t. Option.bind ServerMissionStart (accepts errs) = Some s \<and>
     length (sr_sessions s) = length (takeWhile (\<lambda>e. e = None) errs) \<and>
     (sr_pending s = None \<longleftrightarrow> (\<exists>e \<in> set errs. e \<noteq> None)) \<and>
     Option.bind ServerConfigStart (accepts errs) = Some t \<and>
     length (sr_sessions t) = length (filter (\<lambda>e. e = None) errs) \<and> sr_pending t \<noteq> None"
proof -
  have run: "server_inv (server_run s) = server_inv s" "sr_pending (server_run s) = sr_pending s"
    "sr_type (server_run s) = sr_type s" "sr_sessions (server_run s) = sr_sessions s" for s
    by (simp_all add: server_run_def server_inv_def pool_start_def)
  obtain s where s: "server_new 6061 200 0 = Some s" "server_inv s" "sr_pending s \<noteq> None" "sr_type s = 0"
    "sr_sessions s = []" using server_new_inv [of 200 6061 0] by auto
  obtain t where t: "server_new 6062 20 1 = Some t" "server_inv t" "sr_pending t \<noteq> None" "sr_type t = 1"
    "sr_sessions t = []" using server_new_inv [of 20 6062 1] by auto
  from accepts_total [of "server_run s" errs] accepts_total [of "server_run t" errs] s t show ?thesis
    by (auto simp: ServerMissionStart_def ServerConfigStart_def run list_ex_iff)
qed

text \<open>
  Neither server's \<open>run\<close> ever returns, since nothing stops the services: the program ends only
  when it is killed.
\<close>

theorem servers_run_forever:
  "(\<exists>s. ServerMissionStart = Some s \<and> \<not> server_run_returns s) \<and>
   (\<exists>s. ServerConfigStart = Some s \<and> \<not> server_run_returns s)"
proof -
  have stopped: "\<not> server_run_returns s" if "server_new p n t = Some s0" "s = server_run s0" "0 < n" for p n t s0 s
  proof -
    from that(1) have "sp_io_services (sr_io_service_pool s0) = replicate n \<lparr>sv_started = False, sv_stopped = False\<rparr>"
      by (auto simp: server_new_def async_accept_def get_io_service_def io_service_pool_new_def Let_def
          bind_eq_Some_conv split: if_splits)
    with that(2,3) show ?thesis
      by (auto simp: server_run_returns_def server_run_def pool_start_def pool_join_returns_def)
  qed
  from server_new_inv [of 200 6061 0] server_new_inv [of 20 6062 1] stopped show ?thesis
    by (auto simp: ServerMissionStart_def ServerConfigStart_def)
qed

end
