(* ===== verification/ProtocolFacts.thy ===== *)
theory ProtocolFacts
  imports Protocol
begin

text \<open>
  What is proved of \<open>CProtocol\<close>: the exact bytes of every packaged frame, the reference wire
  formats of the parsed frames with their round trips, and the inputs on which a parser leaves
  defined behaviour.
\<close>

section \<open>Response frames\<close>

lemma PackageResponeFrame_store:
  "PackageResponeFrame (Some b) t r =
     (if 6 \<le> length b then Some (6, le_enc 4 (6 :: u32) @ [respone_code t, r] @ drop 6 b) else None)"
proof (cases "6 \<le> length b")
  case True
  then obtain b0 b1 b2 b3 b4 b5 q where "b = b0 # b1 # b2 # b3 # b4 # b5 # q"
    by (auto simp: numeral_eq_Suc Suc_le_length_iff)
  then show ?thesis
    by (simp add: PackageResponeFrame_def patch_def numeral_eq_Suc)
next
  case False
  then show ?thesis by (simp add: PackageResponeFrame_def patch_def)
qed

text \<open>
  A response frame is the six bytes length, type, result, whatever the buffer held before;
  the rest of the buffer is untouched, and a buffer of fewer than six bytes is overrun.
\<close>

theorem PackageResponeFrame_bytes:
  "PackageResponeFrame (Some b) t r =
     (if 6 \<le> length b then Some (6, le_enc 4 (6 :: u32) @ [respone_code t, r] @ drop 6 b) else None)"
  by (rule PackageResponeFrame_store)

lemma inj_respone_code: "respone_code t = respone_code u \<Longrightarrow> t = u"
  by (cases t; cases u) auto

text \<open>
  The server stores the frame length in host order but its own head parser reads it in
  network order: the type of a response survives, the length 6 reads as 0x06000000.
\<close>

theorem respone_frame_head_length_swapped:
  assumes "PackageResponeFrame (Some b) t r = Some (n, b')" and "0 \<le> sz"
  shows "ParseFrameHead (Some b') sz h0 =
           Some (0, h0\<lparr>ph_frameSize := 0x06000000, ph_type := respone_code t\<rparr>)"
proof -
  have "b' = le_enc 4 (6 :: u32) @ respone_code t # r # drop 6 b"
    using assms(1) by (auto simp: PackageResponeFrame_store split: if_splits)
  moreover have "ntohl 6 = 0x06000000"
    by code_simp
  ultimately show ?thesis
    using assms(2) by (simp add: ParseFrameHead_def rd_simps)
qed

theorem respone_frame_head_length_swapped_witness:
  "ParseFrameHead (Some [6, 0, 0, 0, 2, 1, 9]) 7 \<lparr>ph_frameSize = 0, ph_type = 0\<rparr> =
     Some (0, \<lparr>ph_frameSize = 0x06000000, ph_type = 2\<rparr>)"
proof -
  have "PackageResponeFrame (Some [9, 9, 9, 9, 9, 9, 9]) LOGIN_RESP 1 = Some (6, [6, 0, 0, 0, 2, 1, 9])"
    by code_simp
  from respone_frame_head_length_swapped [OF this, of 7 "\<lparr>ph_frameSize = 0, ph_type = 0\<rparr>"]
  show ?thesis by simp
qed

section \<open>Login requests\<close>

text \<open>The reference layout of a login request, after the five bytes of frame head.\<close>

definition login_wire ::
  "byte \<Rightarrow> byte list \<Rightarrow> byte list \<Rightarrow> byte list \<Rightarrow> byte list \<Rightarrow> byte list \<Rightarrow> byte list \<Rightarrow>
   byte list \<Rightarrow> u16 \<Rightarrow> byte list" where
  "login_wire dt mac name num ip msk gw sip port =
     [dt] @ mac @ [word_of_nat (length name)] @ name @ [word_of_nat (length num)] @ num @
     ip @ msk @ gw @ sip @ le_enc 2 (ntohs port)"

lemma unat_of_length: "length xs < 256 \<Longrightarrow> unat (word_of_nat (length xs) :: byte) = length xs"
  by (simp add: unat_of_nat)

lemma ParseLoginInfo_wire:
  assumes "length mac = 6" "length name < 256" "length num < 256"
    and "length ip = 4" "length msk = 4" "length gw = 4" "length sip = 4"
    and "length (li_name li) = 512" "length (li_devNum li) = 512" "0 \<le> sz"
  shows "ParseLoginInfo (Some (login_wire dt mac name num ip msk gw sip port @ rest)) sz li =
     Some (25 + int (length name) + int (length num),
       \<lparr>li_devType = dt, li_MAC = mac, li_nameLen = word_of_nat (length name),
        li_name = name @ drop (length name) (li_name li),
        li_devNumLen = word_of_nat (length num),
        li_devNum = num @ drop (length num) (li_devNum li),
        li_IP = ip, li_MASK = msk, li_gateway = gw, li_serverIP = sip, li_serverPort = port\<rparr>)"
  using assms
  by (simp add: ParseLoginInfo_def login_wire_def rd_simps unat_of_length memcpy_into_def)

text \<open>
  C30: parsing a login request whose two names have at most 255 bytes recovers every field of it; the two name arrays keep
  their old tails behind the received bytes, and any bytes after the request are ignored. The two length
  bytes can never overrun the arrays of 512.
\<close>

theorem ParseLoginInfo_roundtrip:
  assumes "length mac = 6" "length name < 256" "length num < 256"
    and "length ip = 4" "length msk = 4" "length gw = 4" "length sip = 4"
    and "length (li_name li) = 512" "length (li_devNum li) = 512" "0 \<le> sz"
  shows "ParseLoginInfo (Some (login_wire dt mac name num ip msk gw sip port @ rest)) sz li =
     Some (25 + int (length name) + int (length num),
       \<lparr>li_devType = dt, li_MAC = mac, li_nameLen = word_of_nat (length name),
        li_name = name @ drop (length name) (li_name li),
        li_devNumLen = word_of_nat (length num),
        li_devNum = num @ drop (length num) (li_devNum li),
        li_IP = ip, li_MASK = msk, li_gateway = gw, li_serverIP = sip, li_serverPort = port\<rparr>)"
  using assms by (rule ParseLoginInfo_wire)

definition LoginInfo0 :: LoginInfo where
  "LoginInfo0 = \<lparr>li_devType = 0, li_MAC = [], li_nameLen = 0, li_name = replicate 512 0,
     li_devNumLen = 0, li_devNum = replicate 512 0, li_IP = [], li_MASK = [], li_gateway = [],
     li_serverIP = [], li_serverPort = 0\<rparr>"

theorem ParseLoginInfo_roundtrip_witness:
  "map_option fst (ParseLoginInfo (Some (login_wire 1 [1,2,3,4,5,6] [65] [66,67] [10,0,0,1]
     [255,0,0,0] [10,0,0,2] [10,0,0,3] 6061 @ [])) 30 LoginInfo0) = Some 28"
  by (subst ParseLoginInfo_roundtrip) (simp_all add: LoginInfo0_def)

section \<open>3D positioning requests\<close>

definition tdr_wire :: "u32 \<Rightarrow> byte \<Rightarrow> ThreeDirReq \<Rightarrow> byte list" where
  "tdr_wire fsz t r = le_enc 4 fsz @ [t] @ le_enc 2 (td_ratioWidth r) @
     le_enc 2 (td_ratioHeight r) @ le_enc 2 (td_zoomLeft r) @ le_enc 2 (td_zoomTop r) @
     le_enc 2 (td_zoomRight r) @ le_enc 2 (td_zoombottom r)"

text \<open>A 3D positioning request is recovered whole from its 17 bytes, and from no fewer.\<close>

theorem ParseTDR_roundtrip:
  "0 \<le> sz \<Longrightarrow> ParseTDR (Some (tdr_wire fsz t r @ rest)) sz old = Some (17, r) \<and>
     (\<forall>k < 17. ParseTDR (Some (take k (tdr_wire fsz t r))) sz old = None)"
proof
  assume "0 \<le> sz"
  then show "ParseTDR (Some (tdr_wire fsz t r @ rest)) sz old = Some (17, r)"
    by (simp add: ParseTDR_def tdr_wire_def rd_simps)
next
  assume sz: "0 \<le> sz"
  have short: "ParseTDR (Some f) sz old = None" if "length f < 17" for f
  proof (rule ccontr)
    assume "ParseTDR (Some f) sz old \<noteq> None"
    with sz obtain x1 p1 x2 p2 x3 p3 x4 p4 x5 p5 x6 p6 x7 p7 x8 p8 where
      "rd32 f = Some (x1, p1)" "rd8 p1 = Some (x2, p2)" "rd16 p2 = Some (x3, p3)"
      "rd16 p3 = Some (x4, p4)" "rd16 p4 = Some (x5, p5)" "rd16 p5 = Some (x6, p6)"
      "rd16 p6 = Some (x7, p7)" "rd16 p7 = Some (x8, p8)"
      by (auto simp: ParseTDR_def bind_eq_Some_conv)
    then have "17 \<le> length f"
      by (auto dest!: rd_lengths)
    with that show False by simp
  qed
  show "\<forall>k < 17. ParseTDR (Some (take k (tdr_wire fsz t r))) sz old = None"
    by (auto intro!: short)
qed

theorem ParseTDR_roundtrip_witness:
  "ParseTDR (Some (tdr_wire 17 7 \<lparr>td_ratioWidth = 1920, td_ratioHeight = 1080, td_zoomLeft = 1,
     td_zoomTop = 2, td_zoomRight = 300, td_zoombottom = 400\<rparr> @ [])) 17
     \<lparr>td_ratioWidth = 0, td_ratioHeight = 0, td_zoomLeft = 0, td_zoomTop = 0, td_zoomRight = 0,
       td_zoombottom = 0\<rparr> =
   Some (17, \<lparr>td_ratioWidth = 1920, td_ratioHeight = 1080, td_zoomLeft = 1, td_zoomTop = 2,
     td_zoomRight = 300, td_zoombottom = 400\<rparr>)"
  by (rule ParseTDR_roundtrip [THEN conjunct1]) simp


section \<open>Snapshot results\<close>

text \<open>
  The reference layout of a snapshot result: a length-prefixed block is \<open>blk\<close>, a picture is
  its time, its size and its bytes.
\<close>

definition blk :: "byte list \<Rightarrow> byte list" where
  "blk bs = word_of_nat (length bs) # bs"

definition pic_bytes :: "u64 \<times> byte list \<Rightarrow> byte list" where
  "pic_bytes q = le_enc 8 (fst q) @ le_enc 4 (word_of_nat (length (snd q)) :: u32) @ snd q"

definition snap_head ::
  "u32 \<Rightarrow> byte \<Rightarrow> string \<Rightarrow> u32 \<Rightarrow> byte \<Rightarrow> byte list \<Rightarrow> byte list" where
  "snap_head fs ty cam pv pc plate =
     le_enc 4 fs @ [ty] @ blk (str_bytes cam) @ le_enc 4 pv @ [pc] @ blk plate"

definition snap_wire ::
  "u32 \<Rightarrow> byte \<Rightarrow> string \<Rightarrow> u32 \<Rightarrow> byte \<Rightarrow> byte list \<Rightarrow> string \<Rightarrow> (u64 \<times> byte list) list \<Rightarrow>
   byte list" where
  "snap_wire fs ty cam pv pc plate vedio pics =
     snap_head fs ty cam pv pc plate @ blk (str_bytes vedio) @
     [word_of_nat (length pics)] @ concat (map pic_bytes pics)"

lemma rd_blk: "length bs < 256 \<Longrightarrow>
    Option.bind (rd8 (blk bs @ q)) (\<lambda>(n, p). Option.bind (rd_bytes (unat n) p) (\<lambda>(x, p). k n x p)) =
    k (word_of_nat (length bs)) bs q"
  by (simp add: blk_def rd_simps unat_of_length)

lemma plate_utf8_ok:
  assumes "h_setlocale h ''zh_CN.gbk''" "h_setlocale h ''zh_CN.utf8''" "cstr tmp = Some s"
    and "h_mbstowcs h s = Some ws" "ws \<noteq> []" "h_wcstombs h ws = Some u" "u \<noteq> []"
    and "length u < 124" "no_nul u"
  shows "plate_utf8 h tmp = Some u"
  using assms
  by (simp add: plate_utf8_def gbk2utf8_def patch_def bytes_simps)

lemma plate_utf8_no_text:
  assumes "cstr tmp = Some s" "h_mbstowcs h s = None \<or> h_mbstowcs h s = Some []"
  shows "plate_utf8 h tmp = None"
  using assms by (auto simp: plate_utf8_def gbk2utf8_def)

text \<open>
  The first parser does not step over the plate number: whenever it accepts a frame with a
  plate, the video-name length it reports is the plate's first byte.
\<close>

theorem ParseSnapResult_plate_not_skipped:
  assumes "plate \<noteq> []" "length plate < 256" "length cam < 256"
    and "ParseSnapResult h stk (Some (snap_head fs ty cam pv pc plate @ rest)) sz res = Some (n, r)"
    and "0 \<le> sz"
  shows "ir_plateNumLen r = word_of_nat (length plate) \<and> ir_vedioNameLen r = hd plate"
proof -
  from assms(1) obtain b bs where plate: "plate = b # bs" by (cases plate) auto
  have c: "unat (word_of_nat (length cam) :: byte) = length cam"
    "unat (word_of_nat (length plate) :: byte) = length plate"
    using assms(2,3) by (simp_all add: unat_of_nat)
  have min: "min (length cam) 1024 = length cam" "min (length plate) 1024 = length plate"
    using assms(2,3) by simp_all
  have rd: "rd_bytes (length plate) (plate @ rest) = Some (plate, rest)"
    "rd8 (plate @ rest) = Some (b, bs @ rest)"
    by (rule rd_bytes_append, simp) (simp add: rd_simps plate)
  from assms(4,5) show ?thesis
    by (auto simp: ParseSnapResult_def snap_head_def blk_def rd_simps c min rd Let_def
        bind_eq_Some_conv plate)
qed

text \<open>A concrete host for the witnesses: identity character sets, fixed local time.\<close>

fun dec :: "nat \<Rightarrow> string" where
  "dec n = (if n < 10 then [char_of (48 + n)] else dec (n div 10) @ [char_of (48 + n mod 10)])"

declare dec.simps [simp del]

definition host0 :: host where
  "host0 = \<lparr>h_setlocale = (\<lambda>_. True), h_mbstowcs = (\<lambda>s. Some (map of_char s)),
     h_wcstombs = (\<lambda>ws. Some (map char_of ws)), h_localtime = (\<lambda>_ _. ''20170101''),
     h_open = (\<lambda>_. True), h_lexical_cast = (\<lambda>i. dec (nat i))\<rparr>"

definition res0 :: IlligalProcResult where
  "res0 = \<lparr>ir_camNumLen = 0, ir_camNum = [], ir_plateVariety = 0, ir_plateColor = 0,
     ir_plateNumLen = 0, ir_plateNum = [], ir_vedioNameLen = 0, ir_vedioName = [],
     ir_picNum = 0, ir_rcvdSzie = 0, ir_frameSize = 0, ir_missionNum = 0, ir_capTime = [],
     ir_picName = (\<lambda>_. [])\<rparr>"

lemma not_None_pair: "map_option (\<lambda>_. ()) x = Some () \<Longrightarrow> \<exists>n r. x = Some (n, r)"
  by (cases x) auto

theorem ParseSnapResult_plate_not_skipped_witness:
  "\<exists>n r. ParseSnapResult host0 (replicate 1024 0)
     (Some (snap_head 40 11 ''88'' 1 2 [2, 66] @ replicate 20 0)) 40 res0 = Some (n, r) \<and>
     ir_plateNumLen r = 2 \<and> ir_vedioNameLen r = 2"
proof -
  have "map_option (\<lambda>_. ()) (ParseSnapResult host0 (replicate 1024 0)
     (Some (snap_head 40 11 ''88'' 1 2 [2, 66] @ replicate 20 0)) 40 res0) = Some ()"
    by code_simp
  then obtain n r where p: "ParseSnapResult host0 (replicate 1024 0)
     (Some (snap_head 40 11 ''88'' 1 2 [2, 66] @ replicate 20 0)) 40 res0 = Some (n, r)"
    using not_None_pair by blast
  from ParseSnapResult_plate_not_skipped [OF _ _ _ p] p show ?thesis by simp
qed

section \<open>Pictures\<close>

definition pic_path :: "host \<Rightarrow> string \<Rightarrow> string \<Rightarrow> string \<Rightarrow> nat \<Rightarrow> u64 \<Rightarrow> string" where
  "pic_path h dir cam plate i t =
     dir @ cam @ ''-'' @ plate @ ''-'' @ h_localtime h ''%Y%m%d%H%M%S'' (t div 1000) @ ''-'' @
     h_lexical_cast h (int i) @ ''_'' @ h_lexical_cast h (int i) @ ''.jpg''"

fun pic_appends :: "(nat \<Rightarrow> u64 \<Rightarrow> string) \<Rightarrow> nat \<Rightarrow> (u64 \<times> byte list) list \<Rightarrow> fs_op list" where
  "pic_appends nm i [] = []"
| "pic_appends nm i (q # ps) = Append (nm i (fst q)) (snd q) # pic_appends nm (Suc i) ps"

fun pic_names ::
  "(nat \<Rightarrow> u64 \<Rightarrow> string) \<Rightarrow> nat \<Rightarrow> (u64 \<times> byte list) list \<Rightarrow> (nat \<Rightarrow> string) \<Rightarrow> nat \<Rightarrow> string" where
  "pic_names nm i [] f = f"
| "pic_names nm i (q # ps) f = pic_names nm (Suc i) ps (f(i := nm i (fst q)))"

lemma rd_pic:
  "length d < 2 ^ 32 \<Longrightarrow> Option.bind (rd64 (pic_bytes (t, d) @ q)) (\<lambda>(t, p). Option.bind (rd32 p)
     (\<lambda>(n, p). Option.bind (rd_bytes (unat n) p) (\<lambda>(x, p). k t n x p))) =
   k t (word_of_nat (length d)) d q"
  by (simp add: pic_bytes_def rd_simps unat_of_nat)

lemma pic_step:
  assumes "0 < i" "i < 24" "length d < 2 ^ 32" "\<And>s. h_open h s"
  shows "ParseSnapResultPic_step h i (res, dir, pic_bytes (t, d) @ q, ops) =
    Some (res\<lparr>ir_picName := (ir_picName res)
            (i := pic_path h dir (ir_camNum res) (ir_plateNum res) i t)\<rparr>, dir, q,
          ops @ [Append (pic_path h dir (ir_camNum res) (ir_plateNum res) i t) d])"
proof -
  have "unat (word_of_nat (length d) :: u32) = length d"
    using assms(3) by (simp add: unat_of_nat)
  with assms show ?thesis
    by (simp add: ParseSnapResultPic_step_def pic_bytes_def rd_simps Let_def pic_path_def MAX_PIC_def)
qed

lemma pic_step_first:
  fixes dir :: string and t :: u64
  assumes "length d < 2 ^ 32" "\<And>s. h_open h s"
  defines "dir' \<equiv> dir @ h_localtime h ''%Y%m%d%H%M%S'' (t div 1000) @ ''/''"
  shows "ParseSnapResultPic_step h 0 (res, dir, pic_bytes (t, d) @ q, ops) =
    Some (res\<lparr>ir_capTime := h_localtime h ''%Y-%m-%d.%H:%M:%S'' (t div 1000),
              ir_picName := (ir_picName res)
                (0 := pic_path h dir' (ir_camNum res) (ir_plateNum res) 0 t)\<rparr>, dir', q,
          ops @ [Mkdir (dir @ h_localtime h ''%Y%m%d%H%M%S'' (t div 1000)),
                 Append (pic_path h dir' (ir_camNum res) (ir_plateNum res) 0 t) d])"
proof -
  have "unat (word_of_nat (length d) :: u32) = length d"
    using assms(1) by (simp add: unat_of_nat)
  with assms show ?thesis
    by (simp add: ParseSnapResultPic_step_def pic_bytes_def rd_simps Let_def pic_path_def MAX_PIC_def)
qed

lemma pics_loop:
  fixes dir :: string and res :: IlligalProcResult
  assumes "0 < i" "i + length ps \<le> 24" "\<forall>q \<in> set ps. length (snd q) < 2 ^ 32" "\<And>s. h_open h s"
  defines "nm \<equiv> pic_path h dir (ir_camNum res) (ir_plateNum res)"
  shows "for_loop i (length ps) (ParseSnapResultPic_step h)
      (res, dir, concat (map pic_bytes ps) @ rest, ops) =
    Some (res\<lparr>ir_picName := pic_names nm i ps (ir_picName res)\<rparr>, dir, rest,
          ops @ pic_appends nm i ps)"
  using assms(1-3) unfolding nm_def
proof (induction ps arbitrary: i res ops)
  case Nil
  then show ?case by simp
next
  case (Cons q ps)
  obtain t d where q: "q = (t, d)" by (cases q) auto
  from Cons.prems q have d: "length d < 2 ^ 32" "i < 24" by auto
  note st = pic_step [OF Cons.prems(1) d(2,1) assms(4)]
  show ?case
    using Cons.IH [of "Suc i"] Cons.prems by (simp add: q st)
qed

lemma pic_names_at:
  "pic_names nm i ps f j =
     (if i \<le> j \<and> j < i + length ps then nm j (fst (ps ! (j - i))) else f j)"
proof (induction ps arbitrary: i f)
  case Nil
  then show ?case by auto
next
  case (Cons q ps)
  show ?case
    using Cons.IH [of "Suc i" "f(i := nm i (fst q))"]
    by (auto simp: nth_Cons' Suc_le_eq diff_Suc fun_upd_def split: nat.splits)
qed

text \<open>The fields the head of the second parser fills in.\<close>

definition snap_fields ::
  "IlligalProcResult \<Rightarrow> u32 \<Rightarrow> string \<Rightarrow> u32 \<Rightarrow> byte \<Rightarrow> byte list \<Rightarrow> string \<Rightarrow> string \<Rightarrow> nat \<Rightarrow>
   IlligalProcResult" where
  "snap_fields res fs cam pv pc plate u vedio n =
     res\<lparr>ir_frameSize := fs, ir_camNumLen := word_of_nat (length cam), ir_camNum := cam,
        ir_plateVariety := pv, ir_plateColor := pc, ir_plateNumLen := word_of_nat (length plate),
        ir_plateNum := u, ir_vedioNameLen := word_of_nat (length vedio),
        ir_vedioName := vedio @ map chr8 (drop (length vedio) plate),
        ir_picNum := word_of_nat n\<rparr>"

lemma cstr_chars:
  "0 \<notin> set bs \<Longrightarrow> 0 < n \<Longrightarrow> cstr (bs @ replicate n 0) = Some (map chr8 bs)"
proof (induction bs)
  case Nil
  then show ?case by (cases n) auto
next
  case (Cons b bs)
  then show ?case by auto
qed

lemma str_bytes_nonzero: "no_nul s \<Longrightarrow> 0 \<notin> set (str_bytes s)"
  by (auto simp: no_nul_def str_bytes_def)

lemma snap_head_parse:
  assumes "wire_string cam" "wire_string vedio" "length plate < 256" "0 \<notin> set plate"
    and "plate_utf8 h (plate @ replicate (1024 - length plate) 0) = Some u"
    and "length stk = 1024" "n < 256"
  shows "ParseSnapResultPic_head h stk
      (snap_head fs ty cam pv pc plate @ blk (str_bytes vedio) @ word_of_nat n # q) res =
    Some (snap_fields res fs cam pv pc plate u vedio n, q)"
proof -
  from assms have l: "length cam < 256" "no_nul cam" "length vedio < 256" "no_nul vedio"
    by (auto simp: wire_string_def)
  have c: "unat (word_of_nat (length cam) :: byte) = length cam"
    "unat (word_of_nat (length plate) :: byte) = length plate"
    "unat (word_of_nat (length vedio) :: byte) = length vedio"
    using l assms(3) by (simp_all add: unat_of_nat)
  have min: "min (length cam) 1024 = length cam" "min (length plate) 1024 = length plate"
    "min (length vedio) 1024 = length vedio"
    using l assms(3) by simp_all
  have cam: "cstr (str_bytes cam @ replicate (1024 - length cam) 0) = Some cam"
    using l by (intro cstr_str_bytes_zeros) auto
  have vedio: "cstr (str_bytes vedio @ drop (length vedio) (plate @ replicate (1024 - length plate) 0)) =
      Some (vedio @ map chr8 (drop (length vedio) plate))"
  proof -
    have nz: "0 \<notin> set (str_bytes vedio @ drop (length vedio) plate)"
      using str_bytes_nonzero [OF l(4)] assms(4) by (auto dest: in_set_dropD)
    have "cstr ((str_bytes vedio @ drop (length vedio) plate) @
        replicate (1024 - length plate - (length vedio - length plate)) 0) =
      Some (map chr8 (str_bytes vedio @ drop (length vedio) plate))"
      using l assms(3) by (intro cstr_chars nz) auto
    then show ?thesis by simp
  qed
  have rdp: "rd_bytes (length plate) (plate @ x) = Some (plate, x)"
    "rd_bytes (length cam) (str_bytes cam @ x) = Some (str_bytes cam, x)"
    "rd_bytes (length vedio) (str_bytes vedio @ x) = Some (str_bytes vedio, x)" for x
    by (rule rd_bytes_append, simp)+
  show ?thesis
    using assms(5,6) l(1,3) assms(3) cam vedio
    by (simp add: ParseSnapResultPic_head_def snap_head_def blk_def rd_simps c min rdp
        memcpy_into_def snap_fields_def)
qed

text \<open>The directory the pictures of one result go to, and the parser's final state.\<close>

definition pic_dir :: "host \<Rightarrow> string \<Rightarrow> u64 \<Rightarrow> string" where
  "pic_dir h cam t = ''/home/pic/'' @ cam @ ''/'' @ h_localtime h ''%Y%m%d%H%M%S'' (t div 1000)"

lemma ParseSnapResultPic_on_wire:
  assumes "wire_string cam" "wire_string vedio" "length plate < 256" "0 \<notin> set plate"
    and "plate_utf8 h (plate @ replicate (1024 - length plate) 0) = Some u"
    and "length stk = 1024" "0 \<le> sz" "length pics < 256"
  shows "ParseSnapResultPic h stk (Some (snap_wire fs ty cam pv pc plate vedio pics @ rest)) sz res =
     map_option (\<lambda>(r, _, _, ops). (sz, r, ops))
       (for_loop 0 (length pics) (ParseSnapResultPic_step h)
         (snap_fields res fs cam pv pc plate u vedio (length pics), ''/home/pic/'' @ cam @ ''/'',
          concat (map pic_bytes pics) @ rest, [Mkdir (''/home/pic/'' @ cam)]))"
proof -
  have wire: "snap_wire fs ty cam pv pc plate vedio pics @ rest =
      snap_head fs ty cam pv pc plate @ blk (str_bytes vedio) @
      word_of_nat (length pics) # (concat (map pic_bytes pics) @ rest)"
    by (simp add: snap_wire_def)
  have n: "unat (word_of_nat (length pics) :: byte) = length pics"
    using assms(8) by (rule unat_of_length)
  have map: "Option.bind x (\<lambda>(r, _, _, ops). Some (sz, r, ops)) =
      map_option (\<lambda>(r, _, _, ops). (sz, r, ops)) x" for x :: "pic_state option"
    by (cases x) auto
  show ?thesis
    using assms(7) unfolding wire
    by (simp add: ParseSnapResultPic_def snap_head_parse [OF assms(1-6,8)] Let_def map)
      (simp add: snap_fields_def n)
qed

lemma ParseSnapResultPic_wire:
  assumes "wire_string cam" "wire_string vedio" "length plate < 256" "0 \<notin> set plate"
    and "plate_utf8 h (plate @ replicate (1024 - length plate) 0) = Some u"
    and "length stk = 1024" "0 \<le> sz" "\<forall>s. h_open h s"
    and "\<forall>q \<in> set ((t, d) # ps). length (snd q) < 2 ^ 32" "length ((t, d) # ps) \<le> 24"
  defines "nm \<equiv> pic_path h (pic_dir h cam t @ ''/'') cam u"
  shows "\<exists>r. ParseSnapResultPic h stk
       (Some (snap_wire fs ty cam pv pc plate vedio ((t, d) # ps) @ rest)) sz res =
         Some (sz, r, [Mkdir (''/home/pic/'' @ cam), Mkdir (pic_dir h cam t)] @
                        pic_appends nm 0 ((t, d) # ps)) \<and>
       ir_vedioName r = vedio @ map chr8 (drop (length vedio) plate) \<and>
       ir_camNum r = cam \<and> ir_plateNum r = u \<and> ir_frameSize r = fs \<and>
       ir_plateVariety r = pv \<and> ir_plateColor r = pc \<and>
       ir_picNum r = word_of_nat (length ((t, d) # ps)) \<and>
       (\<forall>j < length ((t, d) # ps). ir_picName r j = nm j (fst (((t, d) # ps) ! j)))"
proof -
  have op: "\<And>s. h_open h s" using assms(8) by blast
  have d: "length d < 2 ^ 32" using assms(9) by simp
  have lps: "length ((t, d) # ps) < 256" using assms(10) by simp
  have loop: "Suc 0 + length ps \<le> 24" "\<forall>q \<in> set ps. length (snd q) < 2 ^ 32"
    using assms(9,10) by auto
  show ?thesis
    unfolding ParseSnapResultPic_on_wire [OF assms(1-7) lps]
    using loop
    by (simp add: pic_step_first [OF d op] pics_loop [OF _ loop op] snap_fields_def nm_def
        pic_dir_def pic_names_at nth_Cons' Suc_le_eq)
qed

text \<open>
  C28: with a camera number, a video name and a plate of at most 255 bytes without a zero byte, a convertible plate, at least
  one and at most 24 pictures and a file system that opens every file, the second parser accepts the frame and appends each
  picture's bytes, in order, to a file of its
  own whose path is recorded as the picture's name; the video name it reports is the sent one
  followed by the tail of a longer plate number.
\<close>

theorem ParseSnapResultPic_roundtrip:
  assumes "wire_string cam" "wire_string vedio" "length plate < 256" "0 \<notin> set plate"
    and "plate_utf8 h (plate @ replicate (1024 - length plate) 0) = Some u"
    and "length stk = 1024" "0 \<le> sz" "\<forall>s. h_open h s"
    and "\<forall>q \<in> set ((t, d) # ps). length (snd q) < 2 ^ 32" "length ((t, d) # ps) \<le> 24"
  defines "nm \<equiv> pic_path h (pic_dir h cam t @ ''/'') cam u"
  shows "\<exists>r. ParseSnapResultPic h stk
       (Some (snap_wire fs ty cam pv pc plate vedio ((t, d) # ps) @ rest)) sz res =
         Some (sz, r, [Mkdir (''/home/pic/'' @ cam), Mkdir (pic_dir h cam t)] @
                        pic_appends nm 0 ((t, d) # ps)) \<and>
       ir_vedioName r = vedio @ map chr8 (drop (length vedio) plate) \<and>
       ir_camNum r = cam \<and> ir_plateNum r = u \<and> ir_frameSize r = fs \<and>
       ir_plateVariety r = pv \<and> ir_plateColor r = pc \<and>
       ir_picNum r = word_of_nat (length ((t, d) # ps)) \<and>
       (\<forall>j < length ((t, d) # ps). ir_picName r j = nm j (fst (((t, d) # ps) ! j)))"
  unfolding nm_def by (rule ParseSnapResultPic_wire [OF assms(1-10)])

text \<open>
  A result that announces more than 24 pictures makes the parser store past the array of
  picture names; nothing in the frame check prevents it.
\<close>

theorem ParseSnapResultPic_too_many_pictures:
  assumes "wire_string cam" "wire_string vedio" "length plate < 256" "0 \<notin> set plate"
    and "plate_utf8 h (plate @ replicate (1024 - length plate) 0) = Some u"
    and "length stk = 1024" "0 \<le> sz" "24 < length pics" "length pics < 256"
  shows "ParseSnapResultPic h stk (Some (snap_wire fs ty cam pv pc plate vedio pics @ rest)) sz res =
     None"
proof -
  have step24: "ParseSnapResultPic_step h 24 s = None" for s
    by (rule ccontr, cases s)
      (auto simp: ParseSnapResultPic_step_def MAX_PIC_def Let_def bind_eq_Some_conv)
  obtain m where m: "length pics = 24 + Suc m"
    using assms(8) by (metis add_Suc_right less_iff_Suc_add)
  show ?thesis
    unfolding ParseSnapResultPic_on_wire [OF assms(1-7,9)] m
    by (simp only: for_loop_add) (simp add: step24 bind_eq_None_conv)
qed

text \<open>
  A plate number the host cannot convert, the empty one included, makes the parser store at
  index -1 of its conversion buffer.
\<close>

theorem ParseSnapResultPic_unconvertible_plate:
  assumes "wire_string cam" "length plate < 256" "0 \<notin> set plate"
    and "h_mbstowcs h (map chr8 plate) = None \<or> h_mbstowcs h (map chr8 plate) = Some []"
    and "length stk = 1024" "0 \<le> sz"
  shows "ParseSnapResultPic h stk (Some (snap_head fs ty cam pv pc plate @ rest)) sz res = None"
proof -
  have c: "unat (word_of_nat (length cam) :: byte) = length cam"
    "unat (word_of_nat (length plate) :: byte) = length plate"
    "min (length cam) 1024 = length cam" "min (length plate) 1024 = length plate"
    using assms(1,2) by (simp_all add: unat_of_nat wire_string_def)
  have cam: "cstr (str_bytes cam @ replicate (1024 - length cam) 0) = Some cam"
    using assms(1) by (intro cstr_str_bytes_zeros) (auto simp: wire_string_def)
  have "cstr (plate @ replicate (1024 - length plate) 0) = Some (map chr8 plate)"
    using assms(2,3) by (intro cstr_chars) auto
  then have p: "plate_utf8 h (plate @ replicate (1024 - length plate) 0) = None"
    using assms(4) by (rule plate_utf8_no_text)
  have rdp: "rd_bytes (length plate) (plate @ x) = Some (plate, x)"
    "rd_bytes (length cam) (str_bytes cam @ x) = Some (str_bytes cam, x)" for x
    by (rule rd_bytes_append, simp)+
  show ?thesis
    using assms(1,2,5,6) cam p
    by (simp add: ParseSnapResultPic_def ParseSnapResultPic_head_def snap_head_def blk_def rd_simps
        c rdp memcpy_into_def wire_string_def)
qed

lemma wire_string_code: "wire_string s \<longleftrightarrow> list_all (\<lambda>c. ord8 c \<noteq> 0) s \<and> length s < 256"
  by (simp add: wire_string_def no_nul_def list_all_iff)

lemma host0_plate: "plate_utf8 host0 ([65, 66] @ replicate (1024 - length [65 :: byte, 66]) 0) = Some ''AB''"
  by code_simp

lemma host0_strings: "wire_string ''88''" "wire_string ''v''"
  by (simp_all add: wire_string_code) code_simp+

lemma host0_open: "\<forall>s. h_open host0 s"
  by (simp add: host0_def)

theorem ParseSnapResultPic_roundtrip_witness:
  "\<exists>r. ParseSnapResultPic host0 (replicate 1024 0)
      (Some (snap_wire 60 11 ''88'' 1 2 [65, 66] ''v'' [(5000, [1, 2, 3])] @ [])) 60 res0 =
        Some (60, r, [Mkdir ''/home/pic/88'', Mkdir ''/home/pic/88/20170101'',
                      Append ''/home/pic/88/20170101/88-AB-20170101-0_0.jpg'' [1, 2, 3]]) \<and>
      ir_vedioName r = ''vB'' \<and> ir_picName r 0 = ''/home/pic/88/20170101/88-AB-20170101-0_0.jpg''"
proof -
  have dec0: "dec 0 = ''0''" by code_simp
  have chr: "chr8 66 = CHR ''B''" by code_simp
  note R = ParseSnapResultPic_roundtrip [where t = 5000 and d = "[1, 2, 3]" and ps = "[]" and
      rest = "[]" and fs = 60 and ty = 11 and pv = 1 and pc = 2 and sz = 60 and res = res0 and
      stk = "replicate 1024 0", OF host0_strings _ _ host0_plate _ _ host0_open]
  show ?thesis
    using R by (auto simp: pic_path_def pic_dir_def host0_def dec0 chr)
qed

theorem ParseSnapResultPic_too_many_pictures_witness:
  "ParseSnapResultPic host0 (replicate 1024 0)
     (Some (snap_wire 60 11 ''88'' 1 2 [65, 66] ''v'' (replicate 25 (0, [])) @ [])) 60 res0 = None"
  by (rule ParseSnapResultPic_too_many_pictures [OF host0_strings _ _ host0_plate]) simp_all

theorem ParseSnapResultPic_unconvertible_plate_witness:
  "ParseSnapResultPic host0 (replicate 1024 0) (Some (snap_head 60 11 ''88'' 1 2 [] @ [])) 60 res0 = None"
  by (rule ParseSnapResultPic_unconvertible_plate [OF host0_strings(1)]) (simp_all add: host0_def)

section \<open>Schedule frames\<close>

text \<open>
  The reference body of a snapshot schedule, from the RTSP address to the camera number. The
  two width words are as the code stores them: both carry the minimum.
\<close>

definition snap_schedule_body :: "SnapSchedule \<Rightarrow> byte list" where
  "snap_schedule_body v = lstr_bytes (ss_RTSPaddr v) @ lstr_bytes (ss_BrandName v) @
     lstr_bytes (ss_productType v) @ illpark_bytes (ss_illparkpara v) @ rect_bytes (ss_rect v) @
     le_enc 4 (ss_plateMinWidth v) @ le_enc 4 (ss_plateMinWidth v) @ lstr_bytes (ss_camNum v)"

lemma list7:
  "7 \<le> length b \<Longrightarrow> \<exists>b0 b1 b2 b3 b4 b5 b6 q. b = b0 # b1 # b2 # b3 # b4 # b5 # b6 # q"
  by (auto simp: numeral_eq_Suc Suc_le_length_iff)

lemma PackageSnapScheduleFrame_store:
  "PackageSnapScheduleFrame (Some b) v =
     (let n = 7 + length (snap_schedule_body v)
      in if n \<le> length b
         then Some (int n, le_enc 4 (word_of_nat n :: u32) @ [4, 1, b ! 6] @ snap_schedule_body v @
                drop n b, v\<lparr>ss_mode := 1\<rparr>)
         else None)"
proof (cases "7 \<le> length b")
  case True
  then obtain b0 b1 b2 b3 b4 b5 b6 q where b: "b = b0 # b1 # b2 # b3 # b4 # b5 # b6 # q"
    using list7 by blast
  have body: "Option.bind (wr_lstr (ss_RTSPaddr v) s) (\<lambda>s. Option.bind (wr_lstr (ss_BrandName v) s)
      (\<lambda>s. Option.bind (wr_lstr (ss_productType v) s) (\<lambda>s.
      Option.bind (wr_bytes (illpark_bytes (ss_illparkpara v)) s) (\<lambda>s.
      Option.bind (wr_bytes (rect_bytes (ss_rect v)) s) (\<lambda>s.
      Option.bind (wr32 (ss_plateMinWidth v) s) (\<lambda>s. Option.bind (wr32 (ss_plateMinWidth v) s) (\<lambda>s.
      Option.bind (wr_lstr (ss_camNum v) s) k))))))) =
    Option.bind (wr_bytes (snap_schedule_body v) s) k" for s and k :: "wptr \<Rightarrow> (int \<times> byte list \<times> SnapSchedule) option"
    by (simp add: wr_lstr_def wr32_def wr_simps snap_schedule_body_def)
  have "PackageSnapScheduleFrame (Some b) v =
      Option.bind (wr_bytes (snap_schedule_body v) ([b0, b1, b2, b3, 4, 1, b6], q)) (\<lambda>s.
        Option.bind (patch 0 (le_enc 4 (word_of_nat (length (fst s)) :: u32)) (buf_of s)) (\<lambda>b.
          Some (int (length (fst s)), b, v\<lparr>ss_mode := 1\<rparr>)))"
    by (simp add: PackageSnapScheduleFrame_def b patch_def skip_def at_start_def Let_def wr8_Cons body)
  moreover have "drop (7 + m) (b0 # b1 # b2 # b3 # b4 # b5 # b6 # q) = drop m q" for m
    by (simp add: numeral_eq_Suc)
  ultimately show ?thesis
    by (simp add: wr_bytes_def buf_of_def b patch_def Let_def)
next
  case False
  then show ?thesis
    by (auto simp: PackageSnapScheduleFrame_def patch_def skip_def at_start_def Let_def wr8_def
        wr_bytes_def bind_eq_None_conv)
qed

text \<open>
  C31: a snapshot schedule is packaged as length, type 4, mode 1, one untouched reserve byte and
  the body, when it fits the buffer; otherwise the buffer is overrun. The mode of the caller's
  schedule becomes 1.
\<close>

theorem PackageSnapScheduleFrame_bytes:
  "PackageSnapScheduleFrame (Some b) v =
     (let n = 7 + length (snap_schedule_body v)
      in if n \<le> length b
         then Some (int n, le_enc 4 (word_of_nat n :: u32) @ [4, 1, b ! 6] @ snap_schedule_body v @
                drop n b, v\<lparr>ss_mode := 1\<rparr>)
         else None)"
  by (rule PackageSnapScheduleFrame_store)

text \<open>
  The frame does not depend on the maximum plate width: a device can never learn it.
\<close>

theorem PackageSnapScheduleFrame_max_width_lost:
  "map_option (\<lambda>(n, f, _). (n, f)) (PackageSnapScheduleFrame (Some b) (v\<lparr>ss_plateMaxWidth := w\<rparr>)) =
   map_option (\<lambda>(n, f, _). (n, f)) (PackageSnapScheduleFrame (Some b) v)"
  by (simp add: PackageSnapScheduleFrame_store snap_schedule_body_def Let_def)

section \<open>The magic number\<close>

lemma match_at_iff:
  "length xs \<le> length p \<Longrightarrow> match_at xs p = Some (take (length xs) p = xs)"
proof (induction xs arbitrary: p)
  case Nil
  then show ?case by simp
next
  case (Cons x xs)
  then show ?case by (cases p) (auto simp: rd8_def)
qed

definition magic_at :: "byte list \<Rightarrow> nat \<Rightarrow> bool" where
  "magic_at f i \<longleftrightarrow> take 8 (drop i f) = magic_bytes"

lemma match_magic: "i + 8 \<le> length f \<Longrightarrow> match_at magic_bytes (drop i f) = Some (magic_at f i)"
proof -
  assume "i + 8 \<le> length f"
  moreover have "length magic_bytes = 8" by (simp add: magic_bytes_def)
  ultimately show ?thesis by (simp add: match_at_iff magic_at_def)
qed

text \<open>
  Within a buffer of the announced size the search is defined, returns the first position
  of the magic number that is at least nine bytes before the end, and -1 when there is none: a
  frame that ends right after its magic number is not recognised.
\<close>

theorem FindMagic_first:
  assumes "n \<le> int (length f)"
  shows "FindMagic f n =
    Some (if \<exists>i. int i < n - 8 \<and> magic_at f i
          then int (LEAST i. int i < n - 8 \<and> magic_at f i) else - 1)"
proof -
  let ?t = "\<lambda>i. match_at magic_bytes (drop i f)"
  have t: "?t i = Some (magic_at f i)" if "i < nat (n - 8)" for i
    using that assms by (intro match_magic) linarith
  show ?thesis
  proof (cases "\<exists>i. int i < n - 8 \<and> magic_at f i")
    case True
    define j where "j = (LEAST i. int i < n - 8 \<and> magic_at f i)"
    from True have j: "int j < n - 8 \<and> magic_at f j"
      unfolding j_def by (rule LeastI_ex)
    have "\<not> magic_at f l" if "l < j" for l
      using not_less_Least [OF that [unfolded j_def]] j that by auto
    then have "scan ?t 0 (nat (n - 8)) = Some (Some j)"
      using j t by (intro scan_first) auto
    with True show ?thesis by (simp add: FindMagic_def j_def)
  next
    case False
    with t have "scan ?t 0 (nat (n - 8)) = Some None"
      by (subst scan_miss) auto
    with False show ?thesis by (simp add: FindMagic_def)
  qed
qed

theorem FindMagic_first_witness:
  "FindMagic (0 # magic_bytes) 9 = Some (- 1) \<and> FindMagic (0 # magic_bytes @ [0]) 10 = Some 1"
proof -
  have not0: "\<not> magic_at (0 # magic_bytes) 0" "\<not> magic_at (0 # magic_bytes @ [0]) 0"
    "magic_at (0 # magic_bytes @ [0]) 1"
    by (simp_all add: magic_at_def magic_bytes_def)
  have none: "\<not> (\<exists>i. int i < 9 - 8 \<and> magic_at (0 # magic_bytes) i)"
  proof -
    have "i = 0" if "int i < 9 - 8" for i using that by linarith
    with not0(1) show ?thesis by blast
  qed
  have 1: "FindMagic (0 # magic_bytes) 9 = Some (- 1)"
    by (subst FindMagic_first) (use none in \<open>auto simp: magic_bytes_def\<close>)
  have ex: "\<exists>i. int i < 10 - 8 \<and> magic_at (0 # magic_bytes @ [0]) i"
    using not0(3) by (intro exI [of _ 1]) simp
  have least: "(LEAST i. int i < 10 - 8 \<and> magic_at (0 # magic_bytes @ [0]) i) = 1"
  proof (rule Least_equality)
    show "int 1 < 10 - 8 \<and> magic_at (0 # magic_bytes @ [0]) 1" using not0(3) by simp
    show "1 \<le> y" if "int y < 10 - 8 \<and> magic_at (0 # magic_bytes @ [0]) y" for y
      using that not0(2) by (cases y) auto
  qed
  have 2: "FindMagic (0 # magic_bytes @ [0]) 10 = Some 1"
    by (subst FindMagic_first) (use ex least in \<open>auto simp: magic_bytes_def\<close>)
  from 1 2 show ?thesis by blast
qed

end
