(* ===== verification/CfgFacts.thy ===== *)
theory CfgFacts
  imports ProtocolFacts CfgProtocol
begin

text \<open>
  What holds of the configuration client's frames: where a parser looks for the head, what each
  packager stores and which client frame each parser inverts.
\<close>

section \<open>Head\<close>

lemma length_cfg_head_bytes [simp]: "length (cfg_head_bytes t) = 8"
  by (simp add: cfg_head_bytes_def)

text \<open>
  \<open>CProtocolClientCfg::FindMagic\<close> tests only the first four bytes, against the magic in
  host order: it answers 0 or -1 and never a later offset.
\<close>

theorem cfg_FindMagic_offset_zero:
  assumes "4 \<le> length f" and "0 \<le> n"
  shows "cfg_FindMagic (Some f) n =
     Some (if 8 < n \<and> take 4 f = le_enc 4 MAGIC then 0 else - 1)"
proof -
  have "rd32 f = Some (le_dec (take 4 f), drop 4 f)"
    using assms by (simp add: rd32_def rd_bytes_def)
  moreover have "le_dec (take 4 f) = MAGIC \<longleftrightarrow> take 4 f = le_enc 4 MAGIC"
  proof
    assume "le_dec (take 4 f) = MAGIC"
    then have "le_enc 4 MAGIC = le_enc (length (take 4 f)) (le_dec (take 4 f) :: u32)"
      using assms by simp
    also have "\<dots> = take 4 f" using assms by (intro le_enc_le_dec) simp
    finally show "take 4 f = le_enc 4 MAGIC" by simp
  qed simp
  ultimately show ?thesis using assms by (auto simp: cfg_FindMagic_def scan_const)
qed

theorem cfg_FindMagic_offset_zero_witness:
  "cfg_FindMagic (Some (le_enc 4 MAGIC @ replicate 8 0)) 12 = Some 0 \<and>
   cfg_FindMagic (Some (0 # le_enc 4 MAGIC @ replicate 8 0)) 13 = Some (- 1)"
  using cfg_FindMagic_offset_zero [of "le_enc 4 MAGIC @ replicate 8 0" 12]
    cfg_FindMagic_offset_zero [of "0 # le_enc 4 MAGIC @ replicate 8 0" 13]
  by (simp add: le_enc_4 MAGIC_def)

text \<open>A frame whose magic is in network order is read from its type byte on.\<close>

lemma magic_order: "le_enc 4 (ntohl MAGIC) \<noteq> le_enc 4 MAGIC"
  unfolding le_enc_ntohl unfolding le_enc_4 MAGIC_def by simp

lemma cfg_FindMagic_network:
  assumes "0 \<le> n"
  shows "cfg_FindMagic (Some (cfg_head_bytes t @ q)) n = Some (- 1)"
proof -
  have "rd32 (cfg_head_bytes t @ q) = Some (ntohl MAGIC, [t, 1, 0, 0] @ q)"
    by (simp add: cfg_head_bytes_def rd_simps)
  moreover have "ntohl MAGIC \<noteq> MAGIC" using magic_order by auto
  ultimately show ?thesis using assms by (simp add: cfg_FindMagic_def scan_const)
qed

lemma cfg_seek_network [rd_simps]:
  assumes "0 \<le> n"
  shows "cfg_seek (Some (cfg_head_bytes t @ q)) n = Some ([t, 1, 0, 0] @ q)"
  by (simp add: cfg_seek_def cfg_FindMagic_network [OF assms])
    (simp add: cfg_head_bytes_def rd_bytes_def)

definition version_1_0_0 :: "host \<Rightarrow> string" where
  "version_1_0_0 h = h_lexical_cast h 1 @ ''.'' @ h_lexical_cast h 0 @ ''.'' @ h_lexical_cast h 0"

lemma cfg_read_head_1_0_0 [rd_simps]:
  "cfg_read_head h (t # 1 # 0 # 0 # q) head =
     Some (head\<lparr>ch_type := t, ch_version := version_1_0_0 h\<rparr>, q)"
  by (simp add: cfg_read_head_def rd_simps version_1_0_0_def)

section \<open>Group frames\<close>

lemma scast_small:
  assumes "g < (0x80 :: byte)"
  shows "(scast g :: u32) = ucast g"
proof -
  from assms have "uint g < 128" by (simp add: word_less_def)
  then have "sint g = uint g" by (simp add: byte_sint)
  then show ?thesis by (metis of_int_sint of_int_uint)
qed

lemma le_enc_ucast_small: "le_enc 4 (ucast (g :: byte) :: u32) = [g, 0, 0, 0]"
  unfolding le_enc_4
  by (intro list.inject [THEN iffD2] conjI refl bit_word_eqI)
    (auto simp: bit_unsigned_iff bit_drop_bit_eq dest: bit_imp_le_length)

lemma le_enc_scast_small:
  "(\<forall>x \<in> set (le_enc 4 (scast (g :: byte) :: u32)). x < 0x80) \<longleftrightarrow> g < 0x80"
proof
  assume "\<forall>x \<in> set (le_enc 4 (scast g :: u32)). x < 0x80"
  moreover have "(ucast (scast g :: u32) :: byte) = g"
    by (rule bit_word_eqI) (simp add: bit_unsigned_iff bit_signed_iff)
  ultimately show "g < 0x80" by (simp add: le_enc_4)
next
  assume "g < 0x80"
  then show "\<forall>x \<in> set (le_enc 4 (scast g :: u32)). x < 0x80"
    by (simp only: scast_small le_enc_ucast_small) simp
qed

text \<open>The stale bytes the length word still holds when the checksum is taken.\<close>

definition stale :: "byte list \<Rightarrow> byte list" where
  "stale b = take 4 (drop 8 b)"

lemma crc_prefix_store:
  assumes "length hdr = 8" and "length hdr + 4 + length body + 2 \<le> length b"
  shows "do {
           s \<leftarrow> wr_bytes hdr (at_start b);
           let frameLen = length (fst s);
           s \<leftarrow> skip 4 s;
           s \<leftarrow> wr_bytes body s;
           crc \<leftarrow> Crc16 (buf_of s) (length (fst s));
           s \<leftarrow> wr16 (ntohs crc) s;
           b \<leftarrow> patch frameLen (le_enc 4 (word_of_nat (length (fst s)) :: u32)) (buf_of s);
           Some (int (length (fst s)), b)
         } =
         (if (\<forall>x \<in> set (hdr @ stale b @ body). x < 0x80)
          then Some (int (length body) + 14,
            hdr @ le_enc 4 (word_of_nat (length body + 14) :: u32) @ body @
            le_enc 2 (ntohs (crc_ref (hdr @ stale b @ body))) @ drop (14 + length body) b)
          else None)"
proof -
  obtain x y where b: "b = x @ y" "length x = 8"
    using split_at [of 8 b] assms by auto
  obtain st z where y: "y = st @ z" "length st = 4"
    using split_at [of 4 y] assms b by auto
  obtain u v where z: "z = u @ v" "length u = length body"
    using split_at [of "length body" z] assms b y by auto
  obtain c w where v: "v = c @ w" "length c = 2"
    using split_at [of 2 v] assms b y z by auto
  have st: "stale b = st" using b y by (simp add: stale_def)
  have len: "length (hdr @ st @ body) = 12 + length body" using assms y by simp
  have s1: "wr_bytes hdr (at_start b) = Some (hdr, st @ u @ c @ w)"
    using assms(1) b(2) wr_bytes_over [of x hdr "[]" "st @ u @ c @ w"]
    by (simp only: b(1) y(1) z(1) v(1) at_start_def append_Nil append_assoc)
  have s2: "skip 4 (hdr, st @ u @ c @ w) = Some (hdr @ st, u @ c @ w)"
    by (rule skip_over) (rule y)
  have s3: "wr_bytes body (hdr @ st, u @ c @ w) = Some (hdr @ st @ body, c @ w)"
    using wr_bytes_over [OF z(2), of "hdr @ st" "c @ w"] by simp
  have "Crc16 ((hdr @ st @ body) @ c @ w) (length (hdr @ st @ body)) =
      (if (\<forall>x \<in> set (hdr @ st @ body). x < 0x80) then Some (crc_ref (hdr @ st @ body)) else None)"
    unfolding Crc16_crc_ref by (simp del: append_assoc)
  then have s4: "Crc16 (hdr @ st @ body @ c @ w) (length body + 12) =
      (if (\<forall>x \<in> set (hdr @ st @ body). x < 0x80) then Some (crc_ref (hdr @ st @ body)) else None)"
    unfolding len by (simp add: add.commute)
  have s5: "wr16 k (hdr @ st @ body, c @ w) = Some (hdr @ st @ body @ le_enc 2 k, w)" for k
    using wr_bytes_over [of c "le_enc 2 k" "hdr @ st @ body" w] v(2) by (simp add: wr16_def)
  have s6: "patch (length hdr) (le_enc 4 l) (hdr @ st @ body @ le_enc 2 k @ w) =
      Some (hdr @ le_enc 4 l @ body @ le_enc 2 k @ w)" for l :: u32 and k
    by (rule patch_over) (simp_all add: y)
  have w: "w = drop (14 + length body) b"
    using b y z v by simp
  show ?thesis
    unfolding st w [symmetric]
    by (simp add: s1 s2 s3 s4 s5 s6 [unfolded assms(1)] buf_of_def assms(1) y(2) add.commute add.left_commute)
qed


lemma head_bytes_small: "t < 0x80 \<Longrightarrow> (\<forall>x \<in> set (cfg_head_bytes t). x < 0x80)"
  unfolding cfg_head_bytes_def le_enc_ntohl unfolding le_enc_4 MAGIC_def by simp

lemma packageGroupInfo_store:
  assumes "18 \<le> length b" and "0 \<le> n"
  shows "packageGroupInfo (Some b) n g =
     (if g < 0x80 \<and> (\<forall>x \<in> set (stale b). x < 0x80)
      then Some (18, cfg_head_bytes 9 @ le_enc 4 (18 :: u32) @ le_enc 4 (ucast g :: u32) @
        le_enc 2 (ntohs (crc_ref (cfg_head_bytes 9 @ stale b @ le_enc 4 (ucast g :: u32)))) @
        drop 18 b)
      else None)"
proof -
  let ?body = "le_enc 4 (scast g :: u32)"
  have "packageGroupInfo (Some b) n g =
      (if (\<forall>x \<in> set (cfg_head_bytes 9 @ stale b @ ?body). x < 0x80)
       then Some (18, cfg_head_bytes 9 @ le_enc 4 (18 :: u32) @ ?body @
         le_enc 2 (ntohs (crc_ref (cfg_head_bytes 9 @ stale b @ ?body))) @ drop 18 b)
       else None)"
    using crc_prefix_store [of "cfg_head_bytes 9" ?body b] assms
    by (simp add: packageGroupInfo_def wr32_def)
  moreover have "(\<forall>x \<in> set (cfg_head_bytes 9 @ stale b @ ?body). x < 0x80) \<longleftrightarrow>
      g < 0x80 \<and> (\<forall>x \<in> set (stale b). x < 0x80)"
    using head_bytes_small [of 9] by (auto simp: ball_Un le_enc_scast_small)
  ultimately show ?thesis by (simp add: scast_small)
qed

text \<open>
  \<open>packageGroupInfo\<close> sends 18 bytes whose checksum covers the four bytes the length word held
  before the call; a group number of 128 or more (so also the ungrouped mission -1) or a stale
  byte of 128 or more leaves the checksum table.
\<close>

theorem packageGroupInfo_bytes:
  assumes "18 \<le> length b" and "0 \<le> n"
  shows "packageGroupInfo (Some b) n g =
     (if g < 0x80 \<and> (\<forall>x \<in> set (stale b). x < 0x80)
      then Some (18, cfg_head_bytes 9 @ le_enc 4 (18 :: u32) @ le_enc 4 (ucast g :: u32) @
        le_enc 2 (ntohs (crc_ref (cfg_head_bytes 9 @ stale b @ le_enc 4 (ucast g :: u32)))) @
        drop 18 b)
      else None)"
  using assms by (rule packageGroupInfo_store)

theorem packageGroupInfo_bytes_witness:
  "map_option fst (packageGroupInfo (Some (replicate 20 0)) 20 3) = Some 18 \<and>
   packageGroupInfo (Some (replicate 20 0)) 20 (- 1) = None"
  using packageGroupInfo_bytes [of "replicate 20 0" 20 3]
    packageGroupInfo_bytes [of "replicate 20 0" 20 "- 1"]
  by (simp add: stale_def)

text \<open>
  The group frame the server sends is one its own \<open>ParseFrameHead\<close> and \<open>ParseAddGroupReq\<close>
  read back: type 9, version 1.0.0 and the group's number, after 16 bytes.
\<close>

theorem packageGroupInfo_roundtrip:
  assumes "packageGroupInfo (Some b) n g = Some (18, c)" and "18 \<le> length b" and "0 \<le> n" "0 \<le> m"
  shows "cfg_ParseFrameHead h (Some c) m head =
           Some (head\<lparr>ch_type := 9, ch_version := version_1_0_0 h\<rparr>) \<and>
         ParseAddGroupReq h (Some c) m head = Some (16, ucast g)"
proof -
  obtain r where c: "c = cfg_head_bytes 9 @ le_enc 4 (18 :: u32) @ le_enc 4 (ucast g :: u32) @ r"
    using assms by (auto simp: packageGroupInfo_store split: if_splits)
  show ?thesis
    unfolding c
    by (simp add: cfg_ParseFrameHead_def ParseAddGroupReq_def rd_simps assms(4))
qed

theorem packageGroupInfo_roundtrip_witness:
  "ParseAddGroupReq host0 (Some (snd (the (packageGroupInfo (Some (replicate 18 0)) 18 3)))) 18
     \<lparr>ch_frameSize = 0, ch_version = [], ch_type = 0\<rparr> = Some (16, 3)"
proof -
  have "\<exists>c. packageGroupInfo (Some (replicate 18 0)) 18 3 = Some (18, c)"
    by (simp add: packageGroupInfo_store stale_def)
  then obtain c where c: "packageGroupInfo (Some (replicate 18 0)) 18 3 = Some (18, c)" ..
  from packageGroupInfo_roundtrip [OF c, of 18] show ?thesis by (simp add: c)
qed

lemma packageSDCrespone_store:
  assumes "15 \<le> length b" and "0 \<le> n"
  shows "packageSDCrespone (Some b) n result =
     (if \<forall>x \<in> set (stale b). x < 0x80
      then Some (15, cfg_head_bytes 4 @ le_enc 4 (15 :: u32) @ [1] @
        le_enc 2 (ntohs (crc_ref (cfg_head_bytes 4 @ stale b @ [1]))) @ drop 15 b)
      else None)"
proof -
  have "packageSDCrespone (Some b) n result =
      (if (\<forall>x \<in> set (cfg_head_bytes 4 @ stale b @ [1]). x < 0x80)
       then Some (15, cfg_head_bytes 4 @ le_enc 4 (15 :: u32) @ [1] @
         le_enc 2 (ntohs (crc_ref (cfg_head_bytes 4 @ stale b @ [1]))) @ drop 15 b)
       else None)"
    using crc_prefix_store [of "cfg_head_bytes 4" "[1]" b] assms
    by (simp add: packageSDCrespone_def wr8_def)
  moreover have "(\<forall>x \<in> set (cfg_head_bytes 4 @ stale b @ [1]). x < 0x80) \<longleftrightarrow>
      (\<forall>x \<in> set (stale b). x < 0x80)"
    using head_bytes_small [of 4] by (auto simp: ball_Un)
  ultimately show ?thesis by simp
qed

text \<open>
  \<open>packageSDCrespone\<close> always answers 1: the caller's \<open>result\<close> is not stored. The checksum again
  covers what the length word held before, so the frame can only be built over bytes below 128.
\<close>

theorem packageSDCrespone_ignores_result:
  assumes "15 \<le> length b" and "0 \<le> n"
  shows "packageSDCrespone (Some b) n result =
     (if \<forall>x \<in> set (stale b). x < 0x80
      then Some (15, cfg_head_bytes 4 @ le_enc 4 (15 :: u32) @ [1] @
        le_enc 2 (ntohs (crc_ref (cfg_head_bytes 4 @ stale b @ [1]))) @ drop 15 b)
      else None)"
  using assms by (rule packageSDCrespone_store)

theorem packageSDCrespone_ignores_result_witness:
  "packageSDCrespone (Some (replicate 15 0)) 15 0 = packageSDCrespone (Some (replicate 15 0)) 15 1 \<and>
   packageSDCrespone (Some (replicate 15 200)) 15 1 = None"
  using packageSDCrespone_ignores_result [of "replicate 15 0" 15 0]
    packageSDCrespone_ignores_result [of "replicate 15 0" 15 1]
    packageSDCrespone_ignores_result [of "replicate 15 200" 15 1]
  by (simp add: stale_def)

section \<open>Camera configurations\<close>

lemma rd_point_total: "8 \<le> length p \<Longrightarrow> \<exists>q. rd_point p = Some (q, drop 8 p)"
  by (simp add: rd_point_def rd32_def rd_bytes_def le_diff_conv2)

lemma rd_point_short: "length p < 8 \<Longrightarrow> rd_point p = None"
  by (auto simp: rd_point_def rd32_def rd_bytes_def)

lemma rd_points_Suc: "point_field.rd_n (Suc k) p =
    Option.bind (rd_point p) (\<lambda>(q, r). Option.bind (point_field.rd_n k r) (\<lambda>(xs, r). Some (q # xs, r)))"
  by (simp add: point_field.rd_n_def)

lemma rd_points_total: "8 * k \<le> length r \<Longrightarrow> \<exists>xs. point_field.rd_n k r = Some (xs, drop (8 * k) r)"
proof (induction k arbitrary: r)
  case 0
  then show ?case by (simp add: point_field.rd_n_def)
next
  case (Suc k)
  from Suc.prems obtain q where "rd_point r = Some (q, drop 8 r)"
    using rd_point_total [of r] by auto
  moreover have "8 * k \<le> length (drop 8 r)" using Suc.prems by simp
  ultimately show ?case using Suc.IH [of "drop 8 r"] by (auto simp: rd_points_Suc add.commute)
qed

lemma parse_area_loop:
  "for_loop j k parse_area_step (pre @ area, p) =
     (if k \<le> length area \<and> 8 * k \<le> length p
      then Some (pre @ fst (the (point_field.rd_n k p)) @ drop k area, drop (8 * k) p)
      else None)"
  if "j = length pre"
  using that
proof (induction k arbitrary: j pre area p)
  case 0
  then show ?case by (simp add: point_field.rd_n_def)
next
  case (Suc k)
  show ?case
  proof (cases "area = [] \<or> length p < 8")
    case True
    with Suc.prems show ?thesis by (auto simp: parse_area_step_def rd_point_short)
  next
    case False
    then obtain a rest where a: "area = a # rest" by (cases area) auto
    obtain q where q: "rd_point p = Some (q, drop 8 p)"
      using False rd_point_total [of p] by auto
    have step: "parse_area_step j (pre @ area, p) = Some ((pre @ [q]) @ rest, drop 8 p)"
      using q a Suc.prems by (simp add: parse_area_step_def list_update_append)
    have "for_loop j (Suc k) parse_area_step (pre @ area, p) =
        for_loop (Suc j) k parse_area_step ((pre @ [q]) @ rest, drop 8 p)"
      by (simp only: for_loop.simps step Option.bind.bind_lunit)
    also have "\<dots> = (if k \<le> length rest \<and> 8 * k \<le> length (drop 8 p)
        then Some ((pre @ [q]) @ fst (the (point_field.rd_n k (drop 8 p))) @ drop k rest,
          drop (8 * k) (drop 8 p)) else None)"
      using Suc.prems by (intro Suc.IH) simp
    also have "\<dots> = (if Suc k \<le> length area \<and> 8 * Suc k \<le> length p
      then Some (pre @ fst (the (point_field.rd_n (Suc k) p)) @ drop (Suc k) area,
        drop (8 * Suc k) p) else None)"
      using rd_points_total [of k "drop 8 p"] False a
      by (auto simp: rd_points_Suc q add.commute)
    finally show ?thesis .
  qed
qed


text \<open>
  C32: reading a detection area stores exactly \<open>nNum\<close> points (none when the 16-bit count is
  negative) over the area's first ones, provided the frame holds them, and leaves \<open>POINT
  Area[10]\<close> when \<open>nNum\<close> exceeds ten, which no code checks.
\<close>

theorem parse_area_bound:
  assumes "wf_illpark ip"
  shows "parse_area n (ip_Area1 ip) p =
     (if sint n \<le> 10 \<and> 8 * sint n \<le> int (length p)
      then Some (fst (the (point_field.rd_n (nat (sint n)) p)) @ drop (nat (sint n)) (ip_Area1 ip),
        drop (8 * nat (sint n)) p)
      else None)"
proof -
  have "length (ip_Area1 ip) = 10" using assms by (simp add: wf_illpark_def MAX_AREA_def)
  then have "(nat (sint n) \<le> length (ip_Area1 ip) \<and> 8 * nat (sint n) \<le> length p) \<longleftrightarrow>
      (sint n \<le> 10 \<and> 8 * sint n \<le> int (length p))"
    by auto
  then show ?thesis
    unfolding parse_area_def using parse_area_loop [of 0 "[]" "nat (sint n)" "ip_Area1 ip" p] by simp
qed

theorem parse_area_bound_witness:
  "parse_area 11 (ip_Area1 ip0) (replicate 100 0) = None \<and>
   parse_area (- 1) (ip_Area1 ip0) [] = Some (ip_Area1 ip0, [])"
  using parse_area_bound [OF wf_ip0, of 11 "replicate 100 0"] parse_area_bound [OF wf_ip0, of "- 1" "[]"]
  by (simp add: point_field.rd_n_def)

definition wf_preset :: "Preset \<Rightarrow> bool" where
  "wf_preset pr \<longleftrightarrow> wf_illpark (pr_illparkpara pr) \<and>
     0 \<le> sint (ip_nNum1 (pr_illparkpara pr)) \<and> sint (ip_nNum1 (pr_illparkpara pr)) \<le> 10 \<and>
     0 \<le> sint (ip_nNum2 (pr_illparkpara pr)) \<and> sint (ip_nNum2 (pr_illparkpara pr)) \<le> 10"

text \<open>The client's encoding of a preset and of a configuration.\<close>

definition preset_wire :: "Preset \<Rightarrow> byte list" where
  "preset_wire pr =
     (let ip = pr_illparkpara pr; r = pr_rect pr in
      le_enc 4 (pr_presetNum pr) @ le_enc 4 (pr_holdSeconds pr) @ le_enc 4 (pr_mode pr) @
      le_enc 4 (pr_priority pr) @ le_enc 4 (pr_plateMinWidth pr) @ le_enc 4 (pr_plateMaxWidth pr) @
      le_enc 4 (scast (ip_nNum1 ip) :: u32) @ le_enc 4 (scast (ip_nNum2 ip) :: u32) @
      concat (map point_bytes (take (nat (sint (ip_nNum1 ip))) (ip_Area1 ip))) @
      concat (map point_bytes (take (nat (sint (ip_nNum2 ip))) (ip_Area2 ip))) @
      le_enc 4 (ip_fScaleScreen ip) @ le_enc 4 (rc_left r) @ le_enc 4 (rc_right r) @
      le_enc 4 (rc_bottom r) @ le_enc 4 (rc_top r))"

definition fields_wire :: "SDCcfg \<Rightarrow> byte list" where
  "fields_wire cfg =
     lstr_bytes (sc_IP cfg) @ le_enc 4 (sc_port cfg) @ lstr_bytes (sc_m_usrName cfg) @
     lstr_bytes (sc_m_pwd cfg) @ lstr_bytes (sc_RTSPaddr cfg) @ lstr_bytes (sc_brandName cfg) @
     lstr_bytes (sc_productType cfg) @ le_enc 4 (sc_plateMinWidth cfg) @
     le_enc 4 (sc_plateMaxWidth cfg) @ lstr_bytes (sc_camNum cfg) @
     le_enc 4 (sc_missionNum cfg) @ [sc_presetTotal cfg]"

text \<open>What the parser makes of an old value: only what the frame carries is replaced.\<close>

definition area_into :: "u16 \<Rightarrow> POINT list \<Rightarrow> POINT list \<Rightarrow> POINT list" where
  "area_into n new old = take (nat (sint n)) new @ drop (nat (sint n)) old"

definition preset_into :: "Preset \<Rightarrow> Preset \<Rightarrow> Preset" where
  "preset_into pr old =
     (let ip = pr_illparkpara pr; ip' = pr_illparkpara old in
      old\<lparr>pr_presetNum := pr_presetNum pr, pr_holdSeconds := pr_holdSeconds pr,
        pr_mode := pr_mode pr, pr_priority := pr_priority pr,
        pr_plateMinWidth := pr_plateMinWidth pr, pr_plateMaxWidth := pr_plateMaxWidth pr,
        pr_illparkpara := ip'\<lparr>ip_nNum1 := ip_nNum1 ip, ip_nNum2 := ip_nNum2 ip,
          ip_Area1 := area_into (ip_nNum1 ip) (ip_Area1 ip) (ip_Area1 ip'),
          ip_Area2 := area_into (ip_nNum2 ip) (ip_Area2 ip) (ip_Area2 ip'),
          ip_fScaleScreen := ip_fScaleScreen ip\<rparr>,
        pr_rect := pr_rect pr\<rparr>)"

lemma parse_area_enc:
  assumes "length new = 10" "length old = 10" "0 \<le> sint n" "sint n \<le> 10"
  shows "parse_area n old (concat (map point_bytes (take (nat (sint n)) new)) @ q) =
     Some (area_into n new old, q)"
proof -
  let ?k = "nat (sint n)" and ?w = "concat (map point_bytes (take (nat (sint n)) new))"
  have k: "?k \<le> 10" using assms by simp
  have "length ?w = 8 * ?k" using assms k by simp
  moreover have "point_field.rd_n (length (take ?k new)) (?w @ q) = Some (take ?k new, q)"
    by (rule point_field.rd_n_enc) simp
  then have "point_field.rd_n ?k (?w @ q) = Some (take ?k new, q)" using assms k by simp
  ultimately show ?thesis
    using parse_area_loop [of 0 "[]" ?k old "?w @ q"] assms k
    by (simp add: parse_area_def area_into_def)
qed

lemma ucast_scast_u16: "(ucast (scast (x :: u16) :: u32) :: u16) = x"
  by (rule bit_word_eqI) (simp add: bit_unsigned_iff bit_signed_iff)

lemma parse_preset_enc:
  assumes "wf_preset pr" and "wf_illpark (pr_illparkpara old)"
  shows "parse_preset (preset_wire pr @ q) old = Some (preset_into pr old, q)"
  using assms
  by (simp add: parse_preset_def preset_wire_def Let_def rd_simps ucast_scast_u16 parse_area_enc
      wf_preset_def wf_illpark_def MAX_AREA_def preset_into_def)

definition wf_cfg_strings :: "SDCcfg \<Rightarrow> bool" where
  "wf_cfg_strings cfg \<longleftrightarrow> (\<forall>s \<in> {sc_IP cfg, sc_m_usrName cfg, sc_m_pwd cfg, sc_RTSPaddr cfg,
     sc_brandName cfg, sc_productType cfg, sc_camNum cfg}. wire_string s)"

definition presets_into :: "(nat \<Rightarrow> Preset) \<Rightarrow> nat \<Rightarrow> nat \<Rightarrow> (nat \<Rightarrow> Preset) \<Rightarrow> nat \<Rightarrow> Preset" where
  "presets_into new i k old = (\<lambda>j. if i \<le> j \<and> j < i + k then preset_into (new j) (old j) else old j)"

lemma presets_into_0: "presets_into new i 0 old = old"
  by (auto simp: presets_into_def fun_eq_iff)

lemma presets_loop_enc:
  assumes "\<And>j. i \<le> j \<Longrightarrow> j < i + k \<Longrightarrow> wf_preset (new j)"
    and "\<And>j. i \<le> j \<Longrightarrow> j < i + k \<Longrightarrow> wf_illpark (pr_illparkpara (sc_missionPreset cfg j))"
    and "i + k \<le> MAX_PRESET"
  shows "for_loop i k ParseSDCcfgInfo_step
       (cfg, concat (map (\<lambda>j. preset_wire (new j)) [i..<i + k]) @ q) =
     Some (cfg\<lparr>sc_missionPreset := presets_into new i k (sc_missionPreset cfg)\<rparr>, q)"
  using assms
proof (induction k arbitrary: i cfg)
  case 0
  show ?case by (simp add: presets_into_0)
next
  case (Suc k)
  let ?cfg = "cfg\<lparr>sc_missionPreset := (sc_missionPreset cfg)
      (i := preset_into (new i) (sc_missionPreset cfg i))\<rparr>"
  have split: "[i..<i + Suc k] = i # [Suc i..<Suc i + k]" by (simp add: upt_rec)
  have "for_loop (Suc i) k ParseSDCcfgInfo_step
       (?cfg, concat (map (\<lambda>j. preset_wire (new j)) [Suc i..<Suc i + k]) @ q) =
     Some (?cfg\<lparr>sc_missionPreset := presets_into new (Suc i) k (sc_missionPreset ?cfg)\<rparr>, q)"
    by (rule Suc.IH) (use Suc.prems in auto)
  moreover have "presets_into new (Suc i) k (sc_missionPreset ?cfg) =
      presets_into new i (Suc k) (sc_missionPreset cfg)"
    by (auto simp: presets_into_def fun_eq_iff)
  moreover have "ParseSDCcfgInfo_step i (cfg, preset_wire (new i) @ r) = Some (?cfg, r)" for r
    using Suc.prems by (simp add: ParseSDCcfgInfo_step_def parse_preset_enc)
  ultimately show ?case
    by (simp only: split list.map concat.simps append_assoc for_loop.simps
        Option.bind.bind_lunit) simp
qed

lemma ParseSDCcfgInfo_fields_enc:
  assumes "wf_cfg_strings cfg"
  shows "ParseSDCcfgInfo_fields (m # fields_wire cfg @ q) old =
     Some (cfg\<lparr>sc_mode := m, sc_reserve := sc_reserve old,
       sc_missionPreset := sc_missionPreset old\<rparr>, q)"
  using assms
  by (simp add: ParseSDCcfgInfo_fields_def fields_wire_def rd_simps wf_cfg_strings_def)

lemma ParseSDCcfgInfo_wire:
  assumes "wf_cfg_strings cfg"
    and "\<forall>j < unat (sc_presetTotal cfg). wf_preset (sc_missionPreset cfg j)"
    and "\<forall>j. wf_illpark (pr_illparkpara (sc_missionPreset old j))"
    and "0 \<le> n"
  shows "ParseSDCcfgInfo h
       (Some (cfg_head_bytes t @ [sc_mode cfg] @ fields_wire cfg @
         concat (map (\<lambda>j. preset_wire (sc_missionPreset cfg j)) [0..<unat (sc_presetTotal cfg)]) @ q))
       n head old =
     Some (cfg\<lparr>sc_reserve := sc_reserve old,
       sc_missionPreset := presets_into (sc_missionPreset cfg) 0 (unat (sc_presetTotal cfg))
         (sc_missionPreset old)\<rparr>)"
proof -
  let ?k = "unat (sc_presetTotal cfg)"
  let ?cfg = "cfg\<lparr>sc_reserve := sc_reserve old, sc_missionPreset := sc_missionPreset old\<rparr>"
  have "?k \<le> MAX_PRESET" using unat_byte_less [of "sc_presetTotal cfg"] by (simp add: MAX_PRESET_def)
  then have "for_loop 0 ?k ParseSDCcfgInfo_step
      (?cfg, concat (map (\<lambda>j. preset_wire (sc_missionPreset cfg j)) [0..<0 + ?k]) @ q) =
    Some (?cfg\<lparr>sc_missionPreset := presets_into (sc_missionPreset cfg) 0 ?k
      (sc_missionPreset ?cfg)\<rparr>, q)"
    by (intro presets_loop_enc) (use assms in auto)
  then show ?thesis
    using assms(1,4)
    by (simp add: ParseSDCcfgInfo_def rd_simps ParseSDCcfgInfo_fields_enc)
qed

text \<open>
  C27: \<open>ParseSDCcfgInfo\<close> inverts the client's encoding: every scalar, every string of at most 255
  bytes without a zero byte and the presets announced by \<open>presetTotal\<close>, with at most ten points in each area, arrive, and
  what the frame does not carry (the presets' camera numbers, the area points beyond the counts, later presets) is unchanged.
\<close>

theorem ParseSDCcfgInfo_roundtrip:
  assumes "wf_cfg_strings cfg"
    and "\<forall>j < unat (sc_presetTotal cfg). wf_preset (sc_missionPreset cfg j)"
    and "\<forall>j. wf_illpark (pr_illparkpara (sc_missionPreset old j))"
    and "0 \<le> n"
  shows "ParseSDCcfgInfo h
       (Some (cfg_head_bytes t @ [sc_mode cfg] @ fields_wire cfg @
         concat (map (\<lambda>j. preset_wire (sc_missionPreset cfg j)) [0..<unat (sc_presetTotal cfg)]) @ q))
       n head old =
     Some (cfg\<lparr>sc_reserve := sc_reserve old,
       sc_missionPreset := presets_into (sc_missionPreset cfg) 0 (unat (sc_presetTotal cfg))
         (sc_missionPreset old)\<rparr>)"
  using assms by (rule ParseSDCcfgInfo_wire)

lemma wf_cfg0:
  "wf_cfg_strings cfg0" "\<forall>j < unat (sc_presetTotal cfg0). wf_preset (sc_missionPreset cfg0 j)"
  "\<forall>j. wf_illpark (pr_illparkpara (sc_missionPreset cfg0 j))"
  by (auto simp: wf_cfg_strings_def cfg0_def preset0_def wf_preset_def wf_ip0 wire_string_def
      ip0_def ord8_def wf_illpark_def MAX_AREA_def)

theorem ParseSDCcfgInfo_roundtrip_witness:
  "map_option (\<lambda>c. (sc_camNum c, sc_port c, pr_holdSeconds (sc_missionPreset c 1)))
     (ParseSDCcfgInfo host0 (Some (cfg_head_bytes 6 @ [1] @ fields_wire cfg0 @
        concat (map (\<lambda>j. preset_wire (sc_missionPreset cfg0 j)) [0..<2]) @ [])) 500
        \<lparr>ch_frameSize = 0, ch_version = [], ch_type = 0\<rparr> (cfg0\<lparr>sc_camNum := []\<rparr>)) =
   Some (''7'', 8000, 120)"
proof -
  have "ParseSDCcfgInfo host0 (Some (cfg_head_bytes 6 @ [sc_mode cfg0] @ fields_wire cfg0 @
        concat (map (\<lambda>j. preset_wire (sc_missionPreset cfg0 j))
          [0..<unat (sc_presetTotal cfg0)]) @ [])) 500
        \<lparr>ch_frameSize = 0, ch_version = [], ch_type = 0\<rparr> (cfg0\<lparr>sc_camNum := []\<rparr>) =
     Some (cfg0\<lparr>sc_reserve := sc_reserve (cfg0\<lparr>sc_camNum := []\<rparr>),
       sc_missionPreset := presets_into (sc_missionPreset cfg0) 0 (unat (sc_presetTotal cfg0))
         (sc_missionPreset (cfg0\<lparr>sc_camNum := []\<rparr>))\<rparr>)"
    by (rule ParseSDCcfgInfo_roundtrip) (use wf_cfg0 in auto)
  moreover have "sc_mode cfg0 = 1" "unat (sc_presetTotal cfg0) = 2"
    by (simp_all add: cfg0_def)
  ultimately show ?thesis
    by (simp add: presets_into_def preset_into_def Let_def cfg0_def preset0_def)
qed

lemma package_area_loop:
  assumes "length area = 10" "k \<le> 10"
  shows "for_loop 0 k (package_area_step area) = wr_bytes (concat (map point_bytes (take k area)))"
proof -
  have "for_loop 0 k (package_area_step area) =
      wr_bytes (concat (map (\<lambda>j. point_bytes (area ! j)) [0..<0 + k]))"
    by (rule for_loop_wr) (use assms in \<open>auto simp: package_area_step_def wr_point_def fun_eq_iff\<close>)
  moreover have "map (\<lambda>j. point_bytes (area ! j)) [0..<0 + k] = map point_bytes (take k area)"
    using assms by (intro nth_equalityI) auto
  ultimately show ?thesis by simp
qed

definition preset_frame :: "Preset \<Rightarrow> byte list" where
  "preset_frame pr = lstr_bytes (pr_camNum pr) @ preset_wire pr"

lemma package_preset_bytes:
  assumes "wf_preset pr"
  shows "package_preset pr = wr_bytes (preset_frame pr)"
  using assms
  by (intro ext) (simp add: package_preset_def preset_frame_def preset_wire_def Let_def wr_lstr_def
      wr32_def wr_simps package_area_loop nat_le_iff wf_preset_def wf_illpark_def MAX_AREA_def)

definition SDC_body :: "SDCcfg \<Rightarrow> byte list" where
  "SDC_body cfg = [1] @ fields_wire cfg @
     concat (map (\<lambda>j. preset_frame (sc_missionPreset cfg j)) [0..<unat (sc_presetTotal cfg)])"

definition SDC_frame :: "SDCcfg \<Rightarrow> byte list" where
  "SDC_frame cfg = cfg_head_bytes 6 @ le_enc 4 (word_of_nat (12 + length (SDC_body cfg)) :: u32) @
     SDC_body cfg"

lemma length_SDC_frame: "length (SDC_frame cfg) = 12 + length (SDC_body cfg)"
  by (simp add: SDC_frame_def)

lemma presets_store:
  assumes "\<forall>j < unat (sc_presetTotal cfg). wf_preset (sc_missionPreset cfg j)"
  shows "for_loop 0 (unat (sc_presetTotal cfg))
       (\<lambda>i s. if i < MAX_PRESET then package_preset (sc_missionPreset cfg i) s else None) =
     wr_bytes (concat (map (\<lambda>j. preset_frame (sc_missionPreset cfg j))
       [0..<unat (sc_presetTotal cfg)]))"
proof -
  have "for_loop 0 (unat (sc_presetTotal cfg))
       (\<lambda>i s. if i < MAX_PRESET then package_preset (sc_missionPreset cfg i) s else None) =
     wr_bytes (concat (map (\<lambda>j. preset_frame (sc_missionPreset cfg j))
       [0..<0 + unat (sc_presetTotal cfg)]))"
    by (rule for_loop_wr) (use assms preset_slot [of _ cfg] in \<open>auto simp: package_preset_bytes\<close>)
  then show ?thesis by simp
qed

lemma packageSDCinfo_store:
  assumes "\<forall>j < unat (sc_presetTotal cfg). wf_preset (sc_missionPreset cfg j)"
    and "unat n \<le> length b" and "length (SDC_frame cfg) + 2 \<le> length b"
  shows "packageSDCinfo (Some b) n (Some cfg) =
     (let z = drop (length (SDC_frame cfg)) (replicate (unat n) 0 @ drop (unat n) b);
          covered = take 100 (drop 4 (SDC_frame cfg @ z))
      in if 104 \<le> length b \<and> (\<forall>x \<in> set covered. x < 0x80)
         then Some (int (length (SDC_frame cfg)) + 2,
           SDC_frame cfg @ le_enc 2 (crc_ref covered) @ drop 2 z)
         else None)"
proof -
  define b1 where "b1 = replicate (unat n) 0 @ drop (unat n) b"
  let ?hdr = "cfg_head_bytes 6" and ?body = "SDC_body cfg"
  let ?len = "le_enc 4 (word_of_nat (12 + length ?body) :: u32)"
  have len1: "length b1 = length b" using assms by (simp add: b1_def)
  have total: "14 + length ?body \<le> length b1" using assms by (simp add: length_SDC_frame len1)
  obtain x y where b: "b1 = x @ y" "length x = 8" using split_at [of 8 b1] total by auto
  obtain st y' where y: "y = st @ y'" "length st = 4" using split_at [of 4 y] total b by auto
  obtain u z where y': "y' = u @ z" "length u = length ?body"
    using split_at [of "length ?body" y'] total b y by auto
  obtain c w where z: "z = c @ w" "length c = 2"
    using split_at [of 2 z] total b y y' by auto
  have zdef: "z = drop (length (SDC_frame cfg)) b1"
    using b y y' by (simp add: length_SDC_frame)
  have s0: "patch 0 (replicate (unat n) 0) b = Some b1"
    using assms by (simp add: patch_def b1_def)
  have s1: "wr_bytes ?hdr (at_start b1) = Some (?hdr, st @ u @ z)"
    using b(2) wr_bytes_over [of x ?hdr "[]" "st @ u @ z"]
    by (simp only: b(1) y(1) y'(1) at_start_def append_Nil append_assoc length_cfg_head_bytes)
  have s2: "skip 4 (?hdr, st @ u @ z) = Some (?hdr @ st, u @ z)"
    by (rule skip_over) (rule y)
  have s3: "wr_bytes ?body (?hdr @ st, u @ z) = Some (?hdr @ st @ ?body, z)"
    using wr_bytes_over [OF y'(2), of "?hdr @ st" z] by simp
  have s4: "patch 8 (le_enc 4 l) (?hdr @ st @ ?body @ z) =
      Some (?hdr @ le_enc 4 l @ ?body @ z)" for l :: u32
    by (rule patch_over) (simp_all add: y)
  have s5: "wr16 k (SDC_frame cfg, z) = Some (SDC_frame cfg @ le_enc 2 k, w)" for k
    using wr_bytes_over [of c "le_enc 2 k" "SDC_frame cfg" w] z by (simp add: wr16_def)
  have "packageSDCinfo (Some b) n (Some cfg) =
      do {
        s \<leftarrow> wr_bytes ?hdr (at_start b1);
        s \<leftarrow> skip 4 s;
        s \<leftarrow> wr_bytes ?body s;
        b \<leftarrow> patch 8 (le_enc 4 (word_of_nat (length (fst s)) :: u32)) (buf_of s);
        crc \<leftarrow> Crc16 (drop 4 b) 100;
        s \<leftarrow> wr16 crc (take (length (fst s)) b, drop (length (fst s)) b);
        Some (int (length (fst s)), buf_of s)
      }"
    using assms(1)
    by (simp add: packageSDCinfo_def s0 presets_store wr_lstr_def wr32_def wr8_def wr_simps
        SDC_body_def fields_wire_def s1)
  also have "\<dots> = do {
        crc \<leftarrow> Crc16 (drop 4 (SDC_frame cfg @ z)) 100;
        s \<leftarrow> wr16 crc (SDC_frame cfg, z);
        Some (int (length (fst s)), buf_of s)
      }"
    by (simp add: s1 s2 s3 s4 buf_of_def SDC_frame_def y)
  also have "\<dots> = (if 100 \<le> length (drop 4 (SDC_frame cfg @ z)) \<and>
        (\<forall>x \<in> set (take 100 (drop 4 (SDC_frame cfg @ z))). x < 0x80)
      then Some (int (length (SDC_frame cfg)) + 2, SDC_frame cfg @
        le_enc 2 (crc_ref (take 100 (drop 4 (SDC_frame cfg @ z)))) @ w) else None)"
    by (simp add: Crc16_crc_ref s5 buf_of_def)
  finally show ?thesis
    using total z b y y' len1 unfolding zdef [symmetric] b1_def [symmetric]
    by (simp add: Let_def length_SDC_frame)
qed

text \<open>
  \<open>packageSDCinfo\<close> zeroes the buffer and stores the head, the frame's length without its
  checksum, the configuration and every announced preset, then a checksum of the hundred bytes
  from offset 4, whatever the length; it faults when one of those is 128 or more.
\<close>

theorem packageSDCinfo_bytes:
  assumes "\<forall>j < unat (sc_presetTotal cfg). wf_preset (sc_missionPreset cfg j)"
    and "unat n \<le> length b" and "length (SDC_frame cfg) + 2 \<le> length b"
  shows "packageSDCinfo (Some b) n (Some cfg) =
     (let z = drop (length (SDC_frame cfg)) (replicate (unat n) 0 @ drop (unat n) b);
          covered = take 100 (drop 4 (SDC_frame cfg @ z))
      in if 104 \<le> length b \<and> (\<forall>x \<in> set covered. x < 0x80)
         then Some (int (length (SDC_frame cfg)) + 2,
           SDC_frame cfg @ le_enc 2 (crc_ref covered) @ drop 2 z)
         else None)"
  using assms by (rule packageSDCinfo_store)

definition cfg1 :: SDCcfg where
  "cfg1 = cfg0\<lparr>sc_presetTotal := 0, sc_plateMaxWidth := 100\<rparr>"

lemma cfg1_frame:
  "length (SDC_frame cfg1) = 62" "sc_presetTotal cfg1 = 0"
  "\<forall>x \<in> set (take 100 (drop 4 (SDC_frame cfg1 @ replicate 138 0))). x < 0x80"
  by (simp add: SDC_frame_def SDC_body_def fields_wire_def cfg1_def cfg0_def, simp add: cfg1_def,
      code_simp)

theorem packageSDCinfo_bytes_witness:
  "map_option fst (packageSDCinfo (Some (replicate 200 0)) 200 (Some cfg1)) = Some 64 \<and>
   packageSDCinfo (Some (replicate 300 0)) 300 (Some cfg0) = None"
proof -
  have l: "length (SDC_frame cfg0) = 170"
    by (simp add: SDC_frame_def SDC_body_def fields_wire_def cfg0_def preset_frame_def
        preset_wire_def preset0_def ip0_def Let_def upt_rec)
  have "\<not> (\<forall>x \<in> set (take 100 (drop 4 (SDC_frame cfg0 @ replicate 130 0))). x < 0x80)"
    by code_simp
  with cfg1_frame show ?thesis
    using packageSDCinfo_bytes [of cfg1 200 "replicate 200 0"]
      packageSDCinfo_bytes [of cfg0 300 "replicate 300 0", OF wf_cfg0(2)]
    by (simp add: l Let_def)
qed

text \<open>
  The frame \<open>packageSDCinfo\<close> sends is not one \<open>ParseSDCcfgInfo\<close> inverts, although both are of
  type 6: the parser takes the low byte of the length word for the mode.
\<close>

theorem packageSDCinfo_not_inverse:
  assumes "packageSDCinfo (Some b) n (Some cfg) = Some (k, c)"
    and "\<forall>j < unat (sc_presetTotal cfg). wf_preset (sc_missionPreset cfg j)"
    and "unat n \<le> length b" and "length (SDC_frame cfg) + 2 \<le> length b"
    and "0 \<le> m"
  shows "cfg_ParseFrameHead h (Some c) m head =
      Some (head\<lparr>ch_type := 6, ch_version := version_1_0_0 h\<rparr>) \<and>
    (\<forall>r. ParseSDCcfgInfo h (Some c) m head old = Some r \<longrightarrow>
      sc_mode r = word_of_nat (length (SDC_frame cfg)))"
proof -
  let ?len = "word_of_nat (length (SDC_frame cfg)) :: u32"
  obtain q where c: "c = SDC_frame cfg @ q"
    using assms by (auto simp: packageSDCinfo_store Let_def split: if_splits)
  have low: "(ucast ?len :: byte) = word_of_nat (length (SDC_frame cfg))"
    by (rule word_unat_eq_iff [THEN iffD2]) (simp add: unat_of_nat unsigned_ucast_eq take_bit_eq_mod mod_mod_cancel)
  have "ParseSDCcfgInfo h (Some c) m head old = Some r \<Longrightarrow>
      sc_mode r = word_of_nat (length (SDC_frame cfg))" for r
  proof -
    assume "ParseSDCcfgInfo h (Some c) m head old = Some r"
    then obtain cfg' p p' where f:
        "ParseSDCcfgInfo_fields (le_enc 4 ?len @ SDC_body cfg @ q) old = Some (cfg', p)"
      and l: "for_loop 0 (unat (sc_presetTotal cfg')) ParseSDCcfgInfo_step (cfg', p) = Some (r, p')"
      unfolding c SDC_frame_def
      by (auto simp: ParseSDCcfgInfo_def rd_simps assms(5) bind_eq_Some_conv length_SDC_frame [unfolded SDC_frame_def])
    from f have m: "sc_mode cfg' = word_of_nat (length (SDC_frame cfg))"
      by (auto simp: ParseSDCcfgInfo_fields_def le_enc_4 rd_simps low bind_eq_Some_conv)
    have "sc_mode (fst (r, p')) = sc_mode cfg'"
      by (rule for_loop_invariant [OF l, where P = "\<lambda>_ s. sc_mode (fst s) = sc_mode cfg'"])
        (auto simp: ParseSDCcfgInfo_step_def bind_eq_Some_conv split: if_splits)
    with m show ?thesis by simp
  qed
  moreover have "cfg_ParseFrameHead h (Some c) m head =
      Some (head\<lparr>ch_type := 6, ch_version := version_1_0_0 h\<rparr>)"
    by (simp add: c SDC_frame_def cfg_ParseFrameHead_def rd_simps assms(5))
  ultimately show ?thesis by blast
qed

theorem packageSDCinfo_not_inverse_witness:
  "map_option sc_mode (ParseSDCcfgInfo host0
      (Some (snd (the (packageSDCinfo (Some (replicate 200 0)) 200 (Some cfg1))))) 200
      \<lparr>ch_frameSize = 0, ch_version = [], ch_type = 0\<rparr> cfg0) \<noteq> Some (1 :: byte)"
proof -
  have "map_option fst (packageSDCinfo (Some (replicate 200 0)) 200 (Some cfg1)) = Some 64"
    using cfg1_frame packageSDCinfo_store [of cfg1 200 "replicate 200 0"] by (simp add: Let_def)
  then obtain c where c: "packageSDCinfo (Some (replicate 200 0)) 200 (Some cfg1) = Some (64, c)"
    by auto
  show ?thesis
    using packageSDCinfo_not_inverse [OF c, of 200 host0
        "\<lparr>ch_frameSize = 0, ch_version = [], ch_type = 0\<rparr>" cfg0]
    by (auto simp: c cfg1_frame)
qed

section \<open>Device and result frames\<close>

lemma length_frame: "length (cfg_head_bytes t) + 4 + length body \<le> length b \<longleftrightarrow>
    12 + length body \<le> length b"
  by simp

lemma sint_len:
  assumes "n < 2 ^ 31"
  shows "sint (word_of_nat n :: u32) = int n"
proof -
  have "sint (word_of_nat n :: u32) = signed_take_bit 31 (int n)"
    by (simp add: signed_of_nat)
  also have "\<dots> = int n" by (rule signed_take_bit_int_eq_self) (use assms in simp_all)
  finally show ?thesis .
qed

text \<open>A frame without checksum: head, length, body.\<close>

definition plain_frame :: "byte \<Rightarrow> byte list \<Rightarrow> byte list" where
  "plain_frame t body =
     cfg_head_bytes t @ le_enc 4 (word_of_nat (12 + length body) :: u32) @ body"

lemma plain_store:
  assumes "12 + length body \<le> length b" and "length b < 2 ^ 31"
  shows "do {
           s \<leftarrow> wr_bytes (cfg_head_bytes t) (at_start b);
           let frameLen = length (fst s);
           s \<leftarrow> skip 4 s;
           s \<leftarrow> wr_bytes body s;
           let len = (word_of_nat (length (fst s)) :: u32);
           b \<leftarrow> patch frameLen (le_enc 4 len) (buf_of s);
           k (sint len) b
         } = k (int (12 + length body)) (plain_frame t body @ drop (12 + length body) b)"
proof -
  obtain x y where b: "b = x @ y" "length x = 8" using split_at [of 8 b] assms by auto
  obtain st y' where y: "y = st @ y'" "length st = 4" using split_at [of 4 y] assms b by auto
  obtain u z where y': "y' = u @ z" "length u = length body"
    using split_at [of "length body" y'] assms b y by auto
  let ?hdr = "cfg_head_bytes t"
  have s1: "wr_bytes ?hdr (at_start b) = Some (?hdr, st @ u @ z)"
    using b(2) wr_bytes_over [of x ?hdr "[]" "st @ u @ z"]
    by (simp only: b(1) y(1) y'(1) at_start_def append_Nil append_assoc length_cfg_head_bytes)
  have s2: "skip 4 (?hdr, st @ u @ z) = Some (?hdr @ st, u @ z)"
    by (rule skip_over) (rule y)
  have s3: "wr_bytes body (?hdr @ st, u @ z) = Some (?hdr @ st @ body, z)"
    using wr_bytes_over [OF y'(2), of "?hdr @ st" z] by simp
  have s4: "patch 8 (le_enc 4 l) (?hdr @ st @ body @ z) =
      Some (?hdr @ le_enc 4 l @ body @ z)" for l :: u32
    by (rule patch_over) (simp_all add: y)
  have "12 + length body < 2 ^ 31" using assms by simp
  note l = sint_len [OF this]
  have "drop (length body + 12) b = z" using b y y' by simp
  with l show ?thesis
    by (simp add: s1 s2 s3 s4 buf_of_def plain_frame_def y add.commute add.left_commute)
qed

definition CapDev_body :: "CCaptureDevice \<Rightarrow> byte list" where
  "CapDev_body dev = lstr_bytes (cd_devNum dev) @ lstr_bytes (cd_IP dev) @ lstr_bytes (cd_MAC dev) @
     lstr_bytes (cd_devType dev) @ lstr_bytes (cd_devName dev) @ lstr_bytes (cd_curCamNum dev) @
     le_enc 4 (cd_missionNum dev) @ [cd_isOnline dev]"

lemma packageCapDevinfo_store:
  assumes "dev' = (if cd_curCamNum dev = [] then dev\<lparr>cd_curCamNum := ''-1''\<rparr> else dev)"
    and "12 + length (CapDev_body dev') \<le> length b" and "length b < 2 ^ 31"
  shows "packageCapDevinfo (Some b) n (Some dev) =
     Some (12 + int (length (CapDev_body dev')), Some dev',
       plain_frame 5 (CapDev_body dev') @ drop (12 + length (CapDev_body dev')) b)"
proof -
  have "rd32 b = Some (le_dec (take 4 b), drop 4 b)"
    using assms by (simp add: rd32_def rd_bytes_def)
  moreover have "length (cfg_head_bytes 5) = 8" by simp
  ultimately show ?thesis
    using plain_store [OF assms(2,3), of 5 "\<lambda>n c. Some (n, Some dev', c)"] assms(1)
    by (cases "cd_curCamNum dev = []") (simp_all add: packageCapDevinfo_def wr_lstr_def wr32_def wr8_def wr_simps CapDev_body_def Let_def)
qed

text \<open>
  \<open>packageCapDevinfo\<close> stores the device's numbers, names, mission and state behind a head of
  type 5, and a device without a current camera is sent, and from then on kept, with camera "-1".
\<close>

theorem packageCapDevinfo_bytes:
  assumes "dev' = (if cd_curCamNum dev = [] then dev\<lparr>cd_curCamNum := ''-1''\<rparr> else dev)"
    and "12 + length (CapDev_body dev') \<le> length b" and "length b < 2 ^ 31"
  shows "packageCapDevinfo (Some b) n (Some dev) =
     Some (12 + int (length (CapDev_body dev')), Some dev',
       plain_frame 5 (CapDev_body dev') @ drop (12 + length (CapDev_body dev')) b)"
  using assms by (rule packageCapDevinfo_store)

theorem packageCapDevinfo_bytes_witness:
  "map_option (\<lambda>(n, d, _). (n, map_option cd_curCamNum d))
     (packageCapDevinfo (Some (replicate 60 0)) 60 (Some dev0)) = Some (42, Some ''-1'')"
  using packageCapDevinfo_bytes [of "dev0\<lparr>cd_curCamNum := ''-1''\<rparr>" dev0 "replicate 60 0" 60]
  by (simp add: dev0_def CapDev_body_def)

text \<open>The bytes of the \<open>i\<close>-th picture of a result: its name, and its file where there is one.\<close>

definition pic_frame :: "(string \<Rightarrow> byte list option) \<Rightarrow> (nat \<Rightarrow> string) \<Rightarrow> nat \<Rightarrow> byte list" where
  "pic_frame rfile picName i =
     lstr_bytes (picName i) @ (case rfile (picName i) of Some bs \<Rightarrow> bs | None \<Rightarrow> [])"

definition Result_body ::
  "(string \<Rightarrow> byte list option) \<Rightarrow> IlligalProcResult \<Rightarrow> bool \<Rightarrow> byte list" where
  "Result_body rfile res sendPic =
     lstr_bytes (ir_camNum res) @ le_enc 4 (ir_plateVariety res) @ [ir_plateColor res] @
     lstr_bytes (ir_plateNum res) @ lstr_bytes (ir_vedioName res) @
     [if sendPic then ir_picNum res else 0] @ le_enc 4 (ir_missionNum res) @
     lstr_bytes (ir_capTime res) @
     (if sendPic then concat (map (pic_frame rfile (ir_picName res)) [0..<unat (ir_picNum res)])
      else [])"

lemma package_pic_step_bytes:
  assumes "i < MAX_PIC" and "\<And>bs. rfile (picName i) = Some bs \<Longrightarrow> length bs < 2 ^ 64"
  shows "package_pic_step rfile picName i = wr_bytes (pic_frame rfile picName i)"
proof (cases "rfile (picName i)")
  case None
  with assms(1) show ?thesis
    by (simp add: fun_eq_iff package_pic_step_def wr_lstr_def wr_simps pic_frame_def)
next
  case (Some bs)
  then have "length bs < 2 ^ 64" by (rule assms(2))
  then have "unat (word_of_nat (length bs) :: u64) = length bs" by (simp add: unat_of_nat)
  with Some assms(1) show ?thesis
    by (simp add: fun_eq_iff package_pic_step_def wr_lstr_def wr_simps pic_frame_def
        get_file_size_def)
qed

lemma package_pics_bytes:
  assumes "k \<le> MAX_PIC" and "\<And>path bs. rfile path = Some bs \<Longrightarrow> length bs < 2 ^ 64"
  shows "for_loop 0 k (package_pic_step rfile picName) =
     wr_bytes (concat (map (pic_frame rfile picName) [0..<k]))"
  using for_loop_wr [of 0 k "package_pic_step rfile picName" "pic_frame rfile picName"] assms
  by (simp add: package_pic_step_bytes)

lemma package_pics_overrun:
  assumes "MAX_PIC < k"
  shows "for_loop 0 k (package_pic_step rfile picName) s = None"
proof -
  have "for_loop 0 (MAX_PIC + Suc (k - MAX_PIC - 1)) (package_pic_step rfile picName) s = None"
    unfolding for_loop_add by (cases "for_loop 0 MAX_PIC (package_pic_step rfile picName) s")
      (simp_all add: package_pic_step_def)
  with assms show ?thesis by simp
qed

lemma packageCapResultInfo_store:
  assumes "12 + length (Result_body (\<lambda>_. None) res False) \<le> length b" and "length b < 2 ^ 31"
  shows "packageCapResultInfo rfile (Some b) n res False =
     Some (12 + int (length (Result_body (\<lambda>_. None) res False)),
       plain_frame 3 (Result_body (\<lambda>_. None) res False) @
       drop (12 + length (Result_body (\<lambda>_. None) res False)) b)"
proof -
  have "rd32 b = Some (le_dec (take 4 b), drop 4 b)" using assms by (simp add: rd32_def rd_bytes_def)
  then show ?thesis
    using plain_store [OF assms, of 3 "\<lambda>n c. Some (n, c)"]
    by (simp add: packageCapResultInfo_def Result_body_def wr_lstr_def wr32_def wr8_def wr_simps Let_def)
qed

lemma packageCapResultInfo_store_pics:
  assumes "\<And>path bs. rfile path = Some bs \<Longrightarrow> length bs < 2 ^ 64"
    and "12 + length (Result_body rfile res sendPic) \<le> length b" and "length b < 2 ^ 31"
  shows "packageCapResultInfo rfile (Some b) n res sendPic =
     (if sendPic \<and> 24 < ir_picNum res then None
      else Some (12 + int (length (Result_body rfile res sendPic)),
        plain_frame 3 (Result_body rfile res sendPic) @
        drop (12 + length (Result_body rfile res sendPic)) b))"
proof -
  have r: "rd32 b = Some (le_dec (take 4 b), drop 4 b)"
    using assms by (simp add: rd32_def rd_bytes_def)
  have k: "24 < ir_picNum res \<longleftrightarrow> MAX_PIC < unat (ir_picNum res)"
    by (simp add: MAX_PIC_def word_less_nat_alt)
  show ?thesis
  proof (cases "sendPic \<and> 24 < ir_picNum res")
    case True
    then have pics: "for_loop 0 (unat (ir_picNum res)) (package_pic_step rfile (ir_picName res)) s = None"
      for s by (intro package_pics_overrun) (simp add: k)
    from True show ?thesis
      by (simp add: packageCapResultInfo_def r pics Let_def)
  next
    case False
    then have pics: "sendPic \<Longrightarrow> for_loop 0 (unat (ir_picNum res)) (package_pic_step rfile (ir_picName res)) =
        wr_bytes (concat (map (pic_frame rfile (ir_picName res)) [0..<unat (ir_picNum res)]))"
      using assms(1) by (intro package_pics_bytes) (auto simp: k)
    from False show ?thesis
      using plain_store [OF assms(2,3), of 3 "\<lambda>n c. Some (n, c)"]
      by (cases sendPic) (simp_all add: packageCapResultInfo_def r pics Result_body_def wr_lstr_def
        wr32_def wr8_def wr_simps Let_def)
  qed
qed

text \<open>
  \<open>packageCapResultInfo\<close> stores a result behind a head of type 3 and, when asked to, every
  picture's name followed by its file's bytes; more than 24 pictures leave \<open>picName[24]\<close>.
\<close>

theorem packageCapResultInfo_bytes:
  assumes "\<And>path bs. rfile path = Some bs \<Longrightarrow> length bs < 2 ^ 64"
    and "12 + length (Result_body rfile res sendPic) \<le> length b" and "length b < 2 ^ 31"
  shows "packageCapResultInfo rfile (Some b) n res sendPic =
     (if sendPic \<and> 24 < ir_picNum res then None
      else Some (12 + int (length (Result_body rfile res sendPic)),
        plain_frame 3 (Result_body rfile res sendPic) @
        drop (12 + length (Result_body rfile res sendPic)) b))"
  using assms by (rule packageCapResultInfo_store_pics)

definition res1 :: IlligalProcResult where
  "res1 = res0\<lparr>ir_camNum := ''7'', ir_plateNum := ''A1'', ir_picNum := 1, ir_picName := \<lambda>_. ''p''\<rparr>"

theorem packageCapResultInfo_bytes_witness:
  "map_option fst (packageCapResultInfo (\<lambda>p. if p = ''p'' then Some [1, 2, 3] else None)
     (Some (replicate 60 0)) 60 res1 True) =
     Some (12 + int (length (Result_body (\<lambda>p. if p = ''p'' then Some [1, 2, 3] else None) res1 True))) \<and>
   packageCapResultInfo (\<lambda>_. None) (Some (replicate 100 0)) 100 (res1\<lparr>ir_picNum := 25\<rparr>) True = None"
proof -
  have 1: "length (Result_body (\<lambda>p. if p = ''p'' then Some [1, 2, 3] else None) res1 True) \<le> 40"
    by (simp add: Result_body_def res1_def res0_def pic_frame_def)
  have 2: "length (Result_body (\<lambda>_. None) (res1\<lparr>ir_picNum := 25\<rparr>) True) \<le> 80"
    by (simp add: Result_body_def res1_def res0_def pic_frame_def upt_rec)
  have 3: "(if path = ''p'' then Some [1, 2, 3] else None) = Some bs \<Longrightarrow> length bs < 2 ^ 64"
    for path and bs :: "byte list" by (auto split: if_splits)
  have 4: "ir_picNum res1 = 1" by (simp add: res1_def)
  show ?thesis
    using 1 2 4 packageCapResultInfo_bytes [OF 3, where res = res1 and sendPic = True and b = "replicate 60 0" and n = 60]
      packageCapResultInfo_bytes [of "\<lambda>_. None" "res1\<lparr>ir_picNum := 25\<rparr>" True "replicate 100 0" 100]
    by simp
qed

end
