(* ===== verification/MissionMapFacts.thy ===== *)
theory MissionMapFacts
  imports MissionMap
begin

text \<open>
  The invariant of the global missions, kept by every operation that answers, and what the moves
  between missions do to the lists of cameras and devices.
\<close>

section \<open>The map\<close>

lemma map_insert_keys: "fst ` set (map_insert k v xs) = insert k (fst ` set xs)"
  by (induction k v xs rule: map_insert.induct) auto

lemma map_insert_sorted:
  "sorted_wrt (<) (map fst xs) \<Longrightarrow> sorted_wrt (<) (map fst (map_insert k v xs))"
proof (induction k v xs rule: map_insert.induct)
  case (1 k v)
  then show ?case by simp
next
  case (2 k v l w xs)
  then show ?case using map_insert_keys [of k v xs] by (auto simp: image_iff)
qed

lemma map_insert_set: "set (map_insert k v xs) \<subseteq> insert (k, v) (set xs)"
  by (induction k v xs rule: map_insert.induct) auto

lemma map_of_map_insert:
  assumes "sorted_wrt (<) (map fst xs)"
  shows "map_of (map_insert k v xs) l =
     (if l = k then Some (case map_of xs k of None \<Rightarrow> v | Some u \<Rightarrow> u) else map_of xs l)"
  using assms
proof (induction k v xs rule: map_insert.induct)
  case (1 k v)
  then show ?case by simp
next
  case (2 k v m w xs)
  have "k < m \<Longrightarrow> map_of xs k = None" using 2 by (force simp: map_of_eq_None_iff)
  with 2 show ?case by auto
qed

lemma map_erase_set: "set (map_erase k xs) \<subseteq> set xs"
  by (induction k xs rule: map_erase.induct) auto

lemma map_erase_sorted:
  "sorted_wrt (<) (map fst xs) \<Longrightarrow> sorted_wrt (<) (map fst (map_erase k xs))"
proof (induction k xs rule: map_erase.induct)
  case (1 k)
  then show ?case by simp
next
  case (2 k l w xs)
  then show ?case using map_erase_set [of k xs] by (auto simp: subset_iff)
qed

lemma map_of_map_erase:
  assumes "sorted_wrt (<) (map fst xs)"
  shows "map_of (map_erase k xs) l = (if l = k then None else map_of xs l)"
  using assms
proof (induction k xs rule: map_erase.induct)
  case (1 k)
  then show ?case by simp
next
  case (2 k m w xs)
  have "k = m \<Longrightarrow> map_of xs k = None" using 2 by (force simp: map_of_eq_None_iff)
  with 2 show ?case by auto
qed

section \<open>The invariant\<close>

definition wf_mission :: "cam_heap \<Rightarrow> CMission \<Rightarrow> bool" where
  "wf_mission cams ms \<longleftrightarrow> wf_cams (cams, ms) \<and> wf_devs ms"

definition world_inv :: "world \<Rightarrow> bool" where
  "world_inv w \<longleftrightarrow>
     sorted_wrt (<) (map fst (w_missions w)) \<and>
     (\<forall>(k, ms) \<in> set (w_missions w). k = sint (ms_missionNum ms) \<and> wf_mission (w_cams w) ms) \<and>
     wf_mission (w_cams w) (w_unstart w)"

lemma wf_cams_mono:
  "wf_cams (cams, ms) \<Longrightarrow> length cams \<le> length cams' \<Longrightarrow> wf_cams (cams', ms)"
  by (fastforce simp: wf_cams_def)

lemma wf_mission_mono:
  "wf_mission cams ms \<Longrightarrow> length cams \<le> length cams' \<Longrightarrow> wf_mission cams' ms"
  by (auto simp: wf_mission_def intro: wf_cams_mono)

lemma mission_at_inv:
  assumes "world_inv w" and "i < length (w_missions w)"
  shows "wf_mission (w_cams w) (mission_at i w) \<and>
    fst (w_missions w ! i) = sint (ms_missionNum (mission_at i w))"
proof -
  have "case w_missions w ! i of (k, ms) \<Rightarrow> k = sint (ms_missionNum ms) \<and> wf_mission (w_cams w) ms"
    by (rule bspec [OF _ nth_mem [OF assms(2)]]) (use assms(1) in \<open>simp add: world_inv_def\<close>)
  then show ?thesis by (simp add: mission_at_def split_def)
qed

lemma find_mission_Some:
  assumes "find_mission num w = Some i"
  shows "i < length (w_missions w) \<and> ms_missionNum (mission_at i w) = num"
  using find_index_Some [OF assms [unfolded find_mission_def]]
  by (auto simp: mission_at_def split: prod.splits)

text \<open>The heap may grow and one mission may be replaced by a well-formed one of the same number.\<close>

lemma world_inv_update:
  assumes "world_inv w" and "i < length (w_missions w)"
    and "length (w_cams w) \<le> length cams"
    and "wf_mission cams ms" and "ms_missionNum ms = ms_missionNum (mission_at i w)"
    and "wf_mission cams un"
  shows "world_inv (set_mission i ms (w\<lparr>w_cams := cams, w_unstart := un\<rparr>))"
proof -
  let ?xs = "(w_missions w)[i := (fst (w_missions w ! i), ms)]"
  have "map fst ?xs = map fst (w_missions w)"
    by (metis assms(2) fst_conv list_update_id map_update nth_map)
  then have keys: "sorted_wrt (<) (map fst ?xs)" using assms(1) by (simp add: world_inv_def)
  have "\<forall>(k, m) \<in> set ?xs. k = sint (ms_missionNum m) \<and> wf_mission cams m"
  proof (clarify)
    fix k m assume "(k, m) \<in> set ?xs"
    then have "(k, m) = (fst (w_missions w ! i), ms) \<or> (k, m) \<in> set (w_missions w)"
      using set_update_subset_insert by fastforce
    then show "k = sint (ms_missionNum m) \<and> wf_mission cams m"
    proof
      assume "(k, m) = (fst (w_missions w ! i), ms)"
      with mission_at_inv [OF assms(1,2)] assms(4,5) show ?thesis by simp
    next
      assume "(k, m) \<in> set (w_missions w)"
      with assms(1,3) show ?thesis by (auto simp: world_inv_def intro: wf_mission_mono)
    qed
  qed
  with keys assms(6) show ?thesis by (simp add: world_inv_def set_mission_def)
qed

lemma world_inv_unstart:
  assumes "world_inv w" and "length (w_cams w) \<le> length cams" and "wf_mission cams un"
  shows "world_inv (w\<lparr>w_cams := cams, w_unstart := un\<rparr>)"
  using assms by (auto simp: world_inv_def intro: wf_mission_mono)

section \<open>Each operation keeps a mission well-formed\<close>

lemma length_upd_cam: "upd_cam cams p f = Some cams' \<Longrightarrow> length cams' = length cams"
  by (auto simp: upd_cam_def split: option.splits if_splits)

lemma addSDC_inv:
  assumes "wf_mission cams ms" and "addSDC raw cams ms sdc = Some (cams', ms')"
  shows "wf_mission cams' ms' \<and> length cams \<le> length cams' \<and> ms_missionNum ms' = ms_missionNum ms"
proof -
  have "unat (ms_totalSpdDomeCam ms) < MAX_SDC"
    using assms(2) by (auto simp: addSDC_def Let_def split: if_splits)
  with addSDC_list [of cams ms raw sdc] assms show ?thesis
    by (auto simp: wf_mission_def wf_devs_def)
qed

lemma remove_at_inv:
  assumes "wf_mission cams ms" and "remove_at ms i = Some ms'" and "i < unat (ms_totalSpdDomeCam ms)"
  shows "wf_mission cams ms' \<and> ms_missionNum ms' = ms_missionNum ms"
proof -
  have "unat (ms_totalSpdDomeCam ms) \<noteq> MAX_SDC" using remove_at_full assms(2,3) by fastforce
  then have "unat (ms_totalSpdDomeCam ms) < MAX_SDC" using assms(1) by (simp add: wf_mission_def wf_cams_def)
  with remove_at_list [of cams ms i] assms show ?thesis
    by (auto simp: wf_mission_def wf_devs_def remove_at_def bind_eq_Some_conv)
qed

lemma find_SDC_bound: "find_SDC cams ms k = Some (Some i) \<Longrightarrow> i < unat (ms_totalSpdDomeCam ms)"
  unfolding find_SDC_def by (drule scan_hit) simp

lemma removeSDC_inv:
  assumes "wf_mission cams ms" and "removeSDC cams ms k = Some (r, ms')"
  shows "wf_mission cams ms' \<and> ms_missionNum ms' = ms_missionNum ms"
  using assms remove_at_inv [OF assms(1)] find_SDC_bound [of cams ms k]
  by (fastforce simp: removeSDC_def bind_eq_Some_conv split: option.splits)

lemma updateSDC_inv:
  assumes "wf_mission cams ms" and "updateSDC cams ms sdc = Some (r, cams', ms')"
  shows "wf_mission cams' ms' \<and> length cams' = length cams \<and> ms_missionNum ms' = ms_missionNum ms"
proof -
  from assms(2) consider "cams' = cams" "ms' = ms"
    | i where "i < unat (ms_totalSpdDomeCam ms)" "length cams' = length cams"
      "ms' = ms \<or> remove_at ms i = Some ms'"
    using find_SDC_bound [of cams ms "camNum_of sdc"]
    by (fastforce simp: updateSDC_def bind_eq_Some_conv split: option.splits if_splits dest: length_upd_cam)
  then show ?thesis
  proof cases
    case 1
    with assms(1) show ?thesis by simp
  next
    case 2
    then show ?thesis
      using remove_at_inv [OF wf_mission_mono [OF assms(1)]] assms(1)
      by (auto intro: wf_mission_mono)
  qed
qed

lemma addCapDev_inv:
  assumes "wf_mission cams ms" and "addCapDev ms dev = Some ms'"
  shows "wf_mission cams ms' \<and> ms_missionNum ms' = ms_missionNum ms"
proof -
  have "unat (ms_totalCapDev ms) < MAX_CAPDEV"
    using assms(2) by (auto simp: addCapDev_def Let_def split: if_splits)
  with addCapDev_list [of ms dev] assms show ?thesis by (auto simp: wf_mission_def wf_cams_def)
qed


lemma removeCapDev_inv:
  assumes "wf_mission cams ms" and "removeCapDev ms k = Some (r, ms')"
  shows "wf_mission cams ms' \<and> ms_missionNum ms' = ms_missionNum ms"
proof -
  have d: "wf_devs ms" using assms(1) by (simp add: wf_mission_def)
  from dev_slots.remove_wf [OF d assms(2)] have "wf_devs ms'" by simp
  moreover have "ms_SpdDomeCam ms' = ms_SpdDomeCam ms \<and>
      ms_totalSpdDomeCam ms' = ms_totalSpdDomeCam ms \<and> ms_missionNum ms' = ms_missionNum ms"
    using assms(2) by (auto simp: removeCapDev_def bind_eq_Some_conv split: option.splits)
  ultimately show ?thesis using assms(1) by (simp add: wf_mission_def wf_cams_def)
qed

lemma updateCapdev_shape:
  assumes "updateCapdev cams ms dev = Some (r, ms')"
  shows "ms' = ms\<lparr>ms_capDev := ms_capDev ms'\<rparr>"
proof -
  from assms obtain f where f: "find_CapDev ms (cd_devNum dev) = Some f"
    by (auto simp: updateCapdev_def bind_eq_Some_conv)
  show ?thesis
  proof (cases f)
    case None
    with assms f show ?thesis by (simp add: updateCapdev_def)
  next
    case (Some i)
    show ?thesis
    proof (cases "cd_SpdDomeCam dev")
      case None
      with Some assms f show ?thesis by (auto simp: updateCapdev_def Let_def)
    next
      fix p assume "cd_SpdDomeCam dev = Some p"
      with Some assms f show ?thesis
        by (cases "deref cams (Some p)") (auto simp: updateCapdev_def Let_def)
    qed
  qed
qed

lemma updateCapdev_inv:
  assumes "wf_mission cams ms" and "updateCapdev cams ms dev = Some (r, ms')"
  shows "wf_mission cams ms' \<and> ms_missionNum ms' = ms_missionNum ms"
  by (subst (1 2) updateCapdev_shape [OF assms(2)])
    (use assms(1) in \<open>simp add: wf_mission_def wf_cams_def wf_devs_def\<close>)

lemma getFreeSDC_inv:
  assumes "wf_mission cams ms" and "getFreeSDC cams ms = Some (r, p, cams', ms')"
  shows "wf_mission cams' ms' \<and> length cams' = length cams \<and> ms_missionNum ms' = ms_missionNum ms"
proof -
  from assms(2) have "ms' = ms \<or> (\<exists>j. ms' = ms\<lparr>ms_curSpdDomeCam := j\<rparr>)" and "length cams' = length cams"
    by (auto simp: getFreeSDC_def bind_eq_Some_conv Let_def split: option.splits dest: length_upd_cam)
  with assms(1) show ?thesis by (auto simp: wf_mission_def wf_cams_def wf_devs_def)
qed

lemma addPreset_length: "addPreset cams ms p = Some (r, cams') \<Longrightarrow> length cams' = length cams"
  by (auto simp: addPreset_def bind_eq_Some_conv split: option.splits dest: length_upd_cam)

section \<open>Each global operation keeps the invariant\<close>

lemma MissionAdd_inv:
  assumes "world_inv w" and "wf_mission (w_cams w) msi"
  shows "world_inv (MissionAdd msi w)"
proof -
  have "\<forall>x \<in> set (map_insert (sint (ms_missionNum msi)) msi (w_missions w)).
      case x of (k, ms) \<Rightarrow> k = sint (ms_missionNum ms) \<and> wf_mission (w_cams w) ms"
    using assms map_insert_set [of "sint (ms_missionNum msi)" msi "w_missions w"]
    unfolding world_inv_def by blast
  with assms show ?thesis by (simp add: world_inv_def MissionAdd_def map_insert_sorted)
qed

lemma MissionDelete_inv:
  assumes "world_inv w"
  shows "world_inv (MissionDelete msi w)"
proof -
  have "\<forall>x \<in> set (map_erase (sint (ms_missionNum msi)) (w_missions w)).
      case x of (k, ms) \<Rightarrow> k = sint (ms_missionNum ms) \<and> wf_mission (w_cams w) ms"
    using assms map_erase_set [of "sint (ms_missionNum msi)" "w_missions w"]
    unfolding world_inv_def by blast
  with assms show ?thesis by (simp add: world_inv_def MissionDelete_def map_erase_sorted)
qed

lemma unstart_wf: "world_inv w \<Longrightarrow> wf_mission (w_cams w) (w_unstart w)"
  by (simp add: world_inv_def)

lemma world_inv_mission:
  assumes "world_inv w" and "find_mission num w = Some i" and "length (w_cams w) \<le> length cams"
    and "wf_mission cams ms" and "ms_missionNum ms = ms_missionNum (mission_at i w)"
  shows "world_inv (set_mission i ms (w\<lparr>w_cams := cams\<rparr>))"
  using world_inv_update [OF assms(1) _ assms(3,4,5), of "w_unstart w"] find_mission_Some [OF assms(2)]
    wf_mission_mono [OF unstart_wf [OF assms(1)] assms(3)]
  by simp

lemma MissionAddSDC_inv:
  assumes "world_inv w" and "MissionAddSDC raw sdc w = Some (r, w')"
  shows "world_inv w'"
proof (cases "find_mission (sc_missionNum (dc_m_sdcCfg sdc)) w")
  case None
  with assms show ?thesis by (simp add: MissionAddSDC_def)
next
  case (Some i)
  with assms(2) obtain cams ms where
    a: "addSDC raw (w_cams w) (mission_at i w) sdc = Some (cams, ms)"
    and w': "w' = set_mission i ms (w\<lparr>w_cams := cams\<rparr>)"
    by (auto simp: MissionAddSDC_def bind_eq_Some_conv)
  from mission_at_inv [OF assms(1)] find_mission_Some [OF Some]
  have "wf_mission (w_cams w) (mission_at i w)" by simp
  from addSDC_inv [OF this a] show ?thesis
    unfolding w' by (intro world_inv_mission [OF assms(1) Some]) auto
qed

lemma MissionAddPreset_loop_length:
  "MissionAddPreset_loop cams xs p = Some (r, cams') \<Longrightarrow> length cams' = length cams"
proof (induction cams xs p arbitrary: r cams' rule: MissionAddPreset_loop.induct)
  case (1 cams preset)
  then show ?case by simp
next
  case (2 cams k ms xs preset)
  then obtain q c where a: "addPreset cams ms preset = Some (q, c)" by (auto simp: bind_eq_Some_conv)
  with addPreset_length [OF a] 2 show ?case by (cases "q = 0") auto
qed

lemma world_inv_cams:
  assumes "world_inv w" and "length (w_cams w) \<le> length cams"
  shows "world_inv (w\<lparr>w_cams := cams\<rparr>)"
  using world_inv_unstart [OF assms wf_mission_mono [OF unstart_wf [OF assms(1)] assms(2)]] by simp

lemma MissionAddPreset_inv:
  "world_inv w \<Longrightarrow> MissionAddPreset p w = Some (r, w') \<Longrightarrow> world_inv w'"
  by (auto simp: MissionAddPreset_def intro!: world_inv_cams dest: MissionAddPreset_loop_length)

lemma mission_of_found:
  "world_inv w \<Longrightarrow> find_mission num w = Some i \<Longrightarrow> wf_mission (w_cams w) (mission_at i w)"
  using mission_at_inv [of w i] find_mission_Some [of num w i] by simp

lemma MissionUpdateSDC_inv:
  assumes "world_inv w" and "MissionUpdateSDC raw sdc w = Some (r, w')"
  shows "world_inv w'"
proof (cases "find_mission (sc_missionNum (dc_m_sdcCfg sdc)) w")
  case None
  with assms show ?thesis by (simp add: MissionUpdateSDC_def)
next
  case (Some i)
  with assms(2) obtain q c1 m1 cams ms where
    u: "updateSDC (w_cams w) (mission_at i w) sdc = Some (q, c1, m1)"
    and a: "(if q = - 1 then addSDC raw c1 m1 sdc else Some (c1, m1)) = Some (cams, ms)"
    and w': "w' = set_mission i ms (w\<lparr>w_cams := cams\<rparr>)"
    by (auto simp: MissionUpdateSDC_def bind_eq_Some_conv split del: if_split)
  from updateSDC_inv [OF mission_of_found [OF assms(1) Some] u]
  have m1: "wf_mission c1 m1" "length c1 = length (w_cams w)"
    "ms_missionNum m1 = ms_missionNum (mission_at i w)" by auto
  with a addSDC_inv [OF m1(1), of raw sdc cams ms]
  have "wf_mission cams ms \<and> length (w_cams w) \<le> length cams \<and>
    ms_missionNum ms = ms_missionNum (mission_at i w)" by (auto split: if_splits)
  then show ?thesis unfolding w' by (intro world_inv_mission [OF assms(1) Some]) auto
qed

lemma MissionAddCapDev_inv:
  assumes "world_inv w" and "MissionAddCapDev dev w = Some (r, w')"
  shows "world_inv w'"
proof (cases "find_mission (cd_missionNum dev) w")
  case None
  with assms show ?thesis by (simp add: MissionAddCapDev_def)
next
  case (Some i)
  with assms(2) obtain ms where a: "addCapDev (mission_at i w) dev = Some ms"
    and w': "w' = set_mission i ms w"
    by (auto simp: MissionAddCapDev_def)
  from addCapDev_inv [OF mission_of_found [OF assms(1) Some] a] show ?thesis
    unfolding w' using world_inv_mission [OF assms(1) Some, of "w_cams w" ms] by simp
qed

lemma set_missionNum_length: "set_missionNum n cams p = Some cams' \<Longrightarrow> length cams' = length cams"
  by (auto simp: set_missionNum_def dest: length_upd_cam)

lemma addSDC_ptr_inv:
  assumes "wf_mission cams ms" and "addSDC_ptr raw cams ms p = Some (cams', ms')"
  shows "wf_mission cams' ms' \<and> length cams \<le> length cams' \<and> ms_missionNum ms' = ms_missionNum ms"
  using assms addSDC_inv by (fastforce simp: addSDC_ptr_def bind_eq_Some_conv)

lemma world_inv_both:
  assumes "world_inv w" and "find_mission num w = Some i" and "length (w_cams w) \<le> length cams"
    and "wf_mission cams ms" and "ms_missionNum ms = ms_missionNum (mission_at i w)"
    and "wf_mission cams un"
  shows "world_inv (set_mission i ms (w\<lparr>w_cams := cams, w_unstart := un\<rparr>))"
  using world_inv_update [OF assms(1) _ assms(3-6)] find_mission_Some [OF assms(2)] by simp

lemma move_SDC_in_inv:
  assumes "world_inv w" and "find_mission num w = Some i" and "move_SDC_in raw req i w = Some (r, w')"
  shows "world_inv w'"
proof -
  from assms(3) consider "w' = w" | sdc c1 cams ms q un where
    "set_missionNum (gr_dts_num req) (w_cams w) sdc = Some c1"
    "addSDC_ptr raw c1 (mission_at i w) sdc = Some (cams, ms)"
    "removeSDC cams (w_unstart w) (gr_num req) = Some (q, un)"
    "w' = set_mission i ms (w\<lparr>w_cams := cams, w_unstart := un\<rparr>)"
    by (auto simp: move_SDC_in_def bind_eq_Some_conv split: if_splits)
  then show ?thesis
  proof cases
    case 1
    with assms(1) show ?thesis by simp
  next
    case (2 sdc c1 cams ms q un)
    have l: "length c1 = length (w_cams w)" using 2(1) by (rule set_missionNum_length)
    with wf_mission_mono [OF mission_of_found [OF assms(1,2)], of c1]
    have "wf_mission c1 (mission_at i w)" by simp
    from addSDC_ptr_inv [OF this 2(2)] have ms: "wf_mission cams ms" "length c1 \<le> length cams"
      "ms_missionNum ms = ms_missionNum (mission_at i w)" by auto
    with l wf_mission_mono [OF unstart_wf [OF assms(1)], of cams]
    have "wf_mission cams (w_unstart w)" by simp
    from removeSDC_inv [OF this 2(3)] have "wf_mission cams un" by simp
    with ms l show ?thesis unfolding 2(4) by (intro world_inv_both [OF assms(1,2)]) auto
  qed
qed

lemma move_SDC_out_inv:
  assumes "world_inv w" and "find_mission num w = Some i" and "move_SDC_out raw req i w = Some (r, w')"
  shows "world_inv w'"
proof -
  from assms(3) obtain sdc c1 cams ms q un where s:
    "set_missionNum (gr_dts_num req) (w_cams w) sdc = Some c1"
    "addSDC_ptr raw c1 (w_unstart w) sdc = Some (cams, un)"
    "removeSDC cams (mission_at i w) (gr_num req) = Some (q, ms)"
    "w' = set_mission i ms (w\<lparr>w_cams := cams, w_unstart := un\<rparr>)"
    by (auto simp: move_SDC_out_def bind_eq_Some_conv)
  have l: "length c1 = length (w_cams w)" using s(1) by (rule set_missionNum_length)
  with wf_mission_mono [OF unstart_wf [OF assms(1)], of c1]
  have "wf_mission c1 (w_unstart w)" by simp
  from addSDC_ptr_inv [OF this s(2)] have un: "wf_mission cams un" "length c1 \<le> length cams" by auto
  with l wf_mission_mono [OF mission_of_found [OF assms(1,2)], of cams]
  have "wf_mission cams (mission_at i w)" by simp
  from removeSDC_inv [OF this s(3)] un l show ?thesis
    unfolding s(4) by (intro world_inv_both [OF assms(1,2)]) auto
qed

lemma retag_inv:
  "wf_mission cams ms \<Longrightarrow> wf_mission cams (retag_CapDev n j ms) \<and>
     ms_missionNum (retag_CapDev n j ms) = ms_missionNum ms"
  by (auto simp: wf_mission_def wf_cams_def wf_devs_def retag_CapDev_def)

lemma move_CapDev_inv:
  assumes "world_inv w" and "find_mission num w = Some i"
    and "move_CapDev_in req i w = Some (r, w') \<or> move_CapDev_out req i w = Some (r, w')"
  shows "world_inv w'"
proof -
  note m = mission_of_found [OF assms(1,2)] and u = unstart_wf [OF assms(1)]
  have upd: "wf_mission (w_cams w) ms \<Longrightarrow> ms_missionNum ms = ms_missionNum (mission_at i w) \<Longrightarrow>
      wf_mission (w_cams w) un \<Longrightarrow> world_inv (set_mission i ms (w\<lparr>w_unstart := un\<rparr>))" for ms un
    using world_inv_both [OF assms(1,2), of "w_cams w" ms un] by simp
  from assms(3) show ?thesis
  proof
    assume "move_CapDev_in req i w = Some (r, w')"
    then obtain j ms q un where
      "addCapDev (mission_at i w) (ms_capDev (retag_CapDev (gr_dts_num req) j (w_unstart w)) j) = Some ms"
      "removeCapDev (retag_CapDev (gr_dts_num req) j (w_unstart w)) (gr_num req) = Some (q, un)"
      "w' = set_mission i ms (w\<lparr>w_unstart := un\<rparr>)"
      by (auto simp: move_CapDev_in_def bind_eq_Some_conv Let_def)
    with addCapDev_inv [OF m] removeCapDev_inv [OF conjunct1 [OF retag_inv [OF u]]]
    show ?thesis by (auto intro!: upd)
  next
    assume "move_CapDev_out req i w = Some (r, w')"
    then obtain j ms q un where
      "addCapDev (w_unstart w) (ms_capDev (retag_CapDev (gr_dts_num req) j (mission_at i w)) j) = Some un"
      "removeCapDev (retag_CapDev (gr_dts_num req) j (mission_at i w)) (gr_num req) = Some (q, ms)"
      "w' = set_mission i ms (w\<lparr>w_unstart := un\<rparr>)"
      by (auto simp: move_CapDev_out_def bind_eq_Some_conv Let_def)
    with addCapDev_inv [OF u] removeCapDev_inv [OF conjunct1 [OF retag_inv [OF m]]] retag_inv [OF m]
    show ?thesis by (auto intro!: upd)
  qed
qed

lemma MissionUpdateSDCMissionGroup_inv:
  "world_inv w \<Longrightarrow> MissionUpdateSDCMissionGroup raw req w = Some (r, w') \<Longrightarrow> world_inv w'"
  by (auto simp: MissionUpdateSDCMissionGroup_def split: if_splits option.splits
      dest: move_SDC_in_inv move_SDC_out_inv)

lemma MissionUpdateCapDevMissionGroup_inv:
  "world_inv w \<Longrightarrow> MissionUpdateCapDevMissionGroup req w = Some (r, w') \<Longrightarrow> world_inv w'"
  by (auto simp: MissionUpdateCapDevMissionGroup_def split: if_splits option.splits
      dest: move_CapDev_inv)

section \<open>Reachable missions\<close>

text \<open>
  The program starts with no mission and no ungrouped object and changes its missions by the
  operations below, each run under the mutex. A new mission (\<open>CMission msi\<close> on the stack of the
  caller) has no camera and no device.
\<close>

definition empty_mission :: "CMission \<Rightarrow> bool" where
  "empty_mission ms \<longleftrightarrow> ms_totalSpdDomeCam ms = 0 \<and> ms_totalCapDev ms = 0"

inductive reachable :: "world \<Rightarrow> bool" where
  start: "w_missions w = [] \<Longrightarrow> empty_mission (w_unstart w) \<Longrightarrow> reachable w"
| add: "reachable w \<Longrightarrow> empty_mission ms \<Longrightarrow> reachable (MissionAdd ms w)"
| delete: "reachable w \<Longrightarrow> reachable (MissionDelete ms w)"
| add_SDC: "reachable w \<Longrightarrow> MissionAddSDC raw sdc w = Some (r, w') \<Longrightarrow> reachable w'"
| add_preset: "reachable w \<Longrightarrow> MissionAddPreset p w = Some (r, w') \<Longrightarrow> reachable w'"
| update_SDC: "reachable w \<Longrightarrow> MissionUpdateSDC raw sdc w = Some (r, w') \<Longrightarrow> reachable w'"
| add_dev: "reachable w \<Longrightarrow> MissionAddCapDev dev w = Some (r, w') \<Longrightarrow> reachable w'"
| move_SDC: "reachable w \<Longrightarrow> MissionUpdateSDCMissionGroup raw req w = Some (r, w') \<Longrightarrow> reachable w'"
| move_dev: "reachable w \<Longrightarrow> MissionUpdateCapDevMissionGroup req w = Some (r, w') \<Longrightarrow> reachable w'"
| un_add_SDC: "reachable w \<Longrightarrow> addSDC raw (w_cams w) (w_unstart w) sdc = Some (cams, un) \<Longrightarrow>
    reachable (w\<lparr>w_cams := cams, w_unstart := un\<rparr>)"
| un_update_SDC: "reachable w \<Longrightarrow> updateSDC (w_cams w) (w_unstart w) sdc = Some (r, cams, un) \<Longrightarrow>
    reachable (w\<lparr>w_cams := cams, w_unstart := un\<rparr>)"
| un_add_preset: "reachable w \<Longrightarrow> addPreset (w_cams w) (w_unstart w) p = Some (r, cams) \<Longrightarrow>
    reachable (w\<lparr>w_cams := cams\<rparr>)"
| un_add_dev: "reachable w \<Longrightarrow> addCapDev (w_unstart w) dev = Some un \<Longrightarrow>
    reachable (w\<lparr>w_unstart := un\<rparr>)"
| free_SDC: "reachable w \<Longrightarrow> find_mission num w = Some i \<Longrightarrow>
    getFreeSDC (w_cams w) (mission_at i w) = Some (r, p, cams, ms) \<Longrightarrow>
    reachable (set_mission i ms (w\<lparr>w_cams := cams\<rparr>))"
| update_dev: "reachable w \<Longrightarrow> find_mission num w = Some i \<Longrightarrow>
    updateCapdev (w_cams w) (mission_at i w) dev = Some (r, ms) \<Longrightarrow>
    reachable (set_mission i ms w)"
| camera: "reachable w \<Longrightarrow> upd_cam (w_cams w) p f = Some cams \<Longrightarrow> reachable (w\<lparr>w_cams := cams\<rparr>)"

lemma empty_mission_wf: "empty_mission ms \<Longrightarrow> wf_mission cams ms"
  by (simp add: empty_mission_def wf_mission_def wf_cams_def wf_devs_def)

lemma reachable_world_inv: "reachable w \<Longrightarrow> world_inv w"
proof (induction rule: reachable.induct)
  case (start w)
  then show ?case by (simp add: world_inv_def empty_mission_wf)
next
  case (add w ms)
  then show ?case by (intro MissionAdd_inv empty_mission_wf)
next
  case (delete w ms)
  then show ?case by (intro MissionDelete_inv)
next
  case (add_SDC w raw sdc r w')
  then show ?case by (blast intro: MissionAddSDC_inv)
next
  case (add_preset w p r w')
  then show ?case by (blast intro: MissionAddPreset_inv)
next
  case (update_SDC w raw sdc r w')
  then show ?case by (blast intro: MissionUpdateSDC_inv)
next
  case (add_dev w dev r w')
  then show ?case by (blast intro: MissionAddCapDev_inv)
next
  case (move_SDC w raw req r w')
  then show ?case by (blast intro: MissionUpdateSDCMissionGroup_inv)
next
  case (move_dev w req r w')
  then show ?case by (blast intro: MissionUpdateCapDevMissionGroup_inv)
next
  case (un_add_SDC w raw sdc cams un)
  from addSDC_inv [OF unstart_wf [OF un_add_SDC.IH] un_add_SDC.hyps(2)] show ?case
    by (intro world_inv_unstart [OF un_add_SDC.IH]) auto
next
  case (un_update_SDC w sdc r cams un)
  from updateSDC_inv [OF unstart_wf [OF un_update_SDC.IH] un_update_SDC.hyps(2)] show ?case
    by (intro world_inv_unstart [OF un_update_SDC.IH]) auto
next
  case (un_add_preset w p r cams)
  from addPreset_length [OF un_add_preset.hyps(2)] show ?case
    by (intro world_inv_cams [OF un_add_preset.IH]) simp
next
  case (un_add_dev w dev un)
  from addCapDev_inv [OF unstart_wf [OF un_add_dev.IH] un_add_dev.hyps(2)] show ?case
    using world_inv_unstart [OF un_add_dev.IH, of "w_cams w" un] by simp
next
  case (free_SDC w num i r p cams ms)
  from getFreeSDC_inv [OF mission_of_found [OF free_SDC.IH free_SDC.hyps(2)] free_SDC.hyps(3)]
  show ?case by (intro world_inv_mission [OF free_SDC.IH free_SDC.hyps(2)]) auto
next
  case (update_dev w num i dev r ms)
  from updateCapdev_inv [OF mission_of_found [OF update_dev.IH update_dev.hyps(2)] update_dev.hyps(3)]
  show ?case using world_inv_mission [OF update_dev.IH update_dev.hyps(2), of "w_cams w" ms] by simp
next
  case (camera w p f cams)
  from length_upd_cam [OF camera.hyps(2)] show ?case
    by (intro world_inv_cams [OF camera.IH]) simp
qed

lemma showCfg_wf: "wf_cams (cams, ms) \<Longrightarrow> showCfg cams ms = Some ()"
  unfolding showCfg_def
  using for_loop_total [of "\<lambda>_ _. True" 0 "()" "unat (ms_totalSpdDomeCam ms)"
      "\<lambda>i u. map_option (\<lambda>_. ()) (SDC_at cams ms i)"]
  by (auto simp: SDC_at_wf(1))

lemma MissionMatch_loop_total:
  "\<forall>(k, ms) \<in> set xs. wf_devs ms \<Longrightarrow> MissionMatch_loop xs dev \<noteq> None"
  by (induction xs dev rule: MissionMatch_loop.induct)
    (auto simp: CMission_match_def find_CapDev_list split: option.splits)

text \<open>
  C10: in every state the mission operations can reach, the keys ascend and are the missions'
  numbers, the counts are within the arrays and every camera slot in use points to a camera, so
  the searches, \<open>showCfg\<close>, \<open>getFreeSDC\<close> and \<open>MissionMatch\<close> never fault.
\<close>

theorem reachable_missions_safe:
  assumes "reachable w"
  shows "sorted_wrt (<) (map fst (w_missions w)) \<and>
    (\<forall>(k, ms) \<in> insert (sint (ms_missionNum (w_unstart w)), w_unstart w) (set (w_missions w)).
      k = sint (ms_missionNum ms) \<and>
      unat (ms_totalSpdDomeCam ms) \<le> 2400 \<and> unat (ms_totalCapDev ms) \<le> 600 \<and>
      (\<forall>i < unat (ms_totalSpdDomeCam ms). SDC_at (w_cams w) ms i \<noteq> None) \<and>
      showCfg (w_cams w) ms \<noteq> None \<and> getFreeSDC (w_cams w) ms \<noteq> None) \<and>
    (\<forall>dev. MissionMatch dev w \<noteq> None)"
proof -
  from reachable_world_inv [OF assms] have inv: "world_inv w" .
  have safe: "unat (ms_totalSpdDomeCam ms) \<le> 2400 \<and> unat (ms_totalCapDev ms) \<le> 600 \<and>
      (\<forall>i < unat (ms_totalSpdDomeCam ms). SDC_at (w_cams w) ms i \<noteq> None) \<and>
      showCfg (w_cams w) ms \<noteq> None \<and> getFreeSDC (w_cams w) ms \<noteq> None"
    if "wf_mission (w_cams w) ms" for ms
  proof -
    from that have wf: "wf_cams (w_cams w, ms)" "wf_devs ms" by (auto simp: wf_mission_def)
    have "getFreeSDC (w_cams w) ms \<noteq> None"
      unfolding getFreeSDC_eq [OF wf(1)] by (simp add: Let_def split: option.split)
    with wf SDC_at_wf(1) [OF wf(1)] showCfg_wf [OF wf(1)] show ?thesis
      by (auto simp: wf_cams_def wf_devs_def MAX_SDC_def MAX_CAPDEV_def)
  qed
  have "\<forall>(k, ms) \<in> set (w_missions w). wf_devs ms"
    using inv by (auto simp: world_inv_def wf_mission_def)
  then have "\<forall>dev. MissionMatch dev w \<noteq> None"
    unfolding MissionMatch_def by (blast dest: MissionMatch_loop_total)
  moreover have "sorted_wrt (<) (map fst (w_missions w))" using inv by (simp add: world_inv_def)
  moreover have "\<forall>x \<in> insert (sint (ms_missionNum (w_unstart w)), w_unstart w) (set (w_missions w)).
      case x of (k, ms) \<Rightarrow> k = sint (ms_missionNum ms) \<and> wf_mission (w_cams w) ms"
    using inv by (simp add: world_inv_def)
  ultimately show ?thesis using safe by fastforce
qed

definition world0 :: world where
  "world0 = \<lparr>w_cams = [], w_missions = [], w_unstart = mission0 0, w_results = []\<rparr>"

theorem reachable_missions_safe_witness:
  "\<exists>w. reachable w \<and> length (w_missions w) = 1 \<and> MissionMatch dev0 w \<noteq> None"
proof -
  have "reachable world0" by (rule reachable.start) (simp_all add: world0_def empty_mission_def mission0_def)
  then have r: "reachable (MissionAdd (mission0 0) world0)"
    by (rule reachable.add) (simp add: empty_mission_def mission0_def)
  have "length (w_missions (MissionAdd (mission0 0) world0)) = 1"
    by (simp add: MissionAdd_def world0_def)
  with r reachable_missions_safe [OF r] show ?thesis by blast
qed

section \<open>Missions as a map\<close>

text \<open>
  \<open>MissionAdd\<close> never replaces a mission: under an existing number the former mission stays.
  \<open>MissionDelete\<close> takes exactly the mission of its number away.
\<close>

theorem MissionAdd_first_wins:
  assumes "reachable w"
  shows "MissionGet n (MissionAdd ms w) =
      (if n = sint (ms_missionNum ms)
       then Some (case MissionGet n w of None \<Rightarrow> ms | Some old \<Rightarrow> old) else MissionGet n w) \<and>
    MissionGet n (MissionDelete ms w) =
      (if n = sint (ms_missionNum ms) then None else MissionGet n w)"
  using reachable_world_inv [OF assms]
  by (simp add: MissionGet_def MissionAdd_def MissionDelete_def world_inv_def map_of_map_insert
      map_of_map_erase)

theorem MissionAdd_first_wins_witness:
  "map_option ms_curSpdDomeCam (MissionGet 3 (MissionAdd ((mission0 0)\<lparr>ms_curSpdDomeCam := 5\<rparr>)
     (MissionAdd (mission0 0) world0))) = Some 0"
proof -
  have "reachable world0" by (rule reachable.start) (simp_all add: world0_def empty_mission_def mission0_def)
  then have r: "reachable (MissionAdd (mission0 0) world0)"
    by (rule reachable.add) (simp add: empty_mission_def mission0_def)
  show ?thesis
    using MissionAdd_first_wins [OF r, of 3 "(mission0 0)\<lparr>ms_curSpdDomeCam := 5\<rparr>"]
      map_of_map_insert [of "[]" 3 "mission0 0" 3]
    by (simp add: MissionGet_def MissionAdd_def world0_def mission0_def)
qed

section \<open>Moves\<close>

lemma set_missionNum_at:
  assumes "r < length cams"
  shows "set_missionNum n cams (Some r) =
     Some (cams[r := upd_cfg (\<lambda>cfg. cfg\<lparr>sc_missionNum := n\<rparr>) (cams ! r)])"
  using assms by (simp add: set_missionNum_def upd_cam_def)

lemma cam_list_upd:
  assumes "wf_cams (cams, ms)" and "\<And>c. camNum_of (f c) = camNum_of c"
  shows "map camNum_of (cam_list (cams[r := f (cams ! r)], ms)) = map camNum_of (cam_list (cams, ms))"
proof -
  have "camNum_of (cams[r := f (cams ! r)] ! q) = camNum_of (cams ! q)" for q
    by (cases "r < length cams"; cases "q = r") (auto simp: assms(2) nth_list_update list_update_beyond)
  then show ?thesis by (simp add: cam_list_def)
qed

lemma find_camNum: "find_index (\<lambda>c. camNum_of c = k) xs = find_index ((=) k) (map camNum_of xs)"
  by (induction xs) auto

lemma mission_at_set: "i < length (w_missions w) \<Longrightarrow> mission_at i (set_mission i ms w) = ms"
  by (simp add: mission_at_def set_mission_def)

lemma set_mission_simps [simp]:
  "w_cams (set_mission i ms w) = w_cams w" "w_unstart (set_mission i ms w) = w_unstart w"
  by (simp_all add: set_mission_def)

text \<open>A mission that gets a camera keeps its devices and its number.\<close>

definition same_devices :: "CMission \<Rightarrow> CMission \<Rightarrow> bool" where
  "same_devices ms ms' \<longleftrightarrow> ms_capDev ms' = ms_capDev ms \<and> ms_totalCapDev ms' = ms_totalCapDev ms \<and>
     ms_missionNum ms' = ms_missionNum ms"

text \<open>A camera goes from one list to another: the lists may be those of a mission or of the ungrouped cameras.\<close>

definition moved_camera :: "CSpeedDomeCam \<Rightarrow> u32 \<Rightarrow> CSpeedDomeCam \<Rightarrow> CSpeedDomeCam" where
  "moved_camera raw n old = raw\<lparr>dc_curPTZposion := 0, dc_isUsing := FREE,
     dc_m_sdcCfg := (copied_cfg (dc_m_sdcCfg raw) (dc_m_sdcCfg old))\<lparr>sc_missionNum := n\<rparr>\<rparr>"

lemma fresh_moved: "fresh_SDC raw (upd_cfg (\<lambda>cfg. cfg\<lparr>sc_missionNum := n\<rparr>) old) = moved_camera raw n old"
  by (simp add: fresh_SDC_cfg copied_cfg_missionNum moved_camera_def)

lemma move_SDC_between:
  assumes "wf_cams (cams, src)" and "wf_cams (cams, dst)"
    and "find_index (\<lambda>c. camNum_of c = k) (cam_list (cams, src)) = Some j"
    and "unat (ms_totalSpdDomeCam src) < MAX_SDC" and "unat (ms_totalSpdDomeCam dst) < MAX_SDC"
  shows "\<exists>p cams1 c dst' q src'. getSDC cams src k = Some p \<and> p \<noteq> None \<and> set_missionNum n cams p = Some cams1 \<and>
    addSDC_ptr raw cams1 dst p = Some (cams1 @ [c], dst') \<and> showCfg (cams1 @ [c]) dst' = Some () \<and>
    removeSDC (cams1 @ [c]) src k = Some (q, src') \<and>
    map dc_isUsing cams1 = map dc_isUsing cams \<and> map camNum_of cams1 = map camNum_of cams \<and>
    cam_refs src' = without j (cam_refs src) \<and> cam_refs dst' = cam_refs dst @ [length cams] \<and> same_devices dst dst' \<and>
    camNum_of c = k \<and> dc_isUsing c = FREE \<and> sc_missionNum (dc_m_sdcCfg c) = n \<and>
    c = moved_camera raw n (cam_list (cams, src) ! j)"
proof -
  have j: "j < unat (ms_totalSpdDomeCam src)" "camNum_of (cam_list (cams, src) ! j) = k"
    using find_index_Some [OF assms(3)] by auto
  obtain r where r: "r < length cams" "ms_SpdDomeCam src j = Some r" "cam_list (cams, src) ! j = cams ! r"
    using SDC_at_wf(2) [OF assms(1) j(1)] by auto
  let ?f = "upd_cfg (\<lambda>cfg. cfg\<lparr>sc_missionNum := n\<rparr>)"
  let ?c = "?f (cams ! r)" and ?cams = "cams[r := ?f (cams ! r)]"
  have get: "getSDC cams src k = Some (Some r)" by (simp add: getSDC_list [OF assms(1)] assms(3) r(2))
  have wfd: "wf_cams (?cams, dst)" by (rule wf_cams_mono [OF assms(2)]) simp
  obtain dst' where add: "addSDC raw ?cams dst ?c = Some (?cams @ [fresh_SDC raw ?c], dst')"
    and wfd': "wf_cams (?cams @ [fresh_SDC raw ?c], dst')"
    and refs: "cam_refs dst' = cam_refs dst @ [length ?cams]" and same: "same_devices dst dst'"
    using addSDC_list [OF wfd assms(5), of raw ?c] by (auto simp: same_devices_def)
  let ?cams' = "?cams @ [fresh_SDC raw ?c]"
  have wfs: "wf_cams (?cams', src)" by (rule wf_cams_mono [OF assms(1)]) simp
  have "\<forall>q \<in> set (cam_refs src). q < length cams" using assms(1) by (auto simp: wf_cams_def cam_refs_def)
  then have "cam_list (?cams', src) = cam_list (?cams, src)" by (simp add: cam_list_def nth_append)
  then have "map camNum_of (cam_list (?cams', src)) = map camNum_of (cam_list (cams, src))"
    using cam_list_upd [OF assms(1), of ?f r] by simp
  then have fi: "find_index (\<lambda>c. camNum_of c = k) (cam_list (?cams', src)) = Some j"
    using assms(3) by (simp only: find_camNum)
  obtain src' where rem: "remove_at src j = Some src'" "cam_refs src' = without j (cam_refs src)"
    using remove_at_list [OF wfs j(1) assms(4)] by auto
  have "set_missionNum n cams (Some r) = Some ?cams" using r(1) by (simp add: set_missionNum_at)
  moreover have "addSDC_ptr raw ?cams dst (Some r) = Some (?cams', dst')"
    using r(1) add by (simp add: addSDC_ptr_def deref_def)
  moreover have "\<exists>q. removeSDC ?cams' src k = Some (q, src')" using fi rem(1) by (simp add: removeSDC_list [OF wfs])
  moreover have "map dc_isUsing ?cams = map dc_isUsing cams" "map camNum_of ?cams = map camNum_of cams"
    using r(1) by (simp_all add: map_update list_update_same_conv)
  moreover have "camNum_of (fresh_SDC raw ?c) = k" "dc_isUsing (fresh_SDC raw ?c) = FREE"
    "sc_missionNum (dc_m_sdcCfg (fresh_SDC raw ?c)) = n"
    using j(2) r(3) by (simp_all add: fresh_SDC_def copy_SDC_cfg_def CHIKCam_new_def)
  moreover have "fresh_SDC raw ?c = moved_camera raw n (cams ! r)" by (simp add: fresh_moved)
  ultimately show ?thesis
    using get showCfg_wf [OF wfd'] rem(2) refs same r(3)
    by (intro exI [of _ "Some r"] exI [of _ ?cams] exI [of _ "fresh_SDC raw ?c"] exI [of _ dst'])
      (auto intro!: exI [of _ src'])
qed

lemma move_SDC_in_world:
  assumes "world_inv w" and "gr_ori_num req = - 1" and "find_mission (gr_dts_num req) w = Some i"
    and "find_index (\<lambda>c. camNum_of c = gr_num req) (cam_list (w_cams w, w_unstart w)) = Some j"
    and "unat (ms_totalSpdDomeCam (mission_at i w)) < MAX_SDC"
    and "unat (ms_totalSpdDomeCam (w_unstart w)) < MAX_SDC"
  shows "\<exists>cams c ms' un'. MissionUpdateSDCMissionGroup raw req w =
      Some (0, set_mission i ms' (w\<lparr>w_cams := cams @ [c], w_unstart := un'\<rparr>)) \<and>
    map dc_isUsing cams = map dc_isUsing (w_cams w) \<and>
    cam_refs un' = without j (cam_refs (w_unstart w)) \<and>
    cam_refs ms' = cam_refs (mission_at i w) @ [length (w_cams w)] \<and> same_devices (mission_at i w) ms' \<and>
    camNum_of c = gr_num req \<and> dc_isUsing c = FREE \<and> sc_missionNum (dc_m_sdcCfg c) = gr_dts_num req \<and>
    map camNum_of cams = map camNum_of (w_cams w) \<and>
    c = moved_camera raw (gr_dts_num req) (cam_list (w_cams w, w_unstart w) ! j)"
proof -
  have "wf_cams (w_cams w, w_unstart w)" "wf_cams (w_cams w, mission_at i w)"
    using unstart_wf [OF assms(1)] mission_of_found [OF assms(1,3)] by (auto simp: wf_mission_def)
  from move_SDC_between [OF this assms(4,6,5), of "gr_dts_num req" raw] show ?thesis
    by (clarsimp simp: MissionUpdateSDCMissionGroup_def assms(2,3) move_SDC_in_def) (intro exI conjI, rule refl, assumption+)
qed

text \<open>So the matches stay what they were.\<close>

lemma match_same:
  assumes "same_devices ms ms'"
  shows "CMission_match ms' d = CMission_match ms d"
  using assms by (simp add: CMission_match_def find_CapDev_def CapDev_at_def same_devices_def cong: if_cong)

lemma MissionMatch_loop_same:
  "i < length xs \<Longrightarrow> same_devices (snd (xs ! i)) ms' \<Longrightarrow>
     MissionMatch_loop (xs[i := (k, ms')]) d = MissionMatch_loop xs d"
proof (induction xs arbitrary: i)
  case Nil
  then show ?case by simp
next
  case (Cons x xs)
  obtain l ms where x: "x = (l, ms)" by (cases x)
  show ?case
  proof (cases i)
    case 0
    with Cons.prems x show ?thesis by (simp add: match_same [of ms ms'] same_devices_def cong: if_cong)
  next
    case (Suc n)
    with Cons x show ?thesis by (simp cong: if_cong)
  qed
qed

lemma MissionMatch_same:
  assumes "i < length (w_missions w)" and "same_devices (mission_at i w) ms'"
  shows "MissionMatch d (set_mission i ms' (w\<lparr>w_cams := cams, w_unstart := un\<rparr>)) = MissionMatch d w"
  using MissionMatch_loop_same [OF assms(1)] assms(2) by (simp add: MissionMatch_def set_mission_def mission_at_def)

lemma same_at:
  assumes "length xs = length ys" and "map f xs = map f ys" and "map g xs = map g ys"
  shows "\<forall>r < length ys. f (xs ! r) = f (ys ! r) \<and> g (xs ! r) = g (ys ! r)"
  using assms by (metis nth_map)

text \<open>
  C18: a camera moved from the ungrouped ones into a mission, when neither array is full, leaves the ungrouped ones and
  becomes the mission's last camera, as a new object that is free and at its first preset. Its settings are the old
  one's, all presets in use included, but for the number of the mission, which is the one asked for, and for the mode, the
  reserved byte, both plate widths and the presets not in use, which are left over in the memory the object is made in.
  No other camera changes its number or whether it is in use.
\<close>

theorem move_SDC_into_mission:
  assumes "reachable w" and "gr_ori_num req = - 1" and "find_mission (gr_dts_num req) w = Some i"
    and "find_index (\<lambda>c. camNum_of c = gr_num req) (cam_list (w_cams w, w_unstart w)) = Some j"
    and "unat (ms_totalSpdDomeCam (mission_at i w)) < 2400"
    and "unat (ms_totalSpdDomeCam (w_unstart w)) < 2400"
  shows "\<exists>w' c. MissionUpdateSDCMissionGroup raw req w = Some (0, w') \<and>
    cam_refs (w_unstart w') = without j (cam_refs (w_unstart w)) \<and>
    cam_refs (mission_at i w') = cam_refs (mission_at i w) @ [length (w_cams w)] \<and>
    w_cams w' ! length (w_cams w) = c \<and> camNum_of c = gr_num req \<and> dc_isUsing c = FREE \<and>
    sc_missionNum (dc_m_sdcCfg c) = gr_dts_num req \<and>
    c = moved_camera raw (gr_dts_num req) (cam_list (w_cams w, w_unstart w) ! j) \<and>
    (\<forall>r < length (w_cams w). dc_isUsing (w_cams w' ! r) = dc_isUsing (w_cams w ! r) \<and>
       camNum_of (w_cams w' ! r) = camNum_of (w_cams w ! r))"
proof -
  have "i < length (w_missions w)" using find_mission_Some [OF assms(3)] by simp
  moreover obtain cams c ms' un' where
    "MissionUpdateSDCMissionGroup raw req w =
      Some (0, set_mission i ms' (w\<lparr>w_cams := cams @ [c], w_unstart := un'\<rparr>))"
    "map dc_isUsing cams = map dc_isUsing (w_cams w)"
    "cam_refs un' = without j (cam_refs (w_unstart w))"
    "cam_refs ms' = cam_refs (mission_at i w) @ [length (w_cams w)]"
    "camNum_of c = gr_num req" "dc_isUsing c = FREE" "sc_missionNum (dc_m_sdcCfg c) = gr_dts_num req"
    "map camNum_of cams = map camNum_of (w_cams w)"
    "c = moved_camera raw (gr_dts_num req) (cam_list (w_cams w, w_unstart w) ! j)"
    using move_SDC_in_world [OF reachable_world_inv [OF assms(1)] assms(2-4), of raw] assms(5,6)
    unfolding MAX_SDC_def by auto
  moreover from this(2) have "length cams = length (w_cams w)" by (metis length_map)
  moreover note same_at [OF this \<open>map dc_isUsing cams = map dc_isUsing (w_cams w)\<close> \<open>map camNum_of cams = map camNum_of (w_cams w)\<close>]
  ultimately show ?thesis
    by (intro exI [of _ "set_mission i ms' (w\<lparr>w_cams := cams @ [c], w_unstart := un'\<rparr>)"] exI [of _ c])
      (simp add: mission_at_set nth_append)
qed

text \<open>
  C35: a camera moved out of its mission, when neither array is full, becomes the last of the ungrouped ones, as a new
  object that is marked free even if the camera is in use: the object the device tours with is no longer in the mission and
  stays as busy as it was, and there are two objects with one number. The new one has the settings of the old one but for
  the number of the mission and what no copy takes along, the mode, the plate widths and the presets not in use.
\<close>

theorem move_SDC_out_of_mission:
  assumes "reachable w" and "gr_ori_num req \<noteq> - 1" and "find_mission (gr_ori_num req) w = Some i"
    and "find_index (\<lambda>c. camNum_of c = gr_num req) (cam_list (w_cams w, mission_at i w)) = Some j"
    and "unat (ms_totalSpdDomeCam (mission_at i w)) < 2400"
    and "unat (ms_totalSpdDomeCam (w_unstart w)) < 2400"
  shows "\<exists>w' c. MissionUpdateSDCMissionGroup raw req w = Some (0, w') \<and>
    cam_refs (mission_at i w') = without j (cam_refs (mission_at i w)) \<and>
    cam_refs (w_unstart w') = cam_refs (w_unstart w) @ [length (w_cams w)] \<and>
    w_cams w' ! length (w_cams w) = c \<and> camNum_of c = gr_num req \<and> dc_isUsing c = FREE \<and>
    c = moved_camera raw (gr_dts_num req) (cam_list (w_cams w, mission_at i w) ! j) \<and>
    (\<forall>r < length (w_cams w). dc_isUsing (w_cams w' ! r) = dc_isUsing (w_cams w ! r) \<and>
       camNum_of (w_cams w' ! r) = camNum_of (w_cams w ! r))"
proof -
  have i: "i < length (w_missions w)" using find_mission_Some [OF assms(3)] by simp
  note inv = reachable_world_inv [OF assms(1)]
  have "wf_cams (w_cams w, mission_at i w)" "wf_cams (w_cams w, w_unstart w)"
    using unstart_wf [OF inv] mission_of_found [OF inv assms(3)] by (auto simp: wf_mission_def)
  from move_SDC_between [OF this assms(4), of "gr_dts_num req" raw] assms(5,6) obtain cams c ms' un' where
    m: "MissionUpdateSDCMissionGroup raw req w = Some (0, set_mission i ms' (w\<lparr>w_cams := cams @ [c], w_unstart := un'\<rparr>))"
    and l: "map dc_isUsing cams = map dc_isUsing (w_cams w)" "map camNum_of cams = map camNum_of (w_cams w)"
    and x: "cam_refs ms' = without j (cam_refs (mission_at i w))" "cam_refs un' = cam_refs (w_unstart w) @ [length (w_cams w)]"
      "camNum_of c = gr_num req" "dc_isUsing c = FREE"
    and mv: "c = moved_camera raw (gr_dts_num req) (cam_list (w_cams w, mission_at i w) ! j)"
    by (auto simp: MissionUpdateSDCMissionGroup_def assms(2,3) move_SDC_out_def MAX_SDC_def)
  have len: "length cams = length (w_cams w)" using l(1) by (metis length_map)
  from same_at [OF len l] m x mv len i show ?thesis by (auto simp: nth_append mission_at_def set_mission_def)
qed

definition world1 :: world where
  "world1 = (MissionAdd (mission0 0) world0)\<lparr>w_cams := [fresh_SDC cam0 sdc8],
     w_unstart := snd (the (addSDC cam0 [] (mission0 0) sdc8))\<rparr>"

lemma reachable_world1: "reachable world1"
proof -
  have "reachable world0" by (rule reachable.start) (simp_all add: world0_def empty_mission_def mission0_def)
  then have "reachable (MissionAdd (mission0 0) world0)"
    by (rule reachable.add) (simp add: empty_mission_def mission0_def)
  moreover have "addSDC cam0 (w_cams (MissionAdd (mission0 0) world0))
      (w_unstart (MissionAdd (mission0 0) world0)) sdc8 =
      Some ([fresh_SDC cam0 sdc8], snd (the (addSDC cam0 [] (mission0 0) sdc8)))"
    by (simp add: MissionAdd_def world0_def addSDC_def fresh_SDC_def mission0_def MAX_SDC_def)
  ultimately show ?thesis unfolding world1_def by (rule reachable.un_add_SDC)
qed

theorem move_SDC_into_mission_witness:
  "\<exists>w'. MissionUpdateSDCMissionGroup cam0 \<lparr>gr_ori_num = - 1, gr_dts_num = 3, gr_type = 0,
     gr_num = ''8''\<rparr> world1 = Some (0, w') \<and> cam_refs (w_unstart w') = [] \<and>
     cam_refs (mission_at 0 w') = [1]"
proof -
  have m: "w_missions world1 = [(3, mission0 0)]"
    by (simp add: world1_def MissionAdd_def world0_def mission0_def)
  have f: "find_mission 3 world1 = Some 0" by (simp add: find_mission_def m mission0_def)
  have "wf_cams ([], mission0 0)" by (rule wf_mission0) simp_all
  from addSDC_list [OF this, of cam0 sdc8]
  have l: "cam_list (w_cams world1, w_unstart world1) = [fresh_SDC cam0 sdc8]"
    and r: "cam_refs (w_unstart world1) = [0]"
    by (auto simp: world1_def cam_list_def cam_refs_def mission0_def MAX_SDC_def)
  have n: "unat (ms_totalSpdDomeCam (w_unstart world1)) = 1" using arg_cong [OF r, of length] by simp
  have z: "mission_at 0 world1 = mission0 0" by (simp add: mission_at_def m)
  let ?req = "\<lparr>gr_ori_num = - 1, gr_dts_num = 3, gr_type = 0, gr_num = ''8''\<rparr> :: missionGroupChgReq"
  have "\<exists>w' c. MissionUpdateSDCMissionGroup cam0 ?req world1 = Some (0, w') \<and>
    cam_refs (w_unstart w') = without 0 (cam_refs (w_unstart world1)) \<and>
    cam_refs (mission_at 0 w') = cam_refs (mission_at 0 world1) @ [length (w_cams world1)] \<and>
    w_cams w' ! length (w_cams world1) = c \<and> camNum_of c = gr_num ?req \<and> dc_isUsing c = FREE \<and>
    sc_missionNum (dc_m_sdcCfg c) = gr_dts_num ?req \<and>
    c = moved_camera cam0 (gr_dts_num ?req) (cam_list (w_cams world1, w_unstart world1) ! 0) \<and>
    (\<forall>r < length (w_cams world1). dc_isUsing (w_cams w' ! r) = dc_isUsing (w_cams world1 ! r) \<and>
       camNum_of (w_cams w' ! r) = camNum_of (w_cams world1 ! r))"
    by (rule move_SDC_into_mission [OF reachable_world1]) (simp_all add: f l n z, simp add: mission0_def)
  moreover have "cam_refs (mission0 0) = []" by (simp add: cam_refs_def mission0_def)
  moreover have "length (w_cams world1) = 1" by (simp add: world1_def)
  ultimately show ?thesis by (auto simp: r z without_def)
qed

text \<open>A mission with one camera, which is in use\<close>

definition world_busy :: world where
  "world_busy = \<lparr>w_cams = [(fresh_SDC cam0 sdc8)\<lparr>dc_isUsing := BUSY\<rparr>],
     w_missions = [(3, snd (the (addSDC cam0 [] (mission0 0) sdc8)))], w_unstart = mission0 0, w_results = []\<rparr>"

lemma reachable_world_busy: "reachable world_busy"
proof -
  let ?w = "MissionAdd (mission0 0) world0"
  have "reachable world0" by (rule reachable.start) (simp_all add: world0_def empty_mission_def mission0_def)
  then have w: "reachable ?w" by (rule reachable.add) (simp add: empty_mission_def mission0_def)
  have "find_mission (sc_missionNum (dc_m_sdcCfg sdc8)) ?w = Some 0" "mission_at 0 ?w = mission0 0" "w_cams ?w = []"
    by (simp_all add: find_mission_def MissionAdd_def world0_def mission0_def sdc8_def cam0_def cfg0_def mission_at_def)
  then have "\<exists>w'. MissionAddSDC cam0 sdc8 ?w = Some (0, w') \<and>
      world_busy = w'\<lparr>w_cams := (w_cams w')[0 := (w_cams w' ! 0)\<lparr>dc_isUsing := BUSY\<rparr>]\<rparr> \<and> 0 < length (w_cams w')"
    by (simp add: MissionAddSDC_def addSDC_def mission0_def MAX_SDC_def fresh_SDC_def world_busy_def set_mission_def
        MissionAdd_def world0_def)
  then obtain w' where w': "MissionAddSDC cam0 sdc8 ?w = Some (0, w')" "0 < length (w_cams w')"
    "world_busy = w'\<lparr>w_cams := (w_cams w')[0 := (w_cams w' ! 0)\<lparr>dc_isUsing := BUSY\<rparr>]\<rparr>" by blast
  have "upd_cam (w_cams w') (Some 0) (\<lambda>c. c\<lparr>dc_isUsing := BUSY\<rparr>) =
      Some ((w_cams w')[0 := (w_cams w' ! 0)\<lparr>dc_isUsing := BUSY\<rparr>])" using w'(2) by (simp add: upd_cam_def)
  from reachable.camera [OF reachable.add_SDC [OF w w'(1)] this] show ?thesis by (simp add: w'(3))
qed

corollary move_SDC_out_of_mission_witness:
  "\<exists>w'. MissionUpdateSDCMissionGroup cam0 \<lparr>gr_ori_num = 3, gr_dts_num = - 1, gr_type = 0, gr_num = ''8''\<rparr> world_busy
      = Some (0, w') \<and> cam_refs (w_unstart w') = [1] \<and> camNum_of (w_cams w' ! 1) = camNum_of (w_cams w' ! 0) \<and>
    dc_isUsing (w_cams w' ! 1) = FREE \<and> dc_isUsing (w_cams w' ! 0) = BUSY"
proof -
  let ?req = "\<lparr>gr_ori_num = 3, gr_dts_num = - 1, gr_type = 0, gr_num = ''8''\<rparr> :: missionGroupChgReq"
  have "wf_cams ([], mission0 0)" by (rule wf_mission0) simp_all
  from addSDC_list [OF this, of cam0 sdc8]
  have refs: "cam_refs (mission_at 0 world_busy) = [0]" by (auto simp: world_busy_def mission_at_def cam_refs_def mission0_def MAX_SDC_def)
  have n: "unat (ms_totalSpdDomeCam (mission_at 0 world_busy)) = 1" using arg_cong [OF refs, of length] by simp
  have c: "camNum_of (w_cams world_busy ! 0) = ''8''" by (simp add: world_busy_def fresh_SDC_def copy_SDC_cfg_def sdc8_def)
  have "find_mission 3 world_busy = Some 0" by (simp add: find_mission_def world_busy_def addSDC_def mission0_def MAX_SDC_def)
  moreover have "cam_list (w_cams world_busy, mission_at 0 world_busy) = [w_cams world_busy ! 0]"
    by (simp add: cam_list_def refs)
  moreover have "cam_refs (w_unstart world_busy) = []" "length (w_cams world_busy) = 1" "dc_isUsing (w_cams world_busy ! 0) = BUSY"
    by (simp_all add: world_busy_def cam_refs_def mission0_def)
  moreover have "unat (ms_totalSpdDomeCam (w_unstart world_busy)) < 2400" by (simp add: world_busy_def mission0_def)
  ultimately show ?thesis
    using move_SDC_out_of_mission [OF reachable_world_busy, where req = ?req and i = 0 and j = 0 and raw = cam0] c n by auto
qed

end
