(* ===== verification/CaptureDeviceFacts.thy ===== *)
theory CaptureDeviceFacts
  imports ProtocolFacts MissionFacts CaptureDevice
begin

text \<open>
  What a device's tour does: every round of a running mission sends one schedule and moves to the
  next preset, and the tour ends after as many rounds as the camera has presets.
\<close>

section \<open>A running round\<close>

text \<open>The device is on a mission with camera \<open>r\<close>, whose tour stands at preset \<open>k\<close> of \<open>n\<close>.\<close>

definition touring :: "cam_ref \<Rightarrow> nat \<Rightarrow> nat \<Rightarrow> dev_state \<Rightarrow> bool" where
  "touring r n k s \<longleftrightarrow>
     cd_run (ds_dev s) = 1 \<and> cd_missionStatus (ds_dev s) = MISSION_READY \<and>
     cd_SpdDomeCam (ds_dev s) = Some r \<and> cd_timer (ds_dev s) \<noteq> None \<and>
     cd_socket (ds_dev s) \<noteq> None \<and> r < length (ds_cams s) \<and>
     unat (sc_presetTotal (dc_m_sdcCfg (ds_cams s ! r))) = n \<and>
     unat (dc_curPTZposion (ds_cams s ! r)) = k \<and> k < n"

definition cam_cfg :: "cam_ref \<Rightarrow> dev_state \<Rightarrow> SDCcfg" where
  "cam_cfg r s = dc_m_sdcCfg (ds_cams s ! r)"

text \<open>The vendor library accepts every preset.\<close>

definition turns_ok :: "sdk \<Rightarrow> SDCcfg \<Rightarrow> bool" where
  "turns_ok sdk cfg \<longleftrightarrow>
     (\<forall>log u num. sdk log (NET_DVR_PTZPreset_Other u 1 GOTO_PRESET num) \<noteq> 0) \<and>
     (\<forall>i < unat (sc_presetTotal cfg). 1 \<le> sint (pr_presetNum (sc_missionPreset cfg i)))"

definition frames_fit :: "SnapSchedule \<Rightarrow> byte list \<Rightarrow> CSpeedDomeCam \<Rightarrow> bool" where
  "frames_fit raw stk c \<longleftrightarrow>
     (\<forall>i < unat (sc_presetTotal (dc_m_sdcCfg c)).
       7 + length (snap_schedule_body (snap_schedule raw c (sc_missionPreset (dc_m_sdcCfg c) i)))
         \<le> length stk)"

lemma snap_schedule_cfg:
  "dc_m_sdcCfg c = dc_m_sdcCfg d \<Longrightarrow> snap_schedule raw c pr = snap_schedule raw d pr"
  by (simp add: snap_schedule_def)

definition schedule_frame :: "SnapSchedule \<Rightarrow> byte list \<Rightarrow> CSpeedDomeCam \<Rightarrow> nat \<Rightarrow> byte list" where
  "schedule_frame raw stk c i =
     (let body = snap_schedule_body (snap_schedule raw c (sc_missionPreset (dc_m_sdcCfg c) i))
      in le_enc 4 (word_of_nat (7 + length body) :: u32) @ [4, 1, stk ! 6] @ body)"

lemma unat_ucast_byte: "unat (ucast (b :: byte) :: u32) = unat b"
proof -
  have "unat b < 2 ^ 32" using unat_byte_less [of b] by simp
  then show ?thesis by (simp add: unsigned_ucast_eq take_bit_nat_eq_self)
qed

lemma upd_cam_at: "r < length cams \<Longrightarrow> upd_cam cams (Some r) f = Some (cams[r := f (cams ! r)])"
  by (simp add: upd_cam_def)

lemma deref_at: "r < length cams \<Longrightarrow> deref cams (Some r) = Some (cams ! r)"
  by (simp add: deref_def)

lemma loop_init_touring:
  assumes "touring r n k s"
  shows "\<exists>s'. loop_init sdk s = Some s' \<and> touring r n k s' \<and> cam_cfg r s' = cam_cfg r s \<and>
    ds_out s' = ds_out s \<and> ds_dev s' = ds_dev s"
  using assms
  by (auto simp: touring_def loop_init_def the_cam_def on_cam_def deref_at upd_cam_at Init_cases Let_def
      cam_cfg_def)

lemma preset_at_touring:
  assumes "touring r n k s"
  shows "preset_at (ds_cams s ! r) (dc_curPTZposion (ds_cams s ! r)) =
    Some (sc_missionPreset (cam_cfg r s) k)"
  using assms preset_slot [of k "dc_m_sdcCfg (ds_cams s ! r)"]
  by (auto simp: touring_def preset_at_def cam_cfg_def)

lemma loop_turn_touring:
  assumes "touring r n k s" and "turns_ok sdk (cam_cfg r s)"
  shows "\<exists>s' t. loop_turn sdk s = Some s' \<and> touring r n k s' \<and> cam_cfg r s' = cam_cfg r s \<and>
    ds_out s' = ds_out s @ [TimerArmed t] \<and> cd_socket (ds_dev s') = cd_socket (ds_dev s)"
proof -
  obtain t where t: "cd_timer (ds_dev s) = Some t" using assms(1) by (auto simp: touring_def)
  have "1 \<le> sint (pr_presetNum (sc_missionPreset (cam_cfg r s) k))"
    using assms by (auto simp: touring_def turns_ok_def cam_cfg_def)
  with assms(2) have "fst (TurnPTZPreset sdk (ds_cams s ! r)
      (pr_presetNum (sc_missionPreset (cam_cfg r s) k)) (ds_log s)) = 0"
    by (simp add: TurnPTZPreset_def turns_ok_def Let_def)
  then obtain l where "TurnPTZPreset sdk (ds_cams s ! r)
      (pr_presetNum (sc_missionPreset (cam_cfg r s) k)) (ds_log s) = (0, l)"
    by (metis fst_conv surj_pair)
  then show ?thesis
    using assms(1) preset_at_touring [OF assms(1)] t
    by (auto simp: loop_turn_def the_cam_def touring_def deref_at rearm_def cam_cfg_def Let_def)
qed

lemma package_schedule:
  assumes "7 + length (snap_schedule_body (snap_schedule raw c (sc_missionPreset (dc_m_sdcCfg c) i))) \<le> length stk"
  shows "\<exists>len d v. PackageSnapScheduleFrame (Some stk)
      (snap_schedule raw c (sc_missionPreset (dc_m_sdcCfg c) i)) = Some (len, d, v) \<and>
    take (nat len) d = schedule_frame raw stk c i"
proof -
  let ?b = "snap_schedule_body (snap_schedule raw c (sc_missionPreset (dc_m_sdcCfg c) i))"
  let ?n = "7 + length ?b"
  have "length (schedule_frame raw stk c i) = ?n" by (simp add: schedule_frame_def Let_def)
  then have "take (nat (int ?n)) (schedule_frame raw stk c i @ drop ?n stk) = schedule_frame raw stk c i"
    by simp
  moreover have "PackageSnapScheduleFrame (Some stk)
      (snap_schedule raw c (sc_missionPreset (dc_m_sdcCfg c) i)) =
    Some (int ?n, schedule_frame raw stk c i @ drop ?n stk,
      (snap_schedule raw c (sc_missionPreset (dc_m_sdcCfg c) i))\<lparr>ss_mode := 1\<rparr>)"
    using assms unfolding PackageSnapScheduleFrame_store schedule_frame_def Let_def by simp
  ultimately show ?thesis by blast
qed

lemma loop_send_touring:
  assumes "touring r n k s" and "frames_fit raw stk (ds_cams s ! r)" and "cd_socket (ds_dev s) = Some q"
  shows "loop_send raw stk s = Some (s\<lparr>ds_out := ds_out s @
    [AsyncWrite q (schedule_frame raw stk (ds_cams s ! r) k)]\<rparr>)"
proof -
  have "7 + length (snap_schedule_body (snap_schedule raw (ds_cams s ! r)
      (sc_missionPreset (dc_m_sdcCfg (ds_cams s ! r)) k))) \<le> length stk"
    using assms(1,2) by (auto simp: touring_def frames_fit_def)
  from package_schedule [OF this] obtain len d v where
    "PackageSnapScheduleFrame (Some stk)
      (snap_schedule raw (ds_cams s ! r) (sc_missionPreset (cam_cfg r s) k)) = Some (len, d, v)"
    "take (nat len) d = schedule_frame raw stk (ds_cams s ! r) k" unfolding cam_cfg_def by auto
  moreover have "the_cam s = Some (ds_cams s ! r)"
    using assms(1) by (simp add: touring_def the_cam_def deref_at)
  ultimately show ?thesis
    using assms(3) preset_at_touring [OF assms(1)] by (simp add: loop_send_def)
qed

lemma loop_advance_touring:
  assumes "touring r n k s"
  shows "\<exists>s'. loop_advance sdk s = Some s' \<and> cam_cfg r s' = cam_cfg r s \<and>
    cd_socket (ds_dev s') = cd_socket (ds_dev s) \<and> length (ds_cams s') = length (ds_cams s) \<and>
    (if Suc k < n then touring r n (Suc k) s' \<and> ds_out s' = ds_out s
     else cd_missionStatus (ds_dev s') = MISSION_COMPLETED \<and> cd_run (ds_dev s') = 1 \<and> cd_timer (ds_dev s') \<noteq> None \<and>
       dc_isUsing (ds_cams s' ! r) = FREE \<and> dc_curPTZposion (ds_cams s' ! r) = 0 \<and>
       (\<exists>t. ds_out s' = ds_out s @ [Slept t]))"
proof -
  let ?c = "ds_cams s ! r"
  let ?s = "s\<lparr>ds_cams := (ds_cams s)[r := ?c\<lparr>dc_curPTZposion := dc_curPTZposion ?c + 1\<rparr>]\<rparr>"
  have r: "r < length (ds_cams s)" "cd_SpdDomeCam (ds_dev s) = Some r"
    and k: "unat (dc_curPTZposion ?c) = k" "k < n" "unat (sc_presetTotal (dc_m_sdcCfg ?c)) = n"
    using assms by (auto simp: touring_def)
  have "n < 256" using k(3) unat_byte_less [of "sc_presetTotal (dc_m_sdcCfg ?c)"] by simp
  then have inc: "unat (dc_curPTZposion ?c + 1) = Suc k"
    using k by (simp add: unat_word_ariths)
  have le: "(ucast (sc_presetTotal (dc_m_sdcCfg ?c)) \<le> dc_curPTZposion ?c + 1) \<longleftrightarrow> n \<le> Suc k"
    using k(3) by (simp add: word_le_nat_alt inc unat_ucast_byte)
  have on: "on_cam (\<lambda>c. c\<lparr>dc_curPTZposion := dc_curPTZposion c + 1\<rparr>) s = Some ?s"
    using r by (simp add: on_cam_def upd_cam_at)
  have the: "the_cam ?s = Some (?c\<lparr>dc_curPTZposion := dc_curPTZposion ?c + 1\<rparr>)"
    using r by (simp add: the_cam_def deref_at)
  show ?thesis
  proof (cases "Suc k < n")
    case True
    then have "touring r n (Suc k) ?s" using assms r inc k by (simp add: touring_def)
    with True show ?thesis
      using on the le r by (simp add: loop_advance_def cam_cfg_def)
  next
    case False
    have "preset_at (?c\<lparr>dc_curPTZposion := dc_curPTZposion ?c + 1\<rparr>) (dc_curPTZposion ?c) =
        preset_at ?c (dc_curPTZposion ?c)" by (simp add: preset_at_def)
    with False show ?thesis
      using on the le r preset_at_touring [OF assms] assms
      by (simp add: loop_advance_def cam_cfg_def split_def on_cam_def upd_cam_at Let_def touring_def)
  qed
qed


section \<open>The tour\<close>

lemma MissoinLoop_touring:
  assumes "touring r n k s" and "turns_ok sdk (cam_cfg r s)" and "frames_fit raw stk (ds_cams s ! r)"
    and "cd_socket (ds_dev s) = Some q"
  shows "\<exists>s' t e. MissoinLoop sdk raw stk s = Some s' \<and> cam_cfg r s' = cam_cfg r s \<and>
    cd_socket (ds_dev s') = Some q \<and>
    ds_out s' = ds_out s @ [TimerArmed t, AsyncWrite q (schedule_frame raw stk (ds_cams s ! r) k)] @ e \<and>
    (if Suc k < n then touring r n (Suc k) s' \<and> e = []
     else cd_missionStatus (ds_dev s') = MISSION_COMPLETED \<and> cd_run (ds_dev s') = 1 \<and> cd_timer (ds_dev s') \<noteq> None \<and>
       dc_isUsing (ds_cams s' ! r) = FREE \<and> dc_curPTZposion (ds_cams s' ! r) = 0 \<and>
       (\<exists>t. e = [Slept t]))"
proof -
  have run: "cd_run (ds_dev s) = 1" and idle: "idle s = Some False"
    using assms(1) by (auto simp: touring_def idle_def the_cam_def deref_at)
  obtain s1 where 1: "loop_init sdk s = Some s1" "touring r n k s1" "cam_cfg r s1 = cam_cfg r s"
    "ds_out s1 = ds_out s" "ds_dev s1 = ds_dev s" using loop_init_touring [OF assms(1)] by blast
  obtain s2 t where 2: "loop_turn sdk s1 = Some s2" "touring r n k s2" "cam_cfg r s2 = cam_cfg r s"
    "ds_out s2 = ds_out s @ [TimerArmed t]" "cd_socket (ds_dev s2) = Some q"
    using loop_turn_touring [OF 1(2)] assms(2,4) 1(3-5) by metis
  have cfg: "dc_m_sdcCfg (ds_cams s2 ! r) = dc_m_sdcCfg (ds_cams s ! r)" using 2(3) by (simp add: cam_cfg_def)
  have fit: "frames_fit raw stk (ds_cams s2 ! r)"
    using assms(3) cfg snap_schedule_cfg [OF cfg] by (simp add: frames_fit_def)
  have fr: "schedule_frame raw stk (ds_cams s2 ! r) k = schedule_frame raw stk (ds_cams s ! r) k"
    using cfg snap_schedule_cfg [OF cfg] by (simp add: schedule_frame_def)
  let ?s3 = "s2\<lparr>ds_out := ds_out s2 @ [AsyncWrite q (schedule_frame raw stk (ds_cams s ! r) k)]\<rparr>"
  have 3: "loop_send raw stk s2 = Some ?s3"
    using loop_send_touring [OF 2(2) fit 2(5)] by (simp add: fr)
  have "touring r n k ?s3" using 2(2) by (simp add: touring_def)
  from loop_advance_touring [OF this, of sdk] obtain s4 where
    4: "loop_advance sdk ?s3 = Some s4" "cam_cfg r s4 = cam_cfg r ?s3"
      "cd_socket (ds_dev s4) = cd_socket (ds_dev ?s3)"
      "if Suc k < n then touring r n (Suc k) s4 \<and> ds_out s4 = ds_out ?s3
       else cd_missionStatus (ds_dev s4) = MISSION_COMPLETED \<and> cd_run (ds_dev s4) = 1 \<and> cd_timer (ds_dev s4) \<noteq> None \<and>
         dc_isUsing (ds_cams s4 ! r) = FREE \<and> dc_curPTZposion (ds_cams s4 ! r) = 0 \<and>
         (\<exists>t. ds_out s4 = ds_out ?s3 @ [Slept t])" by blast
  have m: "MissoinLoop sdk raw stk s = Some s4"
    using run idle 1(1) 2(1) 3 4(1) by (simp add: MissoinLoop_def)
  have c: "cam_cfg r s4 = cam_cfg r s" using 4(2) 2(3) by (simp add: cam_cfg_def)
  show ?thesis
  proof (cases "Suc k < n")
    case True
    with 4 m c 2(4,5) show ?thesis by auto
  next
    case False
    with 4 m c 2(4,5) show ?thesis by auto
  qed
qed

lemma rounds_touring:
  assumes "touring r n k s" and "turns_ok sdk (cam_cfg r s)" and "frames_fit raw stk (ds_cams s ! r)"
    and "cd_socket (ds_dev s) = Some q"
  shows "\<exists>s'. rounds sdk raw stk (n - k) s = Some s' \<and>
    cd_missionStatus (ds_dev s') = MISSION_COMPLETED \<and> dc_isUsing (ds_cams s' ! r) = FREE \<and>
    dc_curPTZposion (ds_cams s' ! r) = 0 \<and>
    [e \<leftarrow> ds_out s'. \<exists>p f. e = AsyncWrite p f] =
      [e \<leftarrow> ds_out s. \<exists>p f. e = AsyncWrite p f] @
      map (\<lambda>i. AsyncWrite q (schedule_frame raw stk (ds_cams s ! r) i)) [k..<n]"
  using assms
proof (induction "n - k" arbitrary: k s)
  case 0
  then show ?case by (simp add: touring_def)
next
  case (Suc m)
  have kn: "k < n" using Suc.prems(1) by (simp add: touring_def)
  then have upt: "[k..<n] = k # [Suc k..<n]" by (rule upt_conv_Cons)
  from MissoinLoop_touring [OF Suc.prems] obtain s1 t e where
    1: "MissoinLoop sdk raw stk s = Some s1" "cam_cfg r s1 = cam_cfg r s" "cd_socket (ds_dev s1) = Some q"
      "ds_out s1 = ds_out s @ [TimerArmed t, AsyncWrite q (schedule_frame raw stk (ds_cams s ! r) k)] @ e"
      "if Suc k < n then touring r n (Suc k) s1 \<and> e = []
       else cd_missionStatus (ds_dev s1) = MISSION_COMPLETED \<and> cd_run (ds_dev s1) = 1 \<and> cd_timer (ds_dev s1) \<noteq> None \<and>
         dc_isUsing (ds_cams s1 ! r) = FREE \<and> dc_curPTZposion (ds_cams s1 ! r) = 0 \<and>
         (\<exists>t. e = [Slept t])" by blast
  have d: "n - k = Suc (n - Suc k)" using kn by simp
  show ?case
  proof (cases "Suc k < n")
    case True
    have cfg: "dc_m_sdcCfg (ds_cams s1 ! r) = dc_m_sdcCfg (ds_cams s ! r)"
      using 1(2) by (simp add: cam_cfg_def)
    have fit: "frames_fit raw stk (ds_cams s1 ! r)"
      using Suc.prems(3) cfg snap_schedule_cfg [OF cfg] by (simp add: frames_fit_def)
    have fr: "schedule_frame raw stk (ds_cams s1 ! r) = schedule_frame raw stk (ds_cams s ! r)"
      using cfg snap_schedule_cfg [OF cfg] by (simp add: schedule_frame_def fun_eq_iff)
    have "m = n - Suc k" using Suc.hyps(2) by simp
    moreover have "touring r n (Suc k) s1" using True 1(5) by simp
    moreover have "turns_ok sdk (cam_cfg r s1)" using Suc.prems(2) 1(2) by simp
    ultimately obtain s' where "rounds sdk raw stk (n - Suc k) s1 = Some s'"
      "cd_missionStatus (ds_dev s') = MISSION_COMPLETED" "dc_isUsing (ds_cams s' ! r) = FREE"
      "dc_curPTZposion (ds_cams s' ! r) = 0"
      "[e \<leftarrow> ds_out s'. \<exists>p f. e = AsyncWrite p f] =
      [e \<leftarrow> ds_out s1. \<exists>p f. e = AsyncWrite p f] @
      map (\<lambda>i. AsyncWrite q (schedule_frame raw stk (ds_cams s1 ! r) i)) [Suc k..<n]"
      using Suc.hyps(1) [of "Suc k" s1] fit 1(3) by blast
    with 1 True show ?thesis unfolding d upt by (auto simp: fr)
  next
    case False
    then have "n = Suc k" using kn by simp
    with 1 False show ?thesis by auto
  qed
qed

text \<open>
  When the vendor library accepts every preset and the frames fit, a device that starts a
  tour at preset 0 completes it: after as many rounds as the camera has presets the mission is
  completed, the camera is free and back at preset 0, and the device has been sent exactly one
  schedule per preset, in order, each with that preset's detection areas.
\<close>

theorem tour_completes:
  assumes "touring r n 0 s" and "turns_ok sdk (cam_cfg r s)" and "frames_fit raw stk (ds_cams s ! r)"
    and "cd_socket (ds_dev s) = Some q" and "ds_out s = []"
  shows "\<exists>s'. rounds sdk raw stk n s = Some s' \<and>
    cd_missionStatus (ds_dev s') = MISSION_COMPLETED \<and> dc_isUsing (ds_cams s' ! r) = FREE \<and>
    dc_curPTZposion (ds_cams s' ! r) = 0 \<and>
    [e \<leftarrow> ds_out s'. \<exists>p f. e = AsyncWrite p f] =
      map (\<lambda>i. AsyncWrite q (schedule_frame raw stk (ds_cams s ! r) i)) [0..<n]"
  using rounds_touring [OF assms(1-4)] assms(5) by simp

section \<open>A camera that refuses to turn\<close>

text \<open>The vendor library refuses every preset.\<close>

definition turns_refused :: "sdk \<Rightarrow> bool" where
  "turns_refused sdk \<longleftrightarrow> (\<forall>log u num. sdk log (NET_DVR_PTZPreset_Other u 1 GOTO_PRESET num) = 0)"

lemma TurnPTZPreset_refused: "turns_refused sdk \<Longrightarrow> \<exists>l. TurnPTZPreset sdk c num log = (- 1, l)"
  by (simp add: TurnPTZPreset_def turns_refused_def Let_def)

text \<open>What the device has been sent\<close>

definition frames_of :: "dev_state \<Rightarrow> dev_event list" where
  "frames_of s = [e \<leftarrow> ds_out s. \<exists>q f. e = AsyncWrite q f]"

lemma frames_of_emit: "frames_of (s\<lparr>ds_out := ds_out s @ [AsyncWrite q f]\<rparr>) = frames_of s @ [AsyncWrite q f]"
  by (simp add: frames_of_def)

lemma frames_cong:
  assumes "cam_cfg r s' = cam_cfg r s"
  shows "frames_fit raw stk (ds_cams s' ! r) = frames_fit raw stk (ds_cams s ! r)"
    and "schedule_frame raw stk (ds_cams s' ! r) = schedule_frame raw stk (ds_cams s ! r)"
proof -
  from assms have cfg: "dc_m_sdcCfg (ds_cams s' ! r) = dc_m_sdcCfg (ds_cams s ! r)" by (simp add: cam_cfg_def)
  with snap_schedule_cfg [OF cfg] show "frames_fit raw stk (ds_cams s' ! r) = frames_fit raw stk (ds_cams s ! r)"
    "schedule_frame raw stk (ds_cams s' ! r) = schedule_frame raw stk (ds_cams s ! r)"
    by (simp_all add: frames_fit_def schedule_frame_def fun_eq_iff)
qed

lemma loop_turn_refused:
  assumes "touring r n k s" and "turns_refused sdk" and "ds_failed s = word_of_nat j" and "j < 3"
  shows "\<exists>s'. loop_turn sdk s = Some s' \<and> touring r n k s' \<and> cam_cfg r s' = cam_cfg r s \<and>
    cd_socket (ds_dev s') = cd_socket (ds_dev s) \<and> ds_failed s' = word_of_nat (Suc j) \<and> frames_of s' = frames_of s"
proof -
  obtain t where t: "cd_timer (ds_dev s) = Some t" using assms(1) by (auto simp: touring_def)
  obtain l where l: "TurnPTZPreset sdk (ds_cams s ! r)
      (pr_presetNum (sc_missionPreset (cam_cfg r s) k)) (ds_log s) = (- 1, l)"
    using TurnPTZPreset_refused [OF assms(2)] by blast
  have "j = 0 \<or> j = 1 \<or> j = 2" using assms(4) by auto
  then have "\<not> 3 < sint (word_of_nat (Suc j) :: u32)" by auto
  moreover have "ds_failed s + 1 = word_of_nat (Suc j)" using assms(3) by simp
  ultimately show ?thesis
    using assms(1) preset_at_touring [OF assms(1)] t l
    by (auto simp: loop_turn_def the_cam_def touring_def deref_at rearm_def cam_cfg_def Let_def frames_of_def
        simp del: of_nat_Suc)
qed

lemma loop_send_keeps:
  "loop_send raw stk s = Some s' \<Longrightarrow> s' = s\<lparr>ds_out := ds_out s'\<rparr>"
  by (auto simp: loop_send_def bind_eq_Some_conv)

lemma loop_advance_failed:
  "loop_advance sdk s = Some s' \<Longrightarrow> ds_failed s' = ds_failed s"
  by (auto simp: loop_advance_def bind_eq_Some_conv on_cam_def Let_def split_def split: if_splits)

lemma MissoinLoop_refused:
  assumes "touring r n k s" and "turns_refused sdk" and "ds_failed s = word_of_nat j" and "j < 3"
    and "frames_fit raw stk (ds_cams s ! r)" and "cd_socket (ds_dev s) = Some q" and "Suc k < n"
  shows "\<exists>s'. MissoinLoop sdk raw stk s = Some s' \<and> touring r n (Suc k) s' \<and>
    cam_cfg r s' = cam_cfg r s \<and> cd_socket (ds_dev s') = Some q \<and> ds_failed s' = word_of_nat (Suc j) \<and>
    frames_of s' = frames_of s @ [AsyncWrite q (schedule_frame raw stk (ds_cams s ! r) k)]"
proof -
  have run: "cd_run (ds_dev s) = 1" and idle: "idle s = Some False"
    using assms(1) by (auto simp: touring_def idle_def the_cam_def deref_at)
  obtain s1 where 1: "loop_init sdk s = Some s1" "touring r n k s1" "cam_cfg r s1 = cam_cfg r s"
    "ds_dev s1 = ds_dev s" "ds_out s1 = ds_out s" using loop_init_touring [OF assms(1)] by blast
  have f1: "ds_failed s1 = word_of_nat j"
    using 1(1) assms(1,3)
    by (auto simp: touring_def loop_init_def the_cam_def on_cam_def deref_at upd_cam_at Init_cases Let_def)
  obtain s2 where 2: "loop_turn sdk s1 = Some s2" "touring r n k s2" "cam_cfg r s2 = cam_cfg r s"
    "cd_socket (ds_dev s2) = Some q" "ds_failed s2 = word_of_nat (Suc j)"
    "frames_of s2 = frames_of s1"
    using loop_turn_refused [OF 1(2) assms(2) f1 assms(4)] assms(6) 1(3,4) by metis
  have fit: "frames_fit raw stk (ds_cams s2 ! r)" using assms(5) by (simp add: frames_cong(1) [OF 2(3)])
  let ?s3 = "s2\<lparr>ds_out := ds_out s2 @ [AsyncWrite q (schedule_frame raw stk (ds_cams s ! r) k)]\<rparr>"
  have 3: "loop_send raw stk s2 = Some ?s3" using loop_send_touring [OF 2(2) fit 2(4)] by (simp add: frames_cong(2) [OF 2(3)])
  have "touring r n k ?s3" using 2(2) by (simp add: touring_def)
  from loop_advance_touring [OF this, of sdk] assms(7) obtain s4 where
    4: "loop_advance sdk ?s3 = Some s4" "cam_cfg r s4 = cam_cfg r ?s3"
      "cd_socket (ds_dev s4) = cd_socket (ds_dev ?s3)" "touring r n (Suc k) s4" "ds_out s4 = ds_out ?s3" by auto
  moreover have "MissoinLoop sdk raw stk s = Some s4"
    using run idle 1(1) 2(1) 3 4(1) by (simp add: MissoinLoop_def)
  moreover have "cam_cfg r s4 = cam_cfg r s" using 4(2) 2(3) by (simp add: cam_cfg_def)
  moreover have "frames_of s4 = frames_of s @ [AsyncWrite q (schedule_frame raw stk (ds_cams s ! r) k)]"
    using 4(5) 2(6) 1(5) by (simp add: frames_of_def)
  ultimately show ?thesis using 2(4,5) loop_advance_failed [OF 4(1)] by auto
qed

text \<open>The fourth refusal: the mission fails, and the round goes on to send and advance.\<close>

lemma loop_turn_fourth:
  assumes "touring r n k s" and "turns_refused sdk" and "ds_failed s = 3"
  shows "\<exists>s'. loop_turn sdk s = Some s' \<and>
    touring r n k (set_dev (\<lambda>d. d\<lparr>cd_missionStatus := MISSION_READY\<rparr>) s') \<and>
    cd_missionStatus (ds_dev s') = MISSION_FAILD \<and> dc_isUsing (ds_cams s' ! r) = FREE \<and>
    cam_cfg r s' = cam_cfg r s \<and> cd_socket (ds_dev s') = cd_socket (ds_dev s) \<and> ds_failed s' = 0 \<and>
    frames_of s' = frames_of s"
proof -
  obtain t where t: "cd_timer (ds_dev s) = Some t" using assms(1) by (auto simp: touring_def)
  obtain l where l: "TurnPTZPreset sdk (ds_cams s ! r)
      (pr_presetNum (sc_missionPreset (cam_cfg r s) k)) (ds_log s) = (- 1, l)"
    using TurnPTZPreset_refused [OF assms(2)] by blast
  show ?thesis
    using assms(1) preset_at_touring [OF assms(1)] t l assms(3)
    by (auto simp: loop_turn_def the_cam_def touring_def deref_at rearm_def cam_cfg_def Let_def
        on_cam_def upd_cam_at frames_of_def)
qed


abbreviation ready :: "dev_state \<Rightarrow> dev_state" where
  "ready s \<equiv> set_dev (\<lambda>d. d\<lparr>cd_missionStatus := MISSION_READY\<rparr>) s"

lemma preset_at_ready:
  assumes "touring r n k (ready s)"
  shows "preset_at (ds_cams s ! r) (dc_curPTZposion (ds_cams s ! r)) =
    Some (sc_missionPreset (cam_cfg r s) k)"
  using preset_at_touring [OF assms] by (simp add: cam_cfg_def)

lemma loop_send_ready:
  assumes "touring r n k (ready s)" and "frames_fit raw stk (ds_cams s ! r)"
  shows "\<exists>q. cd_socket (ds_dev s) = Some q \<and> loop_send raw stk s =
    Some (s\<lparr>ds_out := ds_out s @ [AsyncWrite q (schedule_frame raw stk (ds_cams s ! r) k)]\<rparr>)"
proof -
  obtain q where q: "cd_socket (ds_dev s) = Some q" using assms(1) by (auto simp: touring_def)
  have "7 + length (snap_schedule_body (snap_schedule raw (ds_cams s ! r)
      (sc_missionPreset (dc_m_sdcCfg (ds_cams s ! r)) k))) \<le> length stk"
    using assms(1,2) by (auto simp: touring_def frames_fit_def)
  from package_schedule [OF this] obtain len d v where
    "PackageSnapScheduleFrame (Some stk)
      (snap_schedule raw (ds_cams s ! r) (sc_missionPreset (cam_cfg r s) k)) = Some (len, d, v)"
    "take (nat len) d = schedule_frame raw stk (ds_cams s ! r) k" unfolding cam_cfg_def by auto
  moreover have "the_cam s = Some (ds_cams s ! r)"
    using assms(1) by (simp add: touring_def the_cam_def deref_at)
  ultimately show ?thesis using q preset_at_ready [OF assms(1)] by (simp add: loop_send_def)
qed

text \<open>A tour is over when its mission is completed or failed and the camera given back.\<close>

definition tour_over :: "cam_ref \<Rightarrow> dev_state \<Rightarrow> bool" where
  "tour_over r s \<longleftrightarrow> cd_missionStatus (ds_dev s) \<in> {MISSION_COMPLETED, MISSION_FAILD} \<and>
     dc_isUsing (ds_cams s ! r) = FREE"

lemma loop_advance_any:
  assumes "touring r n k (ready s)"
  shows "\<exists>s'. loop_advance sdk s = Some s' \<and> cam_cfg r s' = cam_cfg r s \<and>
    (if Suc k < n then touring r n (Suc k) (ready s') \<and> ds_dev s' = ds_dev s \<and> ds_out s' = ds_out s \<and>
       dc_isUsing (ds_cams s' ! r) = dc_isUsing (ds_cams s ! r)
     else tour_over r s')"
proof -
  let ?c = "ds_cams s ! r"
  let ?s = "s\<lparr>ds_cams := (ds_cams s)[r := ?c\<lparr>dc_curPTZposion := dc_curPTZposion ?c + 1\<rparr>]\<rparr>"
  have r: "r < length (ds_cams s)" "cd_SpdDomeCam (ds_dev s) = Some r"
    and k: "unat (dc_curPTZposion ?c) = k" "k < n" "unat (sc_presetTotal (dc_m_sdcCfg ?c)) = n"
    using assms by (auto simp: touring_def)
  have "n < 256" using k(3) unat_byte_less [of "sc_presetTotal (dc_m_sdcCfg ?c)"] by simp
  then have inc: "unat (dc_curPTZposion ?c + 1) = Suc k"
    using k by (simp add: unat_word_ariths)
  have le: "(ucast (sc_presetTotal (dc_m_sdcCfg ?c)) \<le> dc_curPTZposion ?c + 1) \<longleftrightarrow> n \<le> Suc k"
    using k(3) by (simp add: word_le_nat_alt inc unat_ucast_byte)
  have on: "on_cam (\<lambda>c. c\<lparr>dc_curPTZposion := dc_curPTZposion c + 1\<rparr>) s = Some ?s"
    using r by (simp add: on_cam_def upd_cam_at)
  show ?thesis
  proof (cases "Suc k < n")
    case True
    then show ?thesis
      using on le r assms inc k by (simp add: loop_advance_def the_cam_def deref_at cam_cfg_def touring_def)
  next
    case False
    have "preset_at (?c\<lparr>dc_curPTZposion := dc_curPTZposion ?c + 1\<rparr>) (dc_curPTZposion ?c) =
        preset_at ?c (dc_curPTZposion ?c)" by (simp add: preset_at_def)
    with False show ?thesis
      using on le r preset_at_ready [OF assms]
      by (simp add: loop_advance_def the_cam_def deref_at cam_cfg_def split_def on_cam_def upd_cam_at Let_def
          tour_over_def)
  qed
qed

lemma MissoinLoop_fourth:
  assumes "touring r n k s" and "turns_refused sdk" and "ds_failed s = 3"
    and "frames_fit raw stk (ds_cams s ! r)" and "cd_socket (ds_dev s) = Some q" and "Suc k < n"
  shows "\<exists>s'. MissoinLoop sdk raw stk s = Some s' \<and> cd_missionStatus (ds_dev s') = MISSION_FAILD \<and>
    dc_isUsing (ds_cams s' ! r) = FREE \<and> unat (dc_curPTZposion (ds_cams s' ! r)) = Suc k \<and> ds_failed s' = 0 \<and>
    frames_of s' = frames_of s @ [AsyncWrite q (schedule_frame raw stk (ds_cams s ! r) k)]"
proof -
  have run: "cd_run (ds_dev s) = 1" and idle: "idle s = Some False"
    using assms(1) by (auto simp: touring_def idle_def the_cam_def deref_at)
  obtain t1 where t1: "loop_init sdk s = Some t1" "touring r n k t1" "cam_cfg r t1 = cam_cfg r s"
    "ds_dev t1 = ds_dev s" "ds_out t1 = ds_out s" using loop_init_touring [OF assms(1)] by blast
  have f1: "ds_failed t1 = 3"
    using t1(1) assms(1,3)
    by (auto simp: touring_def loop_init_def the_cam_def on_cam_def deref_at upd_cam_at Init_cases Let_def)
  obtain t2 where t2: "loop_turn sdk t1 = Some t2" "touring r n k (ready t2)"
    "cd_missionStatus (ds_dev t2) = MISSION_FAILD" "dc_isUsing (ds_cams t2 ! r) = FREE"
    "cam_cfg r t2 = cam_cfg r s" "ds_failed t2 = 0" "cd_socket (ds_dev t2) = Some q" "frames_of t2 = frames_of t1"
    using loop_turn_fourth [OF t1(2) assms(2) f1] t1(3,4) assms(5) by auto
  have fit: "frames_fit raw stk (ds_cams t2 ! r)" using assms(4) by (simp add: frames_cong(1) [OF t2(5)])
  let ?t3 = "t2\<lparr>ds_out := ds_out t2 @ [AsyncWrite q (schedule_frame raw stk (ds_cams s ! r) k)]\<rparr>"
  have t3: "loop_send raw stk t2 = Some ?t3"
    using loop_send_ready [OF t2(2) fit] t2(7) by (simp add: frames_cong(2) [OF t2(5)])
  have "touring r n k (ready ?t3)" using t2(2) by (simp add: touring_def)
  from loop_advance_any [OF this, of sdk] assms(6) obtain s4 where
    4: "loop_advance sdk ?t3 = Some s4" "touring r n (Suc k) (ready s4)" "ds_dev s4 = ds_dev t2"
      "dc_isUsing (ds_cams s4 ! r) = FREE" "ds_out s4 = ds_out ?t3" using t2(4) by auto
  have "MissoinLoop sdk raw stk s = Some s4"
    using run idle t1(1) t2(1) t3 4(1) by (simp add: MissoinLoop_def)
  moreover have "frames_of s4 = frames_of s @ [AsyncWrite q (schedule_frame raw stk (ds_cams s ! r) k)]"
    using 4(5) t2(8) t1(5) by (simp add: frames_of_def)
  ultimately show ?thesis using 4(2-4) t2(3,6) loop_advance_failed [OF 4(1)] by (simp add: touring_def)
qed

text \<open>
  C40: a camera that refuses every preset. A device starts a tour at preset 0 of a camera with more than four presets,
  no refusal is counted from before and the frames fit. The mission fails in the fourth round and the camera is given back
  free, but in the middle of its tour, at preset 4, where whoever gets it next goes on. The device has been sent the four
  schedules of the presets 0 to 3 all the same, each once and in order.
\<close>

theorem refused_camera_left_mid_tour:
  assumes "touring r n 0 s" and "4 < n" and "turns_refused sdk" and "ds_failed s = 0"
    and "frames_fit raw stk (ds_cams s ! r)" and "cd_socket (ds_dev s) = Some q"
  shows "\<exists>s'. rounds sdk raw stk 4 s = Some s' \<and>
    cd_missionStatus (ds_dev s') = MISSION_FAILD \<and> dc_isUsing (ds_cams s' ! r) = FREE \<and>
    unat (dc_curPTZposion (ds_cams s' ! r)) = 4 \<and> ds_failed s' = 0 \<and>
    frames_of s' = frames_of s @ map (\<lambda>i. AsyncWrite q (schedule_frame raw stk (ds_cams s ! r) i)) [0, 1, 2, 3]"
proof -
  have fit: "frames_fit raw stk (ds_cams t ! r)" if "cam_cfg r t = cam_cfg r s" for t
    using assms(5) by (simp add: frames_cong(1) [OF that])
  have fr: "schedule_frame raw stk (ds_cams t ! r) = schedule_frame raw stk (ds_cams s ! r)" if "cam_cfg r t = cam_cfg r s" for t
    by (rule frames_cong(2) [OF that])
  let ?f = "\<lambda>k. AsyncWrite q (schedule_frame raw stk (ds_cams s ! r) k)"
  obtain s1 where 1: "MissoinLoop sdk raw stk s = Some s1" "touring r n 1 s1"
    "cam_cfg r s1 = cam_cfg r s" "cd_socket (ds_dev s1) = Some q" "ds_failed s1 = word_of_nat 1"
    "frames_of s1 = frames_of s @ [?f 0]"
    using MissoinLoop_refused [OF assms(1,3) _ _ assms(5,6), of 0] assms(2,4) by auto
  obtain s2 where 2: "MissoinLoop sdk raw stk s1 = Some s2" "touring r n 2 s2"
    "cam_cfg r s2 = cam_cfg r s" "cd_socket (ds_dev s2) = Some q" "ds_failed s2 = word_of_nat 2"
    "frames_of s2 = frames_of s1 @ [?f 1]"
    using MissoinLoop_refused [OF 1(2) assms(3) 1(5) _ fit [OF 1(3)] 1(4)] assms(2) 1(3) fr [OF 1(3)]
    by (auto simp: numeral_2_eq_2)
  obtain s3 where 3: "MissoinLoop sdk raw stk s2 = Some s3" "touring r n 3 s3"
    "cam_cfg r s3 = cam_cfg r s" "cd_socket (ds_dev s3) = Some q" "ds_failed s3 = word_of_nat 3"
    "frames_of s3 = frames_of s2 @ [?f 2]"
    using MissoinLoop_refused [OF 2(2) assms(3) 2(5) _ fit [OF 2(3)] 2(4)] assms(2) 2(3) fr [OF 2(3)]
    by (auto simp: numeral_3_eq_3 numeral_2_eq_2)
  have "ds_failed s3 = 3" using 3(5) by simp
  from MissoinLoop_fourth [OF 3(2) assms(3) this fit [OF 3(3)] 3(4)] assms(2) obtain s4 where
    4: "MissoinLoop sdk raw stk s3 = Some s4" "cd_missionStatus (ds_dev s4) = MISSION_FAILD"
      "dc_isUsing (ds_cams s4 ! r) = FREE" "unat (dc_curPTZposion (ds_cams s4 ! r)) = 4" "ds_failed s4 = 0"
      "frames_of s4 = frames_of s3 @ [?f 3]" using fr [OF 3(3)] by auto
  have "rounds sdk raw stk 4 s = Some s4" using 1(1) 2(1) 3(1) 4(1) by (simp add: numeral_eq_Suc)
  with 1(6) 2(6) 3(6) 4 show ?thesis by simp
qed

section \<open>Every tour ends\<close>

lemma touring_ready:
  "cd_missionStatus (ds_dev s) = MISSION_READY \<Longrightarrow> touring r n k (ready s) = touring r n k s"
  by (simp add: touring_def)

lemma loop_turn_any:
  assumes "touring r n k s"
  shows "\<exists>s'. loop_turn sdk s = Some s' \<and> touring r n k (ready s') \<and> cam_cfg r s' = cam_cfg r s \<and>
    (cd_missionStatus (ds_dev s') = MISSION_READY \<or> tour_over r s')"
proof -
  obtain t where t: "cd_timer (ds_dev s) = Some t" using assms(1) by (auto simp: touring_def)
  obtain v l where l: "TurnPTZPreset sdk (ds_cams s ! r)
      (pr_presetNum (sc_missionPreset (cam_cfg r s) k)) (ds_log s) = (v, l)" by (metis surj_pair)
  show ?thesis
    using assms preset_at_touring [OF assms] t l
    by (cases "v = - 1"; cases "3 < sint (ds_failed s + 1)")
      (auto simp: loop_turn_def the_cam_def touring_def deref_at rearm_def cam_cfg_def Let_def
        on_cam_def upd_cam_at tour_over_def)
qed

lemma MissoinLoop_any:
  assumes "touring r n k s" and "frames_fit raw stk (ds_cams s ! r)"
  shows "\<exists>s'. MissoinLoop sdk raw stk s = Some s' \<and> cam_cfg r s' = cam_cfg r s \<and>
    (Suc k < n \<and> touring r n (Suc k) s' \<or> tour_over r s')"
proof -
  have run: "cd_run (ds_dev s) = 1" and idle: "idle s = Some False"
    using assms(1) by (auto simp: touring_def idle_def the_cam_def deref_at)
  obtain s1 where 1: "loop_init sdk s = Some s1" "touring r n k s1" "cam_cfg r s1 = cam_cfg r s"
    using loop_init_touring [OF assms(1)] by blast
  obtain s2 where 2: "loop_turn sdk s1 = Some s2" "touring r n k (ready s2)" "cam_cfg r s2 = cam_cfg r s"
    "cd_missionStatus (ds_dev s2) = MISSION_READY \<or> tour_over r s2"
    using loop_turn_any [OF 1(2)] 1(3) by metis
  have cfg: "dc_m_sdcCfg (ds_cams s2 ! r) = dc_m_sdcCfg (ds_cams s ! r)" using 2(3) by (simp add: cam_cfg_def)
  have fit: "frames_fit raw stk (ds_cams s2 ! r)"
    using assms(2) cfg snap_schedule_cfg [OF cfg] by (simp add: frames_fit_def)
  obtain e where 3: "loop_send raw stk s2 = Some (s2\<lparr>ds_out := ds_out s2 @ e\<rparr>)"
    using loop_send_ready [OF 2(2) fit] by auto
  let ?s3 = "s2\<lparr>ds_out := ds_out s2 @ e\<rparr>"
  have "touring r n k (ready ?s3)" using 2(2) by (simp add: touring_def)
  from loop_advance_any [OF this, of sdk] obtain s4 where
    4: "loop_advance sdk ?s3 = Some s4" "cam_cfg r s4 = cam_cfg r ?s3"
      "if Suc k < n then touring r n (Suc k) (ready s4) \<and> ds_dev s4 = ds_dev ?s3 \<and> ds_out s4 = ds_out ?s3 \<and>
         dc_isUsing (ds_cams s4 ! r) = dc_isUsing (ds_cams ?s3 ! r) else tour_over r s4" by blast
  have "MissoinLoop sdk raw stk s = Some s4"
    using run idle 1(1) 2(1) 3 4(1) by (simp add: MissoinLoop_def)
  moreover have "cam_cfg r s4 = cam_cfg r s" using 4(2) 2(3) by (simp add: cam_cfg_def)
  moreover have "Suc k < n \<and> touring r n (Suc k) s4 \<or> tour_over r s4"
    using 4(3) 2(4) touring_ready [of s4 r n "Suc k"] by (auto simp: tour_over_def split: if_splits)
  ultimately show ?thesis by blast
qed

text \<open>
  C15: every tour ends, whatever the vendor library answers. From any preset on, with the frames
  fitting, no round leaves defined behaviour, and after at most as many rounds as presets are left
  the mission is completed or has failed and the camera is free.
\<close>

theorem tour_ends:
  assumes "touring r n k s" and "frames_fit raw stk (ds_cams s ! r)"
  shows "\<exists>m \<le> n - k. \<exists>s'. rounds sdk raw stk m s = Some s' \<and>
    cd_missionStatus (ds_dev s') \<in> {MISSION_COMPLETED, MISSION_FAILD} \<and> dc_isUsing (ds_cams s' ! r) = FREE"
  using assms
proof (induction "n - k" arbitrary: k s)
  case 0
  then show ?case by (simp add: touring_def)
next
  case (Suc l)
  from MissoinLoop_any [OF Suc.prems] obtain t where
    t: "MissoinLoop sdk raw stk s = Some t" "cam_cfg r t = cam_cfg r s"
      "Suc k < n \<and> touring r n (Suc k) t \<or> tour_over r t" by blast
  show ?case
  proof (cases "tour_over r t")
    case True
    with t(1) have "rounds sdk raw stk 1 s = Some t" by simp
    with True Suc.hyps(2) show ?thesis by (auto simp: tour_over_def intro!: exI [of _ 1])
  next
    case False
    with t(3) have t3: "touring r n (Suc k) t" "Suc k < n" by auto
    have cfg: "dc_m_sdcCfg (ds_cams t ! r) = dc_m_sdcCfg (ds_cams s ! r)" using t(2) by (simp add: cam_cfg_def)
    have "frames_fit raw stk (ds_cams t ! r)"
      using Suc.prems(2) cfg snap_schedule_cfg [OF cfg] by (simp add: frames_fit_def)
    moreover have "l = n - Suc k" using Suc.hyps(2) by simp
    ultimately obtain m s' where "m \<le> n - Suc k" "rounds sdk raw stk m t = Some s'" "tour_over r s'"
      using Suc.hyps(1) [of "Suc k" t] t3(1) by (auto simp: tour_over_def)
    with t(1) t3(2) show ?thesis
      by (intro exI [of _ "Suc m"]) (auto simp: tour_over_def)
  qed
qed

section \<open>Samples\<close>

definition dev_cam :: "byte \<Rightarrow> dev_state" where
  "dev_cam m = \<lparr>ds_dev = dev0\<lparr>cd_SpdDomeCam := Some 0, cd_timer := Some 3, cd_socket := Some 5\<rparr>,
     ds_cams = [cam0\<lparr>dc_isUsing := BUSY, dc_m_sdcCfg := cfg0\<lparr>sc_presetTotal := m\<rparr>\<rparr>],
     ds_log = [], ds_failed = 0, ds_out = []\<rparr>"

definition vfs0 :: SnapSchedule where
  "vfs0 = \<lparr>ss_mode = 0, ss_reserve = 0, ss_RTSPaddrLen = 0, ss_RTSPaddr = [], ss_BrandNameLen = 0,
     ss_BrandName = [], ss_productTypeLen = 0, ss_productType = [], ss_illparkpara = ip0,
     ss_rect = \<lparr>rc_left = 0, rc_top = 0, rc_right = 0, rc_bottom = 0\<rparr>, ss_plateMinWidth = 0,
     ss_plateMaxWidth = 0, ss_camNumLen = 0, ss_camNum = []\<rparr>"

lemma touring_dev_cam: "0 < m \<Longrightarrow> touring 0 (unat m) 0 (dev_cam m)"
  by (simp add: touring_def dev_cam_def dev0_def cam0_def word_gt_0 unat_gt_0)

lemma fit_dev_cam: "frames_fit vfs0 (replicate 4096 0) (ds_cams (dev_cam m) ! 0)"
proof -
  have "length (illpark_bytes ip0) = 176"
    by (rule length_illpark_bytes) (simp add: ip0_def wf_illpark_def MAX_AREA_def)
  then show ?thesis
    by (simp add: frames_fit_def snap_schedule_body_def snap_schedule_def dev_cam_def cfg0_def
        preset0_def Let_def)
qed

theorem tour_completes_witness:
  "\<exists>s'. rounds sdk_ok vfs0 (replicate 4096 0) 2 (dev_cam 2) = Some s' \<and>
     cd_missionStatus (ds_dev s') = MISSION_COMPLETED \<and> dc_isUsing (ds_cams s' ! 0) = FREE"
proof -
  have t: "touring 0 2 0 (dev_cam 2)" using touring_dev_cam [of 2] by simp
  have "turns_ok sdk_ok (cam_cfg 0 (dev_cam 2))"
    by (simp add: turns_ok_def sdk_ok_def cam_cfg_def dev_cam_def cfg0_def preset0_def)
  from tour_completes [OF t this fit_dev_cam, of 5] show ?thesis
    by (auto simp: dev_cam_def)
qed

theorem refused_camera_left_mid_tour_witness:
  "\<exists>s'. rounds (\<lambda>_ _. 0) vfs0 (replicate 4096 0) 4 (dev_cam 6) = Some s' \<and>
     cd_missionStatus (ds_dev s') = MISSION_FAILD \<and> unat (dc_curPTZposion (ds_cams s' ! 0)) = 4 \<and>
     length (frames_of s') = 4"
proof -
  have t: "touring 0 6 0 (dev_cam 6)" using touring_dev_cam [of 6] by simp
  have "turns_refused (\<lambda>_ _. 0)" by (simp add: turns_refused_def)
  from refused_camera_left_mid_tour [OF t _ this _ fit_dev_cam, of 5] show ?thesis
    by (auto simp: dev_cam_def frames_of_def)
qed

theorem tour_ends_witness:
  "\<exists>m \<le> 6. \<exists>s'. rounds (\<lambda>_ _. 0) vfs0 (replicate 4096 0) m (dev_cam 6) = Some s' \<and>
     cd_missionStatus (ds_dev s') \<in> {MISSION_COMPLETED, MISSION_FAILD} \<and> dc_isUsing (ds_cams s' ! 0) = FREE"
proof -
  have "touring 0 6 0 (dev_cam 6)" using touring_dev_cam [of 6] by simp
  from tour_ends [OF this fit_dev_cam] show ?thesis by simp
qed

section \<open>Idling and stopping\<close>

lemma rounds_idle:
  assumes "cd_run (ds_dev s) \<noteq> 4" and "cd_timer (ds_dev s) = Some t"
    and "cd_missionStatus (ds_dev s) \<in> {MISSION_COMPLETED, MISSION_FAILD} \<or> cd_SpdDomeCam (ds_dev s) = None"
  shows "rounds sdk raw stk n s =
    Some (s\<lparr>ds_dev := (ds_dev s)\<lparr>cd_timer := Some (t + n)\<rparr>,
      ds_out := ds_out s @ map (\<lambda>i. TimerArmed (t + i)) [1..<Suc n]\<rparr>)"
  using assms
proof (induction n arbitrary: s t)
  case 0
  then show ?case by simp
next
  case (Suc n)
  let ?s = "s\<lparr>ds_dev := (ds_dev s)\<lparr>cd_timer := Some (t + 1)\<rparr>, ds_out := ds_out s @ [TimerArmed (t + 1)]\<rparr>"
  have "idle s = Some True" using Suc.prems by (auto simp: idle_def)
  then have "MissoinLoop sdk raw stk s = Some ?s"
    using Suc.prems by (simp add: MissoinLoop_def rearm_def)
  moreover have "rounds sdk raw stk n ?s =
    Some (?s\<lparr>ds_dev := (ds_dev ?s)\<lparr>cd_timer := Some (t + 1 + n)\<rparr>,
      ds_out := ds_out ?s @ map (\<lambda>i. TimerArmed (t + 1 + i)) [1..<Suc n]\<rparr>)"
    by (rule Suc.IH) (use Suc.prems in auto)
  moreover have "[1..<Suc (Suc n)] = 1 # map Suc [1..<Suc n]"
    by (simp add: upt_conv_Cons map_Suc_upt del: upt_Suc)
  ultimately show ?case by (simp add: comp_def del: upt_Suc)
qed

text \<open>
  A stopped device with a camera logs out, frees the camera and, at its next expiry, cancels
  its timer for good; but \<open>stop\<close> of a device without a camera does nothing, and its timer goes on
  every second for ever.
\<close>

theorem stop_needs_camera:
  assumes "cd_timer (ds_dev s) = Some t" and "cd_run (ds_dev s) = 1"
    and "\<And>r. cd_SpdDomeCam (ds_dev s) = Some r \<Longrightarrow> r < length (ds_cams s)"
  shows "case cd_SpdDomeCam (ds_dev s) of
      Some r \<Rightarrow> \<exists>s'. CapDev_stop sdk s = Some s' \<and> dc_isUsing (ds_cams s' ! r) = FREE \<and>
        rounds sdk raw stk 1 s' = Some (s'\<lparr>ds_out := ds_out s' @ [TimerCancelled]\<rparr>)
    | None \<Rightarrow> CapDev_stop sdk s = Some s \<and>
        (\<forall>n. map_option ds_out (rounds sdk raw stk n s) =
          Some (ds_out s @ map (\<lambda>i. TimerArmed (t + i)) [1..<Suc n]))"
proof (cases "cd_SpdDomeCam (ds_dev s)")
  case None
  then show ?thesis
    using assms(2) rounds_idle [OF _ assms(1)] by (simp add: CapDev_stop_def del: upt_Suc)
next
  case (Some r)
  with assms show ?thesis
    by (simp add: CapDev_stop_def the_cam_def deref_at on_cam_def upd_cam_at split_def Let_def
        MissoinLoop_def)
qed

theorem stop_needs_camera_witness:
  "\<exists>s'. CapDev_stop sdk_ok (dev_cam 2) = Some s' \<and>
     rounds sdk_ok vfs0 [] 1 s' = Some (s'\<lparr>ds_out := ds_out s' @ [TimerCancelled]\<rparr>)"
proof -
  have "cd_timer (ds_dev (dev_cam 2)) = Some 3" "cd_run (ds_dev (dev_cam 2)) = 1"
    "cd_SpdDomeCam (ds_dev (dev_cam 2)) = Some 0" "length (ds_cams (dev_cam 2)) = 1"
    by (simp_all add: dev_cam_def dev0_def)
  with stop_needs_camera [of "dev_cam 2" 3 sdk_ok vfs0 "[]"] show ?thesis by auto
qed

end
