(* ===== verification/SessionFacts.thy ===== *)
theory SessionFacts
  imports Session MissionMapFacts CaptureDeviceFacts ProtocolFacts
begin

text \<open>
  What is proved of the capture-device session: its handlers keep the missions and its own
  buffers well-formed, what a login and a heartbeat do to the device's camera, how the segments
  of a snapshot are put together, and what goes wrong when the peer goes away.
\<close>

section \<open>The invariant of a session\<close>

text \<open>
  The buffers have their sizes, the accumulation stays inside \<open>picData\<close>, a camera the device holds
  exists, and the shared missions are well-formed.
\<close>

definition session_inv :: "session \<Rightarrow> env \<Rightarrow> bool" where
  "session_inv s e \<longleftrightarrow>
     length (se_data s) = MAX_PACKET_LEN \<and> length (se_data_write s) = MAX_PACKET_LEN \<and>
     length (se_picData s) = PIC_SIZE \<and> se_curPicDataPos s \<le> PIC_SIZE \<and>
     (\<forall>p. cd_SpdDomeCam (se_capDev s) = Some p \<longrightarrow> p < length (w_cams (e_world e))) \<and>
     world_inv (e_world e)"

text \<open>What the parts of a handler may change: everything that keeps the invariant.\<close>

lemma session_inv_emit [simp]: "session_inv s (emit evs e) = session_inv s e"
  by (simp add: session_inv_def)

lemma put_mission_world_inv:
  assumes "world_inv (e_world e)" and "length (w_cams (e_world e)) \<le> length cams"
    and "wf_mission cams ms" and "sint (ms_missionNum ms) = k"
  shows "world_inv (e_world (put_mission k ms cams e))"
proof -
  let ?ys = "map (\<lambda>(l, m). (l, if l = k then ms else m)) (w_missions (e_world e))"
  have keys: "map fst ?ys = map fst (w_missions (e_world e))" by (simp add: comp_def split_def)
  have each: "\<forall>x \<in> set ?ys. case x of (l, m) \<Rightarrow> l = sint (ms_missionNum m) \<and> wf_mission cams m"
    using assms(1,3,4) wf_mission_mono [OF _ assms(2)] by (fastforce simp: world_inv_def)
  have "wf_mission cams (w_unstart (e_world e))"
    using assms(1,2) wf_mission_mono by (auto simp: world_inv_def)
  with keys each assms(1) show ?thesis
    unfolding put_mission_def world_inv_def by (simp del: map_map set_map)
qed

lemma MissionGet_inv:
  assumes "world_inv w" and "MissionGet k w = Some ms"
  shows "wf_mission (w_cams w) ms \<and> sint (ms_missionNum ms) = k"
  using assms by (auto simp: world_inv_def MissionGet_def dest: map_of_SomeD)

lemma match_device_inv:
  assumes "match_device s e = Some s'" and "session_inv s e"
  shows "session_inv s' e \<and> cd_SpdDomeCam (se_capDev s') = cd_SpdDomeCam (se_capDev s)"
  using assms by (auto simp: match_device_def session_inv_def)

lemma respond_inv:
  assumes "respond t v s e = Some (s', e')" and "session_inv s e"
  shows "session_inv s' e'"
  using assms by (auto simp: respond_def session_inv_def PackageResponeFrame_store bind_eq_Some_conv
      Let_def MAX_PACKET_LEN_def split: if_splits)

lemma put_dev_inv:
  assumes "session_inv s e" and "length (ds_cams d) = length (w_cams (e_world e))"
    and "cd_SpdDomeCam (ds_dev d) = cd_SpdDomeCam (se_capDev s)" and "put_dev d s e = (s', e')"
  shows "session_inv s' e'"
  using assms by (auto simp: put_dev_def session_inv_def intro!: world_inv_cams)

lemma session_inv_put_mission:
  assumes "session_inv s e" and "length cams = length (w_cams (e_world e))"
    and "wf_mission cams ms" and "sint (ms_missionNum ms) = k"
  shows "session_inv s (put_mission k ms cams e)"
  using assms put_mission_world_inv [of e cams ms k]
  by (auto simp: session_inv_def) (auto simp: put_mission_def)

lemma getFreeSDC_pointer:
  assumes "wf_mission cams ms" and "getFreeSDC cams ms = Some (r, p, cams', ms')" and "p = Some q"
  shows "\<exists>i. q = Some i \<and> i < length cams"
proof -
  from assms(1) have wf: "wf_cams (cams, ms)" by (simp add: wf_mission_def)
  from assms(2,3) obtain j where j: "free_slot (cams, ms) = Some j" and q: "q = Some (cam_refs ms ! j)"
    by (auto simp: getFreeSDC_eq [OF wf] Let_def split: option.splits)
  from free_slot_Some [OF wf j] SDC_at_wf(2) [OF wf, of j] q show ?thesis by auto
qed

abbreviation ncams :: "env \<Rightarrow> nat" where
  "ncams e \<equiv> length (w_cams (e_world e))"

text \<open>A handler's outcome is fine when it keeps the invariant and allocates no camera.\<close>

definition keeps :: "session \<Rightarrow> env \<Rightarrow> (session \<times> env) option \<Rightarrow> bool" where
  "keeps s e r \<longleftrightarrow> (session_inv s e \<longrightarrow>
     (case r of None \<Rightarrow> True | Some x \<Rightarrow> session_inv (fst x) (snd x) \<and> ncams (snd x) = ncams e))"

lemma keeps_None [simp]: "keeps s e None"
  by (simp add: keeps_def)

lemma keepsI:
  assumes "\<And>s' e'. session_inv s e \<Longrightarrow> r = Some (s', e') \<Longrightarrow> session_inv s' e' \<and> ncams e' = ncams e"
  shows "keeps s e r"
proof (cases r)
  case None
  then show ?thesis by simp
next
  case (Some x)
  with assms [of "fst x" "snd x"] show ?thesis by (simp add: keeps_def)
qed

lemma keepsD:
  assumes "keeps s e (Some (s', e'))" and "session_inv s e"
  shows "session_inv s' e' \<and> ncams e' = ncams e"
  using assms by (simp add: keeps_def)

lemma keeps_trans:
  assumes "session_inv s e \<Longrightarrow> session_inv t f \<and> ncams f = ncams e" and "keeps t f r"
  shows "keeps s e r"
proof (rule keepsI)
  fix s' e' assume s: "session_inv s e" and r: "r = Some (s', e')"
  from assms(1) [OF s] keepsD [OF assms(2) [unfolded r]]
  show "session_inv s' e' \<and> ncams e' = ncams e" by simp
qed

lemma keeps_bind:
  assumes "keeps s e r" and "\<And>t f. keeps t f (k t f)"
  shows "keeps s e (Option.bind r (\<lambda>(t, f). k t f))"
proof (cases r)
  case None
  then show ?thesis by simp
next
  case (Some x)
  obtain t f where x: "x = (t, f)" by fastforce
  have "keeps s e (k t f)"
    by (rule keeps_trans [OF keepsD [OF assms(1) [unfolded Some x]] assms(2)])
  with Some x show ?thesis by simp
qed

lemma respond_keeps: "keeps s e (respond t v s e)"
proof (rule keepsI)
  fix s' e' assume s: "session_inv s e" and r: "respond t v s e = Some (s', e')"
  have "session_inv s' e'" by (rule respond_inv [OF r s])
  moreover from r have "ncams e' = ncams e"
    by (auto simp: respond_def bind_eq_Some_conv Let_def split: if_splits)
  ultimately show "session_inv s' e' \<and> ncams e' = ncams e" ..
qed

lemma CapDev_start_shape:
  "ds_cams (CapDev_start now d) = ds_cams d \<and>
   cd_SpdDomeCam (ds_dev (CapDev_start now d)) = cd_SpdDomeCam (ds_dev d)"
  by (simp add: CapDev_start_def)

lemma as_dev_simps [simp]:
  "ds_cams (as_dev s e) = w_cams (e_world e)" "ds_dev (as_dev s e) = se_capDev s"
  "ds_out (as_dev s e) = []" "ds_log (as_dev s e) = e_log e" "ds_failed (as_dev s e) = e_failed e"
  by (simp_all add: as_dev_def)

lemma put_dev_simps [simp]:
  "ncams (snd (put_dev d s e)) = length (ds_cams d)"
  "se_capDev (fst (put_dev d s e)) = ds_dev d"
  by (simp_all add: put_dev_def)

lemma put_dev_keeps:
  assumes "length (ds_cams d) = ncams e" and "cd_SpdDomeCam (ds_dev d) = cd_SpdDomeCam (se_capDev s)"
  shows "keeps s e (Some (put_dev d s e))"
  using put_dev_inv [of s e d] assms
  by (cases "put_dev d s e") (auto simp: keeps_def put_dev_def)

lemma put_mission_ncams [simp]: "ncams (put_mission k ms cams e) = length cams"
  by (simp add: put_mission_def)

lemma give_camera_keeps:
  assumes "wf_mission (w_cams (e_world e)) ms" and "sint (ms_missionNum ms) = mission_key s"
  shows "keeps s e (give_camera now p ms s e)"
proof -
  let ?s = "set_capDev (\<lambda>d. d\<lparr>cd_SpdDomeCam := Some p, cd_missionStatus := MISSION_READY\<rparr>) s"
  obtain t f where tf: "put_dev (CapDev_start now (as_dev ?s e)) ?s e = (t, f)" by fastforce
  let ?t = "set_capDev (\<lambda>d. d\<lparr>cd_isOnline := 1\<rparr>) t"
  show ?thesis
  proof (cases "p < ncams e")
    case False
    then show ?thesis by (simp add: give_camera_def deref_def)
  next
    case True
    have inv: "session_inv ?t f \<and> w_cams (e_world f) = w_cams (e_world e)" if "session_inv s e"
    proof -
      from that True have "session_inv ?s e" by (simp add: session_inv_def)
      then have "session_inv t f"
        by (rule put_dev_inv [OF _ _ _ tf]) (simp_all add: CapDev_start_shape)
      moreover have "w_cams (e_world f) = w_cams (e_world e)"
        using tf by (auto simp: put_dev_def CapDev_start_shape)
      ultimately show ?thesis by (simp add: session_inv_def)
    qed
    have key: "mission_key ?t = mission_key s"
      using tf by (auto simp: put_dev_def CapDev_start_def as_dev_def)
    show ?thesis
    proof (cases "updateCapdev (w_cams (e_world f)) ms (se_capDev ?t)")
      case None
      then show ?thesis using tf by (simp add: give_camera_def Let_def)
    next
      case (Some x)
      obtain q ms' where x: "x = (q, ms')" by fastforce
      have step: "session_inv ?t (put_mission (mission_key ?t) ms' (w_cams (e_world f)) f) \<and>
          ncams (put_mission (mission_key ?t) ms' (w_cams (e_world f)) f) = ncams e"
        if "session_inv s e"
      proof -
        from inv [OF that] assms(1) have "wf_mission (w_cams (e_world f)) ms" by simp
        from updateCapdev_inv [OF this Some [unfolded x]] assms(2) key inv [OF that]
        show ?thesis by (auto intro!: session_inv_put_mission)
      qed
      have "give_camera now p ms s e =
          respond LOGIN_RESP 1 ?t (put_mission (mission_key ?t) ms' (w_cams (e_world f)) f)"
        using Some x tf True by (simp add: give_camera_def Let_def deref_def)
      then show ?thesis
        using keeps_trans [OF step respond_keeps] by simp
    qed
  qed
qed

text \<open>Fetching the device's mission, taking a free camera of it and storing it back\<close>

lemma free_camera_step:
  assumes "MissionGet (mission_key s) (e_world e) = Some ms"
    and "getFreeSDC (w_cams (e_world e)) ms = Some (r, p, cams, ms')"
    and "session_inv s e"
  shows "session_inv s (put_mission (mission_key s) ms' cams e) \<and> length cams = ncams e \<and>
    wf_mission cams ms' \<and> sint (ms_missionNum ms') = mission_key s \<and>
    (\<forall>q. p = Some q \<longrightarrow> (\<exists>i. q = Some i \<and> i < ncams e))"
proof -
  have w: "world_inv (e_world e)" using assms(3) by (simp add: session_inv_def)
  from MissionGet_inv [OF w assms(1)]
  have m: "wf_mission (w_cams (e_world e)) ms" "sint (ms_missionNum ms) = mission_key s" by auto
  from getFreeSDC_inv [OF m(1) assms(2)] m(2)
  have m': "wf_mission cams ms'" "length cams = ncams e" "sint (ms_missionNum ms') = mission_key s" by auto
  with session_inv_put_mission [OF assms(3) m'(2,1,3)] getFreeSDC_pointer [OF m(1) assms(2)]
  show ?thesis by simp
qed

lemma take_free_camera_keeps: "keeps s e (take_free_camera now s e)"
proof (rule keepsI)
  fix s' e' assume inv: "session_inv s e" and r: "take_free_camera now s e = Some (s', e')"
  from r obtain ms n p cams ms' where
    g: "MissionGet (mission_key s) (e_world e) = Some ms"
      "getFreeSDC (w_cams (e_world e)) ms = Some (n, p, cams, ms')"
    by (auto simp: take_free_camera_def bind_eq_Some_conv)
  let ?e = "put_mission (mission_key s) ms' cams e"
  note step = free_camera_step [OF g inv]
  have "w_cams (e_world ?e) = cams" by (simp add: put_mission_def)
  then have k: "keeps s ?e (give_camera now i ms' s ?e)" for i
    using step by (intro give_camera_keeps) auto
  show "session_inv s' e' \<and> ncams e' = ncams e"
  proof (cases "\<exists>i. p = Some (Some i)")
    case True
    then obtain i where "p = Some (Some i)" by auto
    with r g have "give_camera now i ms' s ?e = Some (s', e')" by (simp add: take_free_camera_def)
    with keepsD [of s ?e s' e'] k [of i] step show ?thesis by simp
  next
    case False
    with r g have "s' = s \<and> e' = ?e"
      by (auto simp: take_free_camera_def Let_def split: option.splits)
    with step show ?thesis by simp
  qed
qed

lemma session_inv_capDev:
  assumes "session_inv s e" and "cd_SpdDomeCam d = cd_SpdDomeCam (se_capDev s)"
  shows "session_inv (s\<lparr>se_capDev := d\<rparr>) e"
  using assms by (simp add: session_inv_def)

lemma handle_login_keeps: "keeps s e (map_option snd (handle_login h un now n s e))"
proof (rule keepsI)
  fix s' e'
  assume inv: "session_inv s e" and "map_option snd (handle_login h un now n s e) = Some (s', e')"
  then obtain b where r: "handle_login h un now n s e = Some (b, s', e')" by auto
  from r obtain k li num where
    p: "ParseLoginInfo (Some (drop 5 (se_data s))) (int n - 5) (un_loginInfo un) = Some (k, li)"
    and num: "cstr (li_devNum li) = Some num"
    by (auto simp: handle_login_def bind_eq_Some_conv)
  show "session_inv s' e' \<and> ncams e' = ncams e"
  proof (cases "checkTextChineseOrNumberOrLetter num = - 1")
    case True
    with r p num have "respond LOGIN_RESP 0 s e = Some (s', e')" by (simp add: handle_login_def)
    with keepsD [of s e s' e'] respond_keeps [of s e LOGIN_RESP 0] inv show ?thesis by simp
  next
    case False
    with r p num obtain d t where
      d: "CapDev_init h (se_capDev s) (Some (se_socket s)) li = Some d"
      and t: "match_device (s\<lparr>se_capDev := d\<rparr>) e = Some t"
      by (auto simp: handle_login_def bind_eq_Some_conv)
    have "cd_SpdDomeCam d = cd_SpdDomeCam (se_capDev s)"
      using d by (auto simp: CapDev_init_def bind_eq_Some_conv split: if_splits)
    from match_device_inv [OF t session_inv_capDev [OF inv this]] have tinv: "session_inv t e" by simp
    show ?thesis
    proof (cases "cd_missionNum (se_capDev t) = - 1")
      case True
      with r p num d t False have "s' = t \<and> e' = e" by (simp add: handle_login_def)
      with tinv show ?thesis by simp
    next
      case f: False
      with r p num d t False have "take_free_camera now t e = Some (s', e')"
        by (simp add: handle_login_def)
      with keepsD [of t e s' e'] take_free_camera_keeps [of t e now] tinv show ?thesis by simp
    qed
  qed
qed

lemma next_mission_keeps: "keeps s e (map_option snd (next_mission s e))"
proof (rule keepsI)
  fix s' e' assume inv: "session_inv s e" and "map_option snd (next_mission s e) = Some (s', e')"
  then obtain b where r: "next_mission s e = Some (b, s', e')" by auto
  from r obtain t where t: "match_device s e = Some t"
    by (auto simp: next_mission_def bind_eq_Some_conv)
  from match_device_inv [OF t inv] have tinv: "session_inv t e" by simp
  show "session_inv s' e' \<and> ncams e' = ncams e"
  proof (cases "cd_missionNum (se_capDev t) = - 1")
    case True
    with r t have "s' = t \<and> e' = e" by (simp add: next_mission_def)
    with tinv show ?thesis by simp
  next
    case False
    with r t obtain ms n p cams ms' where
      g: "MissionGet (mission_key t) (e_world e) = Some ms"
        "getFreeSDC (w_cams (e_world e)) ms = Some (n, p, cams, ms')"
      by (auto simp: next_mission_def bind_eq_Some_conv)
    note step = free_camera_step [OF g tinv]
    let ?u = "set_capDev (\<lambda>d. d\<lparr>cd_missionStatus := MISSION_READY\<rparr>)
      (case p of None \<Rightarrow> t | Some p \<Rightarrow> set_capDev (\<lambda>d. d\<lparr>cd_SpdDomeCam := p\<rparr>) t)"
    have key: "mission_key ?u = mission_key t" by (simp split: option.split)
    from r t False g obtain m ms'' where
      u: "updateCapdev cams ms' (se_capDev ?u) = Some (m, ms'')"
      and s': "s' = ?u" and e': "e' = put_mission (mission_key t) ms'' cams e"
      by (auto simp: next_mission_def bind_eq_Some_conv Let_def split: option.splits)
    have uinv: "session_inv ?u e"
      using tinv step by (auto simp: session_inv_def split: option.split)
    from updateCapdev_inv [OF _ u] step have "wf_mission cams ms''" "sint (ms_missionNum ms'') = mission_key t"
      by auto
    with session_inv_put_mission [OF uinv, of cams ms'' "mission_key t"] step
    show ?thesis unfolding s' e' by simp
  qed
qed

lemma first_mission_keeps: "keeps s e (first_mission now s e)"
proof (rule keepsI)
  fix s' e' assume inv: "session_inv s e" and r: "first_mission now s e = Some (s', e')"
  from r obtain t where t: "match_device s e = Some t"
    by (auto simp: first_mission_def bind_eq_Some_conv)
  from match_device_inv [OF t inv] have tinv: "session_inv t e" by simp
  show "session_inv s' e' \<and> ncams e' = ncams e"
  proof (cases "cd_missionNum (se_capDev t) = - 1")
    case True
    with r t have "s' = t \<and> e' = e" by (auto simp: first_mission_def bind_eq_Some_conv)
    with tinv show ?thesis by simp
  next
    case False
    with r t have "take_free_camera now t e = Some (s', e')"
      by (auto simp: first_mission_def bind_eq_Some_conv)
    with keepsD [of t e s' e'] take_free_camera_keeps [of t e now] tinv show ?thesis by simp
  qed
qed

lemma handle_heartbeat_keeps: "keeps s e (handle_heartbeat now s e)"
proof (rule keepsI)
  fix s' e' assume inv: "session_inv s e" and r: "handle_heartbeat now s e = Some (s', e')"
  let ?n = "if cd_missionStatus (se_capDev s) = MISSION_COMPLETED \<or>
      cd_missionStatus (se_capDev s) = MISSION_FAILD then next_mission s e else Some (True, s, e)"
  from r obtain go t f where n: "?n = Some (go, t, f)"
    unfolding handle_heartbeat_def by (auto simp: bind_eq_Some_conv)
  have tf: "session_inv t f \<and> ncams f = ncams e"
  proof (cases "?n = next_mission s e")
    case True
    with n have "map_option snd (next_mission s e) = Some (t, f)" by simp
    with next_mission_keeps [of s e] keepsD [of s e t f] inv show ?thesis by simp
  next
    case False
    with n inv show ?thesis by (auto split: if_splits)
  qed
  have rest: "(if go \<and> (cd_SpdDomeCam (se_capDev t) = None \<or> cd_missionNum (se_capDev t) = - 1)
      then first_mission now t f else Some (t, f)) = Some (s', e')"
    using r n unfolding handle_heartbeat_def by simp
  then show "session_inv s' e' \<and> ncams e' = ncams e"
    using keepsD [of t f s' e'] first_mission_keeps [of t f now] tf by (auto split: if_splits)
qed

lemma threeD_Request_shape:
  assumes "threeD_Request sdk d tdr = Some (r, d')"
  shows "ds_cams d' = ds_cams d \<and> ds_dev d' = ds_dev d"
  using assms by (auto simp: threeD_Request_def bind_eq_Some_conv split: if_splits)

lemma reload_Preset_shape:
  assumes "reload_Preset sdk d = Some d'"
  shows "ds_cams d' = ds_cams d \<and> ds_dev d' = ds_dev d"
  using assms by (auto simp: reload_Preset_def bind_eq_Some_conv Let_def split_def split: if_splits)

lemma CapDev_stop_shape:
  assumes "CapDev_stop sdk d = Some d'"
  shows "length (ds_cams d') = length (ds_cams d) \<and> cd_SpdDomeCam (ds_dev d') = cd_SpdDomeCam (ds_dev d)"
  using assms by (auto simp: CapDev_stop_def bind_eq_Some_conv Let_def split_def on_cam_def
      split: if_splits dest!: length_upd_cam)

lemma session_inv_status: "session_inv s e \<Longrightarrow> session_inv (s\<lparr>se_status := x\<rparr>) e"
  by (simp add: session_inv_def)

lemma handle_3d_keeps: "keeps s e (handle_3d sdk un n s e)"
proof (rule keepsI)
  fix s' e' assume inv: "session_inv s e" and r: "handle_3d sdk un n s e = Some (s', e')"
  let ?s = "s\<lparr>se_status := 0\<rparr>"
  from r obtain tdr k d where d: "threeD_Request sdk (as_dev ?s e) tdr = Some (k, d)"
    and p: "respond RIO_RESP 1 (fst (put_dev d ?s e)) (snd (put_dev d ?s e)) = Some (s', e')"
    by (auto simp: handle_3d_def bind_eq_Some_conv split_def Let_def)
  from threeD_Request_shape [OF d] have "keeps ?s e (Some (put_dev d ?s e))"
    by (intro put_dev_keeps) auto
  with keepsD [of ?s e "fst (put_dev d ?s e)" "snd (put_dev d ?s e)"] session_inv_status [OF inv]
  have "session_inv (fst (put_dev d ?s e)) (snd (put_dev d ?s e)) \<and> ncams (snd (put_dev d ?s e)) = ncams e"
    by simp
  then show "session_inv s' e' \<and> ncams e' = ncams e"
    using respond_keeps [of "fst (put_dev d ?s e)" "snd (put_dev d ?s e)" RIO_RESP 1] p
    by (simp add: keeps_def)
qed

lemma handle_illegal_stop_keeps: "keeps s e (handle_illegal_stop sdk s e)"
proof (rule keepsI)
  fix s' e' assume inv: "session_inv s e" and r: "handle_illegal_stop sdk s e = Some (s', e')"
  let ?s = "s\<lparr>se_status := 0\<rparr>"
  from r obtain d where d: "reload_Preset sdk (as_dev ?s e) = Some d" and p: "put_dev d ?s e = (s', e')"
    by (auto simp: handle_illegal_stop_def bind_eq_Some_conv Let_def)
  from reload_Preset_shape [OF d] have "keeps ?s e (Some (put_dev d ?s e))"
    by (intro put_dev_keeps) auto
  with keepsD [of ?s e s' e'] session_inv_status [OF inv] p
  show "session_inv s' e' \<and> ncams e' = ncams e" by simp
qed

lemma handle_snap_keeps:
  assumes "n \<le> MAX_PACKET_LEN"
  shows "keeps s e (handle_snap h un n s e)"
proof (rule keepsI)
  fix s' e' assume inv: "session_inv s e" and r: "handle_snap h un n s e = Some (s', e')"
  from r obtain t where t: "respond SNAP_RESP 0 t e = Some (s', e')"
    and "se_data t = se_data s" "se_data_write t = se_data_write s" "se_capDev t = se_capDev s"
      "length (se_picData t) = length (se_picData s)"
      "se_curPicDataPos t = n \<or> se_curPicDataPos t = se_curPicDataPos s"
    by (auto simp: handle_snap_def bind_eq_Some_conv Let_def length_patch split: if_splits)
  then have "session_inv t e"
    using inv assms by (auto simp: session_inv_def MAX_PACKET_LEN_def PIC_SIZE_def)
  with keepsD [of t e s' e'] respond_keeps [of t e SNAP_RESP 0] t
  show "session_inv s' e' \<and> ncams e' = ncams e" by simp
qed

lemma store_result_keeps: "keeps s e (store_result h un s e)"
proof (rule keepsI)
  fix s' e' assume inv: "session_inv s e" and r: "store_result h un s e = Some (s', e')"
  from r obtain k res ops t where
    t: "match_device (s\<lparr>se_res := res\<rparr>) (emit (map File ops) e) = Some t"
    and s': "s' = t\<lparr>se_picData := replicate PIC_SIZE 0, se_recvCaprure := False, se_rcvdSzie := 0\<rparr>"
    and e': "e' = (emit (map File ops) e)\<lparr>e_world := (e_world e)\<lparr>w_results := w_results (e_world e) @ [res]\<rparr>\<rparr>"
    by (auto simp: store_result_def bind_eq_Some_conv Let_def)
  have "session_inv (s\<lparr>se_res := res\<rparr>) (emit (map File ops) e)" using inv by (simp add: session_inv_def)
  from match_device_inv [OF t this] have "session_inv t e" by simp
  then show "session_inv s' e' \<and> ncams e' = ncams e"
    unfolding s' e' by (simp add: session_inv_def world_inv_def)
qed

lemma handle_segment_keeps:
  assumes "n \<le> MAX_PACKET_LEN"
  shows "keeps s e (handle_segment h un n s e)"
proof (rule keepsI)
  fix s' e' assume inv: "session_inv s e" and r: "handle_segment h un n s e = Some (s', e')"
  from r obtain pic where pic: "patch (se_curPicDataPos s) (take n (se_data s)) (se_picData s) = Some pic"
    by (auto simp: handle_segment_def bind_eq_Some_conv)
  let ?t = "s\<lparr>se_rcvdSzie := se_rcvdSzie s + word_of_nat n, se_picData := pic,
    se_curPicDataPos := se_curPicDataPos s + n\<rparr>"
  have "length (take n (se_data s)) = n" using assms inv by (simp add: session_inv_def)
  then have "se_curPicDataPos s + n \<le> length (se_picData s)"
    using pic by (auto simp: patch_def split: if_splits)
  with length_patch [OF pic] inv have tinv: "session_inv ?t e" by (auto simp: session_inv_def)
  from r pic have "(if unat (ir_frameSize (se_res ?t)) < se_curPicDataPos ?t
      then store_result h un ?t e else Some (?t, e)) = Some (s', e')"
    by (simp add: handle_segment_def Let_def)
  then show "session_inv s' e' \<and> ncams e' = ncams e"
    using keepsD [of ?t e s' e'] store_result_keeps [of ?t e h un] tinv by (simp split: if_splits)
qed

lemma handle_frame_keeps:
  assumes "n \<le> MAX_PACKET_LEN"
  shows "keeps s e (map_option snd (handle_frame h sdk un now n s e))"
proof (cases "ParseFrameHead (Some (se_data s)) (int n) (un_head un)")
  case None
  then show ?thesis by (simp add: handle_frame_def)
next
  case (Some x)
  obtain k head where x: "x = (k, head)" by fastforce
  have same: "keeps s e (Some (s\<lparr>se_status := 0\<rparr>, e))" "keeps s e (Some (s, e))"
    by (simp_all add: keeps_def session_inv_def)
  show ?thesis
    using Some x same handle_login_keeps [of s e h un now n] handle_heartbeat_keeps [of s e now]
      handle_3d_keeps [of s e sdk un n] handle_illegal_stop_keeps [of s e sdk]
      handle_snap_keeps [OF assms, of s e h un] respond_keeps [of s e]
    by (simp add: handle_frame_def option.map_comp comp_def option.map_ident del: fun_upd_apply)
qed

lemma stop_device_keeps: "keeps s e (stop_device sdk s e)"
proof (cases "CapDev_stop sdk (as_dev s e)")
  case None
  then show ?thesis by (simp add: stop_device_def)
next
  case (Some d)
  from CapDev_stop_shape [OF this] have "keeps s e (Some (put_dev d s e))" by (intro put_dev_keeps) auto
  with Some show ?thesis by (simp add: stop_device_def)
qed

lemma delete_this_inv: "session_inv (fst (delete_this (s, e))) (snd (delete_this (s, e))) = session_inv s e"
  by (simp add: delete_this_def session_inv_def)

lemma delete_this_keeps:
  assumes "keeps s e r"
  shows "keeps s e (map_option delete_this r)"
    and "keeps s e (map_option (\<lambda>(s, e). if se_freeThis s then delete_this (s, e) else (s, e)) r)"
proof -
  have *: "keeps s e (Some (delete_this (t, f))) \<and>
      keeps s e (Some (if se_freeThis t then delete_this (t, f) else (t, f)))"
    if "r = Some (t, f)" for t f
    using assms delete_this_inv [of t f] unfolding that keeps_def by (simp add: delete_this_def)
  show "keeps s e (map_option delete_this r)" using * by (cases r) auto
  show "keeps s e (map_option (\<lambda>(s, e). if se_freeThis s then delete_this (s, e) else (s, e)) r)"
    using * by (cases r) auto
qed

lemma handle_read_keeps: "keeps s e (handle_read h sdk un now c s e)"
proof (cases "se_alive s")
  case False
  then show ?thesis by (simp add: handle_read_def)
next
  case alive: True
  show ?thesis
  proof (cases c)
    case (Failed m)
    show ?thesis
    proof (cases "se_freeThis s")
      case True
      with alive Failed delete_this_keeps(1) [OF stop_device_keeps [of s e sdk]]
      show ?thesis by (simp add: handle_read_def)
    next
      case False
      with alive Failed show ?thesis by (simp add: handle_read_def keeps_def)
    qed
  next
    case (Transferred bs)
    show ?thesis
    proof (rule keepsI)
      fix s' e'
      assume inv: "session_inv s e" and r: "handle_read h sdk un now c s e = Some (s', e')"
      let ?s = "\<lambda>data. s\<lparr>se_data := data, se_recv_times := se_recv_times s + 1\<rparr>"
      let ?h = "\<lambda>data. if se_recvCaprure s
        then map_option (Pair True) (handle_segment h un (length bs) (?s data) e)
        else handle_frame h sdk un now (length bs) (?s data) e"
      from r alive Transferred obtain data go t f where d: "patch 0 bs (se_data s) = Some data"
        and h: "?h data = Some (go, t, f)" and s': "s' = t" and e': "e' = (if go then emit [ReadMore] f else f)"
        by (auto simp: handle_read_def bind_eq_Some_conv Let_def)
      from d inv have n: "length bs \<le> MAX_PACKET_LEN" and inv': "session_inv (?s data) e"
        using length_patch [OF d] by (auto simp: session_inv_def patch_def split: if_splits)
      have "keeps (?s data) e (map_option snd (?h data))"
        using handle_segment_keeps [OF n, of "?s data" e h un] handle_frame_keeps [OF n, of "?s data" e h sdk un now]
        by (simp add: option.map_comp comp_def option.map_ident)
      with keepsD [of "?s data" e t f] inv' h have "session_inv t f \<and> ncams f = ncams e" by simp
      then show "session_inv s' e' \<and> ncams e' = ncams e" unfolding s' e' by simp
    qed
  qed
qed

lemma handle_write_keeps: "keeps s e (handle_write sdk err s e)"
proof (cases "se_alive s")
  case False
  then show ?thesis by (simp add: handle_write_def)
next
  case True
  show ?thesis
  proof (cases err)
    case None
    with True show ?thesis by (simp add: handle_write_def session_start_def keeps_def)
  next
    case (Some m)
    with True delete_this_keeps(2) [OF stop_device_keeps [of s e sdk]]
    show ?thesis by (simp add: handle_write_def)
  qed
qed

section \<open>A frame arrives\<close>

text \<open>The fifth byte of the frame is its type; the frame overwrites the front of the buffer.\<close>

lemma frame_head:
  assumes "4 < length bs"
  shows "\<exists>w. ParseFrameHead (Some (bs @ q)) (int n) head = Some (0, head\<lparr>ph_frameSize := w, ph_type := bs ! 4\<rparr>)"
proof -
  have "drop 4 bs = bs ! 4 # drop 5 bs" using assms Cons_nth_drop_Suc [of 4 bs] by simp
  then have "rd_bytes 4 (bs @ q) = Some (take 4 bs, bs ! 4 # drop 5 bs @ q)" using assms by (simp add: rd_bytes_def)
  then show ?thesis by (intro exI) (simp add: ParseFrameHead_def rd32_def rd8_def)
qed

abbreviation arrived :: "byte list \<Rightarrow> session \<Rightarrow> session" where
  "arrived bs s \<equiv> s\<lparr>se_data := bs @ drop (length bs) (se_data s), se_recv_times := se_recv_times s + 1\<rparr>"

lemma read_frame:
  assumes "session_inv s e" and "se_alive s" and "\<not> se_recvCaprure s" and "length bs \<le> MAX_PACKET_LEN"
  shows "handle_read h sdk un now (Transferred bs) s e = do {
    (go, s, e) \<leftarrow> handle_frame h sdk un now (length bs) (arrived bs s) e;
    Some (s, if go then emit [ReadMore] e else e) }"
proof -
  have "patch 0 bs (se_data s) = Some (bs @ drop (length bs) (se_data s))"
    using assms(1,4) by (simp add: patch_def session_inv_def)
  with assms(2,3) show ?thesis by (simp add: handle_read_def Let_def)
qed

section \<open>Login\<close>

lemma le_enc_6: "le_enc 4 (6 :: u32) = [6, 0, 0, 0]"
  by code_simp

text \<open>A reply is the six bytes of the response frame and one asynchronous write.\<close>

lemma respond_eq:
  assumes "session_inv s e"
  shows "respond t v s e = Some (s\<lparr>se_data_write := [6, 0, 0, 0, respone_code t, v] @ drop 6 (se_data_write s)\<rparr>,
    emit [Reply [6, 0, 0, 0, respone_code t, v]] e)"
  using assms by (simp add: respond_def PackageResponeFrame_store session_inv_def MAX_PACKET_LEN_def le_enc_6)

lemma bad_chars_pos: "0 < bad_chars s \<longleftrightarrow> (\<exists>c \<in> set s. ord8 c \<le> 127 \<and> ispunct (ord8 c))"
  by (induction s) auto

text \<open>A session, its device and a mission with one camera and that device.\<close>

definition mission1 :: CMission where
  "mission1 = (mission0 1)\<lparr>ms_totalCapDev := 1\<rparr>"

definition env1 :: env where
  "env1 = \<lparr>e_world = \<lparr>w_cams = [cam0], w_missions = [(3, mission1)], w_unstart = mission0 0,
     w_results = []\<rparr>, e_log = [], e_failed = 0, e_out = []\<rparr>"

definition raw_session :: session where
  "raw_session = \<lparr>se_socket = 5, se_data = [], se_picData = [], se_curPicDataPos = 0,
     se_data_write = replicate MAX_PACKET_LEN 0, se_recv_times = 0, se_status = 0,
     se_freeThis = True, se_capDev = dev0, se_res = res0, se_rcvdSzie = 0,
     se_recvCaprure = False, se_alive = True\<rparr>"

definition session1 :: session where
  "session1 = (CCaptureDevSession raw_session)\<lparr>se_capDev := dev0\<rparr>"

lemma session1_simps [simp]:
  "se_data session1 = replicate MAX_PACKET_LEN 0" "se_picData session1 = replicate PIC_SIZE 0"
  "se_curPicDataPos session1 = 0" "se_capDev session1 = dev0" "se_alive session1"
  "\<not> se_recvCaprure session1" "se_freeThis session1"
  "se_data_write session1 = replicate MAX_PACKET_LEN 0"
  by (simp_all add: session1_def CCaptureDevSession_def raw_session_def)

lemma wf_mission1: "wf_mission [cam0] mission1"
  using wf_mission0 [of 1 "[cam0]"]
  by (simp add: wf_mission_def wf_cams_def wf_devs_def mission1_def mission0_def MAX_SDC_def MAX_CAPDEV_def)

lemma world_inv_env1: "world_inv (e_world env1)"
proof -
  have "wf_mission [cam0] (mission0 0)"
    using wf_mission0 [of 0 "[cam0]"] by (simp add: wf_mission_def wf_devs_def mission0_def)
  with wf_mission1 show ?thesis
    by (simp add: world_inv_def env1_def) (simp add: mission1_def mission0_def)
qed

lemma session1_inv: "session_inv session1 env1"
  using world_inv_env1 by (simp add: session_inv_def dev0_def)

text \<open>
  A login whose device number contains a punctuation character is answered with result 0 and
  changes nothing else: the device, the missions and the cameras stay as they are, and the end of
  the handler, which would read again, is not reached.
\<close>

theorem login_bad_number_refused:
  assumes "session_inv s e"
    and "ParseLoginInfo (Some (drop 5 (se_data s))) (int n - 5) (un_loginInfo un) = Some (k, li)"
    and "cstr (li_devNum li) = Some num" and "c \<in> set num" and "ord8 c \<le> 127" and "ispunct (ord8 c)"
  shows "handle_login h un now n s e =
    Some (False, s\<lparr>se_data_write := [6, 0, 0, 0, 2, 0] @ drop 6 (se_data_write s)\<rparr>,
      emit [Reply [6, 0, 0, 0, 2, 0]] e)"
proof -
  have "0 < bad_chars num" using assms(4-6) by (auto simp: bad_chars_pos)
  then have "checkTextChineseOrNumberOrLetter num = - 1"
    by (cases num) (simp_all add: checkTextChineseOrNumberOrLetter_def)
  with assms(2,3) show ?thesis by (simp add: handle_login_def respond_eq [OF assms(1)])
qed

definition uninit0 :: uninit where
  "uninit0 = \<lparr>un_head = \<lparr>ph_frameSize = 0, ph_type = 0\<rparr>, un_loginInfo = LoginInfo0,
     un_tdr = \<lparr>td_ratioWidth = 0, td_ratioHeight = 0, td_zoomLeft = 0, td_zoomTop = 0,
       td_zoomRight = 0, td_zoombottom = 0\<rparr>, un_tmpStr = replicate 1024 0\<rparr>"

definition login_frame :: "byte list \<Rightarrow> byte list" where
  "login_frame num = le_enc 4 (30 :: u32) @ [1] @
     login_wire 1 [1, 2, 3, 4, 5, 6] [65] num [10, 0, 0, 1] [255, 0, 0, 0] [10, 0, 0, 2] [10, 0, 0, 3] 6061"

definition session_with :: "byte list \<Rightarrow> session" where
  "session_with bs = session1\<lparr>se_data := bs @ replicate (MAX_PACKET_LEN - length bs) 0\<rparr>"

lemma session_with_inv: "length bs \<le> MAX_PACKET_LEN \<Longrightarrow> session_inv (session_with bs) env1"
  using session1_inv by (simp add: session_inv_def session_with_def)

lemma parse_login_frame:
  assumes "length num < 200" and "0 \<le> n"
  shows "\<exists>k. ParseLoginInfo (Some (drop 5 (se_data (session_with (login_frame num))))) n LoginInfo0 =
    Some (k, \<lparr>li_devType = 1, li_MAC = [1, 2, 3, 4, 5, 6], li_nameLen = 1,
      li_name = 65 # replicate 511 0, li_devNumLen = word_of_nat (length num),
      li_devNum = num @ replicate (512 - length num) 0, li_IP = [10, 0, 0, 1],
      li_MASK = [255, 0, 0, 0], li_gateway = [10, 0, 0, 2], li_serverIP = [10, 0, 0, 3],
      li_serverPort = 6061\<rparr>)"
proof -
  have "drop 5 (se_data (session_with (login_frame num))) =
      login_wire 1 [1, 2, 3, 4, 5, 6] [65] num [10, 0, 0, 1] [255, 0, 0, 0] [10, 0, 0, 2] [10, 0, 0, 3] 6061 @
      replicate (MAX_PACKET_LEN - length (login_frame num)) 0"
    by (simp add: session_with_def login_frame_def numeral_eq_Suc)
  moreover have "ParseLoginInfo (Some (login_wire 1 [1, 2, 3, 4, 5, 6] [65] num [10, 0, 0, 1]
      [255, 0, 0, 0] [10, 0, 0, 2] [10, 0, 0, 3] 6061 @ rest)) n LoginInfo0 =
    Some (26 + int (length num), \<lparr>li_devType = 1, li_MAC = [1, 2, 3, 4, 5, 6], li_nameLen = 1,
      li_name = 65 # replicate 511 0, li_devNumLen = word_of_nat (length num),
      li_devNum = num @ replicate (512 - length num) 0, li_IP = [10, 0, 0, 1],
      li_MASK = [255, 0, 0, 0], li_gateway = [10, 0, 0, 2], li_serverIP = [10, 0, 0, 3],
      li_serverPort = 6061\<rparr>)" for rest
    using assms by (subst ParseLoginInfo_wire) (simp_all add: LoginInfo0_def)
  ultimately show ?thesis by auto
qed

theorem login_bad_number_refused_witness:
  "\<exists>s'. handle_login host0
     uninit0 0 40 (session_with (login_frame [52, 45, 50])) env1 =
     Some (False, s', env1\<lparr>e_out := [Reply [6, 0, 0, 0, 2, 0]]\<rparr>)"
proof -
  obtain k li where p: "ParseLoginInfo (Some (drop 5 (se_data (session_with (login_frame [52, 45, 50])))))
      (int 40 - 5) (un_loginInfo uninit0) = Some (k, li)"
    and num: "li_devNum li = [52, 45, 50] @ replicate 509 0"
    using parse_login_frame [of "[52, 45, 50]" "int 40 - 5"] by (auto simp: uninit0_def)
  have c: "cstr (li_devNum li) = Some ''4-2''"
    unfolding num by (simp add: numeral_eq_Suc chr8_def) (code_simp)
  have "length (login_frame [52, 45, 50]) \<le> MAX_PACKET_LEN"
    by (simp add: login_frame_def login_wire_def MAX_PACKET_LEN_def)
  from login_bad_number_refused [OF session_with_inv [OF this] p c, of "CHR ''-''"]
  show ?thesis by (simp add: ispunct_def ord8_def env1_def)
qed

text \<open>A device that matches a mission finds it, and the mission lists the device.\<close>

lemma MissionMatch_loop_Some:
  assumes "MissionMatch_loop xs d = Some k" and "k \<noteq> - 1"
  shows "\<exists>(l, ms) \<in> set xs. k = sint (ms_missionNum ms) \<and> (\<exists>i. find_CapDev ms (cd_devNum d) = Some (Some i))"
  using assms
proof (induction xs d rule: MissionMatch_loop.induct)
  case (1 d)
  then show ?case by simp
next
  case (2 l ms xs d)
  then obtain r where r: "CMission_match ms d = Some r" by (auto simp: bind_eq_Some_conv)
  show ?case
  proof (cases "r = 0")
    case True
    with r have "\<exists>i. find_CapDev ms (cd_devNum d) = Some (Some i)"
      by (auto simp: CMission_match_def split: option.splits)
    with 2 r True show ?thesis by simp
  next
    case False
    with 2 r show ?thesis by auto
  qed
qed

lemma match_get:
  assumes "world_inv w" and "MissionMatch d w = Some k" and "k \<noteq> - 1"
  shows "\<exists>ms i. MissionGet k w = Some ms \<and> find_CapDev ms (cd_devNum d) = Some (Some i) \<and>
    k = sint (ms_missionNum ms)"
proof -
  from MissionMatch_loop_Some [OF assms(2) [unfolded MissionMatch_def] assms(3)] obtain l ms i where
    m: "(l, ms) \<in> set (w_missions w)" "k = sint (ms_missionNum ms)" "find_CapDev ms (cd_devNum d) = Some (Some i)"
    by auto
  from assms(1) m(1,2) have "l = k" by (auto simp: world_inv_def)
  moreover from assms(1) have "distinct (map fst (w_missions w))"
    by (simp add: world_inv_def strict_sorted_iff)
  ultimately have "map_of (w_missions w) k = Some ms" using m(1) by simp
  with m(2,3) show ?thesis by (auto simp: MissionGet_def)
qed

lemma updateCapdev_total:
  assumes "find_CapDev ms (cd_devNum dev) = Some r"
    and "\<And>p. cd_SpdDomeCam dev = Some p \<Longrightarrow> p < length cams"
  shows "\<exists>q ms'. updateCapdev cams ms dev = Some (q, ms')"
  using assms
  by (cases r; cases "cd_SpdDomeCam dev") (simp_all add: updateCapdev_def Let_def deref_def)

lemma match_device_eq:
  assumes "MissionMatch (se_capDev s) (e_world e) = Some k"
  shows "match_device s e = Some (set_capDev (\<lambda>d. d\<lparr>cd_missionNum := word_of_int k\<rparr>) s)"
  using assms by (simp add: match_device_def)

text \<open>What \<open>give_camera\<close> leaves behind\<close>

definition given :: "nat \<Rightarrow> cam_ref \<Rightarrow> session \<Rightarrow> session \<Rightarrow> bool" where
  "given now p s s' \<longleftrightarrow> se_alive s' = se_alive s \<and>
     se_capDev s' = (se_capDev s)\<lparr>cd_SpdDomeCam := Some p, cd_missionStatus := MISSION_READY,
       cd_timer := Some (now + 3), cd_isOnline := 1\<rparr>"

lemma give_camera_eq:
  assumes "session_inv s e" and "p < ncams e" and "cd_run (se_capDev s) \<noteq> 0"
    and "find_CapDev ms (cd_devNum (se_capDev s)) = Some r"
  shows "\<exists>s' e'. give_camera now p ms s e = Some (s', e') \<and> given now p s s' \<and>
    w_cams (e_world e') = w_cams (e_world e) \<and> w_unstart (e_world e') = w_unstart (e_world e) \<and>
    e_log e' = e_log e \<and>
    e_out e' = e_out e @ [Device (TimerArmed (now + 3)), Reply [6, 0, 0, 0, 2, 1]]"
proof -
  let ?d = "(se_capDev s)\<lparr>cd_SpdDomeCam := Some p, cd_missionStatus := MISSION_READY,
    cd_timer := Some (now + 3), cd_isOnline := 1\<rparr>"
  obtain q ms' where u: "updateCapdev (w_cams (e_world e)) ms ?d = Some (q, ms')"
    using updateCapdev_total [of ms ?d r "w_cams (e_world e)"] assms(2,4) by auto
  let ?e = "emit [Device (TimerArmed (now + 3))] e"
  have inv: "length (se_data_write s) = MAX_PACKET_LEN" using assms(1) by (simp add: session_inv_def)
  have e1: "e\<lparr>e_world := (e_world e)\<lparr>w_cams := w_cams (e_world e)\<rparr>, e_log := e_log e,
      e_failed := e_failed e, e_out := e_out e @ [Device (TimerArmed (now + 3))]\<rparr> = ?e"
    by simp
  have "give_camera now p ms s e =
    respond LOGIN_RESP 1 (s\<lparr>se_capDev := ?d\<rparr>) (put_mission (mission_key s) ms' (w_cams (e_world e)) ?e)"
    using assms(2,3) u by (simp add: give_camera_def Let_def deref_def put_dev_def CapDev_start_def as_dev_def)
  then show ?thesis
    using inv by (simp add: respond_def PackageResponeFrame_store MAX_PACKET_LEN_def le_enc_6 given_def)
      (auto simp: put_mission_def)
qed

lemma take_free_camera_eq:
  assumes "session_inv s e" and "MissionGet (mission_key s) (e_world e) = Some ms"
    and "find_CapDev ms (cd_devNum (se_capDev s)) = Some r" and "cd_run (se_capDev s) \<noteq> 0"
    and "free_slot (w_cams (e_world e), ms) = Some j"
  shows "\<exists>s' e'. take_free_camera now s e = Some (s', e') \<and> given now (cam_refs ms ! j) s s' \<and>
    w_cams (e_world e') = (w_cams (e_world e))[cam_refs ms ! j :=
      (w_cams (e_world e) ! (cam_refs ms ! j))\<lparr>dc_isUsing := BUSY\<rparr>] \<and>
    cam_refs ms ! j < ncams e \<and> dc_isUsing (w_cams (e_world e) ! (cam_refs ms ! j)) = FREE \<and>
    e_out e' = e_out e @ [Device (TimerArmed (now + 3)), Reply [6, 0, 0, 0, 2, 1]]"
proof -
  from assms(1) have w: "world_inv (e_world e)" by (simp add: session_inv_def)
  from MissionGet_inv [OF w assms(2)] have wf: "wf_cams (w_cams (e_world e), ms)"
    by (simp add: wf_mission_def)
  let ?p = "cam_refs ms ! j" and ?c = "w_cams (e_world e)"
  let ?ms = "ms\<lparr>ms_curSpdDomeCam := word_of_nat j\<rparr>" and ?cams = "?c[?p := (?c ! ?p)\<lparr>dc_isUsing := BUSY\<rparr>]"
  have g: "getFreeSDC ?c ms = Some (int j, Some (Some ?p), ?cams, ?ms)"
    using assms(5) by (simp add: getFreeSDC_eq [OF wf] Let_def)
  note step = free_camera_step [OF assms(2) g assms(1)]
  have p: "?p < ncams e" using step by auto
  from free_slot_Some [OF wf assms(5)] have free: "dc_isUsing (?c ! ?p) = FREE"
    by (auto simp: cam_list_def)
  let ?e = "put_mission (mission_key s) ?ms ?cams e"
  have "find_CapDev ?ms (cd_devNum (se_capDev s)) = Some r"
    using assms(3) by (simp add: find_CapDev_def CapDev_at_def cong: if_cong)
  from give_camera_eq [OF _ _ assms(4) this, of ?e ?p now] step p obtain s' e' where
    "give_camera now ?p ?ms s ?e = Some (s', e')" and "given now ?p s s'"
    and "w_cams (e_world e') = ?cams"
    and "e_out e' = e_out e @ [Device (TimerArmed (now + 3)), Reply [6, 0, 0, 0, 2, 1]]"
    by (auto simp: put_mission_def)
  with g assms(2) p free show ?thesis by (simp add: take_free_camera_def)
qed

lemma login_free_camera:
  assumes "session_inv s e"
    and "ParseLoginInfo (Some (drop 5 (se_data s))) (int n - 5) (un_loginInfo un) = Some (k, li)"
    and "cstr (li_devNum li) = Some num" and "bad_chars num = 0"
    and "CapDev_init h (se_capDev s) (Some (se_socket s)) li = Some d" and "cd_run d \<noteq> 0"
    and "MissionMatch d (e_world e) = Some m" and "m \<noteq> - 1"
  shows "\<exists>ms. MissionGet m (e_world e) = Some ms \<and>
    (\<forall>j. free_slot (w_cams (e_world e), ms) = Some j \<longrightarrow>
      (let p = cam_refs ms ! j; c = w_cams (e_world e)
       in dc_isUsing (c ! p) = FREE \<and>
          (\<exists>s' e'. handle_login h un now n s e = Some (True, s', e') \<and>
            se_capDev s' = d\<lparr>cd_missionNum := word_of_int m, cd_SpdDomeCam := Some p,
              cd_missionStatus := MISSION_READY, cd_timer := Some (now + 3), cd_isOnline := 1\<rparr> \<and> se_alive s' = se_alive s \<and>
            w_cams (e_world e') = c[p := (c ! p)\<lparr>dc_isUsing := BUSY\<rparr>] \<and>
            e_out e' = e_out e @ [Device (TimerArmed (now + 3)), Reply [6, 0, 0, 0, 2, 1]])))"
proof -
  have w: "world_inv (e_world e)" using assms(1) by (simp add: session_inv_def)
  from match_get [OF w assms(7,8)] obtain ms i where ms: "MissionGet m (e_world e) = Some ms"
    and f: "find_CapDev ms (cd_devNum d) = Some (Some i)" and m: "m = sint (ms_missionNum ms)" by auto
  let ?s = "s\<lparr>se_capDev := d\<lparr>cd_missionNum := word_of_int m\<rparr>\<rparr>"
  have key: "mission_key ?s = m" using m by simp
  have neq: "word_of_int m \<noteq> (- 1 :: u32)"
  proof
    assume "word_of_int m = (- 1 :: u32)"
    then have "ms_missionNum ms = - 1" by (simp add: m)
    with m assms(8) show False by simp
  qed
  have "cd_SpdDomeCam d = cd_SpdDomeCam (se_capDev s)"
    using assms(5) by (auto simp: CapDev_init_def bind_eq_Some_conv split: if_splits)
  then have inv: "session_inv ?s e" using session_inv_capDev [OF assms(1)] by simp
  have good: "checkTextChineseOrNumberOrLetter num \<noteq> - 1"
    using assms(4) by (simp add: checkTextChineseOrNumberOrLetter_def)
  have login: "handle_login h un now n s e = map_option (Pair True) (take_free_camera now ?s e)"
    using assms(2,3,5,7) good neq by (simp add: handle_login_def match_device_def)
  have "let p = cam_refs ms ! j; c = w_cams (e_world e)
       in dc_isUsing (c ! p) = FREE \<and>
          (\<exists>s' e'. handle_login h un now n s e = Some (True, s', e') \<and>
            se_capDev s' = d\<lparr>cd_missionNum := word_of_int m, cd_SpdDomeCam := Some p,
              cd_missionStatus := MISSION_READY, cd_timer := Some (now + 3), cd_isOnline := 1\<rparr> \<and> se_alive s' = se_alive s \<and>
            w_cams (e_world e') = c[p := (c ! p)\<lparr>dc_isUsing := BUSY\<rparr>] \<and>
            e_out e' = e_out e @ [Device (TimerArmed (now + 3)), Reply [6, 0, 0, 0, 2, 1]])"
    if j: "free_slot (w_cams (e_world e), ms) = Some j" for j
    using take_free_camera_eq [OF inv, unfolded key, OF ms, of "Some i" j now] f assms(6) j login
    by (auto simp: given_def Let_def)
  with ms show ?thesis by blast
qed

text \<open>
  C21: a device that logs in with a good number, is running and is listed in a mission whose number is not -1 gets the next
  free camera of that mission in round-robin order, if there is one: the camera is marked busy, the device holds it and is
  online and ready, its timer fires in three seconds, and the reply is 1. The mission is always
  found after a match.
\<close>

theorem login_gives_free_camera:
  assumes "session_inv s e"
    and "ParseLoginInfo (Some (drop 5 (se_data s))) (int n - 5) (un_loginInfo un) = Some (k, li)"
    and "cstr (li_devNum li) = Some num" and "bad_chars num = 0"
    and "CapDev_init h (se_capDev s) (Some (se_socket s)) li = Some d" and "cd_run d \<noteq> 0"
    and "MissionMatch d (e_world e) = Some m" and "m \<noteq> - 1"
  shows "\<exists>ms. MissionGet m (e_world e) = Some ms \<and>
    (\<forall>j. free_slot (w_cams (e_world e), ms) = Some j \<longrightarrow>
      (let p = cam_refs ms ! j; c = w_cams (e_world e)
       in dc_isUsing (c ! p) = FREE \<and>
          (\<exists>s' e'. handle_login h un now n s e = Some (True, s', e') \<and>
            se_capDev s' = d\<lparr>cd_missionNum := word_of_int m, cd_SpdDomeCam := Some p,
              cd_missionStatus := MISSION_READY, cd_timer := Some (now + 3), cd_isOnline := 1\<rparr> \<and>
            w_cams (e_world e') = c[p := (c ! p)\<lparr>dc_isUsing := BUSY\<rparr>] \<and>
            e_out e' = e_out e @ [Device (TimerArmed (now + 3)), Reply [6, 0, 0, 0, 2, 1]])))"
  using login_free_camera [OF assms, of now] by (fastforce simp: Let_def)

lemma mission1_simps [simp]:
  "ms_totalCapDev mission1 = 1" "ms_capDev mission1 = (\<lambda>_. dev0)" "ms_missionNum mission1 = 3"
  "ms_curSpdDomeCam mission1 = 0" "cam_refs mission1 = [0]" "cd_devNum dev0 = ''42''"
  by (simp_all add: mission1_def mission0_def cam_refs_def dev0_def)

lemma env1_simps [simp]:
  "w_cams (e_world env1) = [cam0]" "w_missions (e_world env1) = [(3, mission1)]"
  "w_results (e_world env1) = []" "e_out env1 = []" "e_log env1 = []"
  by (simp_all add: env1_def)

lemma match_sample: "cd_devNum d = ''42'' \<Longrightarrow> MissionMatch d (e_world env1) = Some 3"
  by (simp add: MissionMatch_def CMission_match_def find_CapDev_def CapDev_at_def MAX_CAPDEV_def)

lemma get_sample: "MissionGet 3 (e_world env1) = Some mission1"
  by (simp add: MissionGet_def)

lemma free_sample: "free_slot ([cam0], mission1) = Some 0"
proof -
  have "cam_list ([cam0], mission1) = [cam0]" by (simp add: cam_list_def)
  then show ?thesis by (simp add: free_slot_def Let_def cam0_def)
qed

theorem login_gives_free_camera_witness:
  "\<exists>s' e'. handle_login host0 uninit0 7 40 (session_with (login_frame [52, 50])) env1 =
     Some (True, s', e') \<and> cd_SpdDomeCam (se_capDev s') = Some 0 \<and>
     w_cams (e_world e') = [cam0\<lparr>dc_isUsing := BUSY\<rparr>] \<and>
     e_out e' = [Device (TimerArmed 10), Reply [6, 0, 0, 0, 2, 1]]"
proof -
  let ?s = "session_with (login_frame [52, 50])"
  obtain k li where p: "ParseLoginInfo (Some (drop 5 (se_data ?s))) (int 40 - 5) (un_loginInfo uninit0) = Some (k, li)"
    and num: "li_devNum li = [52, 50] @ replicate 510 0" and nm: "li_name li = 65 # replicate 511 0"
    and ip: "length (li_IP li) = 4" "length (li_MAC li) = 6"
    using parse_login_frame [of "[52, 50]" "int 40 - 5"] by (auto simp: uninit0_def)
  have c: "cstr (li_devNum li) = Some ''42''" "cstr (li_name li) = Some ''A''"
    unfolding num nm by (simp_all add: numeral_eq_Suc chr8_def) (code_simp)+
  have b: "bad_chars ''42'' = 0" by code_simp
  have dev: "se_capDev ?s = dev0" by (simp add: session_with_def)
  obtain d where d: "CapDev_init host0 (se_capDev ?s) (Some (se_socket ?s)) li = Some d"
    and run: "cd_run d \<noteq> 0" and dn: "cd_devNum d = ''42''"
    using c ip unfolding dev by (simp add: CapDev_init_def dev0_def)
  have inv: "session_inv ?s env1"
    by (rule session_with_inv) (simp add: login_frame_def login_wire_def MAX_PACKET_LEN_def)
  have "free_slot (w_cams (e_world env1), mission1) = Some 0" using free_sample by simp
  with login_gives_free_camera [OF inv p c(1) b d run match_sample [OF dn], where now = 7] get_sample
  show ?thesis by (fastforce simp: Let_def)
qed

section \<open>Heartbeats\<close>

text \<open>
  When a tour is over and no camera of the mission is free, a heartbeat leaves the device with
  the camera of its last tour and makes it ready again, although that camera has been given back
  and may by now belong to another device; no camera is marked busy for it.
\<close>

theorem heartbeat_reuses_old_camera:
  assumes "session_inv s e"
    and "cd_missionStatus (se_capDev s) \<in> {MISSION_COMPLETED, MISSION_FAILD}"
    and "MissionMatch (se_capDev s) (e_world e) = Some m" and "m \<noteq> - 1"
    and "MissionGet m (e_world e) = Some ms" and "free_slot (w_cams (e_world e), ms) = None"
    and "cd_SpdDomeCam (se_capDev s) = Some p"
  shows "\<exists>s' e'. handle_heartbeat now s e = Some (s', e') \<and>
    se_capDev s' = (se_capDev s)\<lparr>cd_missionNum := word_of_int m, cd_missionStatus := MISSION_READY\<rparr> \<and>
    w_cams (e_world e') = w_cams (e_world e) \<and> e_out e' = e_out e"
proof -
  have w: "world_inv (e_world e)" and p: "p < ncams e"
    using assms(1,7) by (auto simp: session_inv_def)
  from match_get [OF w assms(3,4)] assms(5) obtain i where
    f: "find_CapDev ms (cd_devNum (se_capDev s)) = Some (Some i)" and m: "m = sint (ms_missionNum ms)" by auto
  from MissionGet_inv [OF w assms(5)] have wf: "wf_cams (w_cams (e_world e), ms)"
    by (simp add: wf_mission_def)
  let ?d = "(se_capDev s)\<lparr>cd_missionNum := word_of_int m, cd_missionStatus := MISSION_READY\<rparr>"
  have g: "getFreeSDC (w_cams (e_world e)) ms = Some (- 1, None, w_cams (e_world e), ms)"
    using assms(6) by (simp add: getFreeSDC_eq [OF wf])
  obtain q ms' where u: "updateCapdev (w_cams (e_world e)) ms ?d = Some (q, ms')"
    using updateCapdev_total [of ms ?d "Some i" "w_cams (e_world e)"] f p assms(7) by auto
  have neq: "word_of_int m \<noteq> (- 1 :: u32)"
  proof
    assume "word_of_int m = (- 1 :: u32)"
    then have "ms_missionNum ms = - 1" by (simp add: m)
    with m assms(4) show False by simp
  qed
  have key: "sint (word_of_int m :: u32) = m" using m by simp
  have n: "next_mission s e = Some (True, s\<lparr>se_capDev := ?d\<rparr>, put_mission m ms' (w_cams (e_world e)) e)"
    using assms(3,5,7) g u neq key p
    by (simp add: next_mission_def match_device_def Let_def deref_def)
  have "handle_heartbeat now s e = Some (s\<lparr>se_capDev := ?d\<rparr>, put_mission m ms' (w_cams (e_world e)) e)"
    using assms(2,7) n neq by (auto simp: handle_heartbeat_def)
  then show ?thesis by (auto simp: put_mission_def)
qed

definition busy_env :: env where
  "busy_env = env1\<lparr>e_world := (e_world env1)\<lparr>w_cams := [cam0\<lparr>dc_isUsing := BUSY\<rparr>]\<rparr>\<rparr>"

definition done_session :: session where
  "done_session = session1\<lparr>se_capDev := dev0\<lparr>cd_missionStatus := MISSION_COMPLETED,
     cd_SpdDomeCam := Some 0\<rparr>\<rparr>"

theorem heartbeat_reuses_old_camera_witness:
  "\<exists>s' e'. handle_heartbeat 7 done_session busy_env = Some (s', e') \<and>
     cd_SpdDomeCam (se_capDev s') = Some 0 \<and> cd_missionStatus (se_capDev s') = MISSION_READY"
proof -
  have "world_inv ((e_world env1)\<lparr>w_cams := [cam0\<lparr>dc_isUsing := BUSY\<rparr>]\<rparr>)"
    by (rule world_inv_cams [OF world_inv_env1]) simp
  then have inv: "session_inv done_session busy_env"
    using session1_inv by (auto simp: session_inv_def done_session_def busy_env_def)
  have d: "se_capDev done_session = dev0\<lparr>cd_missionStatus := MISSION_COMPLETED, cd_SpdDomeCam := Some 0\<rparr>"
    by (simp add: done_session_def)
  have m: "MissionMatch (se_capDev done_session) (e_world busy_env) = Some 3"
    using match_sample [of "se_capDev done_session"] by (simp add: d MissionMatch_def busy_env_def)
  have g: "MissionGet 3 (e_world busy_env) = Some mission1"
    using get_sample by (simp add: MissionGet_def busy_env_def)
  have "cam_list ([cam0\<lparr>dc_isUsing := BUSY\<rparr>], mission1) = [cam0\<lparr>dc_isUsing := BUSY\<rparr>]"
    by (simp add: cam_list_def)
  then have f: "free_slot (w_cams (e_world busy_env), mission1) = None"
    by (simp add: free_slot_None busy_env_def)
  have "\<exists>s' e'. handle_heartbeat 7 done_session busy_env = Some (s', e') \<and>
    se_capDev s' = (se_capDev done_session)\<lparr>cd_missionNum := word_of_int 3, cd_missionStatus := MISSION_READY\<rparr> \<and>
    w_cams (e_world e') = w_cams (e_world busy_env) \<and> e_out e' = e_out busy_env"
    by (rule heartbeat_reuses_old_camera [OF inv _ m _ g f]) (simp_all add: d)
  then show ?thesis by (auto simp: d)
qed

section \<open>Snapshots in several segments\<close>

text \<open>The reads of one session, one after the other\<close>

fun reads ::
  "host \<Rightarrow> sdk \<Rightarrow> uninit \<Rightarrow> nat \<Rightarrow> byte list list \<Rightarrow> session \<Rightarrow> env \<Rightarrow> (session \<times> env) option" where
  "reads h sdk un now [] s e = Some (s, e)"
| "reads h sdk un now (bs # bss) s e =
     Option.bind (handle_read h sdk un now (Transferred bs) s e) (\<lambda>(s, e). reads h sdk un now bss s e)"

text \<open>\<open>picData\<close> holds \<open>got\<close>, and more is awaited.\<close>

definition receiving :: "byte list \<Rightarrow> session \<Rightarrow> bool" where
  "receiving got s \<longleftrightarrow> se_alive s \<and> se_recvCaprure s \<and> se_curPicDataPos s = length got \<and>
     (\<exists>rest. se_picData s = got @ rest)"

lemma segment_read:
  assumes "session_inv s e" and "receiving got s" and "length bs \<le> MAX_PACKET_LEN"
    and "length got + length bs \<le> PIC_SIZE"
  shows "\<exists>t. handle_read h sdk un now (Transferred bs) s e =
      map_option (\<lambda>(s, e). (s, emit [ReadMore] e))
        (if unat (ir_frameSize (se_res s)) < length got + length bs then store_result h un t e
         else Some (t, e)) \<and>
    session_inv t e \<and> receiving (got @ bs) t \<and> se_res t = se_res s \<and> se_capDev t = se_capDev s \<and>
    se_picData t = got @ bs @ drop (length got + length bs) (se_picData s)"
proof -
  from assms(1) have sz: "length (se_data s) = MAX_PACKET_LEN" "length (se_picData s) = PIC_SIZE"
    by (auto simp: session_inv_def)
  from assms(2) obtain rest where r: "se_picData s = got @ rest" by (auto simp: receiving_def)
  obtain x y where xy: "rest = x @ y" "length x = length bs"
    by (rule split_at [of "length bs" rest]) (use r sz assms(4) in auto)
  let ?data = "bs @ drop (length bs) (se_data s)" and ?pic = "got @ bs @ y"
  have d: "patch 0 bs (se_data s) = Some ?data" using assms(3) sz by (simp add: patch_def)
  have p: "patch (length got) bs (se_picData s) = Some ?pic"
    unfolding r xy(1) by (rule patch_over) (simp_all add: xy(2))
  let ?t = "s\<lparr>se_data := ?data, se_recv_times := se_recv_times s + 1,
    se_rcvdSzie := se_rcvdSzie s + word_of_nat (length bs), se_picData := ?pic,
    se_curPicDataPos := length got + length bs\<rparr>"
  have inv: "session_inv ?t e"
    using assms(1,3,4) sz r xy by (auto simp: session_inv_def)
  have rec: "receiving (got @ bs) ?t" using assms(2) by (simp add: receiving_def)
  have "handle_read h sdk un now (Transferred bs) s e =
      map_option (\<lambda>(s, e). (s, emit [ReadMore] e))
        (if unat (ir_frameSize (se_res s)) < length got + length bs then store_result h un ?t e
         else Some (?t, e))"
    using assms(2) d p
    by (auto simp: handle_read_def handle_segment_def receiving_def Let_def split_def
        map_option_case split: option.split)
  with inv rec show ?thesis by (intro exI [of _ ?t]) (simp add: r xy)
qed

lemma reads_accumulate:
  assumes "session_inv s e" and "receiving got s" and "\<forall>bs \<in> set bss. length bs \<le> MAX_PACKET_LEN"
    and "length got + length (concat bss) \<le> unat (ir_frameSize (se_res s))"
    and "unat (ir_frameSize (se_res s)) \<le> PIC_SIZE"
  shows "\<exists>t. reads h sdk un now bss s e = Some (t, emit (replicate (length bss) ReadMore) e) \<and>
    session_inv t e \<and> receiving (got @ concat bss) t \<and> se_res t = se_res s \<and> se_capDev t = se_capDev s"
  using assms
proof (induction bss arbitrary: s e got)
  case Nil
  then show ?case by auto
next
  case (Cons bs bss)
  have len: "length bs \<le> MAX_PACKET_LEN" "length got + length bs \<le> PIC_SIZE" using Cons.prems by auto
  from segment_read [OF Cons.prems(1,2) len, of h sdk un now] Cons.prems(4) obtain t where
    t: "handle_read h sdk un now (Transferred bs) s e = Some (t, emit [ReadMore] e)"
    "session_inv t e" "receiving (got @ bs) t" "se_res t = se_res s" "se_capDev t = se_capDev s" by auto
  have t2: "session_inv t (emit [ReadMore] e)" using t(2) by simp
  from Cons.IH [OF t2 t(3)] Cons.prems(3-5) t(4,5) obtain u where
    "reads h sdk un now bss t (emit [ReadMore] e) =
      Some (u, emit (replicate (length bss) ReadMore) (emit [ReadMore] e))"
    "session_inv u e" "receiving (got @ bs @ concat bss) u" "se_res u = se_res s" "se_capDev u = se_capDev s"
    by auto
  with t(1) show ?case by auto
qed

text \<open>
  C22: the segments of a snapshot, whose \<open>frameSize\<close> is below the buffer's 10 MiB, are put together in order: as long as
  no more than \<open>frameSize\<close> bytes have come, each read appends its bytes to \<open>picData\<close>, stores no result and reads again. So a
  snapshot that is complete, with exactly \<open>frameSize\<close> bytes received, is still waiting.
\<close>

theorem snapshot_segments_accumulate:
  assumes "session_inv s e" and "receiving got s" and "\<forall>bs \<in> set bss. length bs \<le> MAX_PACKET_LEN"
    and "length got + length (concat bss) \<le> unat (ir_frameSize (se_res s))"
    and "unat (ir_frameSize (se_res s)) < 10485760"
  shows "\<exists>t. reads h sdk un now bss s e = Some (t, emit (replicate (length bss) ReadMore) e) \<and>
    receiving (got @ concat bss) t \<and> se_res t = se_res s \<and> se_capDev t = se_capDev s"
  using reads_accumulate [OF assms(1-4), of h sdk un now] assms(5) by (auto simp: PIC_SIZE_def)

definition receiving_session :: session where
  "receiving_session = session1\<lparr>se_recvCaprure := True, se_curPicDataPos := 0,
     se_res := res0\<lparr>ir_frameSize := 5\<rparr>\<rparr>"

lemma receiving_session_inv: "session_inv receiving_session env1"
  using session1_inv by (simp add: session_inv_def receiving_session_def)

lemma receiving_session_start: "receiving [] receiving_session"
  by (simp add: receiving_session_def receiving_def)

theorem snapshot_segments_accumulate_witness:
  "\<exists>t. reads host0 sdk_ok uninit0 0 [[1, 2], [3, 4, 5]] receiving_session env1 =
     Some (t, env1\<lparr>e_out := [ReadMore, ReadMore]\<rparr>) \<and> receiving [1, 2, 3, 4, 5] t"
proof -
  have a: "\<forall>bs \<in> set [[1, 2], [3, 4, 5]]. length bs \<le> MAX_PACKET_LEN" by (simp add: MAX_PACKET_LEN_def)
  have sz: "unat (ir_frameSize (se_res receiving_session)) = 5" by (simp add: receiving_session_def)
  have b: "length ([] :: byte list) + length (concat [[1, 2], [3, 4, 5 :: byte]])
      \<le> unat (ir_frameSize (se_res receiving_session))" by (simp add: sz)
  have c: "unat (ir_frameSize (se_res receiving_session)) < 10485760" by (simp add: sz)
  have d: "replicate (length [[1, 2], [3, 4, 5 :: byte]]) ReadMore = [ReadMore, ReadMore]" by simp
  have e: "emit [ReadMore, ReadMore] env1 = env1\<lparr>e_out := [ReadMore, ReadMore]\<rparr>" by simp
  from snapshot_segments_accumulate [OF receiving_session_inv receiving_session_start a b c,
      of host0 sdk_ok uninit0 0, unfolded d e]
  show ?thesis by auto
qed

text \<open>
  C23: the read that brings the total above \<open>frameSize\<close> completes the snapshot of a device that is listed in a mission.
  When the bytes in \<open>picData\<close> parse, their pictures are written, the result is appended to the global list, the device
  notes its mission and the session goes back to reading messages. The completing bytes are consumed, even when they are a
  message of their own, such as the next heartbeat.
\<close>

theorem snapshot_stored:
  assumes "session_inv s e" and "receiving got s" and "length bs \<le> MAX_PACKET_LEN"
    and "length got + length bs \<le> PIC_SIZE" and "unat (ir_frameSize (se_res s)) < length got + length bs"
    and "ParseSnapResultPic h (un_tmpStr un)
      (Some (got @ bs @ drop (length got + length bs) (se_picData s))) (int (length got + length bs)) (se_res s) =
        Some (k, res, ops)"
    and "MissionMatch (se_capDev s) (e_world e) = Some m" and "m \<noteq> - 1"
  shows "\<exists>t. handle_read h sdk un now (Transferred bs) s e =
      Some (t, emit (map File ops @ [ReadMore]) (e\<lparr>e_world :=
        (e_world e)\<lparr>w_results := w_results (e_world e) @ [res]\<rparr>\<rparr>)) \<and>
    \<not> se_recvCaprure t \<and> se_res t = res \<and>
    se_capDev t = (se_capDev s)\<lparr>cd_missionNum := word_of_int m\<rparr>"
proof -
  from segment_read [OF assms(1-4), of h sdk un now] assms(5) obtain t where
    t: "handle_read h sdk un now (Transferred bs) s e =
      map_option (\<lambda>(s, e). (s, emit [ReadMore] e)) (store_result h un t e)"
    "session_inv t e" "receiving (got @ bs) t" "se_res t = se_res s" "se_capDev t = se_capDev s"
    and pic: "se_picData t = got @ bs @ drop (length got + length bs) (se_picData s)" by auto
  from t(3) have pos: "se_curPicDataPos t = length got + length bs" by (simp add: receiving_def)
  from assms(6)
  have parse: "ParseSnapResultPic h (un_tmpStr un) (Some (se_picData t)) (int (se_curPicDataPos t)) (se_res t) =
      Some (k, res, ops)" by (simp add: pic pos t(4))
  let ?t = "t\<lparr>se_res := res, se_capDev := (se_capDev t)\<lparr>cd_missionNum := word_of_int m\<rparr>\<rparr>"
  have md: "match_device (t\<lparr>se_res := res\<rparr>) (emit (map File ops) e) = Some ?t"
    using assms(7) t(5) by (simp add: match_device_def)
  have w: "world_inv (e_world e)" using assms(1) by (simp add: session_inv_def)
  from match_get [OF w assms(7,8)] obtain ms where ms: "MissionGet (sint (word_of_int m :: u32)) (e_world e) = Some ms" by auto
  have "store_result h un t e = Some (?t\<lparr>se_picData := replicate PIC_SIZE 0, se_recvCaprure := False,
      se_rcvdSzie := 0\<rparr>, (emit (map File ops) e)\<lparr>e_world :=
        (e_world e)\<lparr>w_results := w_results (e_world e) @ [res]\<rparr>\<rparr>)"
    using parse md ms by (simp add: store_result_def Let_def)
  with t(1,5) show ?thesis by auto
qed

text \<open>A complete snapshot, and the heartbeat that gets it stored\<close>

definition snap0 :: "byte list" where
  "snap0 = snap_wire 34 11 ''88'' 1 2 [65, 66] ''v'' [(5000, [1, 2, 3])]"

lemma length_snap0: "length snap0 = 34"
  by (simp add: snap0_def snap_wire_def snap_head_def blk_def pic_bytes_def)

definition snap_session :: session where
  "snap_session = session1\<lparr>se_recvCaprure := True, se_curPicDataPos := 34,
     se_picData := snap0 @ replicate (PIC_SIZE - 34) 0, se_res := res0\<lparr>ir_frameSize := 34\<rparr>\<rparr>"

theorem snapshot_stored_witness:
  "\<exists>t e'. handle_read host0 sdk_ok uninit0 0 (Transferred [5, 0, 0, 0, 101]) snap_session env1 =
       Some (t, e') \<and>
     map ir_plateNum (w_results (e_world e')) = [''AB''] \<and> \<not> se_recvCaprure t \<and>
     e_out e' = [File (Mkdir ''/home/pic/88''), File (Mkdir ''/home/pic/88/20170101''),
       File (Append ''/home/pic/88/20170101/88-AB-20170101-0_0.jpg'' [1, 2, 3]), ReadMore]"
proof -
  let ?bs = "[5, 0, 0, 0, 101] :: byte list"
  let ?rest = "drop (length snap0 + length ?bs) (se_picData snap_session)"
  have inv: "session_inv snap_session env1"
    using session1_inv by (simp add: session_inv_def snap_session_def length_snap0 PIC_SIZE_def)
  have rec: "receiving snap0 snap_session"
    by (simp add: snap_session_def receiving_def length_snap0)
  have len: "length ?bs \<le> MAX_PACKET_LEN" "length snap0 + length ?bs \<le> PIC_SIZE"
    by (simp_all add: length_snap0 MAX_PACKET_LEN_def PIC_SIZE_def)
  have sz: "unat (ir_frameSize (se_res snap_session)) < length snap0 + length ?bs"
    by (simp add: snap_session_def length_snap0)
  have dec0: "dec 0 = ''0''" by code_simp
  obtain r where parse: "ParseSnapResultPic host0 (un_tmpStr uninit0) (Some (snap0 @ ?bs @ ?rest))
      (int (length snap0 + length ?bs)) (se_res snap_session) =
      Some (int (length snap0 + length ?bs), r, [Mkdir ''/home/pic/88'', Mkdir ''/home/pic/88/20170101'',
        Append ''/home/pic/88/20170101/88-AB-20170101-0_0.jpg'' [1, 2, 3]])"
    and pl: "ir_plateNum r = ''AB''"
    using ParseSnapResultPic_wire [where t = 5000 and d = "[1, 2, 3]" and ps = "[]" and
        rest = "?bs @ ?rest" and fs = 34 and ty = 11 and pv = 1 and pc = 2 and
        sz = "int (length snap0 + length ?bs)" and res = "se_res snap_session" and
        stk = "un_tmpStr uninit0", OF host0_strings _ _ host0_plate _ _ host0_open]
    by (auto simp: pic_path_def pic_dir_def host0_def dec0 snap0_def uninit0_def)
  have m: "MissionMatch (se_capDev snap_session) (e_world env1) = Some 3"
    by (rule match_sample) (simp add: snap_session_def)
  from snapshot_stored [OF inv rec len sz parse m, where sdk = sdk_ok and now = 0]
  show ?thesis using pl by fastforce
qed

section \<open>Two reads at once\<close>

text \<open>The stop of a device, with or without a camera, leaves its session and what was sent as they were.\<close>

lemma stop_device_total:
  assumes "session_inv s e"
  shows "\<exists>s' e'. stop_device sdk s e = Some (s', e') \<and> se_alive s' = se_alive s \<and> e_out e' = e_out e"
proof (cases "cd_SpdDomeCam (se_capDev s)")
  case None
  then show ?thesis by (simp add: stop_device_def CapDev_stop_def put_dev_def as_dev_def)
next
  case (Some r)
  with assms have "r < length (w_cams (e_world e))" by (simp add: session_inv_def)
  with Some show ?thesis
    by (simp add: stop_device_def CapDev_stop_def the_cam_def deref_at on_cam_def upd_cam_at put_dev_def as_dev_def
        split_def Let_def)
qed



end
