(* ===== verification/ConfigUpdateFacts.thy ===== *)
theory ConfigUpdateFacts
  imports ConfigSession CfgFacts SessionFacts
begin

text \<open>
  What is proved of the configuration sessions: what an update sends and how its timer
  behaves.
\<close>

section \<open>Packaging keeps the buffer's length\<close>

lemma wr_bytes_len: "wr_bytes bs s = Some t \<Longrightarrow> length (buf_of t) = length (buf_of s)"
  by (cases s) (auto simp: wr_bytes_def buf_of_def split: if_splits)

lemma skip_len: "skip n s = Some t \<Longrightarrow> length (buf_of t) = length (buf_of s)"
  by (auto simp: skip_def buf_of_def split: if_splits)

lemmas wr_lens = wr_bytes_len skip_len length_patch
  wr_bytes_len [of "[x]" for x, folded wr8_def]
  wr_bytes_len [of "le_enc 2 (x :: u16)" for x, folded wr16_def]
  wr_bytes_len [of "le_enc 4 (x :: u32)" for x, folded wr32_def]
  wr_bytes_len [of "lstr_bytes x" for x, folded wr_lstr_def]
  wr_bytes_len [of "point_bytes x" for x, folded wr_point_def]

lemma buf_of_at_start [simp]: "buf_of (at_start b) = b"
  by (simp add: buf_of_def at_start_def)

lemma buf_of_take_drop [simp]: "buf_of (take n b, drop n b) = b"
  by (simp add: buf_of_def)

lemma for_loop_len:
  assumes "\<And>j s t. f j s = Some t \<Longrightarrow> length (buf_of t) = length (buf_of s)"
    and "for_loop i k f s = Some t"
  shows "length (buf_of t) = length (buf_of s)"
  using for_loop_invariant [OF assms(2), of "\<lambda>_ u. length (buf_of u) = length (buf_of s)"] assms(1)
  by auto

lemma package_area_step_len: "package_area_step a j s = Some t \<Longrightarrow> length (buf_of t) = length (buf_of s)"
  by (auto simp: package_area_step_def dest: wr_lens split: if_splits)

lemma package_area_len:
  "for_loop 0 k (package_area_step a) s = Some t \<Longrightarrow> length (buf_of t) = length (buf_of s)"
  by (rule for_loop_len) (rule package_area_step_len)

lemma package_preset_len: "package_preset p s = Some t \<Longrightarrow> length (buf_of t) = length (buf_of s)"
  by (auto simp: package_preset_def bind_eq_Some_conv Let_def
      dest!: wr_lens package_area_len)

lemma packageSDCrespone_len: "packageSDCrespone (Some b) n r = Some (m, c) \<Longrightarrow> length c = length b"
  by (auto simp: packageSDCrespone_def bind_eq_Some_conv Let_def dest!: wr_lens split: if_splits)

lemma packageGroupInfo_len: "packageGroupInfo (Some b) n r = Some (m, c) \<Longrightarrow> length c = length b"
  by (auto simp: packageGroupInfo_def bind_eq_Some_conv Let_def dest!: wr_lens split: if_splits)

lemma packageSDCinfo_len:
  assumes "packageSDCinfo (Some b) n (Some cfg) = Some (m, c)"
  shows "length c = length b"
proof -
  have loop: "length (buf_of t) = length (buf_of s)"
    if "for_loop 0 k (\<lambda>i s. if i < MAX_PRESET then package_preset (sc_missionPreset cfg i) s else None) s
      = Some t" for k s t
    by (rule for_loop_len [OF _ that]) (auto dest: package_preset_len split: if_splits)
  from assms show ?thesis
    by (auto simp: packageSDCinfo_def bind_eq_Some_conv Let_def dest!: wr_lens loop)
qed

lemma packageCapDevinfo_len:
  "packageCapDevinfo (Some b) n (Some d) = Some (m, d', c) \<Longrightarrow> length c = length b \<and>
   d' = Some (if cd_curCamNum d = [] then d\<lparr>cd_curCamNum := ''-1''\<rparr> else d)"
  by (auto simp: packageCapDevinfo_def bind_eq_Some_conv Let_def dest!: wr_lens)

lemma packageCapResultInfo_len:
  "packageCapResultInfo rfile (Some b) n r False = Some (m, c) \<Longrightarrow> length c = length b"
  by (auto simp: packageCapResultInfo_def bind_eq_Some_conv Let_def dest!: wr_lens)

section \<open>What an update leaves as it was\<close>

text \<open>Devices without a current camera get the number "-1"; nothing else of a mission changes.\<close>

definition shown :: "CCaptureDevice \<Rightarrow> CCaptureDevice" where
  "shown d = (if cd_curCamNum d = [] then d\<lparr>cd_curCamNum := ''-1''\<rparr> else d)"

lemma shown_shown [simp]: "shown (shown d) = shown d"
  by (simp add: shown_def)

definition like_mission :: "CMission \<Rightarrow> CMission \<Rightarrow> bool" where
  "like_mission m m' \<longleftrightarrow> m' = m\<lparr>ms_capDev := ms_capDev m'\<rparr> \<and>
     (\<forall>i. ms_capDev m' i = ms_capDev m i \<or> ms_capDev m' i = shown (ms_capDev m i))"

definition like_world :: "world \<Rightarrow> world \<Rightarrow> bool" where
  "like_world w w' \<longleftrightarrow> w_cams w' = w_cams w \<and> w_results w' = w_results w \<and>
     like_mission (w_unstart w) (w_unstart w') \<and> length (w_missions w') = length (w_missions w) \<and>
     (\<forall>i < length (w_missions w). fst (w_missions w' ! i) = fst (w_missions w ! i) \<and>
       like_mission (mission_at i w) (mission_at i w'))"

lemma like_mission_refl [simp]: "like_mission m m"
  by (simp add: like_mission_def)

lemma like_mission_fields:
  "like_mission m m' \<Longrightarrow> ms_totalCapDev m' = ms_totalCapDev m \<and>
     ms_totalSpdDomeCam m' = ms_totalSpdDomeCam m \<and> ms_SpdDomeCam m' = ms_SpdDomeCam m \<and>
     ms_missionNum m' = ms_missionNum m"
  by (cases m; cases m') (simp add: like_mission_def)

lemma like_mission_trans:
  assumes "like_mission a b" and "like_mission b c"
  shows "like_mission a c"
proof -
  have "ms_capDev c i = ms_capDev a i \<or> ms_capDev c i = shown (ms_capDev a i)" for i
  proof -
    from assms have "ms_capDev b i = ms_capDev a i \<or> ms_capDev b i = shown (ms_capDev a i)"
      "ms_capDev c i = ms_capDev b i \<or> ms_capDev c i = shown (ms_capDev b i)"
      by (auto simp: like_mission_def)
    then show ?thesis by (elim disjE) simp_all
  qed
  moreover have "c = a\<lparr>ms_capDev := ms_capDev c\<rparr>"
  proof -
    from assms have "b = a\<lparr>ms_capDev := ms_capDev b\<rparr>" "c = b\<lparr>ms_capDev := ms_capDev c\<rparr>"
      by (simp_all add: like_mission_def)
    then show ?thesis by (cases a; cases b; cases c) simp
  qed
  ultimately show ?thesis by (simp add: like_mission_def)
qed

lemma like_world_refl [simp]: "like_world w w"
  by (simp add: like_world_def)

lemma like_world_trans: "like_world a b \<Longrightarrow> like_world b c \<Longrightarrow> like_world a c"
  by (auto simp: like_world_def intro: like_mission_trans)

lemma like_mission_wf: "like_mission m m' \<Longrightarrow> wf_mission cams m' = wf_mission cams m"
  by (drule like_mission_fields) (simp add: wf_mission_def wf_cams_def wf_devs_def)

lemma like_world_inv:
  assumes "like_world w w'" and "world_inv w"
  shows "world_inv w'"
proof -
  have keys: "map fst (w_missions w') = map fst (w_missions w)"
    using assms(1) by (intro nth_equalityI) (auto simp: like_world_def)
  have "k = sint (ms_missionNum ms) \<and> wf_mission (w_cams w') ms" if "(k, ms) \<in> set (w_missions w')" for k ms
  proof -
    from that obtain i where i: "i < length (w_missions w')" "w_missions w' ! i = (k, ms)"
      by (auto simp: in_set_conv_nth)
    then have "like_mission (mission_at i w) ms" "fst (w_missions w ! i) = k" "i < length (w_missions w)"
      using assms(1) by (auto simp: like_world_def mission_at_def)
    with mission_at_inv [OF assms(2)] like_mission_fields like_mission_wf assms(1)
    show ?thesis by (fastforce simp: like_world_def)
  qed
  with assms keys show ?thesis
    by (auto simp: world_inv_def like_world_def like_mission_wf)
qed

section \<open>What an update sends\<close>

text \<open>Going from one state to another has begun \<open>k\<close> writes of \<open>SEND_LEN\<close> bytes each.\<close>

definition sent :: "nat \<Rightarrow> cfg_state \<Rightarrow> cfg_state \<Rightarrow> bool" where
  "sent k st st' \<longleftrightarrow>
     (\<exists>bss. e_out (snd st') = e_out (snd st) @ map Reply bss \<and> length bss = k \<and>
        (\<forall>bs \<in> set bss. length bs = SEND_LEN)) \<and>
     like_world (e_world (snd st)) (e_world (snd st')) \<and>
     snd st' = (snd st)\<lparr>e_world := e_world (snd st'), e_out := e_out (snd st')\<rparr> \<and>
     fst st' = (fst st)\<lparr>k_data_write := k_data_write (fst st')\<rparr> \<and>
     length (k_data_write (fst st')) = length (k_data_write (fst st))"

lemma sent_refl [simp]: "sent 0 st st"
  by (simp add: sent_def)

lemma sent_trans:
  assumes "sent k a b" and "sent l b c"
  shows "sent (k + l) a c"
proof -
  from assms obtain xs ys where
    "e_out (snd b) = e_out (snd a) @ map Reply xs" "length xs = k" "\<forall>bs \<in> set xs. length bs = SEND_LEN"
    "e_out (snd c) = e_out (snd b) @ map Reply ys" "length ys = l" "\<forall>bs \<in> set ys. length bs = SEND_LEN"
    by (auto simp: sent_def)
  then have "\<exists>bss. e_out (snd c) = e_out (snd a) @ map Reply bss \<and> length bss = k + l \<and>
      (\<forall>bs \<in> set bss. length bs = SEND_LEN)" by (intro exI [of _ "xs @ ys"]) auto
  moreover have "like_world (e_world (snd a)) (e_world (snd c))"
    using assms by (auto simp: sent_def intro: like_world_trans)
  moreover have "snd c = (snd a)\<lparr>e_world := e_world (snd c), e_out := e_out (snd c)\<rparr>"
    using assms by (cases "snd a"; cases "snd b"; cases "snd c") (simp add: sent_def)
  moreover have "fst c = (fst a)\<lparr>k_data_write := k_data_write (fst c)\<rparr>"
    using assms by (cases "fst a"; cases "fst b"; cases "fst c") (simp add: sent_def)
  moreover have "length (k_data_write (fst c)) = length (k_data_write (fst a))"
    using assms by (simp add: sent_def)
  ultimately show ?thesis by (simp add: sent_def)
qed

abbreviation room :: "cfg_state \<Rightarrow> bool" where
  "room st \<equiv> length (k_data_write (fst st)) = MAX_PACKET_LEN"

lemma sent_room: "sent k st st' \<Longrightarrow> room st' = room st"
  by (simp add: sent_def)

lemma begin_write_sent:
  assumes "length b = MAX_PACKET_LEN" and "room st"
  shows "sent (Suc 0) st (begin_write b st)"
  using assms by (cases st) (auto simp: begin_write_def sent_def SEND_LEN_def MAX_PACKET_LEN_def
      intro!: exI [of _ "[take 1024 b]"])

lemma send_respone_sent: "send_respone st = Some st' \<Longrightarrow> room st \<Longrightarrow> sent (Suc 0) st st'"
  by (auto simp: send_respone_def bind_eq_Some_conv intro: begin_write_sent dest!: packageSDCrespone_len)

lemma send_group_sent: "send_group i st = Some st' \<Longrightarrow> room st \<Longrightarrow> sent (Suc 0) st st'"
  by (auto simp: send_group_def bind_eq_Some_conv intro: begin_write_sent dest!: packageGroupInfo_len)

lemma send_SDC_sent: "send_SDC ms i st = Some st' \<Longrightarrow> room st \<Longrightarrow> sent (Suc 0) st st'"
  by (auto simp: send_SDC_def bind_eq_Some_conv intro: begin_write_sent dest!: packageSDCinfo_len)

lemma send_result_sent: "send_result rfile r st = Some st' \<Longrightarrow> room st \<Longrightarrow> sent (Suc 0) st st'"
  by (auto simp: send_result_def bind_eq_Some_conv intro: begin_write_sent dest!: packageCapResultInfo_len)

lemma send_CapDev_sent:
  "send_CapDev i (ms, st) = Some (ms', st') \<Longrightarrow> room st \<Longrightarrow> sent (Suc 0) st st' \<and> like_mission ms ms'"
  by (auto simp: send_CapDev_def bind_eq_Some_conv CapDev_at_def like_mission_def shown_def split: if_splits
      intro: begin_write_sent dest!: packageCapDevinfo_len)

definition frames :: "CMission \<Rightarrow> nat" where
  "frames ms = unat (ms_totalCapDev ms) + unat (ms_totalSpdDomeCam ms)"

lemma for_loop_sent:
  assumes "for_loop 0 k f st = Some st'" and "room st"
    and "\<And>j a b. j < k \<Longrightarrow> sent j st a \<Longrightarrow> room a \<Longrightarrow> f j a = Some b \<Longrightarrow> sent (Suc 0) a b"
  shows "sent k st st'"
proof -
  have "sent (0 + k) st st'"
  proof (rule for_loop_invariant [where P = "\<lambda>j u. sent j st u", OF assms(1)])
    fix j u v assume "j < 0 + k" "sent j st u" "f j u = Some v"
    with assms(2,3) sent_room [of j st u] sent_trans [of j st u "Suc 0" v] show "sent (Suc j) st v" by simp
  qed simp
  then show ?thesis by simp
qed

lemma send_CapDevs_sent:
  assumes "for_loop 0 k send_CapDev (ms, st) = Some (ms', st')" and "room st"
  shows "sent k st st' \<and> like_mission ms ms'"
proof -
  have "sent (0 + k) st (snd (ms', st')) \<and> like_mission ms (fst (ms', st'))"
  proof (rule for_loop_invariant [where P = "\<lambda>j u. sent j st (snd u) \<and> like_mission ms (fst u)", OF assms(1)])
    fix j u v assume u: "sent j st (snd u) \<and> like_mission ms (fst u)" and v: "send_CapDev j u = Some v"
    from u assms(2) sent_room have "room (snd u)" by blast
    with send_CapDev_sent [of j "fst u" "snd u" "fst v" "snd v"] v
    have "sent (Suc 0) (snd u) (snd v)" "like_mission (fst u) (fst v)" by auto
    with u sent_trans [of j st "snd u" "Suc 0" "snd v"] like_mission_trans
    show "sent (Suc j) st (snd v) \<and> like_mission ms (fst v)" by auto
  qed simp
  then show ?thesis by simp
qed

lemma send_mission_sent:
  assumes "send_mission ms st = Some (ms', st')" and "room st"
  shows "sent (frames ms) st st' \<and> like_mission ms ms'"
proof -
  from assms(1) obtain st1 where
    1: "for_loop 0 (unat (ms_totalCapDev ms)) send_CapDev (ms, st) = Some (ms', st1)"
    and 2: "for_loop 0 (unat (ms_totalSpdDomeCam ms')) (send_SDC ms') st1 = Some st'"
    by (auto simp: send_mission_def bind_eq_Some_conv)
  from send_CapDevs_sent [OF 1 assms(2)] have
    a: "sent (unat (ms_totalCapDev ms)) st st1" and l: "like_mission ms ms'" by auto
  from a assms(2) have r: "room st1" by (simp add: sent_room)
  have "sent (unat (ms_totalSpdDomeCam ms')) st1 st'"
    by (rule for_loop_sent [OF 2 r]) (rule send_SDC_sent)
  with sent_trans [OF a this] l like_mission_fields [OF l] show ?thesis by (simp add: frames_def)
qed

lemma sent_world:
  assumes "sent k st (s, e)" and "like_world (e_world (snd st)) w"
  shows "sent k st (s, e\<lparr>e_world := w\<rparr>)"
proof -
  have "snd st\<lparr>e_world := e_world e, e_out := e_out e\<rparr> = e" using assms(1) by (simp add: sent_def)
  then have "e\<lparr>e_world := w\<rparr> = snd st\<lparr>e_world := w, e_out := e_out e\<rparr>"
    by (cases "snd st"; cases e) simp
  with assms show ?thesis by (auto simp: sent_def)
qed

lemma sent_like: "sent k st st' \<Longrightarrow> like_world (e_world (snd st)) (e_world (snd st'))"
  by (simp add: sent_def)

lemma like_world_set_mission:
  assumes "like_world w w'" and "i < length (w_missions w)" and "like_mission (mission_at i w) ms"
  shows "like_world w (set_mission i ms w')"
  using assms by (auto simp: like_world_def set_mission_def mission_at_def nth_list_update)

lemma send_mission_at_sent:
  assumes "send_mission_at i st = Some st'" and "room st" and "i < length (w_missions (e_world (snd st)))"
  shows "sent (frames (mission_at i (e_world (snd st)))) st st'"
proof -
  from assms(1) obtain ms s e where
    m: "send_mission (mission_at i (e_world (snd st))) st = Some (ms, s, e)"
    and st': "st' = (s, e\<lparr>e_world := set_mission i ms (e_world e)\<rparr>)"
    by (auto simp: send_mission_at_def bind_eq_Some_conv)
  from send_mission_sent [OF m assms(2)] have
    a: "sent (frames (mission_at i (e_world (snd st)))) st (s, e)"
    and l: "like_mission (mission_at i (e_world (snd st))) ms" by auto
  from like_world_set_mission [OF sent_like [OF a] assms(3) l] show ?thesis
    unfolding st' by (intro sent_world [OF a]) simp
qed

lemma send_unstart_sent:
  assumes "send_unstart st = Some st'" and "room st"
  shows "sent (frames (w_unstart (e_world (snd st)))) st st'"
proof -
  from assms(1) obtain ms s e where m: "send_mission (w_unstart (e_world (snd st))) st = Some (ms, s, e)"
    and st': "st' = (s, e\<lparr>e_world := (e_world e)\<lparr>w_unstart := ms\<rparr>\<rparr>)"
    by (auto simp: send_unstart_def bind_eq_Some_conv)
  from send_mission_sent [OF m assms(2)] have
    a: "sent (frames (w_unstart (e_world (snd st)))) st (s, e)"
    and l: "like_mission (w_unstart (e_world (snd st))) ms" by auto
  from sent_like [OF a] l show ?thesis
    unfolding st' by (intro sent_world [OF a]) (simp add: like_world_def mission_at_def)
qed

lemma like_frames: "like_mission m m' \<Longrightarrow> frames m' = frames m"
  by (drule like_mission_fields) (simp add: frames_def)

lemma send_missions_sent:
  assumes "for_loop 0 k send_mission_at st = Some st'" and "room st"
    and "k \<le> length (w_missions (e_world (snd st)))"
  shows "sent (\<Sum>i<k. frames (mission_at i (e_world (snd st)))) st st'"
proof -
  let ?P = "\<lambda>j u. sent (\<Sum>i<j. frames (mission_at i (e_world (snd st)))) st u"
  have "?P (0 + k) st'"
  proof (rule for_loop_invariant [where P = ?P, OF assms(1)])
    fix j u v assume j: "j < 0 + k" and u: "?P j u" and v: "send_mission_at j u = Some v"
    from sent_like [OF u] j assms(3) have
      l: "j < length (w_missions (e_world (snd u)))"
      "like_mission (mission_at j (e_world (snd st))) (mission_at j (e_world (snd u)))"
      by (auto simp: like_world_def)
    have "room u" using sent_room [OF u] assms(2) by simp
    from sent_trans [OF u send_mission_at_sent [OF v this l(1)]] like_frames [OF l(2)]
    show "?P (Suc j) v" by simp
  qed simp
  then show ?thesis by simp
qed

lemma send_results_sent:
  assumes "send_results rfile i rs st = Some (j, st')" and "room st"
  shows "sent (length rs - Suc (k_curCapResult (fst st) - i) div 2) st st' \<and>
    j = i + length rs + min (length rs) (Suc (k_curCapResult (fst st) - i) div 2)"
  using assms
proof (induction rs arbitrary: i st)
  case Nil
  then show ?case by simp
next
  case (Cons r rs)
  show ?case
  proof (cases "i < k_curCapResult (fst st)")
    case True
    with Cons.prems have "send_results rfile (i + 2) rs st = Some (j, st')" by simp
    moreover have "Suc (k_curCapResult (fst st) - i) div 2 = Suc (Suc (k_curCapResult (fst st) - (i + 2)) div 2)"
      using True by (cases "k_curCapResult (fst st) = Suc i") auto
    ultimately show ?thesis using Cons.IH [of "i + 2" st] Cons.prems(2) by auto
  next
    case False
    with Cons.prems obtain st1 where r: "send_result rfile r st = Some st1"
      and rest: "send_results rfile (i + 1) rs st1 = Some (j, st')"
      by (auto simp: bind_eq_Some_conv)
    from send_result_sent [OF r Cons.prems(2)] have s: "sent (Suc 0) st st1" .
    then have c: "k_curCapResult (fst st1) = k_curCapResult (fst st)"
      by (cases "fst st"; cases "fst st1") (simp add: sent_def)
    from Cons.IH [OF rest] sent_room [OF s] Cons.prems(2) False c
    have "sent (length rs) st1 st' \<and> j = i + Suc (length rs)" by auto
    with sent_trans [OF s] False show ?thesis by fastforce
  qed
qed

definition update_frames :: "world \<Rightarrow> nat \<Rightarrow> nat" where
  "update_frames w c = 1 + length (w_missions w) + (\<Sum>i<length (w_missions w). frames (mission_at i w)) +
     frames (w_unstart w) + (length (w_results w) - Suc c div 2)"

lemma sum_like:
  assumes "like_world w w'"
  shows "(\<Sum>i<length (w_missions w). frames (mission_at i w')) =
    (\<Sum>i<length (w_missions w). frames (mission_at i w))"
  using assms by (intro sum.cong) (auto simp: like_world_def intro: like_frames)

lemma sent_cur: "sent k st st' \<Longrightarrow> k_curCapResult (fst st') = k_curCapResult (fst st)"
  by (cases "fst st"; cases "fst st'") (simp add: sent_def)

lemma update_sent:
  assumes "update rfile st = Some st'" and "room st"
  shows "\<exists>s e. st' = (s\<lparr>k_curCapResult := length (w_results (e_world (snd st))) +
      min (length (w_results (e_world (snd st)))) (Suc (k_curCapResult (fst st)) div 2)\<rparr>, e) \<and>
    sent (update_frames (e_world (snd st)) (k_curCapResult (fst st))) st (s, e)"
proof -
  let ?w = "e_world (snd st)"
  from assms(1) obtain st1 st2 st3 st4 j s e where
    1: "send_respone st = Some st1" and
    2: "for_loop 0 (length (w_missions (e_world (snd st1)))) send_group st1 = Some st2" and
    3: "for_loop 0 (length (w_missions (e_world (snd st1)))) send_mission_at st2 = Some st3" and
    4: "send_unstart st3 = Some st4" and
    5: "send_results rfile 0 (w_results (e_world (snd st4))) st4 = Some (j, s, e)" and
    st': "st' = (s\<lparr>k_curCapResult := j\<rparr>, e)"
    by (auto simp: update_def bind_eq_Some_conv Let_def)
  from send_respone_sent [OF 1 assms(2)] have a1: "sent (Suc 0) st st1" .
  with assms(2) have r1: "room st1" by (simp add: sent_room)
  from a1 have n: "length (w_missions (e_world (snd st1))) = length (w_missions ?w)"
    by (auto dest: sent_like simp: like_world_def)
  have "sent (length (w_missions ?w)) st1 st2"
    by (rule for_loop_sent [OF 2 [unfolded n] r1]) (rule send_group_sent)
  note a2 = sent_trans [OF a1 this]
  with assms(2) have r2: "room st2" by (simp add: sent_room)
  from a2 have n2: "length (w_missions (e_world (snd st2))) = length (w_missions ?w)"
    by (auto dest: sent_like simp: like_world_def)
  have "sent (\<Sum>i<length (w_missions ?w). frames (mission_at i (e_world (snd st2)))) st2 st3"
    using send_missions_sent [OF 3 [unfolded n] r2] n2 by simp
  note a3 = sent_trans [OF a2 this [unfolded sum_like [OF sent_like [OF a2]]]]
  with assms(2) have r3: "room st3" by (simp add: sent_room)
  have "frames (w_unstart (e_world (snd st3))) = frames (w_unstart ?w)"
    using sent_like [OF a3] by (auto simp: like_world_def intro: like_frames)
  note a4 = sent_trans [OF a3 send_unstart_sent [OF 4 r3, unfolded this]]
  with assms(2) have r4: "room st4" by (simp add: sent_room)
  have "w_results (e_world (snd st4)) = w_results ?w" using sent_like [OF a4] by (simp add: like_world_def)
  with send_results_sent [OF 5 r4] sent_cur [OF a4] have
    a5: "sent (length (w_results ?w) - Suc (k_curCapResult (fst st)) div 2) st4 (s, e)"
    and j: "j = length (w_results ?w) + min (length (w_results ?w)) (Suc (k_curCapResult (fst st)) div 2)"
    by auto
  from sent_trans [OF a4 a5] have "sent (update_frames ?w (k_curCapResult (fst st))) st (s, e)"
    by (simp add: update_frames_def add_ac)
  with st' j show ?thesis by blast
qed

section \<open>When an update succeeds\<close>

text \<open>
  Settings, devices and results that can be sent: they fit the buffer and the bytes a checksum
  covers are below 128.
\<close>

definition sendable_SDC :: "SDCcfg \<Rightarrow> bool" where
  "sendable_SDC cfg \<longleftrightarrow> (\<forall>j < unat (sc_presetTotal cfg). wf_preset (sc_missionPreset cfg j)) \<and>
     length (SDC_frame cfg) + 2 \<le> MAX_PACKET_LEN \<and> (\<forall>x \<in> set (take 100 (drop 4 (SDC_frame cfg))). x < 0x80)"

definition sendable_mission :: "cam_heap \<Rightarrow> CMission \<Rightarrow> bool" where
  "sendable_mission cams ms \<longleftrightarrow> wf_mission cams ms \<and>
     (\<forall>i < unat (ms_totalCapDev ms). 12 + length (CapDev_body (shown (ms_capDev ms i))) \<le> MAX_PACKET_LEN) \<and>
     (\<forall>c \<in> set (cam_list (cams, ms)). sendable_SDC (dc_m_sdcCfg c))"

definition sendable :: "world \<Rightarrow> bool" where
  "sendable w \<longleftrightarrow> (\<forall>i < length (w_missions w). sendable_mission (w_cams w) (mission_at i w) \<and>
       (ucast (ms_missionNum (mission_at i w)) :: byte) < 0x80) \<and>
     sendable_mission (w_cams w) (w_unstart w) \<and>
     (\<forall>r \<in> set (w_results w). 12 + length (Result_body (\<lambda>_. None) r False) \<le> MAX_PACKET_LEN)"

abbreviation small_stale :: "cfg_state \<Rightarrow> bool" where
  "small_stale st \<equiv> \<forall>x \<in> set (stale (k_data_write (fst st))). x < 0x80"

lemma stale_store: "stale (cfg_head_bytes t @ le_enc 4 (n :: u32) @ r) = le_enc 4 n"
  by (simp add: stale_def)

lemma le_enc_15_18: "\<forall>x \<in> set (le_enc 4 (15 :: u32)). x < (0x80 :: byte)"
  "\<forall>x \<in> set (le_enc 4 (18 :: u32)). x < (0x80 :: byte)"
  by (simp_all add: le_enc_4)

lemma begin_write_buffer [simp]: "k_data_write (fst (begin_write b st)) = b"
  by (cases st) (simp add: begin_write_def)

lemma send_respone_total:
  assumes "room st" and "small_stale st"
  shows "\<exists>st'. send_respone st = Some st' \<and> small_stale st'"
proof -
  have "\<exists>r. packageSDCrespone (Some (k_data_write (fst st))) (int MAX_PACKET_LEN) 1 =
      Some (15, cfg_head_bytes 4 @ le_enc 4 (15 :: u32) @ r)"
    using assms packageSDCrespone_store [of "k_data_write (fst st)" "int MAX_PACKET_LEN" 1]
    by (auto simp: MAX_PACKET_LEN_def)
  then obtain r where "send_respone st = Some (begin_write (cfg_head_bytes 4 @ le_enc 4 (15 :: u32) @ r) st)"
    by (auto simp: send_respone_def)
  then show ?thesis using le_enc_15_18 by (intro exI conjI) (assumption, simp add: stale_store)
qed

lemma send_group_total:
  assumes "room st" and "small_stale st"
    and "(ucast (ms_missionNum (mission_at i (e_world (snd st)))) :: byte) < 0x80"
  shows "\<exists>st'. send_group i st = Some st' \<and> small_stale st'"
proof -
  let ?g = "ucast (ms_missionNum (mission_at i (e_world (snd st)))) :: byte"
  have "\<exists>r. packageGroupInfo (Some (k_data_write (fst st))) (int MAX_PACKET_LEN) ?g =
      Some (18, cfg_head_bytes 9 @ le_enc 4 (18 :: u32) @ r)"
    using assms packageGroupInfo_store [of "k_data_write (fst st)" "int MAX_PACKET_LEN" ?g]
    by (auto simp: MAX_PACKET_LEN_def)
  then obtain r where "send_group i st = Some (begin_write (cfg_head_bytes 9 @ le_enc 4 (18 :: u32) @ r) st)"
    by (auto simp: send_group_def)
  then show ?thesis using le_enc_15_18 by (intro exI conjI) (assumption, simp add: stale_store)
qed

lemma send_SDC_total:
  assumes "room st" and "sendable_mission (w_cams (e_world (snd st))) ms"
    and "i < unat (ms_totalSpdDomeCam ms)"
  shows "\<exists>st'. send_SDC ms i st = Some st'"
proof -
  let ?cams = "w_cams (e_world (snd st))" and ?b = "k_data_write (fst st)"
  let ?c = "cam_list (?cams, ms) ! i"
  have at: "SDC_at ?cams ms i = Some ?c"
    using assms(2,3) SDC_at_wf(1) [of ?cams ms i] by (simp add: sendable_mission_def wf_mission_def)
  have "?c \<in> set (cam_list (?cams, ms))" using assms(3) by simp
  with assms(2) have s: "sendable_SDC (dc_m_sdcCfg ?c)" by (simp add: sendable_mission_def)
  have n: "unat (word_of_nat MAX_PACKET_LEN :: u32) = length ?b"
    using assms(1) by (simp add: MAX_PACKET_LEN_def)
  from s show ?thesis
    using at packageSDCinfo_store [of "dc_m_sdcCfg ?c" "word_of_nat MAX_PACKET_LEN" ?b] assms(1)
    by (auto simp: send_SDC_def sendable_SDC_def n Let_def MAX_PACKET_LEN_def ball_Un)
qed

lemma send_CapDev_total:
  assumes "room st" and "12 + length (CapDev_body (shown (ms_capDev ms i))) \<le> MAX_PACKET_LEN"
    and "i < MAX_CAPDEV"
  shows "\<exists>r. send_CapDev i (ms, st) = Some r"
  using assms packageCapDevinfo_store [of "shown (ms_capDev ms i)" "ms_capDev ms i" "k_data_write (fst st)"
      "word_of_nat MAX_PACKET_LEN"]
  by (simp add: send_CapDev_def CapDev_at_def shown_def MAX_PACKET_LEN_def)

lemma send_result_total:
  assumes "room st" and "12 + length (Result_body (\<lambda>_. None) r False) \<le> MAX_PACKET_LEN"
  shows "send_result rfile r st = Some (begin_write (plain_frame 3 (Result_body (\<lambda>_. None) r False) @
    drop (12 + length (Result_body (\<lambda>_. None) r False)) (k_data_write (fst st))) st)"
  using assms packageCapResultInfo_store [where b = "k_data_write (fst st)" and res = r]
  by (simp add: send_result_def MAX_PACKET_LEN_def)


lemma like_sendable:
  assumes "like_mission m m'" and "sendable_mission cams m"
  shows "sendable_mission cams m'"
proof -
  have "shown (ms_capDev m' i) = shown (ms_capDev m i)" for i
  proof -
    from assms(1) have "ms_capDev m' i = ms_capDev m i \<or> ms_capDev m' i = shown (ms_capDev m i)"
      by (simp add: like_mission_def)
    then show ?thesis by (elim disjE) simp_all
  qed
  moreover have "cam_list (cams, m') = cam_list (cams, m)"
    using like_mission_fields [OF assms(1)] by (simp add: cam_list_def cam_refs_def)
  ultimately show ?thesis
    using assms(2) like_mission_wf [OF assms(1)] like_mission_fields [OF assms(1)] by (simp add: sendable_mission_def)
qed

lemma sendable_CapDev:
  "sendable_mission cams ms \<Longrightarrow> i < unat (ms_totalCapDev ms) \<Longrightarrow> 12 + length (CapDev_body (shown (ms_capDev ms i))) \<le> MAX_PACKET_LEN"
  by (simp add: sendable_mission_def)

lemma send_mission_total:
  assumes "room st" and "sendable_mission (w_cams (e_world (snd st))) ms"
  shows "\<exists>r. send_mission ms st = Some r"
proof -
  let ?P = "\<lambda>j u. sent j st (snd u) \<and> like_mission ms (fst u)"
  have devs: "unat (ms_totalCapDev ms) \<le> MAX_CAPDEV"
    using assms(2) by (simp add: sendable_mission_def wf_mission_def wf_devs_def)
  have "\<exists>r. for_loop 0 (unat (ms_totalCapDev ms)) send_CapDev (ms, st) = Some r \<and>
      ?P (0 + unat (ms_totalCapDev ms)) r"
  proof (rule for_loop_total)
    fix j u assume j: "j < 0 + unat (ms_totalCapDev ms)" and u: "?P j u"
    obtain m t where mt: "u = (m, t)" by (cases u)
    from u mt have t: "sent j st t" and l: "like_mission ms m" by auto
    from t assms(1) have r: "room t" by (simp add: sent_room)
    have "j < unat (ms_totalCapDev m)" using j like_mission_fields [OF l] by simp
    from send_CapDev_total [OF r sendable_CapDev [OF like_sendable [OF l assms(2)] this]] devs j
    obtain m' t' where s: "send_CapDev j (m, t) = Some (m', t')" by fastforce
    from send_CapDev_sent [OF s r] sent_trans [OF t, of "Suc 0" t'] like_mission_trans [OF l, of m'] s mt
    show "\<exists>v. send_CapDev j u = Some v \<and> ?P (Suc j) v" by auto
  qed simp
  then obtain m st1 where 1: "for_loop 0 (unat (ms_totalCapDev ms)) send_CapDev (ms, st) = Some (m, st1)"
    and a: "sent (unat (ms_totalCapDev ms)) st st1" and l: "like_mission ms m" by auto
  from a assms(1) have r1: "room st1" by (simp add: sent_room)
  have s1: "sendable_mission (w_cams (e_world (snd st1))) m"
    using like_sendable [OF l assms(2)] sent_like [OF a] by (simp add: like_world_def)
  have "\<exists>r. for_loop 0 (unat (ms_totalSpdDomeCam m)) (send_SDC m) st1 = Some r \<and>
      sent (0 + unat (ms_totalSpdDomeCam m)) st1 r"
  proof (rule for_loop_total [where P = "\<lambda>j u. sent j st1 u"])
    fix j u assume j: "j < 0 + unat (ms_totalSpdDomeCam m)" and u: "sent j st1 u"
    from u r1 have r: "room u" by (simp add: sent_room)
    have "sendable_mission (w_cams (e_world (snd u))) m"
      using s1 sent_like [OF u] by (simp add: like_world_def)
    from send_SDC_total [OF r this, of j] j obtain v where v: "send_SDC m j u = Some v" by auto
    with sent_trans [OF u send_SDC_sent [OF v r]] show "\<exists>v. send_SDC m j u = Some v \<and> sent (Suc j) st1 v"
      by auto
  qed simp
  with 1 show ?thesis by (auto simp: send_mission_def)
qed

lemma like_world_sendable:
  assumes "like_world w w'" and "sendable w"
  shows "sendable w'"
  unfolding sendable_def
proof (intro conjI allI impI ballI)
  fix i assume "i < length (w_missions w')"
  then have i: "i < length (w_missions w)" "like_mission (mission_at i w) (mission_at i w')"
    using assms(1) by (auto simp: like_world_def)
  with assms like_sendable [OF i(2), of "w_cams w"]
  show "sendable_mission (w_cams w') (mission_at i w')" by (simp add: sendable_def like_world_def)
  from i assms(2) like_mission_fields [OF i(2)]
  show "(ucast (ms_missionNum (mission_at i w')) :: byte) < 0x80" by (simp add: sendable_def)
qed (use assms in \<open>auto simp: sendable_def like_world_def intro: like_sendable\<close>)

lemma send_results_total:
  assumes "room st" and "\<forall>r \<in> set rs. 12 + length (Result_body (\<lambda>_. None) r False) \<le> MAX_PACKET_LEN"
  shows "\<exists>x. send_results rfile i rs st = Some x"
  using assms
proof (induction rs arbitrary: i st)
  case Nil
  then show ?case by simp
next
  case (Cons r rs)
  show ?case
  proof (cases "i < k_curCapResult (fst st)")
    case True
    with Cons show ?thesis by simp
  next
    case False
    from send_result_total [of st r rfile] Cons.prems obtain st1 where s: "send_result rfile r st = Some st1"
      by auto
    from sent_room [OF send_result_sent [OF this]] Cons.prems(1) have "room st1" by simp
    with Cons.IH [of st1 "i + 1"] Cons.prems(2) s False show ?thesis by simp
  qed
qed

lemma send_groups_total:
  assumes "room st" and "small_stale st" and "sendable (e_world (snd st))"
    and "n = length (w_missions (e_world (snd st)))"
  shows "\<exists>st'. for_loop 0 n send_group st = Some st'"
proof -
  let ?P = "\<lambda>j u. sent j st u \<and> small_stale u"
  have "\<exists>st'. for_loop 0 n send_group st = Some st' \<and> ?P (0 + n) st'"
  proof (rule for_loop_total)
    fix j u assume j: "j < 0 + n" and u: "?P j u"
    from u assms(1) have r: "room u" by (auto simp: sent_room)
    have "sendable (e_world (snd u))" using like_world_sendable [OF _ assms(3)] u sent_like by blast
    moreover have "length (w_missions (e_world (snd u))) = n"
      using u assms(4) sent_like [of j st u] by (simp add: like_world_def)
    ultimately have "(ucast (ms_missionNum (mission_at j (e_world (snd u)))) :: byte) < 0x80"
      using j by (simp add: sendable_def)
    from send_group_total [OF r _ this] u obtain v where v: "send_group j u = Some v" "small_stale v" by blast
    with sent_trans [OF conjunct1 [OF u] send_group_sent [OF v(1) r]]
    show "\<exists>v. send_group j u = Some v \<and> ?P (Suc j) v" by auto
  qed (use assms(2) in simp)
  then show ?thesis by blast
qed

lemma send_missions_total:
  assumes "room st" and "sendable (e_world (snd st))" and "n = length (w_missions (e_world (snd st)))"
  shows "\<exists>st'. for_loop 0 n send_mission_at st = Some st'"
proof -
  let ?Q = "\<lambda>j u. \<exists>k. sent k st u"
  have "\<exists>st'. for_loop 0 n send_mission_at st = Some st' \<and> ?Q (0 + n) st'"
  proof (rule for_loop_total)
    show "?Q 0 st" by (intro exI [of _ 0]) simp
    fix j u assume j: "j < 0 + n" and "?Q j u"
    then obtain k where u: "sent k st u" by blast
    from u assms(1) have r: "room u" by (simp add: sent_room)
    have s: "sendable (e_world (snd u))" by (rule like_world_sendable [OF sent_like [OF u] assms(2)])
    have n: "j < length (w_missions (e_world (snd u)))"
      using sent_like [OF u] assms(3) j by (simp add: like_world_def)
    with s have "sendable_mission (w_cams (e_world (snd u))) (mission_at j (e_world (snd u)))"
      by (simp add: sendable_def)
    from send_mission_total [OF r this] obtain v where v: "send_mission_at j u = Some v"
      by (auto simp: send_mission_at_def)
    with sent_trans [OF u send_mission_at_sent [OF v r n]]
    show "\<exists>v. send_mission_at j u = Some v \<and> ?Q (Suc j) v" by blast
  qed
  then show ?thesis by blast
qed

text \<open>What a state reached by writes shares with the first one\<close>

lemma sent_keeps:
  assumes "sent k st st'" and "room st" and "sendable (e_world (snd st))"
  shows "room st'" "sendable (e_world (snd st'))"
    "length (w_missions (e_world (snd st'))) = length (w_missions (e_world (snd st)))"
  using assms like_world_sendable [OF sent_like [OF assms(1)]] sent_like [OF assms(1)]
  by (simp_all add: sent_room like_world_def)

lemma update_total:
  assumes "room st" and "small_stale st" and "sendable (e_world (snd st))"
  shows "\<exists>st'. update rfile st = Some st'"
proof -
  let ?n = "length (w_missions (e_world (snd st)))"
  obtain st1 where 1: "send_respone st = Some st1" "small_stale st1"
    using send_respone_total [OF assms(1,2)] by blast
  note a1 = send_respone_sent [OF 1(1) assms(1)]
  note k1 = sent_keeps [OF a1 assms(1,3)]
  from send_groups_total [OF k1(1) 1(2) k1(2) k1(3) [symmetric]]
  obtain st2 where 2: "for_loop 0 ?n send_group st1 = Some st2" by blast
  have "sent ?n st1 st2" by (rule for_loop_sent [OF 2 k1(1)]) (rule send_group_sent)
  note a2 = sent_trans [OF a1 this]
  note k2 = sent_keeps [OF a2 assms(1,3)]
  from send_missions_total [OF k2(1,2) k2(3) [symmetric]]
  obtain st3 where 3: "for_loop 0 ?n send_mission_at st2 = Some st3" by blast
  note a3 = sent_trans [OF a2 send_missions_sent [OF 3 k2(1) eq_refl [OF k2(3) [symmetric]]]]
  note k3 = sent_keeps [OF a3 assms(1,3)]
  then have "sendable_mission (w_cams (e_world (snd st3))) (w_unstart (e_world (snd st3)))"
    by (simp add: sendable_def)
  from send_mission_total [OF k3(1) this] obtain st4 where 4: "send_unstart st3 = Some st4"
    by (auto simp: send_unstart_def)
  note k4 = sent_keeps [OF sent_trans [OF a3 send_unstart_sent [OF 4 k3(1)]] assms(1,3)]
  then have "\<forall>r \<in> set (w_results (e_world (snd st4))).
      12 + length (Result_body (\<lambda>_. None) r False) \<le> MAX_PACKET_LEN" by (simp add: sendable_def)
  from send_results_total [OF k4(1) this] obtain x where
    "send_results rfile 0 (w_results (e_world (snd st4))) st4 = Some x" by blast
  with 1 2 3 4 k1(3) show ?thesis by (simp add: update_def Let_def split: prod.splits)
qed

text \<open>
  An update returns whenever what it has to send fits and its checksums stay inside their table,
  and then it begins one write of 1024 bytes for the reply, for each mission, for each device and
  camera, ungrouped or not, and for the results. Of the results it sends all but half as many as
  the counter says were sent: with \<open>c\<close> for the counter the first \<open>(c + 1) div 2\<close> are left out.
\<close>

theorem update_writes:
  assumes "length (k_data_write s) = MAX_PACKET_LEN" and "\<forall>x \<in> set (stale (k_data_write s)). x < 0x80"
    and "sendable (e_world e)"
  shows "\<exists>s' e' bss. update rfile (s, e) = Some (s', e') \<and>
    e_out e' = e_out e @ map Reply bss \<and> (\<forall>bs \<in> set bss. length bs = 1024) \<and>
    length bss = 1 + length (w_missions (e_world e)) +
      (\<Sum>i<length (w_missions (e_world e)). frames (mission_at i (e_world e))) +
      frames (w_unstart (e_world e)) +
      (length (w_results (e_world e)) - (k_curCapResult s + 1) div 2) \<and>
    k_curCapResult s' = length (w_results (e_world e)) +
      min (length (w_results (e_world e))) ((k_curCapResult s + 1) div 2)"
proof -
  from update_total [where st = "(s, e)" and rfile = rfile] assms
  obtain st' where u: "update rfile (s, e) = Some st'" by auto
  from update_sent [OF u] assms(1) obtain s1 e1 where
    st': "st' = (s1\<lparr>k_curCapResult := length (w_results (e_world e)) +
      min (length (w_results (e_world e))) (Suc (k_curCapResult s) div 2)\<rparr>, e1)"
    and "sent (update_frames (e_world e) (k_curCapResult s)) (s, e) (s1, e1)" by auto
  then obtain bss where "e_out e1 = e_out e @ map Reply bss"
    "length bss = update_frames (e_world e) (k_curCapResult s)" "\<forall>bs \<in> set bss. length bs = SEND_LEN"
    by (auto simp: sent_def)
  with u st' show ?thesis by (auto simp: update_frames_def SEND_LEN_def)
qed

definition result_frame :: "IlligalProcResult \<Rightarrow> byte list" where
  "result_frame r = plain_frame 3 (Result_body (\<lambda>_. None) r False)"

lemma send_result_frame:
  assumes "room st" and "12 + length (Result_body (\<lambda>_. None) r False) \<le> MAX_PACKET_LEN"
  shows "\<exists>z. send_result rfile r st = Some (begin_write (result_frame r @ z) st)"
  using send_result_total [OF assms] by (auto simp: result_frame_def)

lemma send_results_frames:
  assumes "room st" and "\<forall>r \<in> set rs. 12 + length (Result_body (\<lambda>_. None) r False) \<le> MAX_PACKET_LEN"
  shows "\<exists>j s e bss. send_results rfile i rs st = Some (j, s, e) \<and> e_out e = e_out (snd st) @ map Reply bss \<and>
    list_all2 (\<lambda>r bs. \<exists>z. bs = take SEND_LEN (result_frame r @ z))
      (drop (Suc (k_curCapResult (fst st) - i) div 2) rs) bss"
  using assms
proof (induction rs arbitrary: i st)
  case Nil
  then show ?case by (cases st) simp
next
  case (Cons r rs)
  show ?case
  proof (cases "i < k_curCapResult (fst st)")
    case True
    have "Suc (k_curCapResult (fst st) - i) div 2 = Suc (Suc (k_curCapResult (fst st) - (i + 2)) div 2)"
      using True by (cases "k_curCapResult (fst st) = Suc i") auto
    with True Cons.IH [of st "i + 2"] Cons.prems show ?thesis by simp
  next
    case False
    from Cons.prems send_result_frame [of st r rfile] obtain z where
      z: "send_result rfile r st = Some (begin_write (result_frame r @ z) st)" (is "_ = Some ?st1") by auto
    from send_result_sent [OF z Cons.prems(1)] have s: "sent (Suc 0) st ?st1" .
    from sent_cur [OF s] have c: "k_curCapResult (fst ?st1) = k_curCapResult (fst st)" .
    from sent_room [OF s] Cons.prems(1) have "room ?st1" by simp
    with Cons.IH [of ?st1 "i + 1"] Cons.prems(2) c False obtain j s' e' bss where
      "send_results rfile (i + 1) rs ?st1 = Some (j, s', e')" "e_out e' = e_out (snd ?st1) @ map Reply bss"
      "list_all2 (\<lambda>r bs. \<exists>z. bs = take SEND_LEN (result_frame r @ z)) rs bss" by auto
    with z False show ?thesis
      by (cases st) (auto simp: begin_write_def intro!: exI [of _ "take SEND_LEN (result_frame r @ z) # bss"])
  qed
qed

text \<open>
  Results are sent again. With \<open>c\<close> for the counter, the loop over the results sends, in order,
  every result but the first \<open>(c + 1) div 2\<close>, each cut to 1024 bytes; so after all \<open>n\<close> have been sent
  once and the counter is \<open>n\<close>, the next update sends the last \<open>n div 2\<close> of them once more.
\<close>

theorem results_sent_again:
  assumes "length (k_data_write s) = MAX_PACKET_LEN"
    and "\<forall>r \<in> set rs. 12 + length (Result_body (\<lambda>_. None) r False) \<le> MAX_PACKET_LEN"
  shows "\<exists>j s' e' bss. send_results rfile 0 rs (s, e) = Some (j, s', e') \<and>
    e_out e' = e_out e @ map Reply bss \<and>
    list_all2 (\<lambda>r bs. \<exists>z. bs = take 1024 (plain_frame 3 (Result_body (\<lambda>_. None) r False) @ z))
      (drop ((k_curCapResult s + 1) div 2) rs) bss"
  using send_results_frames [where st = "(s, e)" and rs = rs and i = 0 and rfile = rfile] assms
  by (simp add: result_frame_def SEND_LEN_def)

section \<open>The timer of the update\<close>

lemma update_timer:
  assumes "update rfile (s, e) = Some (s', e')" and "room (s, e)"
  shows "k_timer s' = k_timer s \<and> k_waiting s' = k_waiting s \<and> k_ready s' = k_ready s \<and> k_run s' = k_run s \<and>
    k_data s' = k_data s \<and> length (k_data_write s') = MAX_PACKET_LEN \<and> like_world (e_world e) (e_world e')"
proof -
  from update_sent [OF assms] obtain t c k where s': "s' = t\<lparr>k_curCapResult := c\<rparr>" "sent k (s, e) (t, e')" by auto
  with assms(2) show ?thesis by (cases s; cases t) (auto simp: sent_def)
qed

text \<open>\<open>n\<close> handlers of the timer's service run at the time \<open>now\<close>, each one only when it may.\<close>

fun timer_runs ::
  "(string \<Rightarrow> byte list option) \<Rightarrow> nat \<Rightarrow> nat \<Rightarrow> cfg_state \<Rightarrow> cfg_state option" where
  "timer_runs rfile now 0 st = Some st"
| "timer_runs rfile now (Suc n) st =
     (if timer_enabled now (fst st) then Option.bind (timer_handler rfile st) (timer_runs rfile now n)
      else Some st)"

text \<open>One handler of a session that still runs is one update, and the timer moves on by three seconds.\<close>

lemma timer_handler_running:
  assumes "timer_handler rfile (s, e) = Some (s', e')" and "room (s, e)" and "k_run s"
  shows "k_run s' \<and> k_waiting s' \<and> room (s', e') \<and> k_timer s' = map_option (\<lambda>t. t + 3) (k_timer s) \<and>
    k_ready s' = (if 0 < k_ready s then k_ready s - 1 + (if k_waiting s then 1 else 0) else 0) \<and>
    length (e_out e) < length (e_out e')"
proof -
  let ?s = "if 0 < k_ready s then s\<lparr>k_ready := k_ready s - 1\<rparr> else s\<lparr>k_waiting := False\<rparr>"
  have r: "room (?s, e)" using assms(2) by simp
  from assms(1,3) obtain t x where u: "update rfile (?s, e) = Some (t, e')" and x: "k_timer t = Some x"
    and s': "s' = (cancelled t)\<lparr>k_timer := Some (x + 3), k_waiting := True\<rparr>"
    by (auto simp: timer_handler_def updateMissionInfo_def bind_eq_Some_conv split: if_splits)
  from update_sent [OF u r] obtain k v c where "sent k (?s, e) (v, e')" "k = update_frames (e_world e) c"
    by auto
  then have "length (e_out e) < length (e_out e')" by (auto simp: sent_def update_frames_def)
  moreover have "k_timer s = Some x" using update_timer [OF u r] x by (simp split: if_splits)
  ultimately show ?thesis
    using update_timer [OF u r] assms(3) s' by (auto simp: cancelled_def)
qed

lemma timer_runs_Suc:
  assumes "timer_runs rfile now (Suc n) (s, e) = Some (s', e')" and "timer_enabled now s"
  obtains t f where "timer_handler rfile (s, e) = Some (t, f)" "timer_runs rfile now n (t, f) = Some (s', e')"
  using assms by (auto simp: bind_eq_Some_conv)


lemma div_three:
  assumes "(t :: nat) \<le> now"
  shows "(now - t) div 3 = (if t + 3 \<le> now then (now - (t + 3)) div 3 + 1 else 0)"
proof (cases "t + 3 \<le> now")
  case True
  then have "now - t = 3 + (now - (t + 3))" by simp
  then show ?thesis using True by simp
next
  case False
  with assms show ?thesis by simp
qed

text \<open>
  After one request the updates keep their period. However many handlers the timer's service
  would run until the time \<open>now\<close>, a session whose timer expires at \<open>t\<close> gets one for every three
  seconds from \<open>t\<close> on.
\<close>

theorem one_request_keeps_period:
  assumes "k_timer s = Some t" and "k_waiting s" and "k_ready s = 0" and "k_run s"
    and "length (k_data_write s) = MAX_PACKET_LEN"
    and "timer_runs rfile now n (s, e) = Some (s', e')"
  shows "k_timer s' = Some (t + 3 * min n (if t \<le> now then (now - t) div 3 + 1 else 0))"
  using assms
proof (induction n arbitrary: s e t)
  case 0
  then show ?case by simp
next
  case (Suc n)
  show ?case
  proof (cases "t \<le> now")
    case True
    then have "timer_enabled now s" using Suc.prems(1-3) by (simp add: timer_enabled_def)
    from timer_runs_Suc [OF Suc.prems(6) this] obtain u f where
      h: "timer_handler rfile (s, e) = Some (u, f)" and r: "timer_runs rfile now n (u, f) = Some (s', e')" .
    from timer_handler_running [OF h] Suc.prems(1-5) have
      u: "k_timer u = Some (t + 3)" "k_waiting u" "k_ready u = 0" "k_run u"
        "length (k_data_write u) = MAX_PACKET_LEN" by auto
    show ?thesis using Suc.IH [OF u r] True by (simp add: div_three [OF True])
  next
    case False
    then have "\<not> timer_enabled now s" using Suc.prems(1-3) by (simp add: timer_enabled_def)
    with Suc.prems(1,6) False show ?thesis by simp
  qed
qed

text \<open>
  A failed read or write ends the updates: the next handler of the timer sends nothing, and
  after it none is left to run.
\<close>

theorem failure_ends_updates:
  assumes "k_timer s = Some t" and "k_ready s = 0"
    and "s1 = fst (cfg_handle_write (Some err) s e)"
  shows "\<exists>s2. timer_handler rfile (s1, e) = Some (s2, e) \<and> (\<forall>now. \<not> timer_enabled now s2)"
  using assms
  by (simp add: cfg_handle_write_def cfg_failed_def timer_handler_def updateMissionInfo_def cancelled_def
      timer_enabled_def)

section \<open>Witnesses\<close>

definition world2 :: world where
  "world2 = \<lparr>w_cams = [], w_missions = [(3, (mission0 0)\<lparr>ms_totalCapDev := 1\<rparr>)], w_unstart = mission0 0,
     w_results = [res1, res1]\<rparr>"

definition env2 :: env where
  "env2 = \<lparr>e_world = world2, e_log = [], e_failed = 0, e_out = []\<rparr>"

definition cfg_session0 :: cfg_session where
  "cfg_session0 = \<lparr>k_data = replicate MAX_PACKET_LEN 0, k_data_write = replicate MAX_PACKET_LEN 0,
     k_recv_times = 0, k_timer = None, k_waiting = False, k_ready = 0, k_run = True,
     k_curCapResult = 0, k_freeThis = True\<rparr>"

lemma fits_res1: "12 + length (Result_body (\<lambda>_. None) res1 False) \<le> MAX_PACKET_LEN"
  by (simp add: Result_body_def res1_def res0_def MAX_PACKET_LEN_def)

lemma sendable_world2: "sendable world2"
proof -
  have "sendable_mission [] (mission0 0)"
    by (simp add: sendable_mission_def wf_mission_def wf_cams_def wf_devs_def mission0_def cam_list_def cam_refs_def)
  moreover have "sendable_mission [] ((mission0 0)\<lparr>ms_totalCapDev := 1\<rparr>)"
    by (simp add: sendable_mission_def wf_mission_def wf_cams_def wf_devs_def mission0_def cam_list_def
        cam_refs_def MAX_CAPDEV_def shown_def CapDev_body_def dev0_def MAX_PACKET_LEN_def)
  ultimately show ?thesis
    using fits_res1 by (simp add: sendable_def world2_def mission_at_def mission0_def)
qed

lemma world2_sizes:
  "length (w_missions (e_world env2)) = 1" "frames (mission_at 0 (e_world env2)) = 1"
  "frames (w_unstart (e_world env2)) = 0" "length (w_results (e_world env2)) = 2"
  by (simp_all add: env2_def world2_def frames_def mission_at_def mission0_def)

lemma five: "Suc (Suc (Suc (Suc (Suc 0)))) = 5"
  by simp

lemma small_stale0: "\<forall>x \<in> set (stale (replicate MAX_PACKET_LEN 0)). x < (0x80 :: byte)"
  by (auto simp: stale_def dest!: in_set_takeD in_set_dropD)

corollary update_writes_witness:
  "\<exists>s' e' bss. update (\<lambda>_. None) (cfg_session0, env2) = Some (s', e') \<and>
    e_out e' = e_out env2 @ map Reply bss \<and> (\<forall>bs \<in> set bss. length bs = 1024) \<and>
    length bss = 5 \<and> k_curCapResult s' = 2"
proof -
  have "length (k_data_write cfg_session0) = MAX_PACKET_LEN" "sendable (e_world env2)"
    "\<forall>x \<in> set (stale (k_data_write cfg_session0)). x < 0x80"
    using small_stale0 sendable_world2 by (simp_all add: cfg_session0_def env2_def)
  note u = update_writes [OF this(1,3,2), of "\<lambda>_. None"]
  have "k_curCapResult cfg_session0 = 0" by (simp add: cfg_session0_def)
  with u show ?thesis by (simp add: world2_sizes five)
qed

corollary results_sent_again_witness:
  "\<exists>j s' e' bss. send_results (\<lambda>_. None) 0 [res1, res1] (cfg_session0\<lparr>k_curCapResult := 2\<rparr>, env2) = Some (j, s', e') \<and>
    e_out e' = map Reply bss \<and> length bss = 1"
proof -
  have "list_all2 P (drop (3 div 2) [res1, res1]) bss \<Longrightarrow> length bss = 1" for P and bss :: "byte list list"
    by (auto dest: list_all2_lengthD)
  with results_sent_again [of "cfg_session0\<lparr>k_curCapResult := 2\<rparr>" "[res1, res1]" "\<lambda>_. None" env2] fits_res1
  show ?thesis by (fastforce simp: cfg_session0_def env2_def)
qed

lemma update0:
  "\<exists>st'. update (\<lambda>_. None) (cfg_session0\<lparr>k_timer := x, k_waiting := y, k_ready := z\<rparr>, env2) = Some st'"
  "\<exists>st'. update (\<lambda>_. None) (cfg_session0\<lparr>k_timer := x, k_ready := z, k_waiting := y\<rparr>, env2) = Some st'"
  by (rule update_total; use small_stale0 sendable_world2 in \<open>simp add: cfg_session0_def env2_def\<close>)+


corollary one_request_keeps_period_witness:
  "\<exists>s' e'. timer_runs (\<lambda>_. None) 5 2 (updateTimerStart 0 cfg_session0, env2) = Some (s', e') \<and> k_timer s' = Some 6"
proof -
  let ?s = "updateTimerStart 0 cfg_session0"
  have s: "?s = cfg_session0\<lparr>k_timer := Some 3, k_ready := 0, k_waiting := True\<rparr>"
    by (simp add: updateTimerStart_def cancelled_def cfg_session0_def)
  have "room (cfg_session0\<lparr>k_timer := Some 3, k_ready := 0, k_waiting := False\<rparr>, env2)"
    by (simp add: cfg_session0_def)
  with update0(2) [where x = "Some 3" and y = False and z = 0] update_timer obtain t f where
    u: "update (\<lambda>_. None) (cfg_session0\<lparr>k_timer := Some 3, k_ready := 0, k_waiting := False\<rparr>, env2) = Some (t, f)"
    "k_timer t = Some 3" "k_ready t = 0" "k_waiting t = False" by fastforce
  have "k_run cfg_session0" by (simp add: cfg_session0_def)
  with u have "\<exists>s' e'. timer_runs (\<lambda>_. None) 5 2 (?s, env2) = Some (s', e')"
    by (simp add: s timer_enabled_def timer_handler_def updateMissionInfo_def numeral_2_eq_2 cancelled_def)
  then obtain s' e' where r: "timer_runs (\<lambda>_. None) 5 2 (?s, env2) = Some (s', e')" by blast
  have "k_timer ?s = Some 3" "k_waiting ?s" "k_ready ?s = 0" "k_run ?s" "length (k_data_write ?s) = MAX_PACKET_LEN"
    by (simp_all add: s) (simp_all add: cfg_session0_def)
  from one_request_keeps_period [OF this r] r show ?thesis by simp
qed

corollary failure_ends_updates_witness:
  "\<exists>s2. timer_handler (\<lambda>_. None)
      (fst (cfg_handle_write (Some ''reset'') (updateTimerStart 0 cfg_session0) env2), env2) = Some (s2, env2) \<and>
    (\<forall>now. \<not> timer_enabled now s2)"
  by (rule failure_ends_updates) (simp_all add: updateTimerStart_def cancelled_def cfg_session0_def)

end
