(* ===== verification/SqlFacts.thy ===== *)
theory SqlFacts
  imports MissionConfig MissionMapFacts ProtocolFacts
begin

text \<open>
  What is proved of the database access: loading keeps the missions well-formed whatever the tables
  hold, a stored camera is loaded as it was stored, and the statements that are built.
\<close>

section \<open>Loading keeps the invariant\<close>

definition sql_inv :: "sql_state \<Rightarrow> bool" where
  "sql_inv st \<longleftrightarrow> world_inv (q_world st) \<and> empty_mission (q_mission st)"

lemma sql_inv_simps [simp]:
  "sql_inv (st\<lparr>q_SDC := a\<rparr>) = sql_inv st" "sql_inv (st\<lparr>q_capdev := b\<rparr>) = sql_inv st"
  "sql_inv (st\<lparr>q_preset := c\<rparr>) = sql_inv st" "sql_inv (st\<lparr>q_log := d\<rparr>) = sql_inv st"
  by (simp_all add: sql_inv_def)

lemma sql_inv_world:
  "sql_inv st \<Longrightarrow> world_inv w \<Longrightarrow> q_mission st' = q_mission st \<Longrightarrow> q_world st' = w \<Longrightarrow> sql_inv st'"
  by (simp add: sql_inv_def)

lemma add_loaded_SDC_inv:
  assumes "sql_inv st" and "add_loaded_SDC raw st = Some st'"
  shows "sql_inv st'"
proof -
  from assms(1) have w0: "world_inv (q_world st)" by (simp add: sql_inv_def)
  from assms(2) obtain r w where a: "MissionAddSDC raw (q_SDC st) (q_world st) = Some (r, w)"
    by (auto simp: add_loaded_SDC_def bind_eq_Some_conv)
  from MissionAddSDC_inv [OF w0 a] have w: "world_inv w" .
  show ?thesis
  proof (cases "r = - 1")
    case True
    with assms(2) a obtain cams un sdc where u: "addSDC raw (w_cams w) (w_unstart w) sdc = Some (cams, un)"
      and st': "q_world st' = w\<lparr>w_cams := cams, w_unstart := un\<rparr>" "q_mission st' = q_mission st"
      by (auto simp: add_loaded_SDC_def bind_eq_Some_conv Let_def)
    from addSDC_inv [OF unstart_wf [OF w] u] have "world_inv (w\<lparr>w_cams := cams, w_unstart := un\<rparr>)"
      by (intro world_inv_unstart [OF w]) auto
    with st' assms(1) show ?thesis by (simp add: sql_inv_def)
  next
    case False
    with assms(2) a have "st' = st\<lparr>q_world := w\<rparr>" by (simp add: add_loaded_SDC_def Let_def)
    with w assms(1) show ?thesis by (simp add: sql_inv_def)
  qed
qed

lemma add_loaded_CapDev_inv:
  assumes "sql_inv st" and "add_loaded_CapDev st = Some st'"
  shows "sql_inv st'"
proof -
  from assms(1) have w0: "world_inv (q_world st)" by (simp add: sql_inv_def)
  from assms(2) obtain r w where a: "MissionAddCapDev (q_capdev st) (q_world st) = Some (r, w)"
    by (auto simp: add_loaded_CapDev_def bind_eq_Some_conv)
  from MissionAddCapDev_inv [OF w0 a] have w: "world_inv w" .
  show ?thesis
  proof (cases "r = - 1")
    case True
    with assms(2) a obtain un d where u: "addCapDev (w_unstart w) d = Some un"
      and st': "q_world st' = w\<lparr>w_unstart := un\<rparr>" "q_mission st' = q_mission st"
      by (auto simp: add_loaded_CapDev_def bind_eq_Some_conv Let_def)
    from addCapDev_inv [OF unstart_wf [OF w] u] world_inv_unstart [OF w, of "w_cams w" un]
    have "world_inv (w\<lparr>w_unstart := un\<rparr>)" by simp
    with st' assms(1) show ?thesis by (simp add: sql_inv_def)
  next
    case False
    with assms(2) a have "st' = st\<lparr>q_world := w\<rparr>" by (simp add: add_loaded_CapDev_def Let_def)
    with w assms(1) show ?thesis by (simp add: sql_inv_def)
  qed
qed

lemma add_loaded_preset_inv:
  assumes "sql_inv st" and "add_loaded_preset st = Some st'"
  shows "sql_inv st'"
proof -
  from assms(1) have w0: "world_inv (q_world st)" by (simp add: sql_inv_def)
  from assms(2) obtain r w where a: "MissionAddPreset (q_preset st) (q_world st) = Some (r, w)"
    by (auto simp: add_loaded_preset_def bind_eq_Some_conv)
  from MissionAddPreset_inv [OF w0 a] have w: "world_inv w" .
  show ?thesis
  proof (cases "r = - 1")
    case True
    with assms(2) a obtain q cams where u: "addPreset (w_cams w) (w_unstart w) (q_preset st) = Some (q, cams)"
      and st': "st' = st\<lparr>q_world := w\<lparr>w_cams := cams\<rparr>\<rparr>"
      by (auto simp: add_loaded_preset_def bind_eq_Some_conv)
    from addPreset_length [OF u] have "world_inv (w\<lparr>w_cams := cams\<rparr>)" by (intro world_inv_cams [OF w]) simp
    with st' assms(1) show ?thesis by (simp add: sql_inv_def)
  next
    case False
    with assms(2) a have "st' = st\<lparr>q_world := w\<rparr>" by (simp add: add_loaded_preset_def)
    with w assms(1) show ?thesis by (simp add: sql_inv_def)
  qed
qed

text \<open>
  An outcome is fine when it faults or keeps the invariant; the rules follow the shape of the
  callback, so that no column name is ever compared.
\<close>

abbreviation sql_ok :: "sql_state option \<Rightarrow> bool" where
  "sql_ok \<equiv> yields sql_inv"

lemma add_loaded_ok:
  "sql_inv st \<Longrightarrow> sql_ok (add_loaded_SDC raw st)"
  "sql_inv st \<Longrightarrow> sql_ok (add_loaded_CapDev st)"
  "sql_inv st \<Longrightarrow> sql_ok (add_loaded_preset st)"
  by (auto simp: yields_def intro: add_loaded_SDC_inv add_loaded_CapDev_inv add_loaded_preset_inv)

lemmas sql_ok_intros = yields_rules(1,2) yields_any_map yields_any_bind yields_case add_loaded_ok

lemma column_SDCs_ok: "sql_inv st \<Longrightarrow> sql_ok (column_SDCs lc raw n v st)"
  unfolding column_SDCs_def by (intro sql_ok_intros; simp)

lemma column_missions_ok:
  assumes "sql_inv st"
  shows "sql_ok (column_missions lc n v st)"
proof -
  have "sql_inv (st\<lparr>q_mission := (q_mission st)\<lparr>ms_missionNum := x\<rparr>,
      q_world := MissionAdd ((q_mission st)\<lparr>ms_missionNum := x\<rparr>) (q_world st)\<rparr>)" for x
  proof -
    have e: "empty_mission ((q_mission st)\<lparr>ms_missionNum := x\<rparr>)"
      using assms by (simp add: sql_inv_def empty_mission_def)
    with MissionAdd_inv [OF _ empty_mission_wf [OF e], of "q_world st"] assms
    show ?thesis by (simp add: sql_inv_def)
  qed
  with assms show ?thesis
    unfolding column_missions_def Let_def by (intro sql_ok_intros) simp_all
qed

lemma column_capDevs_ok: "sql_inv st \<Longrightarrow> sql_ok (column_capDevs lc n v st)"
  unfolding column_capDevs_def by (intro sql_ok_intros; simp)

lemma column_preset_ok: "sql_inv st \<Longrightarrow> sql_ok (column_preset lc n v st)"
  unfolding column_preset_def by (intro sql_ok_intros; simp)

lemma callback_ok: "sql_inv st \<Longrightarrow> sql_ok (callback lc raw tab cols st)"
proof (induction cols arbitrary: st)
  case Nil
  then show ?case by (simp add: yields_def)
next
  case (Cons c cols)
  obtain n v where c: "c = (n, v)" by fastforce
  show ?case
    unfolding c callback.simps
    by (intro yields_any_bind yields_rules(3) [OF _ Cons.IH] yields_rules(2) yields_rules(1) column_SDCs_ok
        column_missions_ok column_capDevs_ok column_preset_ok Cons.prems)
qed

lemma null_callback_ok: "sql_inv st \<Longrightarrow> sql_ok (null_callback cols st)"
  by (cases cols) (simp_all add: yields_def)

lemma exec_ok:
  assumes "sql_inv st" and "\<And>r st. sql_inv st \<Longrightarrow> sql_ok (cb r st)"
  shows "sql_ok (exec db c cb sql st)"
proof -
  have "sql_ok (fold (\<lambda>r s. Option.bind s (cb r)) rows x)" if "sql_ok x" for rows x
    using that
  proof (induction rows arbitrary: x)
    case Nil
    then show ?case by simp
  next
    case (Cons r rows)
    have "sql_ok (Option.bind x (cb r))" by (rule yields_rules(3) [OF Cons.prems assms(2)])
    from Cons.IH [OF this] show ?case by simp
  qed
  with assms(1) show ?thesis by (simp add: exec_def yields_rules(1))
qed

lemma createTable_ok: "sql_inv st \<Longrightarrow> sql_ok (createTable db c st)"
  unfolding createTable_def by (intro yields_rules(3) exec_ok null_callback_ok)

lemma select_ok: "sql_inv st \<Longrightarrow> sql_ok (select db lc raw c tab st)"
  unfolding select_def by (intro exec_ok callback_ok)

lemma DBloadConfig_ok:
  assumes "sql_inv st"
  shows "sql_ok (DBloadConfig db lc raw f st)"
proof -
  obtain k c where "initConnection db (setParam f connection0) = (k, c)" by fastforce
  with assms show ?thesis
    unfolding DBloadConfig_def Let_def
    by (simp only: prod.case) (intro yields_rules(3) createTable_ok select_ok yields_any_bind yields_rules(1))
qed

text \<open>
  C26: whatever rows the four tables report, starting the program leaves the missions well-formed
  and with their numbers as keys, or faults; and it faults unless some mission has the number 0,
  which the last lines print without looking whether it was found.
\<close>

theorem startup_loads_wellformed:
  assumes "w_missions (q_world st) = []" and "empty_mission (w_unstart (q_world st))"
    and "empty_mission (q_mission st)" and "DBloadConfig db lc raw f st = Some st'"
  shows "world_inv (q_world st') \<and> MissionGet 0 (q_world st') \<noteq> None"
proof -
  have "sql_inv st"
    using assms(1-3) reachable_world_inv [OF reachable.start] by (simp add: sql_inv_def)
  from DBloadConfig_ok [OF this] assms(4) have "world_inv (q_world st')"
    by (auto simp: yields_def sql_inv_def)
  moreover from assms(4) have "MissionGet 0 (q_world st') \<noteq> None"
    by (auto simp: DBloadConfig_def bind_eq_Some_conv split: prod.splits)
  ultimately show ?thesis ..
qed

definition st0 :: sql_state where
  "st0 = \<lparr>q_log = [], q_mission = mission0 0, q_capdev = dev0, q_SDC = cam0, q_preset = preset0,
     q_world = \<lparr>w_cams = [], w_missions = [], w_unstart = mission0 0, w_results = []\<rparr>\<rparr>"

definition db0 :: sqlite where
  "db0 = \<lparr>sq_open = \<lambda>_. True, sq_rows = \<lambda>log sql.
     if sql = ''SELECT * from missions'' then [[(''ID'', Some ''0''), (''SDC_ID'', Some ''0'')]] else []\<rparr>"

definition lc0 :: parser where
  "lc0 = \<lparr>lc_int = \<lambda>_. Some 0, lc_uint = \<lambda>_. Some 0, lc_float = \<lambda>_. Some 0\<rparr>"

section \<open>A camera is loaded as it was stored\<close>

text \<open>The row that \<open>insert_SDC\<close> stores: the columns of the table in their order.\<close>

definition SDC_row :: "host \<Rightarrow> SDCcfg \<Rightarrow> row" where
  "SDC_row h cfg =
     [(''camNum'', Some (c_str (sc_camNum cfg))), (''missionID'', Some (decimal h (sc_missionNum cfg))),
      (''IP'', Some (c_str (sc_IP cfg))), (''port'', Some (decimal h (sc_port cfg))),
      (''usrName'', Some (c_str (sc_m_usrName cfg))), (''pwd'', Some (c_str (sc_m_pwd cfg))),
      (''RTSPaddr'', Some (c_str (sc_RTSPaddr cfg))), (''brandName'', Some (c_str (sc_brandName cfg))),
      (''productType'', Some (c_str (sc_productType cfg))),
      (''presetNum'', Some (h_lexical_cast h (uint (sc_presetTotal cfg))))]"

text \<open>The static camera after the row: the presets are those of another table.\<close>

definition loaded_SDC :: "SDCcfg \<Rightarrow> u32 \<Rightarrow> CSpeedDomeCam \<Rightarrow> CSpeedDomeCam" where
  "loaded_SDC cfg t c = c\<lparr>dc_m_sdcCfg := (dc_m_sdcCfg c)\<lparr>sc_camNum := sc_camNum cfg,
       sc_missionNum := sc_missionNum cfg, sc_IP := sc_IP cfg, sc_port := sc_port cfg,
       sc_m_usrName := sc_m_usrName cfg, sc_m_pwd := sc_m_pwd cfg, sc_RTSPaddr := sc_RTSPaddr cfg,
       sc_brandName := sc_brandName cfg, sc_productType := sc_productType cfg\<rparr>,
     dc_presetTableID := t\<rparr>"

lemma c_str_no_nul: "no_nul s \<Longrightarrow> c_str (s @ t) = s @ c_str t"
  by (simp add: c_str_def no_nul_def)

lemma c_str_no_nul_id [simp]: "no_nul s \<Longrightarrow> c_str s = s"
  using c_str_no_nul [of s "[]"] by (simp add: c_str_def)

definition storable :: "host \<Rightarrow> parser \<Rightarrow> SDCcfg \<Rightarrow> bool" where
  "storable h lc cfg \<longleftrightarrow>
     no_nul (sc_camNum cfg) \<and> no_nul (sc_IP cfg) \<and> no_nul (sc_m_usrName cfg) \<and> no_nul (sc_m_pwd cfg) \<and>
     no_nul (sc_RTSPaddr cfg) \<and> no_nul (sc_brandName cfg) \<and> no_nul (sc_productType cfg) \<and>
     lc_int lc (decimal h (sc_missionNum cfg)) = Some (sc_missionNum cfg) \<and>
     lc_int lc (decimal h (sc_port cfg)) = Some (sc_port cfg) \<and>
     lc_int lc (h_lexical_cast h (uint (sc_presetTotal cfg))) = Some (ucast (sc_presetTotal cfg))"

lemma callback_Nil: "callback lc raw tab [] = Some"
  by (rule ext) simp

lemma callback_SDC_row:
  assumes "storable h lc cfg"
  shows "callback lc raw ''SDCs'' (SDC_row h cfg) st =
    add_loaded_SDC raw (st\<lparr>q_SDC := loaded_SDC cfg (ucast (sc_presetTotal cfg)) (q_SDC st)\<rparr>)"
  using assms by (simp add: SDC_row_def column_SDCs_def storable_def loaded_SDC_def callback_Nil)

definition same_settings :: "SDCcfg \<Rightarrow> SDCcfg \<Rightarrow> bool" where
  "same_settings a b \<longleftrightarrow>
     sc_camNum a = sc_camNum b \<and> sc_missionNum a = sc_missionNum b \<and> sc_IP a = sc_IP b \<and>
     sc_port a = sc_port b \<and> sc_m_usrName a = sc_m_usrName b \<and> sc_m_pwd a = sc_m_pwd b \<and>
     sc_RTSPaddr a = sc_RTSPaddr b \<and> sc_brandName a = sc_brandName b \<and>
     sc_productType a = sc_productType b"

lemma fresh_loaded:
  "same_settings (cfg\<lparr>sc_missionNum := num\<rparr>)
     (dc_m_sdcCfg (fresh_SDC raw (upd_cfg (\<lambda>c. c\<lparr>sc_missionNum := num\<rparr>) (loaded_SDC cfg t c)))) \<and>
   sc_presetTotal (dc_m_sdcCfg (fresh_SDC raw (upd_cfg (\<lambda>c. c\<lparr>sc_missionNum := num\<rparr>) (loaded_SDC cfg t c))))
     = sc_presetTotal (dc_m_sdcCfg c)"
  by (simp add: same_settings_def fresh_SDC_def copy_SDC_cfg_def loaded_SDC_def)

lemma fresh_loaded_same:
  "same_settings cfg (dc_m_sdcCfg (fresh_SDC raw (loaded_SDC cfg t c))) \<and>
   sc_presetTotal (dc_m_sdcCfg (fresh_SDC raw (loaded_SDC cfg t c))) = sc_presetTotal (dc_m_sdcCfg c)"
  by (simp add: same_settings_def fresh_SDC_def copy_SDC_cfg_def loaded_SDC_def)

lemma loaded_SDC_missionNum [simp]: "sc_missionNum (dc_m_sdcCfg (loaded_SDC cfg t c)) = sc_missionNum cfg"
  by (simp add: loaded_SDC_def)

lemma mission_at_set_mission:
  "i < length (w_missions w) \<Longrightarrow> mission_at i (set_mission i ms w) = ms"
  by (simp add: mission_at_def set_mission_def)

text \<open>
  A camera is loaded as it was stored. The row of a camera whose strings hold no NUL, in a
  mission that exists and has room, appends to that mission a camera with all the settings of the
  stored one. The number of its presets is what the static object of the loader holds, not the
  stored number.
\<close>

theorem stored_camera_loaded:
  assumes "world_inv (q_world st)" and "storable h lc cfg"
    and "find_mission (sc_missionNum cfg) (q_world st) = Some i"
    and "unat (ms_totalSpdDomeCam (mission_at i (q_world st))) < MAX_SDC"
  shows "\<exists>st' c. callback lc raw ''SDCs'' (SDC_row h cfg) st = Some st' \<and>
    cam_list (w_cams (q_world st'), mission_at i (q_world st')) =
      cam_list (w_cams (q_world st), mission_at i (q_world st)) @ [c] \<and>
    same_settings cfg (dc_m_sdcCfg c) \<and>
    sc_presetTotal (dc_m_sdcCfg c) = sc_presetTotal (dc_m_sdcCfg (q_SDC st))"
proof -
  let ?w = "q_world st" and ?sdc = "loaded_SDC cfg (ucast (sc_presetTotal cfg)) (q_SDC st)"
  have i: "i < length (w_missions ?w)" using find_mission_Some [OF assms(3)] by simp
  have "wf_cams (w_cams ?w, mission_at i ?w)"
    using mission_at_inv [OF assms(1) i] by (simp add: wf_mission_def)
  from addSDC_list [OF this assms(4), of raw ?sdc] obtain ms where
    a: "addSDC raw (w_cams ?w) (mission_at i ?w) ?sdc = Some (w_cams ?w @ [fresh_SDC raw ?sdc], ms)"
    and l: "cam_list (w_cams ?w @ [fresh_SDC raw ?sdc], ms) =
      cam_list (w_cams ?w, mission_at i ?w) @ [fresh_SDC raw ?sdc]" by auto
  from a assms(3) have "callback lc raw ''SDCs'' (SDC_row h cfg) st = Some (st\<lparr>q_SDC := ?sdc,
      q_world := set_mission i ms (?w\<lparr>w_cams := w_cams ?w @ [fresh_SDC raw ?sdc]\<rparr>)\<rparr>)"
    by (simp add: callback_SDC_row [OF assms(2)] add_loaded_SDC_def MissionAddSDC_def)
  with l i fresh_loaded_same [where cfg = cfg and raw = raw and t = "ucast (sc_presetTotal cfg)"]
  show ?thesis
    by (auto simp: mission_at_set_mission set_mission_def [of _ _ "_\<lparr>w_cams := _\<rparr>"] mission_at_def)
qed

text \<open>
  A stored camera of a mission that no longer exists is loaded among the ungrouped cameras,
  with -1 for its mission's number.
\<close>

theorem stored_camera_ungrouped:
  assumes "world_inv (q_world st)" and "storable h lc cfg"
    and "find_mission (sc_missionNum cfg) (q_world st) = None"
    and "unat (ms_totalSpdDomeCam (w_unstart (q_world st))) < MAX_SDC"
  shows "\<exists>st' c. callback lc raw ''SDCs'' (SDC_row h cfg) st = Some st' \<and>
    w_missions (q_world st') = w_missions (q_world st) \<and>
    cam_list (w_cams (q_world st'), w_unstart (q_world st')) =
      cam_list (w_cams (q_world st), w_unstart (q_world st)) @ [c] \<and>
    same_settings (cfg\<lparr>sc_missionNum := - 1\<rparr>) (dc_m_sdcCfg c)"
proof -
  let ?w = "q_world st"
  let ?sdc = "upd_cfg (\<lambda>c. c\<lparr>sc_missionNum := - 1\<rparr>) (loaded_SDC cfg (ucast (sc_presetTotal cfg)) (q_SDC st))"
  have "wf_cams (w_cams ?w, w_unstart ?w)"
    using unstart_wf [OF assms(1)] by (simp add: wf_mission_def)
  from addSDC_list [OF this assms(4), of raw ?sdc] obtain ms where
    a: "addSDC raw (w_cams ?w) (w_unstart ?w) ?sdc = Some (w_cams ?w @ [fresh_SDC raw ?sdc], ms)"
    and l: "cam_list (w_cams ?w @ [fresh_SDC raw ?sdc], ms) =
      cam_list (w_cams ?w, w_unstart ?w) @ [fresh_SDC raw ?sdc]" by auto
  from a assms(3) have "callback lc raw ''SDCs'' (SDC_row h cfg) st = Some (st\<lparr>q_SDC := ?sdc,
      q_world := ?w\<lparr>w_cams := w_cams ?w @ [fresh_SDC raw ?sdc], w_unstart := ms\<rparr>\<rparr>)"
    by (simp add: callback_SDC_row [OF assms(2)] add_loaded_SDC_def MissionAddSDC_def)
  with l fresh_loaded [where cfg = cfg and num = "- 1" and c = "q_SDC st" and raw = raw
      and t = "ucast (sc_presetTotal cfg)"] show ?thesis
    by auto
qed

section \<open>The statements\<close>

lemma length_quoted [simp]: "length (quoted s) = Suc (Suc (length (c_str s)))"
  by (simp add: quoted_def quote_def)

text \<open>
  The statement that stores a camera is written past its buffer exactly when its settings are
  too long: the seven strings, which come from the client, and the three numbers take more than 883
  characters.
\<close>

theorem insert_SDC_sql_bound:
  "insert_SDC_sql h cfg = None \<longleftrightarrow>
     883 < length (c_str (sc_camNum cfg)) + length (c_str (sc_IP cfg)) + length (c_str (sc_m_usrName cfg)) +
       length (c_str (sc_m_pwd cfg)) + length (c_str (sc_RTSPaddr cfg)) +
       length (c_str (sc_brandName cfg)) + length (c_str (sc_productType cfg)) +
       length (decimal h (sc_missionNum cfg)) + length (decimal h (sc_port cfg)) +
       length (h_lexical_cast h (uint (sc_presetTotal cfg)))"
  by (auto simp: insert_SDC_sql_def sprintf_sql_def Let_def)

text \<open>
  The strings are not escaped, so the statement does not say where a string ends: the text
  \<open>', '\<close> moves from one setting into the next and the statement stays the same.
\<close>

theorem insert_SDC_sql_not_injective:
  assumes "no_nul x" and "no_nul y"
  shows "insert_SDC_sql h (cfg\<lparr>sc_RTSPaddr := x, sc_brandName := y @ quote @ '', '' @ quote @ z\<rparr>) =
    insert_SDC_sql h (cfg\<lparr>sc_RTSPaddr := x @ quote @ '', '' @ quote @ y, sc_brandName := z\<rparr>)"
proof -
  have q: "no_nul (s @ quote @ '', '' @ quote)" if "no_nul s" for s
    using that by (auto simp: no_nul_def quote_def ord8_def)
  have "c_str (s @ quote @ '', '' @ quote @ t) = s @ quote @ '', '' @ quote @ c_str t" if "no_nul s" for s t
    using c_str_no_nul [OF q [OF that], of t] by simp
  with assms show ?thesis by (simp add: insert_SDC_sql_def quoted_def sprintf_sql_def Let_def)
qed

corollary insert_SDC_sql_not_injective_witness:
  "insert_SDC_sql host0 (cfg0\<lparr>sc_RTSPaddr := ''a'', sc_brandName := ''b'' @ quote @ '', '' @ quote @ ''c''\<rparr>) =
    insert_SDC_sql host0 (cfg0\<lparr>sc_RTSPaddr := ''a'' @ quote @ '', '' @ quote @ ''b'', sc_brandName := ''c''\<rparr>)"
  by (rule insert_SDC_sql_not_injective) (simp_all add: no_nul_def ord8_def)

section \<open>Storing a camera\<close>

lemma exec_silent:
  assumes "cn_open c" and "\<And>log. sq_rows db log sql = []"
  shows "exec db c cb sql st = Some (st\<lparr>q_log := q_log st @ [sql]\<rparr>)"
  using assms by (simp add: exec_def)

text \<open>
  The hypothesis on the database: an \<open>INSERT\<close> or an \<open>UPDATE\<close> reports no rows. As strings are not
  escaped it presumes that none of them ends its literal and starts another statement.
\<close>

definition silent :: "sqlite \<Rightarrow> string \<Rightarrow> bool" where
  "silent db k \<longleftrightarrow> (\<forall>log sql. take 6 sql = k \<longrightarrow> sq_rows db log sql = [])"

lemma exec_statement:
  assumes "cn_open c" and "silent db k" and "take 6 sql = k"
  shows "exec db c cb sql st = Some (st\<lparr>q_log := q_log st @ [sql]\<rparr>)"
  by (rule exec_silent [OF assms(1)]) (use assms(2,3) in \<open>simp add: silent_def\<close>)

lemma insert_statements:
  "insert_SDC_sql h sdc = Some sql \<Longrightarrow> take 6 sql = ''INSERT''"
  "insert_preset_sql h camNum p = Some sql \<Longrightarrow> take 6 sql = ''INSERT''"
  by (auto simp: insert_SDC_sql_def insert_preset_sql_def preset_sql_columns_def sprintf_sql_def Let_def
      split: if_splits)

text \<open>The statements of the presets \<open>0\<close> to \<open>n - 1\<close>, with the fixed rectangle and scale\<close>

definition preset_sqls :: "host \<Rightarrow> SDCcfg \<Rightarrow> nat \<Rightarrow> string list" where
  "preset_sqls h sdc n =
     map (\<lambda>i. the (insert_preset_sql h (sc_camNum sdc) (fixed_rect (sc_missionPreset sdc i)))) [0..<n]"

definition fixed_presets :: "nat \<Rightarrow> SDCcfg \<Rightarrow> SDCcfg" where
  "fixed_presets n sdc = sdc\<lparr>sc_missionPreset :=
     (\<lambda>i. if i < n then fixed_rect (sc_missionPreset sdc i) else sc_missionPreset sdc i)\<rparr>"

lemma insert_preset_step_silent:
  assumes "cn_open c" and "silent db ''INSERT''"
    and "insert_preset_sql h (sc_camNum sdc) (fixed_rect (sc_missionPreset sdc n)) = Some sql"
  shows "insert_preset_step h db c n (fixed_presets n sdc, st) =
    Some (fixed_presets (Suc n) sdc, st\<lparr>q_log := q_log st @ [sql]\<rparr>)"
proof -
  have "(fixed_presets n sdc)\<lparr>sc_missionPreset :=
      (sc_missionPreset (fixed_presets n sdc))(n := fixed_rect (sc_missionPreset sdc n))\<rparr>
      = fixed_presets (Suc n) sdc"
    by (auto simp: fixed_presets_def fun_eq_iff less_Suc_eq)
  moreover have "sc_missionPreset (fixed_presets n sdc) n = sc_missionPreset sdc n"
    "sc_camNum (fixed_presets n sdc) = sc_camNum sdc" by (simp_all add: fixed_presets_def)
  ultimately show ?thesis
    using assms(3) by (simp add: insert_preset_step_def exec_statement [OF assms(1,2) insert_statements(2) [OF assms(3)]])
qed

lemma insert_presets_loop:
  assumes "cn_open c" and "silent db ''INSERT''"
    and "\<And>i. i < n \<Longrightarrow> insert_preset_sql h (sc_camNum sdc) (fixed_rect (sc_missionPreset sdc i)) \<noteq> None"
  shows "for_loop 0 n (insert_preset_step h db c) (sdc, st) =
    Some (fixed_presets n sdc, st\<lparr>q_log := q_log st @ preset_sqls h sdc n\<rparr>)"
  using assms(3)
proof (induction n)
  case 0
  then show ?case by (simp add: fixed_presets_def preset_sqls_def)
next
  case (Suc n)
  then obtain sql where
    sql: "insert_preset_sql h (sc_camNum sdc) (fixed_rect (sc_missionPreset sdc n)) = Some sql" by blast
  from Suc have "for_loop 0 n (insert_preset_step h db c) (sdc, st) =
    Some (fixed_presets n sdc, st\<lparr>q_log := q_log st @ preset_sqls h sdc n\<rparr>)" by simp
  with sql insert_preset_step_silent [OF assms(1,2) sql] show ?case
    by (simp add: for_loop_snoc preset_sqls_def del: for_loop.simps)
qed

lemma insert_SDC_silent:
  assumes "cn_open c" and "silent db ''INSERT''"
    and "insert_SDC_sql h sdc = Some sql"
    and "\<And>i. i < unat (sc_presetTotal sdc) \<Longrightarrow>
      insert_preset_sql h (sc_camNum sdc) (fixed_rect (sc_missionPreset sdc i)) \<noteq> None"
  shows "insert_SDC h db c sdc st = Some (fixed_presets (unat (sc_presetTotal sdc)) sdc,
    st\<lparr>q_log := q_log st @ sql # preset_sqls h sdc (unat (sc_presetTotal sdc))\<rparr>)"
proof -
  let ?st = "st\<lparr>q_log := q_log st @ [sql]\<rparr>"
  have "insert_SDC h db c sdc st = for_loop 0 (unat (sc_presetTotal sdc)) (insert_preset_step h db c) (sdc, ?st)"
    by (simp add: insert_SDC_def assms(3) exec_statement [OF assms(1,2) insert_statements(1) [OF assms(3)]])
  with insert_presets_loop [OF assms(1,2,4), of "unat (sc_presetTotal sdc)" ?st] show ?thesis by simp
qed

text \<open>
  Storing a camera logs one statement for it and one for each preset, in order, and changes the
  caller's object: the rectangle and the scale of every preset are overwritten with constants,
  whatever the client had sent. This needs that an \<open>INSERT\<close> reports no rows and that the
  statements fit their buffer.
\<close>

theorem insert_SDC_overwrites_presets:
  assumes "cn_open c" and "silent db ''INSERT''"
    and "insert_SDC_sql h sdc = Some sql"
    and "\<And>i. i < unat (sc_presetTotal sdc) \<Longrightarrow>
      insert_preset_sql h (sc_camNum sdc) (fixed_rect (sc_missionPreset sdc i)) \<noteq> None"
  shows "\<exists>sdc'. insert_SDC h db c sdc st =
      Some (sdc', st\<lparr>q_log := q_log st @ sql # preset_sqls h sdc (unat (sc_presetTotal sdc))\<rparr>) \<and>
    sdc' = sdc\<lparr>sc_missionPreset := sc_missionPreset sdc'\<rparr> \<and>
    (\<forall>i. sc_missionPreset sdc' i =
      (if i < unat (sc_presetTotal sdc)
       then (sc_missionPreset sdc i)\<lparr>pr_rect := \<lparr>rc_left = 178, rc_top = 164, rc_right = 1787, rc_bottom = 876\<rparr>,
         pr_illparkpara := (pr_illparkpara (sc_missionPreset sdc i))\<lparr>ip_fScaleScreen := 0x40000000\<rparr>\<rparr>
       else sc_missionPreset sdc i))"
  using insert_SDC_silent [OF assms] by (auto simp: fixed_presets_def fixed_rect_def)

section \<open>Witnesses\<close>

lemma startup0: "\<exists>st'. DBloadConfig db0 lc0 cam0 [] st0 = Some st'"
  by (simp add: DBloadConfig_def initConnection_def setParam_def connection0_def createTable_def
      exec_def select_def db0_def st0_def create_SDCs_def create_missions_def create_capDevs_def
      create_preset_def column_missions_def lc0_def MissionAdd_def MissionGet_def Let_def)

corollary startup_loads_wellformed_witness:
  "\<exists>st'. DBloadConfig db0 lc0 cam0 [] st0 = Some st' \<and>
    world_inv (q_world st') \<and> MissionGet 0 (q_world st') \<noteq> None"
proof -
  from startup0 obtain st' where "DBloadConfig db0 lc0 cam0 [] st0 = Some st'" by blast
  with startup_loads_wellformed [OF _ _ _ this] show ?thesis
    by (simp add: st0_def empty_mission_def mission0_def)
qed

definition lc1 :: parser where
  "lc1 = \<lparr>lc_int = map_of [(''3'', 3), (''8000'', 8000), (''2'', 2)],
     lc_uint = \<lambda>_. None, lc_float = \<lambda>_. None\<rparr>"

lemma dec_samples: "dec 3 = [CHR 0x33]" "dec 8000 = [CHR 0x38, CHR 0x30, CHR 0x30, CHR 0x30]"
  "dec 2 = [CHR 0x32]"
  by (simp_all add: dec.simps char_of_def bit_0)

lemma storable0: "storable host0 lc1 cfg0"
  by (simp add: storable_def no_nul_def cfg0_def ord8_def decimal_def host0_def lc1_def dec_samples)

definition st1 :: sql_state where
  "st1 = st0\<lparr>q_world := (q_world st0)\<lparr>w_missions := [(3, mission0 0)]\<rparr>\<rparr>"

lemma world_inv1: "world_inv (q_world st1)" "world_inv (q_world st0)"
  by (simp_all add: world_inv_def st1_def st0_def wf_mission_def wf_cams_def wf_devs_def mission0_def)

corollary stored_camera_loaded_witness:
  "\<exists>st' c. callback lc1 cam0 ''SDCs'' (SDC_row host0 cfg0) st1 = Some st' \<and>
    cam_list (w_cams (q_world st'), mission_at 0 (q_world st')) =
      cam_list (w_cams (q_world st1), mission_at 0 (q_world st1)) @ [c] \<and>
    same_settings cfg0 (dc_m_sdcCfg c) \<and>
    sc_presetTotal (dc_m_sdcCfg c) = sc_presetTotal (dc_m_sdcCfg (q_SDC st1))"
  by (rule stored_camera_loaded [OF world_inv1(1) storable0])
    (simp_all add: find_mission_def st1_def st0_def cfg0_def mission0_def mission_at_def MAX_SDC_def)

corollary stored_camera_ungrouped_witness:
  "\<exists>st' c. callback lc1 cam0 ''SDCs'' (SDC_row host0 cfg0) st0 = Some st' \<and>
    w_missions (q_world st') = w_missions (q_world st0) \<and>
    cam_list (w_cams (q_world st'), w_unstart (q_world st')) =
      cam_list (w_cams (q_world st0), w_unstart (q_world st0)) @ [c] \<and>
    same_settings (cfg0\<lparr>sc_missionNum := - 1\<rparr>) (dc_m_sdcCfg c)"
  by (rule stored_camera_ungrouped [OF world_inv1(2) storable0])
    (simp_all add: find_mission_def st0_def mission0_def MAX_SDC_def)

lemma length_commas: "length (commas xs) = sum_list (map length xs) + (length xs - 1)"
  by (induction xs rule: commas.induct) auto

lemma sum_concat: "sum_list (concat xss) = sum_list (map sum_list (xss :: nat list list))"
  by (induction xss) auto

lemma insert_fits0:
  "insert_SDC_sql host0 cfg0 \<noteq> None"
  "insert_preset_sql host0 (sc_camNum cfg0) (fixed_rect preset0) \<noteq> None"
proof -
  show "insert_SDC_sql host0 cfg0 \<noteq> None"
    by (simp add: insert_SDC_sql_def sprintf_sql_def Let_def cfg0_def decimal_def host0_def dec.simps c_str_def ord8_def)
  have "length (preset_sql_values host0 (sc_camNum cfg0) (fixed_rect preset0)) < 400"
    by (simp add: length_commas cfg0_def decimal_def host0_def dec.simps c_str_def ord8_def preset_sql_values_def
      fixed_rect_def preset0_def ip0_def Let_def length_concat map_concat sum_list_replicate sum_concat comp_def)
  moreover have "length preset_sql_columns < 600" by (simp add: preset_sql_columns_def)
  ultimately show "insert_preset_sql host0 (sc_camNum cfg0) (fixed_rect preset0) \<noteq> None"
    by (simp add: insert_preset_sql_def sprintf_sql_def Let_def)
qed

lemma silent0: "silent db0 ''INSERT''" "silent db0 ''UPDATE''" "sq_open db0 f"
  by (auto simp: silent_def db0_def)

corollary insert_SDC_overwrites_presets_witness:
  "\<exists>sql sdc'. insert_SDC host0 db0 \<lparr>cn_dbName = [], cn_open = True\<rparr> cfg0 st0 =
      Some (sdc', st0\<lparr>q_log := q_log st0 @ sql # preset_sqls host0 cfg0 (unat (sc_presetTotal cfg0))\<rparr>) \<and>
    pr_rect (sc_missionPreset sdc' 0) \<noteq> pr_rect (sc_missionPreset cfg0 0)"
proof -
  obtain sql where s: "insert_SDC_sql host0 cfg0 = Some sql" using insert_fits0(1) by blast
  have p: "insert_preset_sql host0 (sc_camNum cfg0) (fixed_rect (sc_missionPreset cfg0 i)) \<noteq> None" for i
    using insert_fits0(2) by (simp add: cfg0_def)
  have "unat (sc_presetTotal cfg0) = 2" by (simp add: cfg0_def)
  with insert_SDC_overwrites_presets [OF _ silent0(1) s p, of "\<lparr>cn_dbName = [], cn_open = True\<rparr>" st0]
  show ?thesis by (fastforce simp: cfg0_def preset0_def)
qed

end
