(* ===== verification/ConfigRequestFacts.thy ===== *)
theory ConfigRequestFacts
  imports ConfigUpdateFacts SqlFacts
begin

text \<open>
  What the requests of a configuration client do to the missions, and that they keep them
  well-formed.
\<close>

section \<open>What the requests leave as it was\<close>

lemma null_callback_same: "null_callback cols st = Some st' \<Longrightarrow> st' = st"
  by (cases cols) auto

lemma exec_null_world:
  assumes "exec db c null_callback sql st = Some st'"
  shows "q_world st' = q_world st"
proof -
  have "fold (\<lambda>r s. Option.bind s (null_callback r)) rows x = Some st' \<Longrightarrow> x = Some st'" for rows x
  proof (induction rows arbitrary: x)
    case (Cons r rows)
    then have "Option.bind x (null_callback r) = Some st'" by simp
    then show ?case by (auto simp: bind_eq_Some_conv dest: null_callback_same)
  qed simp
  with assms show ?thesis by (fastforce simp: exec_def split: if_splits)
qed

lemma insert_SDC_world:
  assumes "insert_SDC h db c sdc st = Some (sdc', st')"
  shows "q_world st' = q_world st"
proof -
  from assms obtain sql st1 where 1: "exec db c null_callback sql st = Some st1"
    and 2: "for_loop 0 (unat (sc_presetTotal sdc)) (insert_preset_step h db c) (sdc, st1) = Some (sdc', st')"
    by (auto simp: insert_SDC_def bind_eq_Some_conv)
  have "q_world (snd (sdc', st')) = q_world st1"
    by (rule for_loop_invariant [where P = "\<lambda>_ u. q_world (snd u) = q_world st1", OF 2])
      (auto simp: insert_preset_step_def bind_eq_Some_conv Let_def dest!: exec_null_world)
  with exec_null_world [OF 1] show ?thesis by simp
qed

lemma with_db_world:
  assumes "with_db f e q = Some (x, e', q')"
    and "\<And>q x q'. f q = Some (x, q') \<Longrightarrow> q_world q' = q_world q"
  shows "e' = e"
  using assms by (fastforce simp: with_db_def bind_eq_Some_conv)

lemma update_statements_world:
  "update_SDC h db c sdc st = Some st' \<Longrightarrow> q_world st' = q_world st"
  "update_group h stk db c req st = Some st' \<Longrightarrow> q_world st' = q_world st"
  "insert_mission h db c msi st = Some st' \<Longrightarrow> q_world st' = q_world st"
  by (auto simp: update_SDC_def update_group_def insert_mission_def bind_eq_Some_conv dest: exec_null_world
      split: if_splits)

lemma with_statement:
  assumes "with_db (no_result \<circ> f) e q = Some (x, e', q')" and "\<And>q q'. f q = Some q' \<Longrightarrow> q_world q' = q_world q"
  shows "e' = e"
  by (rule with_db_world [OF assms(1)]) (use assms(2) in auto)

text \<open>A request changes nothing of the environment but the missions.\<close>

definition only_world :: "env \<Rightarrow> env \<Rightarrow> bool" where
  "only_world e e' \<longleftrightarrow> e' = e\<lparr>e_world := e_world e'\<rparr>"

lemma only_worldI [simp]: "only_world e (e\<lparr>e_world := w\<rparr>)" "only_world e e"
  by (simp_all add: only_world_def)

definition grows :: "env \<Rightarrow> env \<Rightarrow> bool" where
  "grows e e' \<longleftrightarrow> only_world e e' \<and>
     (world_inv (e_world e) \<longrightarrow> world_inv (e_world e') \<and> ncams e \<le> ncams e')"

lemma grows_refl [simp]: "grows e e"
  by (simp add: grows_def)

lemma request_add_SDC_grows:
  assumes "request_add_SDC h db uc n s e q = Some (e', q')"
  shows "grows e e'"
proof -
  from assms obtain cfg cfg' f q1 cams un sdc where
    1: "with_db (insert_SDC h db (open_db db) cfg) e q = Some (cfg', f, q1)" and
    2: "addSDC (uc_new uc) (w_cams (e_world f)) (w_unstart (e_world f)) sdc = Some (cams, un)" and
    e': "e' = set_world ((e_world f)\<lparr>w_cams := cams, w_unstart := un\<rparr>) f"
    by (auto simp: request_add_SDC_def bind_eq_Some_conv Let_def)
  have f: "f = e" by (rule with_db_world [OF 1 insert_SDC_world])
  show ?thesis
    using addSDC_inv [OF unstart_wf 2] world_inv_unstart [of "e_world e" cams un] e' f
    by (auto simp: grows_def)
qed

lemma unstart_updateSDC_inv:
  assumes "unstart_updateSDC sdc w = Some w'" and "world_inv w"
  shows "world_inv w' \<and> length (w_cams w') = length (w_cams w)"
proof -
  from assms(1) obtain r cams un where u: "updateSDC (w_cams w) (w_unstart w) sdc = Some (r, cams, un)"
    and w': "w' = w\<lparr>w_cams := cams, w_unstart := un\<rparr>"
    by (auto simp: unstart_updateSDC_def bind_eq_Some_conv)
  from updateSDC_inv [OF unstart_wf [OF assms(2)] u] world_inv_unstart [OF assms(2), of cams un] w'
  show ?thesis by simp
qed

lemma addSDC_length: "addSDC raw cams ms sdc = Some (cams', ms') \<Longrightarrow> length cams' = Suc (length cams)"
  by (auto simp: addSDC_def Let_def split: if_splits)

lemma updateSDC_length: "updateSDC cams ms sdc = Some (r, cams', ms') \<Longrightarrow> length cams' = length cams"
  by (auto simp: updateSDC_def bind_eq_Some_conv split: option.splits dest: length_upd_cam)

lemma MissionUpdateSDC_ncams:
  "MissionUpdateSDC raw sdc w = Some (r, w') \<Longrightarrow> length (w_cams w) \<le> length (w_cams w')"
  by (auto simp: MissionUpdateSDC_def bind_eq_Some_conv set_mission_def split: option.splits if_splits
      dest!: addSDC_length updateSDC_length)

lemma request_update_SDC_grows:
  assumes "request_update_SDC h db uc n s e q = Some (e', q')"
  shows "grows e e'"
proof -
  from assms obtain cfg f q1 x sdc w1 w2 where
    1: "with_db (no_result \<circ> update_SDC h db (open_db db) cfg) e q = Some (x, f, q1)" and
    2: "(if sc_missionNum cfg = - 1 then unstart_updateSDC sdc (e_world f)
         else map_option snd (MissionUpdateSDC (uc_new uc) sdc (e_world f))) = Some w1" and
    3: "unstart_updateSDC sdc w1 = Some w2" and e': "e' = set_world w2 f"
    by (auto simp: request_update_SDC_def bind_eq_Some_conv Let_def)
  have f: "f = e" by (rule with_statement [OF 1 update_statements_world(1)])
  have "world_inv w1 \<and> ncams e \<le> length (w_cams w1)" if "world_inv (e_world e)"
    using 2 that unstart_updateSDC_inv [of sdc "e_world e" w1]
      MissionUpdateSDC_inv [OF that] MissionUpdateSDC_ncams f
    by (fastforce split: if_splits)
  with unstart_updateSDC_inv [OF 3] e' f show ?thesis by (auto simp: grows_def)
qed

lemma set_mission_cams [simp]: "w_cams (set_mission i ms w) = w_cams w"
  by (simp add: set_mission_def)

lemma addSDC_ptr_length: "addSDC_ptr raw cams ms p = Some (cams', ms') \<Longrightarrow> length cams' = Suc (length cams)"
  by (auto simp: addSDC_ptr_def bind_eq_Some_conv dest: addSDC_length)

lemma MissionUpdateSDCMissionGroup_ncams:
  "MissionUpdateSDCMissionGroup raw req w = Some (r, w') \<Longrightarrow> length (w_cams w) \<le> length (w_cams w')"
  by (auto simp: MissionUpdateSDCMissionGroup_def move_SDC_in_def move_SDC_out_def bind_eq_Some_conv
      split: if_splits option.splits dest!: set_missionNum_length addSDC_ptr_length)

lemma MissionUpdateCapDevMissionGroup_ncams:
  "MissionUpdateCapDevMissionGroup req w = Some (r, w') \<Longrightarrow> w_cams w' = w_cams w"
  by (auto simp: MissionUpdateCapDevMissionGroup_def move_CapDev_in_def move_CapDev_out_def bind_eq_Some_conv
      Let_def split: if_splits option.splits)

lemma change_group_inv:
  assumes "change_group raw req w = Some w'" and "world_inv w"
  shows "world_inv w' \<and> length (w_cams w) \<le> length (w_cams w')"
proof -
  from assms(1) consider r where "MissionUpdateSDCMissionGroup raw req w = Some (r, w')"
    | r where "MissionUpdateCapDevMissionGroup req w = Some (r, w')" | "w' = w"
    by (auto simp: change_group_def split: if_splits)
  then show ?thesis
  proof cases
    case 1
    with MissionUpdateSDCMissionGroup_inv [OF assms(2)] MissionUpdateSDCMissionGroup_ncams show ?thesis by blast
  next
    case 2
    with MissionUpdateCapDevMissionGroup_inv [OF assms(2)] MissionUpdateCapDevMissionGroup_ncams
    show ?thesis by fastforce
  qed (use assms(2) in simp)
qed

lemma request_change_group_grows:
  assumes "request_change_group h db uc n s e q = Some (e', q')"
  shows "grows e e'"
proof (cases "e' = e")
  case False
  with assms obtain req x f q1 w where
    1: "with_db (no_result \<circ> update_group h (uc_sql uc) db (open_db db) req) e q = Some (x, f, q1)" and
    2: "change_group (uc_new uc) req (e_world f) = Some w" and e': "e' = set_world w f"
    by (auto simp: request_change_group_def bind_eq_Some_conv split: if_splits)
  have "f = e" by (rule with_statement [OF 1 update_statements_world(2)])
  with change_group_inv [OF 2] e' show ?thesis by (simp add: grows_def)
qed simp

lemma CMission_new_empty: "empty_mission ((CMission_new raw)\<lparr>ms_missionNum := num\<rparr>)"
  by (simp add: CMission_new_def empty_mission_def)

lemma request_add_group_grows:
  assumes "request_add_group h db uc n s e q = Some (e', q')"
  shows "grows e e'"
proof -
  from assms obtain num x f q1 where
    1: "with_db (no_result \<circ> insert_mission h db (open_db db) ((CMission_new (uc_msi uc))\<lparr>ms_missionNum := num\<rparr>))
      (set_world (MissionAdd ((CMission_new (uc_msi uc))\<lparr>ms_missionNum := num\<rparr>) (e_world e)) e) q = Some (x, f, q1)"
      (is "with_db (no_result \<circ> insert_mission h db (open_db db) ?msi) _ q = _") and e': "e' = f"
    by (auto simp: request_add_group_def bind_eq_Some_conv Let_def)
  have "f = set_world (MissionAdd ?msi (e_world e)) e"
    by (rule with_statement [OF 1 update_statements_world(3)])
  moreover have "world_inv (MissionAdd ?msi (e_world e))" if "world_inv (e_world e)"
    using MissionAdd_inv [OF that empty_mission_wf [OF CMission_new_empty]] .
  ultimately show ?thesis using e' by (simp add: grows_def MissionAdd_def)
qed

text \<open>What holds of a configuration session between its handlers\<close>

definition cfg_inv :: "cfg_session \<Rightarrow> bool" where
  "cfg_inv s \<longleftrightarrow> length (k_data s) = MAX_PACKET_LEN \<and> length (k_data_write s) = MAX_PACKET_LEN \<and>
     (k_waiting s \<or> 0 < k_ready s \<longrightarrow> k_timer s \<noteq> None)"

lemma updateTimerStart_inv: "cfg_inv s \<Longrightarrow> cfg_inv (updateTimerStart now s)"
  by (simp add: cfg_inv_def updateTimerStart_def cancelled_def)

lemma cfg_request_grows:
  assumes "cfg_request h db uc now n t s e q = Some (s', e', q')" and "cfg_inv s"
  shows "cfg_inv s' \<and> grows e e'"
  using assms updateTimerStart_inv
  by (auto simp: cfg_request_def split: if_splits dest: request_add_SDC_grows request_update_SDC_grows
      request_change_group_grows request_add_group_grows)

lemma cfg_handle_read_grows:
  assumes "cfg_handle_read h db uc now c s e q = Some (s', e', q')" and "cfg_inv s"
  shows "cfg_inv s' \<and> grows e e'"
proof (cases c)
  case (Failed err)
  with assms show ?thesis by (auto simp: cfg_handle_read_def cfg_failed_def cfg_inv_def)
next
  case (Transferred bs)
  with assms(1) obtain data t where d: "patch 0 bs (k_data s) = Some data" and
    r: "cfg_request h db uc now (length bs) t (s\<lparr>k_data := data, k_recv_times := k_recv_times s + 1\<rparr>) e q
      = Some (s', e', q')"
    by (auto simp: cfg_handle_read_def bind_eq_Some_conv Let_def)
  have "cfg_inv (s\<lparr>k_data := data, k_recv_times := k_recv_times s + 1\<rparr>)"
    using assms(2) length_patch [OF d] by (simp add: cfg_inv_def)
  with cfg_request_grows [OF r] show ?thesis by simp
qed

lemma cfg_handle_write_grows:
  assumes "cfg_handle_write err s e = (s', e')" and "cfg_inv s"
  shows "cfg_inv s' \<and> e_world e' = e_world e"
  using assms by (auto simp: cfg_handle_write_def cfg_failed_def cfg_inv_def cfg_start_def split: option.splits)

lemma like_world_ncams: "like_world w w' \<Longrightarrow> length (w_cams w') = length (w_cams w)"
  by (simp add: like_world_def)

lemma timer_handler_inv:
  assumes "timer_handler rfile (s, e) = Some (s', e')" and "cfg_inv s"
  shows "cfg_inv s' \<and> like_world (e_world e) (e_world e')"
proof -
  define t where "t = (if 0 < k_ready s then s\<lparr>k_ready := k_ready s - 1\<rparr> else s\<lparr>k_waiting := False\<rparr>)"
  have t: "cfg_inv t" "room (t, e)" using assms(2) by (auto simp: t_def cfg_inv_def)
  from assms(1) have u: "updateMissionInfo rfile (t, e) = Some (s', e')" by (simp add: timer_handler_def t_def)
  show ?thesis
  proof (cases "k_run t")
    case True
    with u obtain v x where v: "update rfile (t, e) = Some (v, e')" and
      "s' = (cancelled v)\<lparr>k_timer := Some x, k_waiting := True\<rparr>"
      by (auto simp: updateMissionInfo_def bind_eq_Some_conv)
    with update_timer [OF v t(2)] t(1) show ?thesis by (simp add: cfg_inv_def cancelled_def)
  next
    case False
    with u t(1) show ?thesis by (auto simp: updateMissionInfo_def cfg_inv_def cancelled_def)
  qed
qed

section \<open>What the requests do\<close>

text \<open>
  No request is followed by a read. Whatever a client sends, the handler that receives it begins
  no operation on the socket: the next read is begun only at the end of a write, so a client that
  has not asked for updates is heard once.
\<close>

theorem request_not_read_again:
  assumes "cfg_handle_read h db uc now c s e q = Some (s', e', q')"
  shows "e_out e' = e_out e"
proof (cases c)
  case (Failed err)
  with assms show ?thesis by (simp add: cfg_handle_read_def)
next
  case (Transferred bs)
  with assms obtain t n u where "cfg_request h db uc now n t u e q = Some (s', e', q')"
    by (auto simp: cfg_handle_read_def bind_eq_Some_conv Let_def)
  then have "only_world e e'"
    by (auto simp: cfg_request_def grows_def split: if_splits dest!: request_add_SDC_grows request_update_SDC_grows
        request_change_group_grows request_add_group_grows)
  then show ?thesis by (cases e; cases e') (simp add: only_world_def)
qed

text \<open>A request as it arrives: \<open>bs\<close> at the start of the buffer, behind it what was there.\<close>

lemma cfg_handle_read_request:
  assumes "length bs \<le> MAX_PACKET_LEN" and "cfg_inv s"
    and "bs = cfg_head_bytes t @ r"
  shows "cfg_handle_read h db uc now (Transferred bs) s e q =
    cfg_request h db uc now (length bs) t (s\<lparr>k_data := bs @ drop (length bs) (k_data s),
      k_recv_times := k_recv_times s + 1\<rparr>) e q"
proof -
  have "patch 0 bs (k_data s) = Some (bs @ drop (length bs) (k_data s))"
    using assms(1,2) by (simp add: patch_def cfg_inv_def)
  moreover have "cfg_ParseFrameHead h (Some (bs @ x)) (int (length bs)) hd =
      Some (hd\<lparr>ch_type := t, ch_version := version_1_0_0 h\<rparr>)" for x hd
    by (simp add: assms(3) cfg_ParseFrameHead_def rd_simps)
  ultimately show ?thesis by (simp add: cfg_handle_read_def Let_def)
qed

lemma with_db_silent:
  assumes "f (q\<lparr>q_world := e_world e\<rparr>) = Some (x, q\<lparr>q_world := e_world e, q_log := l\<rparr>)"
  shows "with_db f e q = Some (x, e, q\<lparr>q_world := e_world e, q_log := l\<rparr>)"
  using assms by (cases e) (simp add: with_db_def)

lemma open_db_opens: "sq_open db ''ms.db'' \<Longrightarrow> cn_open (open_db db)"
  by (simp add: open_db_def initConnection_def setParam_def)

definition camera_frame :: "SDCcfg \<Rightarrow> byte list" where
  "camera_frame cfg = cfg_head_bytes 6 @ [sc_mode cfg] @ fields_wire cfg @
     concat (map (\<lambda>j. preset_wire (sc_missionPreset cfg j)) [0..<unat (sc_presetTotal cfg)])"

text \<open>What the server makes of the settings in a frame, before they are stored\<close>

definition received :: "SDCcfg \<Rightarrow> SDCcfg \<Rightarrow> SDCcfg" where
  "received old cfg = cfg\<lparr>sc_reserve := sc_reserve old,
     sc_missionPreset := presets_into (sc_missionPreset cfg) 0 (unat (sc_presetTotal cfg))
       (sc_missionPreset old)\<rparr>"

lemma received_fields:
  "same_settings cfg (received old cfg)" "sc_presetTotal (received old cfg) = sc_presetTotal cfg"
  "i < unat (sc_presetTotal cfg) \<Longrightarrow> pr_presetNum (sc_missionPreset (received old cfg) i) =
     pr_presetNum (sc_missionPreset cfg i) \<and>
   pr_holdSeconds (sc_missionPreset (received old cfg) i) = pr_holdSeconds (sc_missionPreset cfg i)"
  by (simp_all add: same_settings_def received_def presets_into_def preset_into_def Let_def)

definition storable_sql :: "host \<Rightarrow> SDCcfg \<Rightarrow> bool" where
  "storable_sql h cfg \<longleftrightarrow> insert_SDC_sql h cfg \<noteq> None \<and>
     (\<forall>i < unat (sc_presetTotal cfg).
        insert_preset_sql h (sc_camNum cfg) (fixed_rect (sc_missionPreset cfg i)) \<noteq> None)"

text \<open>What no copy of a camera takes along is what was in the memory the object is made in.\<close>

definition uncopied :: "CSpeedDomeCam \<Rightarrow> CSpeedDomeCam \<Rightarrow> bool" where
  "uncopied raw c \<longleftrightarrow> sc_mode (dc_m_sdcCfg c) = sc_mode (dc_m_sdcCfg raw) \<and>
     sc_plateMinWidth (dc_m_sdcCfg c) = sc_plateMinWidth (dc_m_sdcCfg raw) \<and>
     sc_plateMaxWidth (dc_m_sdcCfg c) = sc_plateMaxWidth (dc_m_sdcCfg raw) \<and>
     dc_isUsing c = FREE \<and> dc_curPTZposion c = 0"

lemma uncopied_fresh: "uncopied raw (fresh_SDC raw sdc)"
  by (simp add: uncopied_def fresh_SDC_cfg copied_cfg_def)

lemma request_add_SDC_eq:
  assumes "ParseSDCcfgInfo h (Some (k_data s)) (int n) (uc_head uc) (uc_sdcCfg uc) = Some cfg"
    and "sq_open db ''ms.db''" and "silent db ''INSERT''" and "storable_sql h cfg"
    and "world_inv (e_world e)" and "unat (ms_totalSpdDomeCam (w_unstart (e_world e))) < MAX_SDC"
  shows "\<exists>e' q' c. request_add_SDC h db uc n s e q = Some (e', q') \<and>
    cam_list (w_cams (e_world e'), w_unstart (e_world e')) =
      cam_list (w_cams (e_world e), w_unstart (e_world e)) @ [c] \<and>
    same_settings cfg (dc_m_sdcCfg c) \<and> sc_presetTotal (dc_m_sdcCfg c) = sc_presetTotal cfg \<and>
    (\<forall>i < unat (sc_presetTotal cfg). sc_missionPreset (dc_m_sdcCfg c) i = fixed_rect (sc_missionPreset cfg i)) \<and>
    w_missions (e_world e') = w_missions (e_world e) \<and> uncopied (uc_new uc) c"
proof -
  let ?w = "e_world e" and ?n = "unat (sc_presetTotal cfg)"
  let ?cfg = "fixed_presets ?n cfg"
  let ?sdc = "(CSpeedDomeCam_new (uc_sdc uc))\<lparr>dc_m_sdcCfg := ?cfg\<rparr>"
  from assms(4) obtain sql where sql: "insert_SDC_sql h cfg = Some sql" by (auto simp: storable_sql_def)
  have "insert_SDC h db (open_db db) cfg (q\<lparr>q_world := ?w\<rparr>) = Some (?cfg,
      q\<lparr>q_world := ?w, q_log := q_log q @ sql # preset_sqls h cfg ?n\<rparr>)"
    using insert_SDC_silent [OF open_db_opens [OF assms(2)] assms(3) sql, of "q\<lparr>q_world := ?w\<rparr>"] assms(4)
    by (simp add: storable_sql_def)
  note db = with_db_silent [where f = "insert_SDC h db (open_db db) cfg" and q = q and e = e, OF this]
  have "wf_cams (w_cams ?w, w_unstart ?w)" using unstart_wf [OF assms(5)] by (simp add: wf_mission_def)
  from addSDC_list [OF this assms(6), of "uc_new uc" ?sdc] obtain un where
    a: "addSDC (uc_new uc) (w_cams ?w) (w_unstart ?w) ?sdc = Some (w_cams ?w @ [fresh_SDC (uc_new uc) ?sdc], un)"
    and l: "cam_list (w_cams ?w @ [fresh_SDC (uc_new uc) ?sdc], un) =
      cam_list (w_cams ?w, w_unstart ?w) @ [fresh_SDC (uc_new uc) ?sdc]" by auto
  let ?e = "set_world (?w\<lparr>w_cams := w_cams ?w @ [fresh_SDC (uc_new uc) ?sdc], w_unstart := un\<rparr>) e"
  have "\<exists>q'. request_add_SDC h db uc n s e q = Some (?e, q')"
    using a by (simp add: request_add_SDC_def assms(1) db Let_def)
  moreover have "same_settings cfg (dc_m_sdcCfg (fresh_SDC (uc_new uc) ?sdc))"
    "sc_presetTotal (dc_m_sdcCfg (fresh_SDC (uc_new uc) ?sdc)) = sc_presetTotal cfg"
    "\<forall>i < ?n. sc_missionPreset (dc_m_sdcCfg (fresh_SDC (uc_new uc) ?sdc)) i = fixed_rect (sc_missionPreset cfg i)"
    by (simp_all add: same_settings_def fresh_SDC_def copy_SDC_cfg_def fixed_presets_def)
  ultimately show ?thesis using l uncopied_fresh
    by (intro exI [of _ ?e]) auto
qed

text \<open>
  C24: the request to add a camera. A frame of type 6 that fits a read, with strings the protocol can carry and at most
  ten points for an area, arrives while the array of the ungrouped cameras has room; the database opens, its INSERT
  statements yield no rows, and the statements fit their buffer. Then one camera is added behind the ungrouped ones,
  whatever mission the frame names, and the missions stay as they are. It is free and has the number, the
  mission's number, the address, the port, the user, the password, the stream address, the brand, the product and the
  number of presets of the frame; the presets arrive with their numbers and times, but every rectangle is the same
  constant one. The mode and both plate widths of the frame are lost: the camera has those that were left in the memory
  of the new object.
\<close>

theorem camera_request_adds_ungrouped:
  assumes "cfg_inv s" and "world_inv (e_world e)"
    and "unat (ms_totalSpdDomeCam (w_unstart (e_world e))) < MAX_SDC"
    and "wf_cfg_strings cfg" and "\<forall>j < unat (sc_presetTotal cfg). wf_preset (sc_missionPreset cfg j)"
    and "\<forall>j. wf_illpark (pr_illparkpara (sc_missionPreset (uc_sdcCfg uc) j))"
    and "length (camera_frame cfg) \<le> MAX_PACKET_LEN"
    and "sq_open db ''ms.db''" and "silent db ''INSERT''"
    and "storable_sql h (received (uc_sdcCfg uc) cfg)"
  shows "\<exists>s' e' q' c. cfg_handle_read h db uc now (Transferred (camera_frame cfg)) s e q = Some (s', e', q') \<and>
    cam_list (w_cams (e_world e'), w_unstart (e_world e')) =
      cam_list (w_cams (e_world e), w_unstart (e_world e)) @ [c] \<and>
    w_missions (e_world e') = w_missions (e_world e) \<and>
    same_settings cfg (dc_m_sdcCfg c) \<and> uncopied (uc_new uc) c \<and> sc_presetTotal (dc_m_sdcCfg c) = sc_presetTotal cfg \<and>
    (\<forall>i < unat (sc_presetTotal cfg).
       pr_presetNum (sc_missionPreset (dc_m_sdcCfg c) i) = pr_presetNum (sc_missionPreset cfg i) \<and>
       pr_holdSeconds (sc_missionPreset (dc_m_sdcCfg c) i) = pr_holdSeconds (sc_missionPreset cfg i) \<and>
       pr_rect (sc_missionPreset (dc_m_sdcCfg c) i) =
         \<lparr>rc_left = 178, rc_top = 164, rc_right = 1787, rc_bottom = 876\<rparr>)"
proof -
  let ?bs = "camera_frame cfg" and ?cfg = "received (uc_sdcCfg uc) cfg"
  let ?s = "s\<lparr>k_data := ?bs @ drop (length ?bs) (k_data s), k_recv_times := k_recv_times s + 1\<rparr>"
  have p: "ParseSDCcfgInfo h (Some (k_data ?s)) (int (length ?bs)) (uc_head uc) (uc_sdcCfg uc) = Some ?cfg"
    using ParseSDCcfgInfo_wire [OF assms(4-6), of "int (length ?bs)" h 6 "drop (length ?bs) (k_data s)" "uc_head uc"]
    by (simp add: camera_frame_def received_def)
  from request_add_SDC_eq [OF p assms(8-10,2,3), of q] obtain e' q' c where
    r: "request_add_SDC h db uc (length ?bs) ?s e q = Some (e', q')" and
    l: "cam_list (w_cams (e_world e'), w_unstart (e_world e')) =
      cam_list (w_cams (e_world e), w_unstart (e_world e)) @ [c]"
      "w_missions (e_world e') = w_missions (e_world e)"
      "same_settings ?cfg (dc_m_sdcCfg c)" "sc_presetTotal (dc_m_sdcCfg c) = sc_presetTotal ?cfg"
      "\<forall>i < unat (sc_presetTotal ?cfg). sc_missionPreset (dc_m_sdcCfg c) i = fixed_rect (sc_missionPreset ?cfg i)"
      "uncopied (uc_new uc) c" by blast
  have "cfg_handle_read h db uc now (Transferred ?bs) s e q = Some (?s, e', q')"
    using cfg_handle_read_request [OF assms(7,1), of 6] r
    by (simp add: camera_frame_def cfg_request_def)
  moreover have "same_settings cfg (dc_m_sdcCfg c)"
    using l(3) received_fields(1) [of cfg "uc_sdcCfg uc"] by (simp add: same_settings_def)
  ultimately show ?thesis
    using l received_fields(2,3) [where cfg = cfg and old = "uc_sdcCfg uc"]
    by (intro exI [of _ ?s] exI [of _ e'] exI [of _ q'] exI [of _ c]) (simp add: fixed_rect_def)
qed

definition group_frame :: "u32 \<Rightarrow> u32 \<Rightarrow> byte list" where
  "group_frame len num = cfg_head_bytes 9 @ le_enc 4 len @ le_enc 4 num"

lemma insert_mission_silent:
  assumes "cn_open c" and "silent db ''INSERT''"
    and "length (decimal h (ms_missionNum mis)) < 900"
  shows "\<exists>sql. insert_mission h db c mis st = Some (st\<lparr>q_log := q_log st @ [sql]\<rparr>)"
proof -
  let ?sql = "concat [''INSERT INTO missions (ID,SDC_ID,capDevID) '', ''VALUES ('',
    decimal h (ms_missionNum mis), '', 0, 0); '']"
  have "insert_mission h db c mis st = exec db c null_callback ?sql st"
    using assms(3) by (simp add: insert_mission_def sprintf_sql_def Let_def)
  also have "\<dots> = Some (st\<lparr>q_log := q_log st @ [?sql]\<rparr>)"
    by (rule exec_statement [OF assms(1,2)]) simp
  finally show ?thesis ..
qed

text \<open>
  The request to add a mission. A frame of type 9 with a number leaves a mission of that number
  in the map: an empty one when there was none, the old one untouched otherwise; the missions of
  all other numbers, the cameras and the ungrouped objects stay. A statement is logged either way.
\<close>

theorem group_request_adds_mission:
  assumes "cfg_inv s" and "world_inv (e_world e)"
    and "sq_open db ''ms.db''" and "silent db ''INSERT''"
    and "length (decimal h num) < 900"
  shows "\<exists>s' e' q' ms. cfg_handle_read h db uc now (Transferred (group_frame len num)) s e q = Some (s', e', q') \<and>
    MissionGet (sint num) (e_world e') = Some ms \<and>
    (case MissionGet (sint num) (e_world e) of
       None \<Rightarrow> ms_totalSpdDomeCam ms = 0 \<and> ms_totalCapDev ms = 0 | Some old \<Rightarrow> ms = old) \<and>
    (\<forall>k. k \<noteq> sint num \<longrightarrow> MissionGet k (e_world e') = MissionGet k (e_world e)) \<and>
    w_unstart (e_world e') = w_unstart (e_world e) \<and> w_cams (e_world e') = w_cams (e_world e) \<and>
    length (q_log q') = Suc (length (q_log q))"
proof -
  let ?bs = "group_frame len num" and ?w = "e_world e"
  let ?s = "s\<lparr>k_data := ?bs @ drop (length ?bs) (k_data s), k_recv_times := k_recv_times s + 1\<rparr>"
  let ?msi = "(CMission_new (uc_msi uc))\<lparr>ms_missionNum := num\<rparr>"
  let ?e = "set_world (MissionAdd ?msi ?w) e"
  have "\<exists>n. ParseAddGroupReq h (Some (k_data ?s)) (int (length ?bs)) (uc_head uc) = Some (n, num)"
    by (simp add: group_frame_def ParseAddGroupReq_def rd_simps)
  then obtain n where p: "ParseAddGroupReq h (Some (k_data ?s)) (int (length ?bs)) (uc_head uc) = Some (n, num)" ..
  have "length (decimal h (ms_missionNum ?msi)) < 900" using assms(5) by simp
  from insert_mission_silent [OF open_db_opens [OF assms(3)] assms(4) this, of "q\<lparr>q_world := e_world ?e\<rparr>"]
  obtain sql where "insert_mission h db (open_db db) ?msi (q\<lparr>q_world := e_world ?e\<rparr>) =
      Some (q\<lparr>q_world := e_world ?e, q_log := q_log q @ [sql]\<rparr>)" by auto
  then have "(no_result \<circ> insert_mission h db (open_db db) ?msi) (q\<lparr>q_world := e_world ?e\<rparr>) =
      Some ((), q\<lparr>q_world := e_world ?e, q_log := q_log q @ [sql]\<rparr>)" by simp
  note db = with_db_silent [where f = "no_result \<circ> insert_mission h db (open_db db) ?msi" and q = q and e = ?e, OF this]
  have "request_add_group h db uc (length ?bs) ?s e q =
      Some (?e, q\<lparr>q_world := e_world ?e, q_log := q_log q @ [sql]\<rparr>)"
    using p db by (simp add: request_add_group_def Let_def)
  moreover have "length ?bs \<le> MAX_PACKET_LEN" by (simp add: group_frame_def MAX_PACKET_LEN_def)
  note cfg_handle_read_request [OF this assms(1), of 9]
  ultimately have "cfg_handle_read h db uc now (Transferred ?bs) s e q =
      Some (?s, ?e, q\<lparr>q_world := e_world ?e, q_log := q_log q @ [sql]\<rparr>)"
    by (simp add: group_frame_def cfg_request_def)
  moreover have "sorted_wrt (<) (map fst (w_missions ?w))" using assms(2) by (simp add: world_inv_def)
  then have "MissionGet k (e_world ?e) =
      (if k = sint num then Some (case MissionGet (sint num) ?w of None \<Rightarrow> ?msi | Some u \<Rightarrow> u) else MissionGet k ?w)" for k
    by (simp add: MissionGet_def MissionAdd_def map_of_map_insert)
  moreover have "empty_mission ?msi" by (rule CMission_new_empty)
  ultimately show ?thesis
    by (intro exI [of _ ?s] exI [of _ ?e] exI [of _ "q\<lparr>q_world := e_world ?e, q_log := q_log q @ [sql]\<rparr>"])
      (auto simp: empty_mission_def MissionAdd_def split: option.splits)
qed

section \<open>A change of the mission\<close>

definition change_frame :: "u32 \<Rightarrow> byte \<Rightarrow> u32 \<Rightarrow> u32 \<Rightarrow> string \<Rightarrow> byte list" where
  "change_frame len t ori dts num = cfg_head_bytes 8 @ le_enc 4 len @ [t] @ le_enc 4 ori @ le_enc 4 dts @ lstr_bytes num"

lemma ParseChangeGroupReq_wire:
  assumes "wire_string num" and "0 \<le> n"
  shows "ParseChangeGroupReq h (Some (change_frame len t ori dts num @ r)) n head req =
    Some (req\<lparr>gr_type := t, gr_ori_num := ori, gr_dts_num := dts, gr_num := num\<rparr>)"
  using assms by (simp add: change_frame_def ParseChangeGroupReq_def rd_simps)

lemma update_SDC_group_silent:
  assumes "cn_open c" and "silent db ''UPDATE''" and "gr_type req = 0" and "wire_string (gr_num req)"
    and "length (decimal h (gr_dts_num req)) < 600"
  shows "\<exists>sql. update_group h stk db c req st = Some (st\<lparr>q_log := q_log st @ [sql]\<rparr>)"
proof -
  let ?sql = "concat [''UPDATE SDCs SET missionID='', decimal h (gr_dts_num req), '' '',
    ''WHERE camNum='', quoted (gr_num req), ''; '']"
  have "c_str (gr_num req) = gr_num req" using assms(4) by (simp add: wire_string_def)
  then have "length ?sql < 1024" using assms(4,5) by (simp add: wire_string_def)
  then have "update_group h stk db c req st = exec db c null_callback ?sql st"
    by (simp only: update_group_def assms(3) sprintf_sql_def Let_def if_True simp_thms Option.bind_lunit)
  also have "\<dots> = Some (st\<lparr>q_log := q_log st @ [?sql]\<rparr>)"
    by (rule exec_statement [OF assms(1,2)]) simp
  finally show ?thesis ..
qed

lemma change_request_world:
  assumes "cfg_inv s" and "world_inv (e_world e)"
    and "sq_open db ''ms.db''" and "silent db ''UPDATE''" and "length (decimal h dts) < 600"
    and "wire_string num" and "num \<noteq> []" and "dts \<noteq> - 1"
    and "find_mission dts (e_world e) = Some i"
    and "find_index (\<lambda>c. camNum_of c = num) (cam_list (w_cams (e_world e), w_unstart (e_world e))) = Some j"
    and "unat (ms_totalSpdDomeCam (mission_at i (e_world e))) < MAX_SDC"
    and "unat (ms_totalSpdDomeCam (w_unstart (e_world e))) < MAX_SDC"
  shows "\<exists>s' q' cams c ms' un'.
    cfg_handle_read h db uc now (Transferred (change_frame len 0 (- 1) dts num)) s e q =
      Some (s', set_world (set_mission i ms' ((e_world e)\<lparr>w_cams := cams @ [c], w_unstart := un'\<rparr>)) e, q') \<and>
    map dc_isUsing cams = map dc_isUsing (w_cams (e_world e)) \<and>
    cam_refs un' = without j (cam_refs (w_unstart (e_world e))) \<and>
    cam_refs ms' = cam_refs (mission_at i (e_world e)) @ [length (w_cams (e_world e))] \<and>
    same_devices (mission_at i (e_world e)) ms' \<and> camNum_of c = num \<and> dc_isUsing c = FREE \<and>
    sc_missionNum (dc_m_sdcCfg c) = dts"
proof -
  let ?bs = "change_frame len 0 (- 1) dts num" and ?w = "e_world e"
  let ?s = "s\<lparr>k_data := ?bs @ drop (length ?bs) (k_data s), k_recv_times := k_recv_times s + 1\<rparr>"
  let ?req = "(uc_req uc)\<lparr>gr_type := 0, gr_ori_num := - 1, gr_dts_num := dts, gr_num := num\<rparr>"
  obtain cams c ms' un' where
    m: "MissionUpdateSDCMissionGroup (uc_new uc) ?req ?w =
      Some (0, set_mission i ms' (?w\<lparr>w_cams := cams @ [c], w_unstart := un'\<rparr>))" and
    r: "map dc_isUsing cams = map dc_isUsing (w_cams ?w)" "cam_refs un' = without j (cam_refs (w_unstart ?w))"
      "cam_refs ms' = cam_refs (mission_at i ?w) @ [length (w_cams ?w)]" "same_devices (mission_at i ?w) ms'"
      "camNum_of c = num" "dc_isUsing c = FREE" "sc_missionNum (dc_m_sdcCfg c) = dts"
    using move_SDC_in_world [OF assms(2), of ?req i j "uc_new uc"] assms(9-12) by auto
  have "\<exists>sql. update_group h (uc_sql uc) db (open_db db) ?req (q\<lparr>q_world := ?w\<rparr>) =
      Some (q\<lparr>q_world := ?w, q_log := q_log q @ [sql]\<rparr>)"
    using update_SDC_group_silent [OF open_db_opens [OF assms(3)] assms(4), of ?req h "uc_sql uc" "q\<lparr>q_world := ?w\<rparr>"]
      assms(5,6) by simp
  then obtain sql where "(no_result \<circ> update_group h (uc_sql uc) db (open_db db) ?req) (q\<lparr>q_world := ?w\<rparr>) =
      Some ((), q\<lparr>q_world := ?w, q_log := q_log q @ [sql]\<rparr>)" by auto
  note db = with_db_silent [where f = "no_result \<circ> update_group h (uc_sql uc) db (open_db db) ?req" and q = q and e = e, OF this]
  have "request_change_group h db uc (length ?bs) ?s e q = Some
      (set_world (set_mission i ms' (?w\<lparr>w_cams := cams @ [c], w_unstart := un'\<rparr>)) e,
       q\<lparr>q_world := ?w, q_log := q_log q @ [sql]\<rparr>)"
    using m db assms(7,8) by (simp add: request_change_group_def ParseChangeGroupReq_wire [OF assms(6)] change_group_def)
  moreover have "length ?bs \<le> MAX_PACKET_LEN"
    using assms(6) by (simp add: change_frame_def MAX_PACKET_LEN_def wire_string_def)
  note cfg_handle_read_request [OF this assms(1), of 8]
  ultimately have "cfg_handle_read h db uc now (Transferred ?bs) s e q =
      Some (?s, set_world (set_mission i ms' (?w\<lparr>w_cams := cams @ [c], w_unstart := un'\<rparr>)) e,
        q\<lparr>q_world := ?w, q_log := q_log q @ [sql]\<rparr>)"
    by (simp add: change_frame_def cfg_request_def)
  with r show ?thesis by blast
qed

section \<open>Witnesses\<close>

definition cfg_uninit0 :: cfg_uninit where
  "cfg_uninit0 = \<lparr>uc_head = \<lparr>ch_frameSize = 0, ch_version = [], ch_type = 0\<rparr>, uc_sdcCfg = cfg0,
     uc_sdc = cam0, uc_new = cam0,
     uc_req = \<lparr>gr_ori_num = 0, gr_dts_num = 0, gr_type = 0, gr_num = []\<rparr>,
     uc_msi = mission0 0, uc_sql = []\<rparr>"

lemma cfg_inv0: "cfg_inv cfg_session0"
  by (simp add: cfg_inv_def cfg_session0_def)

lemma world_inv2: "world_inv (e_world env2)"
  by (simp add: world_inv_def env2_def world2_def wf_mission_def wf_cams_def wf_devs_def mission0_def MAX_CAPDEV_def)

lemma env2_simps:
  "unat (ms_totalSpdDomeCam (w_unstart (e_world env2))) < MAX_SDC" "MissionGet 8 (e_world env2) = None"
  by (simp_all add: env2_def world2_def mission0_def MAX_SDC_def MissionGet_def)

lemma storable_sql0: "storable_sql host0 (received cfg0 cfg0)"
proof -
  have p: "sc_missionPreset (received cfg0 cfg0) i = preset0" for i
    by (auto simp: received_def presets_into_def preset_into_def cfg0_def preset0_def Let_def area_into_def ip0_def)
  have c: "insert_SDC_sql host0 (received cfg0 cfg0) = insert_SDC_sql host0 cfg0" "sc_camNum (received cfg0 cfg0) = sc_camNum cfg0"
    by (simp_all add: insert_SDC_sql_def received_def)
  show ?thesis using insert_fits0 by (simp add: storable_sql_def p c)
qed

corollary camera_request_adds_ungrouped_witness:
  "\<exists>s' e' q' (c :: CSpeedDomeCam).
    cfg_handle_read host0 db0 cfg_uninit0 0 (Transferred (camera_frame cfg0)) cfg_session0 env2 st0 =
      Some (s', e', q') \<and> same_settings cfg0 (dc_m_sdcCfg c) \<and>
    pr_rect (sc_missionPreset (dc_m_sdcCfg c) 0) \<noteq> pr_rect (sc_missionPreset cfg0 0)"
proof -
  have u: "uc_sdcCfg cfg_uninit0 = cfg0" by (simp add: cfg_uninit0_def)
  have "length (camera_frame cfg0) \<le> MAX_PACKET_LEN"
    by (simp add: camera_frame_def fields_wire_def preset_wire_def cfg0_def preset0_def ip0_def MAX_PACKET_LEN_def
        Let_def upt_rec)
  from camera_request_adds_ungrouped [OF cfg_inv0 world_inv2 env2_simps(1) wf_cfg0(1,2) _ this silent0(3,1),
      where uc = cfg_uninit0 and h = host0 and now = 0 and q = st0, unfolded u, OF wf_cfg0(3) storable_sql0]
  obtain s' e' q' and c :: CSpeedDomeCam where "cfg_handle_read host0 db0 cfg_uninit0 0 (Transferred (camera_frame cfg0)) cfg_session0 env2 st0 =
      Some (s', e', q')" "same_settings cfg0 (dc_m_sdcCfg c)"
      "\<forall>i < unat (sc_presetTotal cfg0).
         pr_presetNum (sc_missionPreset (dc_m_sdcCfg c) i) = pr_presetNum (sc_missionPreset cfg0 i) \<and>
         pr_holdSeconds (sc_missionPreset (dc_m_sdcCfg c) i) = pr_holdSeconds (sc_missionPreset cfg0 i) \<and>
         pr_rect (sc_missionPreset (dc_m_sdcCfg c) i) =
         \<lparr>rc_left = 178, rc_top = 164, rc_right = 1787, rc_bottom = 876\<rparr>"
    by blast
  moreover have "0 < unat (sc_presetTotal cfg0)" "pr_rect (sc_missionPreset cfg0 0) \<noteq>
      \<lparr>rc_left = 178, rc_top = 164, rc_right = 1787, rc_bottom = 876\<rparr>"
    by (simp_all add: cfg0_def preset0_def)
  ultimately show ?thesis by metis
qed

corollary group_request_adds_mission_witness:
  "\<exists>s' e' q' ms. cfg_handle_read host0 db0 cfg_uninit0 0 (Transferred (group_frame 20 8)) cfg_session0 env2 st0 =
      Some (s', e', q') \<and> MissionGet 8 (e_world e') = Some ms \<and> ms_totalCapDev ms = 0"
proof -
  have "length (decimal host0 8) < 900" by (simp add: decimal_def host0_def dec.simps)
  from group_request_adds_mission [OF cfg_inv0 world_inv2 silent0(3,1) this,
      where uc = cfg_uninit0 and now = 0 and q = st0 and len = 20]
  show ?thesis by (auto simp: env2_simps)
qed

corollary request_not_read_again_witness:
  "\<exists>s' e' q'. cfg_handle_read host0 db0 cfg_uninit0 0 (Transferred (cfg_head_bytes 4)) cfg_session0 env2 st0 =
      Some (s', e', q') \<and> e_out e' = []"
proof -
  have "length (cfg_head_bytes 4) \<le> MAX_PACKET_LEN" by (simp add: MAX_PACKET_LEN_def)
  from cfg_handle_read_request [OF this cfg_inv0, of 4 "[]"] obtain s' where
    r: "cfg_handle_read host0 db0 cfg_uninit0 0 (Transferred (cfg_head_bytes 4)) cfg_session0 env2 st0 =
      Some (s', env2, st0)"
    by (simp add: cfg_request_def)
  from request_not_read_again [OF r] r show ?thesis by (simp add: env2_def)
qed

end
