(* ===== verification/System.thy ===== *)
theory System
  imports Server ConfigRequestFacts
begin

text \<open>
  The whole program after its start: the two servers, the sessions they started, the environment the
  sessions share and the database. A step is one completion handler, one expiry of a timer or one
  accept; a run is any sequence of steps, so any interleaving of the handlers. A handler that leaves
  defined behaviour has no next state.
\<close>

record system =
  sy_server :: server
  sy_server_cfg :: server
  sy_sessions :: "session list"
  sy_cfg_sessions :: "cfg_session list"
  sy_env :: env
  sy_sql :: sql_state

text \<open>What is fixed during a run: the vendor library, the database, the host and the file system\<close>

record platform =
  pl_host :: host
  pl_sdk :: sdk
  pl_db :: sqlite
  pl_rfile :: "string \<Rightarrow> byte list option"

datatype sys_event =
  Accept "string option" session
| AcceptCfg "string option" cfg_session
| ReadDone nat uninit nat completion
| WriteDone nat "string option"
| Tick nat SnapSchedule "byte list"
| CfgReadDone nat cfg_uninit nat completion
| CfgWriteDone nat "string option"
| CfgTick nat nat

section \<open>The steps\<close>

text \<open>The timer of the device in a session expires; after the deletion its handler uses freed memory.\<close>

definition handle_tick :: "sdk \<Rightarrow> SnapSchedule \<Rightarrow> byte list \<Rightarrow> session \<Rightarrow> env \<Rightarrow> (session \<times> env) option" where
  "handle_tick sdk raw stk s e =
     (if se_alive s then map_option (\<lambda>d. put_dev d s e) (MissoinLoop sdk raw stk (as_dev s e)) else None)"

definition on_session :: "nat \<Rightarrow> (session \<Rightarrow> env \<Rightarrow> (session \<times> env) option) \<Rightarrow> system \<Rightarrow> system option" where
  "on_session i f y =
     (if i < length (sy_sessions y) then
        map_option (\<lambda>(s, e). y\<lparr>sy_sessions := (sy_sessions y)[i := s], sy_env := e\<rparr>)
          (f (sy_sessions y ! i) (sy_env y))
      else Some y)"

definition on_cfg_session ::
  "nat \<Rightarrow> (cfg_session \<Rightarrow> env \<Rightarrow> sql_state \<Rightarrow> (cfg_session \<times> env \<times> sql_state) option) \<Rightarrow> system \<Rightarrow>
   system option" where
  "on_cfg_session i f y =
     (if i < length (sy_cfg_sessions y) then
        map_option (\<lambda>(s, e, q). y\<lparr>sy_cfg_sessions := (sy_cfg_sessions y)[i := s], sy_env := e, sy_sql := q\<rparr>)
          (f (sy_cfg_sessions y ! i) (sy_env y) (sy_sql y))
      else Some y)"

text \<open>
  An accept that succeeds starts the session that waited for it: it joins the list with the state
  its constructor left.
\<close>

definition accept_session :: "string option \<Rightarrow> session \<Rightarrow> system \<Rightarrow> system option" where
  "accept_session error raw y = do {
     v \<leftarrow> handle_accept error (sy_server y);
     let y = y\<lparr>sy_server := v\<rparr>;
     (case error of
        None \<Rightarrow> Some (y\<lparr>sy_sessions := sy_sessions y @ [CCaptureDevSession raw], sy_env := session_start (sy_env y)\<rparr>)
      | Some _ \<Rightarrow> Some y)
   }"

definition accept_cfg_session :: "string option \<Rightarrow> cfg_session \<Rightarrow> system \<Rightarrow> system option" where
  "accept_cfg_session error raw y = do {
     v \<leftarrow> handle_accept_cfg error (sy_server_cfg y);
     let y = y\<lparr>sy_server_cfg := v\<rparr>;
     (case error of
        None \<Rightarrow> Some (y\<lparr>sy_cfg_sessions := sy_cfg_sessions y @ [CConfigSession raw], sy_env := cfg_start (sy_env y)\<rparr>)
      | Some _ \<Rightarrow> Some y)
   }"

fun system_step :: "platform \<Rightarrow> sys_event \<Rightarrow> system \<Rightarrow> system option" where
  "system_step p (Accept error raw) y =
     (if sr_pending (sy_server y) = None then Some y else accept_session error raw y)"
| "system_step p (AcceptCfg error raw) y =
     (if sr_pending (sy_server_cfg y) = None then Some y else accept_cfg_session error raw y)"
| "system_step p (ReadDone i un now c) y = on_session i (handle_read (pl_host p) (pl_sdk p) un now c) y"
| "system_step p (WriteDone i error) y = on_session i (handle_write (pl_sdk p) error) y"
| "system_step p (Tick i raw stk) y = on_session i (handle_tick (pl_sdk p) raw stk) y"
| "system_step p (CfgReadDone i uc now c) y = on_cfg_session i (cfg_handle_read (pl_host p) (pl_db p) uc now c) y"
| "system_step p (CfgWriteDone i error) y = on_cfg_session i (\<lambda>s e q.
     case cfg_handle_write error s e of (s, e) \<Rightarrow> Some (s, e, q)) y"
| "system_step p (CfgTick i now) y = on_cfg_session i (\<lambda>s e q.
     if timer_enabled now s then map_option (\<lambda>(s, e). (s, e, q)) (timer_handler (pl_rfile p) (s, e))
     else Some (s, e, q)) y"

abbreviation system_run :: "platform \<Rightarrow> sys_event list \<Rightarrow> system \<Rightarrow> system option" where
  "system_run p \<equiv> runs (system_step p)"

section \<open>The invariant\<close>

text \<open>
  Every session, whatever the others did since it last ran, has its buffers at their sizes and a
  camera that exists; the shared missions are well-formed. The memory a session is built in has the
  size of its members.
\<close>

definition system_inv :: "system \<Rightarrow> bool" where
  "system_inv y \<longleftrightarrow> world_inv (e_world (sy_env y)) \<and>
     (\<forall>s \<in> set (sy_sessions y). session_inv s (sy_env y)) \<and>
     (\<forall>s \<in> set (sy_cfg_sessions y). cfg_inv s)"

fun wf_event :: "sys_event \<Rightarrow> bool" where
  "wf_event (Accept error raw) \<longleftrightarrow> length (se_data_write raw) = MAX_PACKET_LEN"
| "wf_event (AcceptCfg error raw) \<longleftrightarrow> length (k_data_write raw) = MAX_PACKET_LEN"
| "wf_event _ \<longleftrightarrow> True"

lemma session_inv_shared:
  assumes "session_inv s e" and "world_inv (e_world f)" and "ncams e \<le> ncams f"
  shows "session_inv s f"
  using assms by (fastforce simp: session_inv_def)

text \<open>A part of the tour's loop keeps the heap's size, the device's camera, its number and its mission.\<close>

type_synonym dev_shape = "nat \<times> cam_ref option \<times> string \<times> u32"

definition shape :: "dev_state \<Rightarrow> dev_shape" where
  "shape s = (length (ds_cams s), cd_SpdDomeCam (ds_dev s), cd_devNum (ds_dev s), cd_missionNum (ds_dev s))"

abbreviation shape_ok :: "dev_shape \<Rightarrow> dev_state option \<Rightarrow> bool" where
  "shape_ok x \<equiv> yields (\<lambda>t. shape t = x)"

lemma shape_simps [simp]:
  "shape (s\<lparr>ds_log := l\<rparr>) = shape s" "shape (s\<lparr>ds_failed := n\<rparr>) = shape s" "shape (s\<lparr>ds_out := out\<rparr>) = shape s"
  "shape (set_dev (\<lambda>d. d\<lparr>cd_missionStatus := x\<rparr>) s) = shape s" "shape (set_dev (\<lambda>d. d\<lparr>cd_timer := y\<rparr>) s) = shape s"
  by (simp_all add: shape_def)

lemma on_cam_shape: "shape s = x \<Longrightarrow> shape_ok x (on_cam f s)"
  by (auto simp: on_cam_def yields_def shape_def dest!: length_upd_cam)

lemma rearm_shape: "shape s = x \<Longrightarrow> shape_ok x (rearm n s)"
  by (auto simp: rearm_def yields_def shape_def split: option.splits)

lemma loop_init_shape: "shape s = x \<Longrightarrow> shape_ok x (loop_init sdk s)"
  unfolding loop_init_def Let_def by (intro yields_any_bind yields_split yields_rules on_cam_shape; simp)

lemma loop_turn_shape: "shape s = x \<Longrightarrow> shape_ok x (loop_turn sdk s)"
  unfolding loop_turn_def Let_def
  by (rule yields_any_bind, rule yields_any_bind, rule yields_split)
    (intro yields_rules on_cam_shape rearm_shape; simp add: shape_def)

lemma loop_send_shape: "shape s = x \<Longrightarrow> shape_ok x (loop_send raw stk s)"
  unfolding loop_send_def by (intro yields_any_bind yields_split yields_rules(1)) simp

lemma loop_advance_shape:
  assumes "shape s = x"
  shows "shape_ok x (loop_advance sdk s)"
  unfolding loop_advance_def Let_def
  by (rule yields_rules(3) [OF on_cam_shape [OF assms]], rule yields_any_bind, rule yields_rules(2))
    (intro yields_any_bind yields_split on_cam_shape, simp add: shape_def, rule yields_rules(1))

lemma MissoinLoop_shape:
  assumes "MissoinLoop sdk raw stk s = Some t"
  shows "length (ds_cams t) = length (ds_cams s) \<and> cd_SpdDomeCam (ds_dev t) = cd_SpdDomeCam (ds_dev s) \<and>
    cd_devNum (ds_dev t) = cd_devNum (ds_dev s) \<and> cd_missionNum (ds_dev t) = cd_missionNum (ds_dev s)"
proof -
  have "shape_ok (shape s) (do {
      s \<leftarrow> loop_init sdk s; s \<leftarrow> loop_turn sdk s; s \<leftarrow> loop_send raw stk s; loop_advance sdk s })"
    by (rule yields_rules(3) [OF loop_init_shape], rule refl, rule yields_rules(3) [OF loop_turn_shape], assumption,
        rule yields_rules(3) [OF loop_send_shape], assumption, rule loop_advance_shape)
  moreover have "shape_ok (shape s) (rearm 1 s)" by (rule rearm_shape) simp
  ultimately have "shape t = shape s"
    using assms
    by (auto simp: MissoinLoop_def bind_eq_Some_conv yields_def split: if_splits option.splits)
  then show ?thesis by (simp add: shape_def)
qed

lemma handle_tick_keeps: "keeps s e (handle_tick sdk raw stk s e)"
proof (cases "MissoinLoop sdk raw stk (as_dev s e)")
  case None
  then show ?thesis by (simp add: handle_tick_def)
next
  case (Some d)
  with MissoinLoop_shape [OF Some] put_dev_keeps [of d e s] show ?thesis by (simp add: handle_tick_def)
qed

lemma new_session_inv:
  assumes "length (se_data_write raw) = MAX_PACKET_LEN" and "world_inv (e_world e)"
  shows "session_inv (CCaptureDevSession raw) e"
  using assms by (simp add: session_inv_def CCaptureDevSession_def CCaptureDevice_new_def)

lemma new_cfg_session_inv: "length (k_data_write raw) = MAX_PACKET_LEN \<Longrightarrow> cfg_inv (CConfigSession raw)"
  by (simp add: cfg_inv_def CConfigSession_def)

text \<open>The environment may change as long as the missions stay well-formed and no camera goes away.\<close>

lemma system_inv_env:
  assumes "system_inv y" and "world_inv (e_world e)" and "ncams (sy_env y) \<le> ncams e"
    and "\<forall>s \<in> set ss. s \<in> set (sy_sessions y) \<or> session_inv s e"
    and "\<forall>s \<in> set cs. s \<in> set (sy_cfg_sessions y) \<or> cfg_inv s"
  shows "system_inv (y\<lparr>sy_sessions := ss, sy_cfg_sessions := cs, sy_env := e, sy_sql := q\<rparr>)"
  using assms session_inv_shared [OF _ assms(2,3)] by (fastforce simp: system_inv_def)

lemma set_update_cases: "t \<in> set (xs[i := x]) \<Longrightarrow> t = x \<or> t \<in> set xs"
  using set_update_subset_insert [of xs i x] by auto

lemma on_session_inv:
  assumes "system_inv y" and "on_session i f y = Some y'" and "\<And>s e. keeps s e (f s e)"
  shows "system_inv y'"
proof (cases "i < length (sy_sessions y)")
  case True
  with assms(2) obtain s e where r: "f (sy_sessions y ! i) (sy_env y) = Some (s, e)"
    and y': "y' = y\<lparr>sy_sessions := (sy_sessions y)[i := s], sy_env := e\<rparr>"
    by (auto simp: on_session_def)
  from assms(1) True have "session_inv (sy_sessions y ! i) (sy_env y)" by (simp add: system_inv_def)
  from keepsD [OF assms(3) [of "sy_sessions y ! i" "sy_env y", unfolded r] this]
  have s: "session_inv s e" "ncams e = ncams (sy_env y)" by auto
  then have w: "world_inv (e_world e)" by (simp add: session_inv_def)
  have "system_inv (y\<lparr>sy_sessions := (sy_sessions y)[i := s], sy_cfg_sessions := sy_cfg_sessions y,
      sy_env := e, sy_sql := sy_sql y\<rparr>)"
    using s by (intro system_inv_env [OF assms(1) w]) (auto dest: set_update_cases)
  then show ?thesis by (simp add: y')
next
  case False
  with assms show ?thesis by (simp add: on_session_def)
qed

lemma on_cfg_session_inv:
  assumes "system_inv y" and "on_cfg_session i f y = Some y'"
    and "\<And>s e q s' e' q'. f s e q = Some (s', e', q') \<Longrightarrow> cfg_inv s \<Longrightarrow> world_inv (e_world e) \<Longrightarrow>
      cfg_inv s' \<and> world_inv (e_world e') \<and> ncams e \<le> ncams e'"
  shows "system_inv y'"
proof (cases "i < length (sy_cfg_sessions y)")
  case True
  with assms(2) obtain s e q where r: "f (sy_cfg_sessions y ! i) (sy_env y) (sy_sql y) = Some (s, e, q)"
    and y': "y' = y\<lparr>sy_cfg_sessions := (sy_cfg_sessions y)[i := s], sy_env := e, sy_sql := q\<rparr>"
    by (auto simp: on_cfg_session_def)
  from assms(1) True have "cfg_inv (sy_cfg_sessions y ! i)" "world_inv (e_world (sy_env y))"
    by (simp_all add: system_inv_def)
  from assms(3) [OF r this] have
    s: "cfg_inv s" "world_inv (e_world e)" "ncams (sy_env y) \<le> ncams e" by auto
  have "system_inv (y\<lparr>sy_sessions := sy_sessions y, sy_cfg_sessions := (sy_cfg_sessions y)[i := s],
      sy_env := e, sy_sql := q\<rparr>)"
    using s(1) by (intro system_inv_env [OF assms(1) s(2,3)]) (auto dest: set_update_cases)
  then show ?thesis by (simp add: y')
next
  case False
  with assms show ?thesis by (simp add: on_cfg_session_def)
qed

lemma accept_inv:
  "system_inv y \<Longrightarrow> length (se_data_write raw) = MAX_PACKET_LEN \<Longrightarrow> accept_session error raw y = Some y' \<Longrightarrow>
     system_inv y'"
  "system_inv y \<Longrightarrow> length (k_data_write raw') = MAX_PACKET_LEN \<Longrightarrow> accept_cfg_session error raw' y = Some y' \<Longrightarrow>
     system_inv y'"
  by (auto simp: accept_session_def accept_cfg_session_def bind_eq_Some_conv Let_def system_inv_def
      session_start_def cfg_start_def new_session_inv new_cfg_session_inv split: option.splits)

lemma system_step_inv:
  assumes "system_inv y" and "wf_event ev" and "system_step p ev y = Some y'"
  shows "system_inv y'"
proof (cases ev)
  case (Accept error raw)
  with assms accept_inv(1) show ?thesis by (auto split: if_splits)
next
  case (AcceptCfg error raw)
  with assms accept_inv(2) show ?thesis by (auto split: if_splits)
next
  case (ReadDone i un now c)
  with assms on_session_inv [OF assms(1) _ handle_read_keeps] show ?thesis by simp
next
  case (WriteDone i error)
  with assms on_session_inv [OF assms(1) _ handle_write_keeps] show ?thesis by simp
next
  case (Tick i raw stk)
  with assms on_session_inv [OF assms(1) _ handle_tick_keeps] show ?thesis by simp
next
  case (CfgReadDone i uc now c)
  with assms(3) have "on_cfg_session i (cfg_handle_read (pl_host p) (pl_db p) uc now c) y = Some y'" by simp
  from on_cfg_session_inv [OF assms(1) this] show ?thesis
    using cfg_handle_read_grows by (auto simp: grows_def)
next
  case (CfgWriteDone i error)
  with assms(3) have "on_cfg_session i (\<lambda>s e q. case cfg_handle_write error s e of (s, e) \<Rightarrow> Some (s, e, q)) y
    = Some y'" by simp
  then show ?thesis
    by (rule on_cfg_session_inv [OF assms(1)]) (auto split: prod.splits dest!: cfg_handle_write_grows)
next
  case (CfgTick i now)
  with assms(3) have "on_cfg_session i (\<lambda>s e q.
     if timer_enabled now s then map_option (\<lambda>(s, e). (s, e, q)) (timer_handler (pl_rfile p) (s, e))
     else Some (s, e, q)) y = Some y'" by simp
  from on_cfg_session_inv [OF assms(1) this] show ?thesis
    using timer_handler_inv like_world_inv like_world_ncams by (fastforce split: if_splits)
qed

interpretation sys: machine "system_step p" system_inv wf_event for p
  by unfold_locales (rule system_step_inv)

section \<open>The start of the program\<close>

text \<open>The state after \<open>main\<close> has loaded the database and started both servers\<close>

definition system_start :: "platform \<Rightarrow> parser \<Rightarrow> CSpeedDomeCam \<Rightarrow> sql_state \<Rightarrow> system option" where
  "system_start p lc raw st = do {
     (st, s1, s2) \<leftarrow> main (pl_db p) lc raw st;
     Some \<lparr>sy_server = s1, sy_server_cfg = s2, sy_sessions = [], sy_cfg_sessions = [],
       sy_env = \<lparr>e_world = q_world st, e_log = [], e_failed = 0, e_out = []\<rparr>, sy_sql = st\<rparr>
   }"

text \<open>
  C1: whatever the devices, the clients and the timers do, in any order, a run of the program from
  its start, as long as no step leaves defined behaviour, keeps the missions well-formed (sorted by number, within their
  arrays, every slot a camera that exists), every buffer at its size, and every camera a session holds in existence.
\<close>

theorem every_run_keeps_missions:
  assumes "w_missions (q_world st) = []" and "empty_mission (w_unstart (q_world st))"
    and "empty_mission (q_mission st)"
    and "system_start p lc raw st = Some y" and "\<forall>ev \<in> set evs. wf_event ev"
    and "system_run p evs y = Some y'"
  shows "world_inv (e_world (sy_env y')) \<and>
    (\<forall>s \<in> set (sy_sessions y'). session_inv s (sy_env y')) \<and> (\<forall>s \<in> set (sy_cfg_sessions y'). cfg_inv s)"
proof -
  from assms(4) obtain st' where l: "DBloadConfig (pl_db p) lc raw ''ms.db'' st = Some st'"
    and y: "e_world (sy_env y) = q_world st'" "sy_sessions y = []" "sy_cfg_sessions y = []"
    by (auto simp: system_start_def main_def bind_eq_Some_conv)
  have "sql_inv st"
    using assms(1-3) reachable_world_inv [OF reachable.start] by (simp add: sql_inv_def)
  from DBloadConfig_ok [OF this] l have "world_inv (q_world st')" by (auto simp: yields_def sql_inv_def)
  with y have "system_inv y" by (simp add: system_inv_def)
  from sys.runs_inv [OF this _ assms(6)] assms(5) show ?thesis by (simp add: system_inv_def list_all_iff)
qed

section \<open>Witness\<close>

definition platform0 :: platform where
  "platform0 = \<lparr>pl_host = host0, pl_sdk = sdk_ok, pl_db = db0, pl_rfile = \<lambda>_. None\<rparr>"

lemma DBloadConfig_any_file: "DBloadConfig db0 lc raw f st = DBloadConfig db0 lc raw [] st"
  by (simp add: DBloadConfig_def initConnection_def setParam_def connection0_def db0_def exec_def
      createTable_def select_def)

lemma system_start0:
  "\<exists>y. system_start platform0 lc0 cam0 st0 = Some y \<and> server_inv (sy_server y) \<and>
    sr_pending (sy_server y) \<noteq> None \<and> sy_sessions y = []"
proof -
  have run: "server_inv (server_run s) = server_inv s" "sr_pending (server_run s) = sr_pending s" for s
    by (simp_all add: server_run_def server_inv_def pool_start_def)
  from startup0 obtain st' where "DBloadConfig db0 lc0 cam0 ''ms.db'' st0 = Some st'"
    unfolding DBloadConfig_any_file [of lc0 cam0 "''ms.db''"] by blast
  moreover from server_new_inv [of 200 6061 0] server_new_inv [of 20 6062 1] obtain s1 s2 where
    "server_new 6061 200 0 = Some s1" "server_new 6062 20 1 = Some s2" "server_inv s1" "sr_pending s1 \<noteq> None"
    by auto
  ultimately show ?thesis
    by (simp add: system_start_def main_def platform0_def ServerMissionStart_def ServerConfigStart_def run)
qed

corollary every_run_keeps_missions_witness:
  "\<exists>y y'. system_start platform0 lc0 cam0 st0 = Some y \<and>
    system_run platform0 [Accept None raw_session, ReadDone 0 uninit0 0 (Failed ''reset'')] y = Some y' \<and>
    world_inv (e_world (sy_env y'))"
proof -
  obtain y i where y: "system_start platform0 lc0 cam0 st0 = Some y" "server_inv (sy_server y)"
    "sr_pending (sy_server y) = Some i" "sy_sessions y = []" using system_start0 by blast
  let ?v = "(sy_server y)\<lparr>sr_pending := None, sr_sessions := sr_sessions (sy_server y) @ [i]\<rparr>"
  have "server_inv ?v" using y(2) by (simp add: server_inv_def)
  from async_accept_total [OF this] obtain v where v: "async_accept ?v = Some v" by blast
  let ?evs = "[Accept None raw_session, ReadDone 0 uninit0 0 (Failed ''reset'')]"
  have "\<exists>y'. system_run platform0 ?evs y = Some y'"
    using y(3,4) v
    by (simp add: accept_session_def handle_accept_def on_session_def handle_read_def stop_device_def
        CapDev_stop_def CCaptureDevSession_def CCaptureDevice_new_def Let_def)
  then obtain y' where r: "system_run platform0 ?evs y = Some y'" ..
  have "\<forall>ev \<in> set ?evs. wf_event ev" by (simp add: raw_session_def)
  from every_run_keeps_missions [OF _ _ _ y(1) this r] r y(1) show ?thesis
    by (auto simp: st0_def empty_mission_def mission0_def)
qed

section \<open>From a client to a device\<close>

text \<open>The bytes of a login, as they arrive in session \<open>s\<close>, are good and make its device \<open>d\<close>.\<close>

definition good_login :: "host \<Rightarrow> uninit \<Rightarrow> session \<Rightarrow> byte list \<Rightarrow> CCaptureDevice \<Rightarrow> bool" where
  "good_login h un s bs d \<longleftrightarrow> 4 < length bs \<and> length bs \<le> MAX_PACKET_LEN \<and> bs ! 4 = 1 \<and>
     (\<exists>k li num. ParseLoginInfo (Some (drop 5 (bs @ drop (length bs) (se_data s)))) (int (length bs) - 5)
        (un_loginInfo un) = Some (k, li) \<and> cstr (li_devNum li) = Some num \<and> bad_chars num = 0 \<and>
        CapDev_init h (se_capDev s) (Some (se_socket s)) li = Some d \<and> cd_run d \<noteq> 0)"

lemma read_login_state:
  assumes "session_inv s e" and "se_alive s" and "\<not> se_recvCaprure s" and "good_login h un s bs d"
    and "MissionMatch d (e_world e) = Some m" and "m \<noteq> - 1"
    and "MissionGet m (e_world e) = Some ms" and "free_slot (w_cams (e_world e), ms) = Some j"
  shows "\<exists>s' e'. handle_read h sdk un now (Transferred bs) s e = Some (s', emit [ReadMore] e') \<and>
    handle_login h un now (length bs) (arrived bs s) e = Some (True, s', e') \<and>
    se_capDev s' = d\<lparr>cd_missionNum := word_of_int m, cd_SpdDomeCam := Some (cam_refs ms ! j),
      cd_missionStatus := MISSION_READY, cd_timer := Some (now + 3), cd_isOnline := 1\<rparr> \<and> se_alive s' \<and>
    w_cams (e_world e') = (w_cams (e_world e))[cam_refs ms ! j :=
      (w_cams (e_world e) ! (cam_refs ms ! j))\<lparr>dc_isUsing := BUSY\<rparr>]"
proof -
  let ?data = "bs @ drop (length bs) (se_data s)"
  let ?s = "s\<lparr>se_data := ?data, se_recv_times := se_recv_times s + 1\<rparr>"
  from assms(4) obtain k li num where b: "4 < length bs" "length bs \<le> MAX_PACKET_LEN" "bs ! 4 = 1"
    and l: "ParseLoginInfo (Some (drop 5 (se_data ?s))) (int (length bs) - 5) (un_loginInfo un) = Some (k, li)"
      "cstr (li_devNum li) = Some num" "bad_chars num = 0"
      "CapDev_init h (se_capDev ?s) (Some (se_socket ?s)) li = Some d" "cd_run d \<noteq> 0"
    by (auto simp: good_login_def)
  have inv: "session_inv ?s e" using assms(1) b(2) by (simp add: session_inv_def)
  from login_free_camera [OF inv l assms(5,6), of now] assms(7,8) obtain s' e' where
    r: "handle_login h un now (length bs) ?s e = Some (True, s', e')"
    "se_capDev s' = d\<lparr>cd_missionNum := word_of_int m, cd_SpdDomeCam := Some (cam_refs ms ! j),
      cd_missionStatus := MISSION_READY, cd_timer := Some (now + 3), cd_isOnline := 1\<rparr>" "se_alive s'"
    "w_cams (e_world e') = (w_cams (e_world e))[cam_refs ms ! j :=
      (w_cams (e_world e) ! (cam_refs ms ! j))\<lparr>dc_isUsing := BUSY\<rparr>]"
    using assms(2) by (fastforce simp: Let_def)
  obtain w where "ParseFrameHead (Some ?data) (int (length bs)) (un_head un) = Some (0, (un_head un)\<lparr>ph_frameSize := w, ph_type := 1\<rparr>)"
    using frame_head [OF b(1)] b(3) by metis
  with r(1) have "handle_read h sdk un now (Transferred bs) s e = Some (s', emit [ReadMore] e')"
    by (simp add: read_frame [OF assms(1-3) b(2)] handle_frame_def)
  with r show ?thesis by auto
qed

lemma read_login:
  assumes "session_inv s e" and "se_alive s" and "\<not> se_recvCaprure s" and "good_login h un s bs d"
    and "MissionMatch d (e_world e) = Some m" and "m \<noteq> - 1"
    and "MissionGet m (e_world e) = Some ms" and "free_slot (w_cams (e_world e), ms) = Some j"
  shows "\<exists>s' e'. handle_read h sdk un now (Transferred bs) s e = Some (s', e') \<and>
    cd_SpdDomeCam (se_capDev s') = Some (cam_refs ms ! j) \<and> cd_timer (se_capDev s') = Some (now + 3) \<and>
    w_cams (e_world e') = (w_cams (e_world e))[cam_refs ms ! j :=
      (w_cams (e_world e) ! (cam_refs ms ! j))\<lparr>dc_isUsing := BUSY\<rparr>]"
  using read_login_state [OF assms, of sdk now] by fastforce

lemma free_slot_after_move:
  assumes "wf_cams (cams @ [c], ms')" and "free_slot (old, ms) = None" and "wf_cams (old, ms)"
    and "map dc_isUsing cams = map dc_isUsing old" and "dc_isUsing c = FREE"
    and "cam_refs ms' = cam_refs ms @ [length old]"
  shows "free_slot (cams @ [c], ms') = Some (length (cam_refs ms))"
proof -
  have len: "length cams = length old" using assms(4) by (metis length_map)
  have bound: "\<forall>r \<in> set (cam_refs ms). r < length old"
    using assms(3) by (auto simp: wf_cams_def cam_refs_def)
  have same: "dc_isUsing (cams ! r) = dc_isUsing (old ! r)" if "r < length old" for r
    using arg_cong [OF assms(4), of "\<lambda>xs. xs ! r"] that len by simp
  have l: "cam_list (cams @ [c], ms') = map (\<lambda>r. cams ! r) (cam_refs ms) @ [c]"
    using bound len by (simp add: cam_list_def assms(6) nth_append)
  have "\<forall>x \<in> set (map (\<lambda>r. cams ! r) (cam_refs ms)). dc_isUsing x \<noteq> FREE"
    using assms(2) bound same by (auto simp: free_slot_None cam_list_def)
  from only_free_slot [OF assms(1) l assms(5) this] show ?thesis by simp
qed

lemma MissionGet_set_mission:
  assumes "world_inv w" and "i < length (w_missions w)" and "mission_at i w = ms"
  shows "MissionGet (sint (ms_missionNum ms)) w = Some ms"
proof -
  have "distinct (map fst (w_missions w))"
    using assms(1) strict_sorted_iff [of "map fst (w_missions w)"] by (simp add: world_inv_def)
  moreover have "w_missions w ! i = (sint (ms_missionNum ms), ms)"
    using mission_at_inv [OF assms(1,2)] assms(3) by (auto simp: mission_at_def prod_eq_iff)
  then have "(sint (ms_missionNum ms), ms) \<in> set (w_missions w)"
    using assms(2) by (metis nth_mem)
  ultimately show ?thesis by (simp add: MissionGet_def)
qed

text \<open>After the client's request the mission has one free camera, the new one.\<close>

lemma change_step:
  assumes "system_inv y" and "e_world (sy_env y) = w" and "i < length (sy_cfg_sessions y)"
    and "sq_open (pl_db p) ''ms.db''" and "silent (pl_db p) ''UPDATE''"
    and "length (decimal (pl_host p) num) < 600" and "num \<noteq> - 1"
    and "wire_string cam" and "cam \<noteq> []"
    and "find_mission num w = Some m" and "free_slot (w_cams w, mission_at m w) = None"
    and "find_index (\<lambda>c. camNum_of c = cam) (cam_list (w_cams w, w_unstart w)) = Some u"
    and "unat (ms_totalSpdDomeCam (mission_at m w)) < MAX_SDC"
    and "unat (ms_totalSpdDomeCam (w_unstart w)) < MAX_SDC"
  shows "\<exists>y' w' ms' k cams c.
    system_step p (CfgReadDone i uc now (Transferred (change_frame len 0 (- 1) num cam))) y = Some y' \<and>
    sy_sessions y' = sy_sessions y \<and> e_world (sy_env y') = w' \<and> w_cams w' = cams @ [c] \<and>
    length cams = length (w_cams w) \<and> camNum_of c = cam \<and> sc_missionNum (dc_m_sdcCfg c) = num \<and>
    MissionGet (sint num) w' = Some ms' \<and> free_slot (w_cams w', ms') = Some k \<and>
    cam_refs ms' ! k = length (w_cams w) \<and> (\<forall>d. MissionMatch d w' = MissionMatch d w)"
proof -
  let ?ev = "CfgReadDone i uc now (Transferred (change_frame len 0 (- 1) num cam))"
  have inv: "world_inv w" "cfg_inv (sy_cfg_sessions y ! i)"
    using assms(1-3) by (auto simp: system_inv_def)
  obtain s' q' cams c ms' un' where
    r: "cfg_handle_read (pl_host p) (pl_db p) uc now (Transferred (change_frame len 0 (- 1) num cam))
        (sy_cfg_sessions y ! i) (sy_env y) (sy_sql y) =
      Some (s', set_world (set_mission m ms' (w\<lparr>w_cams := cams @ [c], w_unstart := un'\<rparr>)) (sy_env y), q')" and
    l: "map dc_isUsing cams = map dc_isUsing (w_cams w)"
      "cam_refs ms' = cam_refs (mission_at m w) @ [length (w_cams w)]"
      "same_devices (mission_at m w) ms'" "camNum_of c = cam" "dc_isUsing c = FREE"
      "sc_missionNum (dc_m_sdcCfg c) = num"
    using change_request_world [where e = "sy_env y" and uc = uc and now = now and len = len and q = "sy_sql y",
      unfolded assms(2), OF inv(2,1) assms(4-6,8,9,7,10,12-14)] by blast
  let ?w = "set_mission m ms' (w\<lparr>w_cams := cams @ [c], w_unstart := un'\<rparr>)"
  let ?y = "y\<lparr>sy_cfg_sessions := (sy_cfg_sessions y)[i := s'], sy_env := set_world ?w (sy_env y), sy_sql := q'\<rparr>"
  have step: "system_step p ?ev y = Some ?y" using assms(3) r by (simp add: on_cfg_session_def)
  from system_step_inv [OF assms(1) _ this] have winv: "world_inv ?w" by (simp add: system_inv_def)
  have m: "m < length (w_missions w)" "ms_missionNum (mission_at m w) = num" using find_mission_Some [OF assms(10)] by auto
  then have at: "mission_at m ?w = ms'" and mlen: "m < length (w_missions ?w)"
    by (simp_all add: mission_at_set) (simp add: set_mission_def)
  have "ms_missionNum ms' = num" using l(3) m(2) by (simp add: same_devices_def)
  with MissionGet_set_mission [OF winv mlen at] have get: "MissionGet (sint num) ?w = Some ms'" by simp
  have "wf_cams (cams @ [c], ms')" using mission_at_inv [OF winv mlen] at by (simp add: wf_mission_def)
  from free_slot_after_move [OF this assms(11) _ l(1,5,2)] mission_of_found [OF inv(1) assms(10)]
  have free: "free_slot (w_cams ?w, ms') = Some (length (cam_refs (mission_at m w)))"
    by (simp add: wf_mission_def)
  have "cam_refs ms' ! length (cam_refs (mission_at m w)) = length (w_cams w)"
    by (simp only: l(2) nth_append_length)
  moreover have "length cams = length (w_cams w)" using l(1) by (metis length_map)
  ultimately show ?thesis using step get free l(4,6) MissionMatch_same [OF m(1) l(3)]
    by (intro exI [of _ ?y] exI [of _ ?w] exI [of _ ms'] exI [of _ "length (cam_refs (mission_at m w))"]
        exI [of _ cams] exI [of _ c]) (simp del: system_step.simps length_cam_refs)
qed

text \<open>
  C2: the way of a camera through the program. A client moves an ungrouped camera into a mission, whose number is not -1,
  none of whose cameras is free; there is room in the mission and among the ungrouped cameras, the database opens and the
  UPDATE yields no rows. The next event is the login of a device of that mission that is not in the middle of a snapshot, and it
  gets the camera: the device holds a new camera with the number the client named, busy now and with the mission's
  number, and the timer of its tour is armed.
\<close>

theorem moved_camera_given_at_login:
  assumes "system_inv y" and "e_world (sy_env y) = w" and "i < length (sy_cfg_sessions y)"
    and "sq_open (pl_db p) ''ms.db''" and "silent (pl_db p) ''UPDATE''"
    and "length (decimal (pl_host p) num) < 600" and "num \<noteq> - 1"
    and "wire_string cam" and "cam \<noteq> []"
    and "find_mission num w = Some m" and "free_slot (w_cams w, mission_at m w) = None"
    and "find_index (\<lambda>c. camNum_of c = cam) (cam_list (w_cams w, w_unstart w)) = Some u"
    and "unat (ms_totalSpdDomeCam (mission_at m w)) < MAX_SDC"
    and "unat (ms_totalSpdDomeCam (w_unstart w)) < MAX_SDC"
    and "j < length (sy_sessions y)" and "sy_sessions y ! j = s" and "se_alive s" and "\<not> se_recvCaprure s"
    and "good_login (pl_host p) un s bs d" and "MissionMatch d w = Some (sint num)"
  shows "\<exists>y' c. system_run p [CfgReadDone i uc now1 (Transferred (change_frame len 0 (- 1) num cam)),
      ReadDone j un now2 (Transferred bs)] y = Some y' \<and>
    cd_SpdDomeCam (se_capDev (sy_sessions y' ! j)) = Some (length (w_cams w)) \<and>
    cd_timer (se_capDev (sy_sessions y' ! j)) = Some (now2 + 3) \<and>
    w_cams (e_world (sy_env y')) ! length (w_cams w) = c \<and> camNum_of c = cam \<and> dc_isUsing c = BUSY \<and>
    sc_missionNum (dc_m_sdcCfg c) = num"
proof -
  let ?ev = "CfgReadDone i uc now1 (Transferred (change_frame len 0 (- 1) num cam))"
  obtain y' ms' k cams c where step: "system_step p ?ev y = Some y'" "sy_sessions y' = sy_sessions y"
    and w': "w_cams (e_world (sy_env y')) = cams @ [c]" "length cams = length (w_cams w)" "camNum_of c = cam"
      "sc_missionNum (dc_m_sdcCfg c) = num"
    and get: "MissionGet (sint num) (e_world (sy_env y')) = Some ms'"
      "free_slot (w_cams (e_world (sy_env y')), ms') = Some k" "cam_refs ms' ! k = length (w_cams w)"
      "\<forall>d. MissionMatch d (e_world (sy_env y')) = MissionMatch d w"
    using change_step [OF assms(1-14), of uc now1 len] by blast
  from system_step_inv [OF assms(1) _ step(1)] have "system_inv y'" by simp
  with step(2) assms(15,16) have inv: "session_inv s (sy_env y')" by (auto simp: system_inv_def)
  have neq: "sint num \<noteq> - 1"
  proof
    assume "sint num = - 1"
    then have "word_of_int (sint num) = (word_of_int (- 1) :: u32)" by (rule arg_cong)
    with assms(7) show False by simp
  qed
  have "MissionMatch d (e_world (sy_env y')) = Some (sint num)" using get(4) assms(20) by simp
  from read_login [OF inv assms(17-19) this neq get(1,2), of "pl_sdk p" now2, unfolded get(3)] obtain t f where
    t: "handle_read (pl_host p) (pl_sdk p) un now2 (Transferred bs) s (sy_env y') = Some (t, f)"
    "cd_SpdDomeCam (se_capDev t) = Some (length (w_cams w))" "cd_timer (se_capDev t) = Some (now2 + 3)"
    "w_cams (e_world f) = (cams @ [c])[length cams := ((cams @ [c]) ! length cams)\<lparr>dc_isUsing := BUSY\<rparr>]"
    by (auto simp: w'(1,2))
  have "system_run p [?ev, ReadDone j un now2 (Transferred bs)] y =
      Some (y'\<lparr>sy_sessions := (sy_sessions y)[j := t], sy_env := f\<rparr>)"
    using step t(1) assms(15,16) by (simp add: on_session_def del: system_step.simps(6))
  moreover have "(cams @ [c]) ! length (w_cams w) = c" using w'(2) by (metis nth_append_length)
  ultimately show ?thesis using t(2-4) w'(2-4) assms(15) by auto
qed

definition server0 :: server where
  "server0 = \<lparr>sr_port = 6061, sr_io_service_pool = io_service_pool_new 1, sr_acceptor = 0, sr_type = 0,
     sr_pending = None, sr_sessions = []\<rparr>"

definition world3 :: world where
  "world3 = \<lparr>w_cams = [sdc8], w_missions = [(3, (mission0 0)\<lparr>ms_totalCapDev := 1\<rparr>)], w_unstart = mission0 1,
     w_results = []\<rparr>"

definition system3 :: system where
  "system3 = \<lparr>sy_server = server0, sy_server_cfg = server0, sy_sessions = [session1],
     sy_cfg_sessions = [cfg_session0], sy_env = \<lparr>e_world = world3, e_log = [], e_failed = 0, e_out = []\<rparr>,
     sy_sql = st0\<rparr>"

lemma good_login0: "\<exists>d. good_login host0 uninit0 session1 (login_frame [52, 50]) d \<and> cd_devNum d = ''42''"
proof -
  let ?bs = "login_frame [52, 50]"
  have l: "4 < length ?bs" "length ?bs \<le> MAX_PACKET_LEN" "?bs ! 4 = 1"
    by (simp_all add: login_frame_def login_wire_def MAX_PACKET_LEN_def nth_append)
  have data: "?bs @ drop (length ?bs) (se_data session1) = se_data (session_with ?bs)" by (simp add: session_with_def)
  from parse_login_frame [of "[52, 50]" "int (length ?bs) - 5"] l(1) obtain k li where
    p: "ParseLoginInfo (Some (drop 5 (?bs @ drop (length ?bs) (se_data session1)))) (int (length ?bs) - 5)
      (un_loginInfo uninit0) = Some (k, li)"
    and num: "li_devNum li = [52, 50] @ replicate 510 0" and nm: "li_name li = 65 # replicate 511 0"
    and ip: "length (li_IP li) = 4" "length (li_MAC li) = 6"
    unfolding data by (auto simp: uninit0_def)
  have c: "cstr (li_devNum li) = Some ''42''" "cstr (li_name li) = Some ''A''"
    unfolding num nm by (simp_all add: numeral_eq_Suc chr8_def) (code_simp)+
  have b: "bad_chars ''42'' = 0" by code_simp
  obtain d where "CapDev_init host0 (se_capDev session1) (Some (se_socket session1)) li = Some d"
    and "cd_run d \<noteq> 0" and "cd_devNum d = ''42''"
    using c ip by (simp add: CapDev_init_def dev0_def)
  with l p c(1) b show ?thesis unfolding good_login_def by blast
qed

corollary moved_camera_given_at_login_witness:
  "\<exists>y'. system_run platform0 [CfgReadDone 0 cfg_uninit0 0 (Transferred (change_frame 30 0 (- 1) 3 ''8'')),
      ReadDone 0 uninit0 7 (Transferred (login_frame [52, 50]))] system3 = Some y' \<and>
    cd_SpdDomeCam (se_capDev (sy_sessions y' ! 0)) = Some 1 \<and>
    dc_isUsing (w_cams (e_world (sy_env y')) ! 1) = BUSY"
proof -
  have inv: "world_inv world3"
    by (simp add: world_inv_def world3_def wf_mission_def wf_mission0 wf_cams_def wf_devs_def mission0_def
        MAX_CAPDEV_def MAX_SDC_def)
  obtain d where d: "good_login host0 uninit0 session1 (login_frame [52, 50]) d" "cd_devNum d = ''42''"
    using good_login0 by blast
  have "MissionMatch d world3 = Some (sint (3 :: u32))" using d(2)
    by (simp add: MissionMatch_def world3_def CMission_match_def find_CapDev_def CapDev_at_def MAX_CAPDEV_def
        mission0_def dev0_def)
  moreover have "free_slot (w_cams world3, mission_at 0 world3) = None"
    "find_mission 3 world3 = Some 0" "unat (ms_totalSpdDomeCam (mission_at 0 world3)) < MAX_SDC"
    "unat (ms_totalSpdDomeCam (w_unstart world3)) < MAX_SDC"
    "find_index (\<lambda>c. camNum_of c = ''8'') (cam_list (w_cams world3, w_unstart world3)) = Some 0"
    by (simp_all add: free_slot_None cam_list_def cam_refs_def mission_at_def world3_def mission0_def
        find_mission_def MAX_SDC_def)
  moreover have "system_inv system3" "length (decimal host0 3) < 600" "wire_string ''8''"
    using inv session1_inv cfg_inv0
    by (simp_all add: system_inv_def system3_def session_inv_def wire_string_def no_nul_def ord8_def
        decimal_def host0_def dec.simps dev0_def)
  ultimately have "\<exists>y' (c :: CSpeedDomeCam). system_run platform0 [CfgReadDone 0 cfg_uninit0 0 (Transferred (change_frame 30 0 (- 1) 3 ''8'')),
      ReadDone 0 uninit0 7 (Transferred (login_frame [52, 50]))] system3 = Some y' \<and>
    cd_SpdDomeCam (se_capDev (sy_sessions y' ! 0)) = Some (length (w_cams world3)) \<and>
    cd_timer (se_capDev (sy_sessions y' ! 0)) = Some (7 + 3) \<and>
    w_cams (e_world (sy_env y')) ! length (w_cams world3) = c \<and> camNum_of c = ''8'' \<and> dc_isUsing c = BUSY \<and>
    sc_missionNum (dc_m_sdcCfg c) = 3"
    using d(1) silent0
    by (intro moved_camera_given_at_login [where m = 0 and u = 0 and s = session1 and d = d])
      (simp_all add: platform0_def system3_def)
  then show ?thesis by (auto simp: world3_def)
qed

end
