(* ===== verification/Allocation.thy ===== *)
theory Allocation
  imports System
begin

text \<open>
  The allocation of cameras to devices, as a specification: who tours with which camera, and which cameras are
  marked busy. The moves of the specification keep every camera with at most one device. Each handler of
  a session makes one such move, or one of two others that the code does not exclude: a device
  restarts with a camera it had given back, or a device that is gone frees a camera it had given back.
\<close>

section \<open>The specification\<close>

text \<open>For each session the camera it tours with, and for each camera its mark\<close>

type_synonym view = "cam_ref option list \<times> SDCSTTAUS list"

inductive alloc :: "view \<Rightarrow> view \<Rightarrow> bool" where
  idle: "alloc v v"
| take: "i < length hs \<Longrightarrow> q < length us \<Longrightarrow> us ! q = FREE \<Longrightarrow> alloc (hs, us) (hs[i := Some q], us[q := BUSY])"
| release: "i < length hs \<Longrightarrow> hs ! i = Some r \<Longrightarrow> alloc (hs, us) (hs[i := None], us[r := FREE])"
| leave: "alloc (hs, us) (hs[i := None], us)"
| connect: "alloc (hs, us) (hs @ [None], us)"
| install: "alloc (hs, us) (hs, us @ replicate n FREE)"

fun exclusive :: "view \<Rightarrow> bool" where
  "exclusive (hs, us) \<longleftrightarrow>
     (\<forall>i < length hs. \<forall>r. hs ! i = Some r \<longrightarrow> r < length us \<and> us ! r = BUSY \<and>
        (\<forall>j < length hs. j \<noteq> i \<longrightarrow> hs ! j \<noteq> Some r))"

declare exclusive.simps [simp del]

lemma exclusiveD:
  assumes "exclusive (hs, us)" and "i < length hs" and "hs ! i = Some r"
  shows "r < length us" and "us ! r = BUSY" and "j < length hs \<Longrightarrow> hs ! j = Some r \<Longrightarrow> j = i"
  using assms unfolding exclusive.simps by metis+

lemma exclusiveI:
  assumes "\<And>i r. i < length hs \<Longrightarrow> hs ! i = Some r \<Longrightarrow> r < length us \<and> us ! r = BUSY"
    and "\<And>i j r. i < length hs \<Longrightarrow> j < length hs \<Longrightarrow> hs ! i = Some r \<Longrightarrow> hs ! j = Some r \<Longrightarrow> i = j"
  shows "exclusive (hs, us)"
  using assms unfolding exclusive.simps by metis

lemma alloc_exclusive: "alloc v v' \<Longrightarrow> exclusive v \<Longrightarrow> exclusive v'"
proof (induction rule: alloc.induct)
  case (take i hs q us)
  have q: "hs ! l \<noteq> Some q" if "l < length hs" for l
    using exclusiveD(2) [OF take.prems that] take.hyps(3) by auto
  show ?case
  proof (rule exclusiveI)
    fix j r assume j: "j < length (hs[i := Some q])" "hs[i := Some q] ! j = Some r"
    then show "r < length (us[q := BUSY]) \<and> us[q := BUSY] ! r = BUSY"
      using exclusiveD(1,2) [OF take.prems, of j r] take.hyps(2) by (cases "j = i"; cases "r = q") auto
    fix k assume k: "k < length (hs[i := Some q])" "hs[i := Some q] ! k = Some r"
    show "j = k"
      using j k q exclusiveD(3) [OF take.prems, of j r k] by (cases "j = i"; cases "k = i") auto
  qed
next
  case (release i hs r us)
  show ?case
  proof (rule exclusiveI)
    fix j k assume j: "j < length (hs[i := None])" "hs[i := None] ! j = Some k"
    then have n: "j \<noteq> i" by auto
    with j have old: "j < length hs" "hs ! j = Some k" by auto
    from exclusiveD(3) [OF release.prems this] n release.hyps have "k \<noteq> r" by auto
    with exclusiveD(1,2) [OF release.prems old]
    show "k < length (us[r := FREE]) \<and> us[r := FREE] ! k = BUSY" by simp
    fix l assume "l < length (hs[i := None])" "hs[i := None] ! l = Some k"
    then have "l < length hs" "hs ! l = Some k" by (cases "l = i"; simp)+
    with exclusiveD(3) [OF release.prems old] show "j = l" by blast
  qed
next
  case (leave hs us i)
  show ?case
  proof (rule exclusiveI)
    fix j k assume "j < length (hs[i := None])" "hs[i := None] ! j = Some k"
    then have old: "j < length hs" "hs ! j = Some k" by (cases "j = i"; simp)+
    with exclusiveD(1,2) [OF leave old] show "k < length us \<and> us ! k = BUSY" by simp
    fix l assume "l < length (hs[i := None])" "hs[i := None] ! l = Some k"
    then have "l < length hs" "hs ! l = Some k" by (cases "l = i"; simp)+
    with exclusiveD(3) [OF leave old] show "j = l" by blast
  qed
next
  case (connect hs us)
  show ?case
  proof (rule exclusiveI)
    fix j k assume "j < length (hs @ [None])" "(hs @ [None]) ! j = Some k"
    then have old: "j < length hs" "hs ! j = Some k" by (cases "j < length hs"; simp add: nth_append)+
    with exclusiveD(1,2) [OF connect old] show "k < length us \<and> us ! k = BUSY" by simp
    fix l assume "l < length (hs @ [None])" "(hs @ [None]) ! l = Some k"
    then have "l < length hs" "hs ! l = Some k" by (cases "l < length hs"; simp add: nth_append)+
    with exclusiveD(3) [OF connect old] show "j = l" by blast
  qed
next
  case (install hs us n)
  show ?case
  proof (rule exclusiveI)
    fix j k assume old: "j < length hs" "hs ! j = Some k"
    from exclusiveD(1,2) [OF install old] show "k < length (us @ replicate n FREE) \<and> (us @ replicate n FREE) ! k = BUSY"
      by (simp add: nth_append)
    fix l assume "l < length hs" "hs ! l = Some k"
    with exclusiveD(3) [OF install old] show "j = l" by blast
  qed
qed

section \<open>The view of the sessions\<close>

text \<open>A device is on its tour when \<open>MissoinLoop\<close> does not idle for its status.\<close>

definition on_tour :: "CCaptureDevice \<Rightarrow> bool" where
  "on_tour d \<longleftrightarrow> cd_missionStatus d \<noteq> MISSION_COMPLETED \<and> cd_missionStatus d \<noteq> MISSION_FAILD"

definition tours_with :: "CCaptureDevice \<Rightarrow> cam_ref option" where
  "tours_with d = (if on_tour d then cd_SpdDomeCam d else None)"

definition holds :: "session \<Rightarrow> cam_ref option" where
  "holds s = (if se_alive s then tours_with (se_capDev s) else None)"

definition usage :: "env \<Rightarrow> SDCSTTAUS list" where
  "usage e = map dc_isUsing (w_cams (e_world e))"

text \<open>What a handler did, by the camera its device holds and the marks\<close>

datatype effect =
  Same
| Took cam_ref
| Released cam_ref
| Left
| Kept_old cam_ref
| Freed_old cam_ref

fun did :: "effect \<Rightarrow> session \<Rightarrow> env \<Rightarrow> session \<Rightarrow> env \<Rightarrow> bool" where
  "did Same s e s' e' \<longleftrightarrow> holds s' = holds s \<and> usage e' = usage e"
| "did (Took q) s e s' e' \<longleftrightarrow> q < ncams e \<and> usage e ! q = FREE \<and> holds s' = Some q \<and> usage e' = (usage e)[q := BUSY]"
| "did (Released r) s e s' e' \<longleftrightarrow> holds s = Some r \<and> holds s' = None \<and> usage e' = (usage e)[r := FREE]"
| "did Left s e s' e' \<longleftrightarrow> holds s' = None \<and> usage e' = usage e"
| "did (Kept_old r) s e s' e' \<longleftrightarrow> holds s = None \<and> cd_SpdDomeCam (se_capDev s) = Some r \<and>
     holds s' = Some r \<and> usage e' = usage e"
| "did (Freed_old r) s e s' e' \<longleftrightarrow> holds s = None \<and> cd_SpdDomeCam (se_capDev s) = Some r \<and>
     holds s' = None \<and> usage e' = (usage e)[r := FREE]"

section \<open>Replies and free cameras\<close>

lemma usage_emit [simp]: "usage (emit evs e) = usage e"
  by (simp add: usage_def)

lemma holds_simps [simp]:
  "holds (s\<lparr>se_data := x\<rparr>) = holds s" "holds (s\<lparr>se_status := y\<rparr>) = holds s" "holds (s\<lparr>se_recv_times := z\<rparr>) = holds s"
  "holds (s\<lparr>se_res := res\<rparr>) = holds s" "holds (s\<lparr>se_picData := x\<rparr>) = holds s" "holds (s\<lparr>se_data_write := x\<rparr>) = holds s"
  "holds (s\<lparr>se_curPicDataPos := n\<rparr>) = holds s" "holds (s\<lparr>se_rcvdSzie := z\<rparr>) = holds s"
  "holds (s\<lparr>se_recvCaprure := b\<rparr>) = holds s" "holds (s\<lparr>se_freeThis := b\<rparr>) = holds s"
  by (simp_all add: holds_def)

lemma did_emit: "did x s e s' (emit evs e') = did x s e s' e'"
  by (cases x) simp_all

lemma respond_same: "respond t v s e = Some (s', e') \<Longrightarrow>
    holds s' = holds s \<and> usage e' = usage e \<and> se_alive s' = se_alive s \<and> se_freeThis s' = se_freeThis s \<and>
    se_capDev s' = se_capDev s"
  by (auto simp: respond_def bind_eq_Some_conv Let_def)

lemma match_device_same: "match_device s e = Some s' \<Longrightarrow>
    holds s' = holds s \<and> se_alive s' = se_alive s \<and> se_freeThis s' = se_freeThis s \<and>
    cd_SpdDomeCam (se_capDev s') = cd_SpdDomeCam (se_capDev s) \<and>
    cd_missionStatus (se_capDev s') = cd_missionStatus (se_capDev s) \<and> cd_run (se_capDev s') = cd_run (se_capDev s)"
  by (auto simp: match_device_def holds_def tours_with_def on_tour_def)

lemma getFreeSDC_usage:
  assumes "wf_cams (cams, ms)" and "getFreeSDC cams ms = Some (r, p, cams', ms')"
  shows "p = None \<and> cams' = cams \<or>
    (\<exists>q < length cams. p = Some (Some q) \<and> dc_isUsing (cams ! q) = FREE \<and>
       map dc_isUsing cams' = (map dc_isUsing cams)[q := BUSY])"
proof (cases "free_slot (cams, ms)")
  case None
  with assms show ?thesis by (simp add: getFreeSDC_eq)
next
  case (Some j)
  from free_slot_Some [OF assms(1) Some] have j: "j < unat (ms_totalSpdDomeCam ms)"
    "dc_isUsing (cam_list (cams, ms) ! j) = FREE" by auto
  with SDC_at_wf(2) [OF assms(1) j(1)] have "cam_refs ms ! j < length cams" "dc_isUsing (cams ! (cam_refs ms ! j)) = FREE"
    by (auto simp: cam_list_def cam_refs_def)
  with assms Some show ?thesis by (auto simp: getFreeSDC_eq Let_def map_update)
qed

lemma give_camera_effect:
  assumes "give_camera now p ms s e = Some (s', e')" and "se_alive s"
  shows "holds s' = Some p \<and> usage e' = usage e \<and> se_alive s' = se_alive s \<and> se_freeThis s' = se_freeThis s"
proof -
  let ?s = "set_capDev (\<lambda>d. d\<lparr>cd_SpdDomeCam := Some p, cd_missionStatus := MISSION_READY\<rparr>) s"
  obtain t f where tf: "put_dev (CapDev_start now (as_dev ?s e)) ?s e = (t, f)" by fastforce
  have t: "holds (set_capDev (\<lambda>d. d\<lparr>cd_isOnline := 1\<rparr>) t) = Some p" "usage f = usage e" "se_alive t = se_alive s"
    "se_freeThis t = se_freeThis s"
    using tf assms(2) by (auto simp: put_dev_def CapDev_start_def as_dev_def holds_def tours_with_def on_tour_def usage_def
        split: if_splits)
  from assms(1) tf obtain n ms' where
    u: "updateCapdev (w_cams (e_world f)) ms (se_capDev (set_capDev (\<lambda>d. d\<lparr>cd_isOnline := 1\<rparr>) t)) = Some (n, ms')" and
    r: "respond LOGIN_RESP 1 (set_capDev (\<lambda>d. d\<lparr>cd_isOnline := 1\<rparr>) t)
      (put_mission (mission_key (set_capDev (\<lambda>d. d\<lparr>cd_isOnline := 1\<rparr>) t)) ms' (w_cams (e_world f)) f) = Some (s', e')"
    by (auto simp: give_camera_def bind_eq_Some_conv Let_def)
  from respond_same [OF r] t show ?thesis by (simp add: usage_def put_mission_def)
qed

lemma take_free_camera_effect:
  assumes "take_free_camera now s e = Some (s', e')" and "session_inv s e" and "se_alive s"
  shows "(\<exists>x. x \<in> insert Same (range Took) \<and> did x s e s' e') \<and> se_alive s' = se_alive s \<and> se_freeThis s' = se_freeThis s"
proof -
  from assms(1) obtain ms n p cams ms' where
    g: "MissionGet (mission_key s) (e_world e) = Some ms"
      "getFreeSDC (w_cams (e_world e)) ms = Some (n, p, cams, ms')"
    by (auto simp: take_free_camera_def bind_eq_Some_conv)
  have wf: "wf_cams (w_cams (e_world e), ms)"
    using MissionGet_inv [OF _ g(1)] assms(2) by (simp add: session_inv_def wf_mission_def)
  let ?e = "put_mission (mission_key s) ms' cams e"
  have e: "usage ?e = map dc_isUsing cams" by (simp add: usage_def put_mission_def)
  from getFreeSDC_usage [OF wf g(2)] show ?thesis
  proof
    assume "p = None \<and> cams = w_cams (e_world e)"
    with assms(1) g have "s' = s \<and> e' = ?e" by (auto simp: take_free_camera_def)
    then have "did Same s e s' e'" using \<open>p = None \<and> cams = w_cams (e_world e)\<close> e by (simp add: usage_def)
    with \<open>s' = s \<and> e' = ?e\<close> show ?thesis by blast
  next
    assume "\<exists>q < length (w_cams (e_world e)). p = Some (Some q) \<and> dc_isUsing (w_cams (e_world e) ! q) = FREE \<and>
       map dc_isUsing cams = (map dc_isUsing (w_cams (e_world e)))[q := BUSY]"
    then obtain q where q: "q < ncams e" "p = Some (Some q)" "dc_isUsing (w_cams (e_world e) ! q) = FREE"
      "map dc_isUsing cams = (usage e)[q := BUSY]" by (auto simp: usage_def)
    with assms(1) g have "give_camera now q ms' s ?e = Some (s', e')" by (simp add: take_free_camera_def)
    from give_camera_effect [OF this assms(3)] q e have "did (Took q) s e s' e'" by (simp add: usage_def)
    with give_camera_effect [OF \<open>give_camera now q ms' s ?e = Some (s', e')\<close> assms(3)] show ?thesis by blast
  qed
qed

section \<open>The messages of a device\<close>

text \<open>The flag that guards the deletion is set as long as the session lives.\<close>

definition flags :: "session \<Rightarrow> bool \<times> bool" where
  "flags s = (se_alive s, se_freeThis s)"

definition does :: "effect set \<Rightarrow> session \<Rightarrow> env \<Rightarrow> (session \<times> env) option \<Rightarrow> bool" where
  "does X s e r \<longleftrightarrow> (\<forall>s' e'. r = Some (s', e') \<longrightarrow> (\<exists>x \<in> X. did x s e s' e') \<and> flags s' = flags s)"

abbreviation gets :: "effect set" where
  "gets \<equiv> insert Same (range Took)"

lemma does_mono: "does X s e r \<Longrightarrow> X \<subseteq> Y \<Longrightarrow> does Y s e r"
  by (fastforce simp: does_def)

lemma does_same: "holds s' = holds s \<Longrightarrow> usage e' = usage e \<Longrightarrow> flags s' = flags s \<Longrightarrow> Same \<in> X \<Longrightarrow> does X s e (Some (s', e'))"
  by (auto simp: does_def intro: bexI [of _ Same])

lemma doesD: "does X s e r \<Longrightarrow> r = Some (s', e') \<Longrightarrow> (\<exists>x \<in> X. did x s e s' e') \<and> flags s' = flags s"
  by (simp add: does_def)

lemma does_if: "does X s e a \<Longrightarrow> does X s e b \<Longrightarrow> does X s e (if c then a else b)"
  by simp

text \<open>A step before that changes nothing the effects speak of\<close>

lemma does_from:
  assumes "does X t f r" and "holds t = holds s" and "usage f = usage e" and "flags t = flags s" and "ncams f = ncams e"
    and "cd_SpdDomeCam (se_capDev t) = cd_SpdDomeCam (se_capDev s)"
  shows "does X s e r"
proof -
  have "did x t f s' e' = did x s e s' e'" for x s' e' using assms by (cases x) simp_all
  with assms show ?thesis by (simp add: does_def)
qed

lemma respond_does: "does gets s e (respond t v s e)"
  using respond_same by (fastforce simp: does_def flags_def)

lemma take_free_camera_does: "session_inv s e \<Longrightarrow> se_alive s \<Longrightarrow> does gets s e (take_free_camera now s e)"
  using take_free_camera_effect by (fastforce simp: does_def flags_def)

lemma handle_login_does:
  assumes "session_inv s e" and "se_alive s"
  shows "does gets s e (map_option snd (handle_login h un now n s e))"
  unfolding does_def
proof (intro allI impI)
  fix s' e' assume "map_option snd (handle_login h un now n s e) = Some (s', e')"
  then obtain b where r: "handle_login h un now n s e = Some (b, s', e')" by auto
  then obtain k li num where
    p: "ParseLoginInfo (Some (drop 5 (se_data s))) (int n - 5) (un_loginInfo un) = Some (k, li)"
    and num: "cstr (li_devNum li) = Some num"
    by (auto simp: handle_login_def bind_eq_Some_conv)
  show "(\<exists>x \<in> gets. did x s e s' e') \<and> flags s' = flags s"
  proof (cases "checkTextChineseOrNumberOrLetter num = - 1")
    case True
    with r p num have "respond LOGIN_RESP 0 s e = Some (s', e')" by (simp add: handle_login_def)
    with doesD [OF respond_does] show ?thesis by blast
  next
    case False
    with r p num obtain d t where
      d: "CapDev_init h (se_capDev s) (Some (se_socket s)) li = Some d"
      and t: "match_device (s\<lparr>se_capDev := d\<rparr>) e = Some t"
      by (auto simp: handle_login_def bind_eq_Some_conv)
    from d have dd: "cd_SpdDomeCam d = cd_SpdDomeCam (se_capDev s)" "cd_missionStatus d = cd_missionStatus (se_capDev s)"
      by (auto simp: CapDev_init_def bind_eq_Some_conv split: if_splits)
    from match_device_inv [OF t session_inv_capDev [OF assms(1) dd(1)]] have tinv: "session_inv t e" by simp
    from match_device_same [OF t] dd assms(2) have same: "holds t = holds s" "flags t = flags s" "se_alive t"
      "cd_SpdDomeCam (se_capDev t) = cd_SpdDomeCam (se_capDev s)"
      by (auto simp: holds_def flags_def tours_with_def on_tour_def)
    show ?thesis
    proof (cases "cd_missionNum (se_capDev t) = - 1")
      case True
      with r p num d t False have "s' = t \<and> e' = e" by (simp add: handle_login_def)
      with same have "did Same s e s' e' \<and> flags s' = flags s" by simp
      then show ?thesis by blast
    next
      case f: False
      with r p num d t False have f: "take_free_camera now t e = Some (s', e')" by (simp add: handle_login_def)
      from doesD [OF does_from [OF take_free_camera_does [OF tinv same(3)] same(1) refl same(2) refl same(4)] f]
      show ?thesis .
    qed
  qed
qed

lemma first_mission_does:
  assumes "session_inv s e" and "se_alive s"
  shows "does gets s e (first_mission now s e)"
  unfolding does_def
proof (intro allI impI)
  fix s' e' assume r: "first_mission now s e = Some (s', e')"
  then obtain t where t: "match_device s e = Some t" by (auto simp: first_mission_def bind_eq_Some_conv)
  from match_device_inv [OF t assms(1)] have tinv: "session_inv t e" by simp
  from match_device_same [OF t] assms(2) have same: "holds t = holds s" "flags t = flags s" "se_alive t"
    "cd_SpdDomeCam (se_capDev t) = cd_SpdDomeCam (se_capDev s)" by (auto simp: flags_def)
  have "s' = t \<and> e' = e \<or> take_free_camera now t e = Some (s', e')"
  proof (cases "cd_missionNum (se_capDev t) = - 1")
    case True
    with r t show ?thesis by (auto simp: first_mission_def bind_eq_Some_conv)
  next
    case False
    with r t show ?thesis by (auto simp: first_mission_def bind_eq_Some_conv)
  qed
  then consider "s' = t" "e' = e" | "take_free_camera now t e = Some (s', e')" by blast
  then show "(\<exists>x \<in> gets. did x s e s' e') \<and> flags s' = flags s"
  proof cases
    case 1
    with same have "did Same s e s' e' \<and> flags s' = flags s" by simp
    then show ?thesis by blast
  next
    case 2
    from doesD [OF does_from [OF take_free_camera_does [OF tinv same(3)] same(1) refl same(2) refl same(4)] 2]
    show ?thesis .
  qed
qed

text \<open>
  The next mission of a device whose tour is over: it takes a free camera or, when there is none, keeps the
  one it had given back.
\<close>

abbreviation restarts :: "effect set" where
  "restarts \<equiv> gets \<union> range Kept_old"

lemma next_mission_does:
  assumes "session_inv s e" and "se_alive s" and "\<not> on_tour (se_capDev s)"
  shows "does restarts s e (map_option snd (next_mission s e))" and
    "next_mission s e = Some (True, s', e') \<Longrightarrow> cd_SpdDomeCam (se_capDev s') \<noteq> None \<and> cd_missionNum (se_capDev s') \<noteq> - 1"
proof -
  show "does restarts s e (map_option snd (next_mission s e))"
    unfolding does_def
  proof (intro allI impI)
    fix s' e' assume "map_option snd (next_mission s e) = Some (s', e')"
    then obtain b where r: "next_mission s e = Some (b, s', e')" by auto
    from r obtain t where t: "match_device s e = Some t" by (auto simp: next_mission_def bind_eq_Some_conv)
    from match_device_inv [OF t assms(1)] have tinv: "session_inv t e" by simp
    from match_device_same [OF t] assms(2,3) have same: "holds t = holds s" "flags t = flags s" "se_alive t"
      "cd_SpdDomeCam (se_capDev t) = cd_SpdDomeCam (se_capDev s)" by (auto simp: flags_def)
    have none: "holds s = None" using assms(3) by (simp add: holds_def tours_with_def)
    show "(\<exists>x \<in> restarts. did x s e s' e') \<and> flags s' = flags s"
    proof (cases "cd_missionNum (se_capDev t) = - 1")
      case True
      with r t have "s' = t" "e' = e" by (simp_all add: next_mission_def)
      with same have "did Same s e s' e' \<and> flags s' = flags s" by simp
      then show ?thesis by blast
    next
      case False
      with r t obtain ms n p cams ms' where
        g: "MissionGet (mission_key t) (e_world e) = Some ms"
          "getFreeSDC (w_cams (e_world e)) ms = Some (n, p, cams, ms')"
        by (auto simp: next_mission_def bind_eq_Some_conv)
      let ?u = "set_capDev (\<lambda>d. d\<lparr>cd_missionStatus := MISSION_READY\<rparr>)
        (case p of None \<Rightarrow> t | Some p \<Rightarrow> set_capDev (\<lambda>d. d\<lparr>cd_SpdDomeCam := p\<rparr>) t)"
      from r t False g obtain m ms'' c where
        d: "deref cams (cd_SpdDomeCam (se_capDev ?u)) = Some c"
        and s': "s' = ?u" and e': "e' = put_mission (mission_key t) ms'' cams e"
        by (auto simp: next_mission_def bind_eq_Some_conv Let_def split: option.splits)
      have fl: "flags s' = flags s" using same(2) by (simp add: s' flags_def split: option.split)
      have us: "usage e' = map dc_isUsing cams" by (simp add: e' usage_def put_mission_def)
      have wf: "wf_cams (w_cams (e_world e), ms)"
        using MissionGet_inv [OF _ g(1)] assms(1) by (simp add: session_inv_def wf_mission_def)
      from getFreeSDC_usage [OF wf g(2)] show ?thesis
      proof
        assume p: "p = None \<and> cams = w_cams (e_world e)"
        from d p same(4) obtain r where r: "cd_SpdDomeCam (se_capDev s) = Some r"
          by (auto simp: deref_def split: option.splits)
        have "holds s' = Some r"
          using p r same(3,4) by (simp add: s' holds_def tours_with_def on_tour_def)
        with none r p us have "did (Kept_old r) s e s' e'" by (simp add: usage_def)
        with fl show ?thesis by blast
      next
        assume "\<exists>q < length (w_cams (e_world e)). p = Some (Some q) \<and> dc_isUsing (w_cams (e_world e) ! q) = FREE \<and>
          map dc_isUsing cams = (map dc_isUsing (w_cams (e_world e)))[q := BUSY]"
        then obtain q where q: "q < ncams e" "p = Some (Some q)" "dc_isUsing (w_cams (e_world e) ! q) = FREE"
          "map dc_isUsing cams = (usage e)[q := BUSY]" by (auto simp: usage_def)
        have "holds s' = Some q" using q(2) same(3) by (simp add: s' holds_def tours_with_def on_tour_def)
        with q us have "did (Took q) s e s' e'" by (simp add: usage_def)
        with fl show ?thesis by blast
      qed
    qed
  qed
  show "next_mission s e = Some (True, s', e') \<Longrightarrow> cd_SpdDomeCam (se_capDev s') \<noteq> None \<and> cd_missionNum (se_capDev s') \<noteq> - 1"
    by (auto simp: next_mission_def bind_eq_Some_conv Let_def deref_def split: if_splits option.splits)
qed

lemma handle_heartbeat_does:
  assumes "session_inv s e" and "se_alive s"
  shows "does restarts s e (handle_heartbeat now s e)"
proof (cases "on_tour (se_capDev s)")
  case True
  then have "handle_heartbeat now s e = (if cd_SpdDomeCam (se_capDev s) = None \<or> cd_missionNum (se_capDev s) = - 1
      then first_mission now s e else Some (s, e))" by (simp add: handle_heartbeat_def on_tour_def)
  moreover have "does restarts s e (first_mission now s e)" by (rule does_mono [OF first_mission_does [OF assms]]) blast
  ultimately show ?thesis using does_same [of s s e e restarts] by simp
next
  case False
  show ?thesis
    unfolding does_def
  proof (intro allI impI)
    fix s' e' assume r: "handle_heartbeat now s e = Some (s', e')"
    with False obtain go t f where n: "next_mission s e = Some (go, t, f)"
      by (auto simp: handle_heartbeat_def on_tour_def bind_eq_Some_conv split: if_splits)
    have "s' = t \<and> e' = f"
      using r n False next_mission_does(2) [OF assms False, of t f]
      by (cases go) (auto simp: handle_heartbeat_def on_tour_def)
    with doesD [OF next_mission_does(1) [OF assms False], of t f] n
    show "(\<exists>x \<in> restarts. did x s e s' e') \<and> flags s' = flags s" by simp
  qed
qed

section \<open>The other messages\<close>

lemma flags_simps [simp]:
  "flags (s\<lparr>se_data := x\<rparr>) = flags s" "flags (s\<lparr>se_status := y\<rparr>) = flags s" "flags (s\<lparr>se_recv_times := z\<rparr>) = flags s"
  "flags (s\<lparr>se_res := res\<rparr>) = flags s" "flags (s\<lparr>se_picData := x\<rparr>) = flags s" "flags (s\<lparr>se_data_write := x\<rparr>) = flags s"
  "flags (s\<lparr>se_curPicDataPos := n\<rparr>) = flags s" "flags (s\<lparr>se_rcvdSzie := z\<rparr>) = flags s"
  "flags (s\<lparr>se_recvCaprure := b\<rparr>) = flags s" "flags (s\<lparr>se_capDev := d\<rparr>) = flags s"
  by (simp_all add: flags_def)

lemma put_dev_same:
  assumes "ds_cams d = w_cams (e_world e)" and "ds_dev d = se_capDev s"
  shows "holds (fst (put_dev d s e)) = holds s \<and> usage (snd (put_dev d s e)) = usage e \<and>
    flags (fst (put_dev d s e)) = flags s \<and> se_capDev (fst (put_dev d s e)) = se_capDev s"
  using assms by (simp add: put_dev_def usage_def holds_def)

lemma handle_3d_does: "does gets s e (handle_3d sdk un n s e)"
  unfolding does_def
proof (intro allI impI)
  fix s' e' assume r: "handle_3d sdk un n s e = Some (s', e')"
  let ?s = "s\<lparr>se_status := 0\<rparr>"
  from r obtain tdr k d where d: "threeD_Request sdk (as_dev ?s e) tdr = Some (k, d)"
    and p: "respond RIO_RESP 1 (fst (put_dev d ?s e)) (snd (put_dev d ?s e)) = Some (s', e')"
    by (auto simp: handle_3d_def bind_eq_Some_conv split_def Let_def)
  from put_dev_same [of d e ?s] threeD_Request_shape [OF d] respond_same [OF p]
  have "did Same s e s' e' \<and> flags s' = flags s" by (simp add: flags_def)
  then show "(\<exists>x \<in> gets. did x s e s' e') \<and> flags s' = flags s" by blast
qed

lemma handle_illegal_stop_does: "does gets s e (handle_illegal_stop sdk s e)"
  unfolding does_def
proof (intro allI impI)
  fix s' e' assume r: "handle_illegal_stop sdk s e = Some (s', e')"
  let ?s = "s\<lparr>se_status := 0\<rparr>"
  from r obtain d where d: "reload_Preset sdk (as_dev ?s e) = Some d" and p: "put_dev d ?s e = (s', e')"
    by (auto simp: handle_illegal_stop_def bind_eq_Some_conv Let_def)
  from put_dev_same [of d e ?s] reload_Preset_shape [OF d] p
  have "did Same s e s' e' \<and> flags s' = flags s" by simp
  then show "(\<exists>x \<in> gets. did x s e s' e') \<and> flags s' = flags s" by blast
qed

lemma handle_snap_does: "does gets s e (handle_snap h un n s e)"
  unfolding does_def
proof (intro allI impI)
  fix s' e' assume r: "handle_snap h un n s e = Some (s', e')"
  from r obtain t where t: "respond SNAP_RESP 0 t e = Some (s', e')" and
    "se_capDev t = se_capDev s" "flags t = flags s"
    by (auto simp: handle_snap_def bind_eq_Some_conv Let_def split: if_splits)
  then have "holds t = holds s" by (simp add: holds_def flags_def)
  with respond_same [OF t] \<open>flags t = flags s\<close> have "did Same s e s' e' \<and> flags s' = flags s" by (simp add: flags_def)
  then show "(\<exists>x \<in> gets. did x s e s' e') \<and> flags s' = flags s" by blast
qed

lemma store_result_same:
  assumes "store_result h un t e = Some (s', e')"
  shows "holds s' = holds t \<and> usage e' = usage e \<and> flags s' = flags t"
proof -
  from assms obtain res ops u where
    u: "match_device (t\<lparr>se_res := res\<rparr>) (emit (map File ops) e) = Some u"
    and s': "s' = u\<lparr>se_picData := replicate PIC_SIZE 0, se_recvCaprure := False, se_rcvdSzie := 0\<rparr>"
    and e': "e' = (emit (map File ops) e)\<lparr>e_world := (e_world e)\<lparr>w_results := w_results (e_world e) @ [res]\<rparr>\<rparr>"
    by (auto simp: store_result_def bind_eq_Some_conv Let_def)
  from match_device_same [OF u] show ?thesis unfolding s' e' by (simp add: flags_def usage_def)
qed

lemma handle_segment_does: "does gets s e (handle_segment h un n s e)"
  unfolding does_def
proof (intro allI impI)
  fix s' e' assume r: "handle_segment h un n s e = Some (s', e')"
  from r obtain pic where pic: "patch (se_curPicDataPos s) (take n (se_data s)) (se_picData s) = Some pic"
    by (auto simp: handle_segment_def bind_eq_Some_conv)
  define t where "t = s\<lparr>se_rcvdSzie := se_rcvdSzie s + word_of_nat n, se_picData := pic,
    se_curPicDataPos := se_curPicDataPos s + n\<rparr>"
  have t: "holds t = holds s" "flags t = flags s" by (simp_all add: t_def)
  from r pic have cases: "(if unat (ir_frameSize (se_res t)) < se_curPicDataPos t
      then store_result h un t e else Some (t, e)) = Some (s', e')"
    by (simp only: handle_segment_def Option.bind.bind_lunit Let_def t_def)
  have "did Same s e s' e' \<and> flags s' = flags s"
  proof (cases "unat (ir_frameSize (se_res t)) < se_curPicDataPos t")
    case True
    from cases have "store_result h un t e = Some (s', e')" unfolding if_P [OF True] .
    from store_result_same [OF this] t show ?thesis by simp
  next
    case False
    from cases have "s' = t \<and> e' = e" unfolding if_not_P [OF False] by simp
    with t show ?thesis by simp
  qed
  then show "(\<exists>x \<in> gets. did x s e s' e') \<and> flags s' = flags s" by blast
qed

lemma handle_frame_does:
  assumes "session_inv s e" and "se_alive s"
  shows "does restarts s e (map_option snd (handle_frame h sdk un now n s e))"
proof (cases "ParseFrameHead (Some (se_data s)) (int n) (un_head un)")
  case None
  then show ?thesis by (simp add: handle_frame_def does_def)
next
  case (Some x)
  obtain k head where x: "x = (k, head)" by fastforce
  have sub: "gets \<subseteq> restarts" by blast
  have eq: "map_option snd (if b then f else map_option (Pair True) g) = (if b then map_option snd f else g)"
    for b and f :: "(bool \<times> session \<times> env) option" and g
    by (simp add: option.map_comp comp_def option.map_ident)
  have same: "does restarts s e (Some (s\<lparr>se_status := 0\<rparr>, e))" "does restarts s e (Some (s, e))"
    by (simp_all add: does_same)
  show ?thesis
    unfolding handle_frame_def Some x Option.bind.bind_lunit prod.case eq
    by (intro does_if same handle_heartbeat_does assms does_mono [OF handle_login_does [OF assms] sub]
        does_mono [OF handle_3d_does sub] does_mono [OF handle_illegal_stop_does sub]
        does_mono [OF handle_snap_does sub] does_mono [OF respond_does sub])
qed

section \<open>The tour\<close>

text \<open>
  Between the parts of a round the device is on its tour, or the round has ended the tour and given the camera
  \<open>r\<close> back.
\<close>

definition in_round :: "cam_ref \<Rightarrow> SDCSTTAUS list \<Rightarrow> dev_state \<Rightarrow> bool" where
  "in_round r us d \<longleftrightarrow> cd_SpdDomeCam (ds_dev d) = Some r \<and>
     (on_tour (ds_dev d) \<and> map dc_isUsing (ds_cams d) = us \<or>
      \<not> on_tour (ds_dev d) \<and> map dc_isUsing (ds_cams d) = us[r := FREE])"

abbreviation round_ok :: "cam_ref \<Rightarrow> SDCSTTAUS list \<Rightarrow> dev_state option \<Rightarrow> bool" where
  "round_ok r us \<equiv> yields (in_round r us)"

lemma in_round_simps [simp]:
  "in_round r us (d\<lparr>ds_log := l\<rparr>) = in_round r us d" "in_round r us (d\<lparr>ds_failed := n\<rparr>) = in_round r us d"
  "in_round r us (d\<lparr>ds_out := out\<rparr>) = in_round r us d"
  by (simp_all add: in_round_def)

text \<open>The camera is changed but not its mark; or it is given back with the tour's end.\<close>

lemma on_cam_keeps:
  assumes "in_round r us d" and "\<And>c. the_cam d = Some c \<Longrightarrow> dc_isUsing (f c) = dc_isUsing c"
  shows "round_ok r us (on_cam f d)"
  unfolding yields_def
proof (intro allI impI)
  fix d' assume d': "on_cam f d = Some d'"
  with assms(1) have r: "r < length (ds_cams d)" "d' = d\<lparr>ds_cams := (ds_cams d)[r := f (ds_cams d ! r)]\<rparr>"
    by (auto simp: on_cam_def upd_cam_def in_round_def split: if_splits)
  have "the_cam d = Some (ds_cams d ! r)" using assms(1) r(1) by (simp add: the_cam_def deref_def in_round_def)
  from assms(2) [OF this] have "map dc_isUsing (ds_cams d') = map dc_isUsing (ds_cams d)"
    using r by (simp add: map_update list_update_same_conv)
  with assms(1) r(2) show "in_round r us d'" by (simp add: in_round_def)
qed

lemma on_cam_frees:
  assumes "in_round r us d" and "\<not> on_tour (g (ds_dev d))" and "cd_SpdDomeCam (g (ds_dev d)) = cd_SpdDomeCam (ds_dev d)"
    and "\<And>c. dc_isUsing (f c) = FREE"
  shows "round_ok r us (on_cam f (set_dev g d))"
  unfolding yields_def
proof (intro allI impI)
  fix d' assume d': "on_cam f (set_dev g d) = Some d'"
  with assms(1,3) have r: "r < length (ds_cams d)"
    "d' = (set_dev g d)\<lparr>ds_cams := (ds_cams d)[r := f (ds_cams d ! r)]\<rparr>"
    by (auto simp: on_cam_def upd_cam_def in_round_def split: if_splits)
  have "map dc_isUsing (ds_cams d') = (map dc_isUsing (ds_cams d))[r := FREE]"
    using r assms(4) by (simp add: map_update)
  with assms(1-3) r(2) show "in_round r us d'" by (auto simp: in_round_def)
qed

lemma rearm_round: "in_round r us d \<Longrightarrow> round_ok r us (rearm n d)"
  by (auto simp: rearm_def yields_def in_round_def on_tour_def split: option.splits)

lemma loop_init_round:
  assumes "in_round r us d"
  shows "round_ok r us (loop_init sdk d)"
  unfolding loop_init_def Init_cases Let_def prod.case
proof (rule yields_any_bind)
  fix c assume c: "the_cam d = Some c"
  show "round_ok r us (Option.bind (on_cam (\<lambda>_. c\<lparr>dc_lUserID := sdk l a\<rparr>) (d\<lparr>ds_log := l'\<rparr>))
      (\<lambda>s. if (0 :: int) = - 1 then f s else Some s))" for l a l' f
  proof (rule yields_rules(3))
    have "the_cam (d\<lparr>ds_log := l'\<rparr>) = Some c" using c by (simp add: the_cam_def)
    then show "round_ok r us (on_cam (\<lambda>_. c\<lparr>dc_lUserID := sdk l a\<rparr>) (d\<lparr>ds_log := l'\<rparr>))"
      using assms by (intro on_cam_keeps) auto
  qed (simp add: yields_rules(1))
qed

lemma loop_turn_round: "in_round r us d \<Longrightarrow> round_ok r us (loop_turn sdk d)"
  unfolding loop_turn_def Let_def
  by (rule yields_any_bind, rule yields_any_bind, rule yields_split)
    (intro yields_rules rearm_round on_cam_frees; simp add: on_tour_def)

lemma loop_send_round: "in_round r us d \<Longrightarrow> round_ok r us (loop_send raw stk d)"
  unfolding loop_send_def by (intro yields_any_bind yields_split yields_rules(1)) simp

lemma loop_advance_round:
  assumes "in_round r us d"
  shows "round_ok r us (loop_advance sdk d)"
  unfolding loop_advance_def Let_def
proof (rule yields_rules(3) [OF on_cam_keeps [OF assms]])
  show "dc_isUsing (c\<lparr>dc_curPTZposion := dc_curPTZposion c + 1\<rparr>) = dc_isUsing c" for c :: CSpeedDomeCam by simp
qed (intro yields_any_bind yields_rules yields_split on_cam_frees; simp add: on_tour_def)

lemma round_of_tour: "in_round r us d \<Longrightarrow>
    round_ok r us (do { d \<leftarrow> loop_init sdk d; d \<leftarrow> loop_turn sdk d; d \<leftarrow> loop_send raw stk d; loop_advance sdk d })"
  by (intro yields_rules(3) [OF loop_init_round] yields_rules(3) [OF loop_turn_round]
      yields_rules(3) [OF loop_send_round] loop_advance_round)

text \<open>A round keeps the camera or gives it back.\<close>

abbreviation rounds_end :: "effect set" where
  "rounds_end \<equiv> insert Same (range Released)"

lemma rearm_idle: "rearm n d = Some d' \<Longrightarrow>
    ds_cams d' = ds_cams d \<and> cd_SpdDomeCam (ds_dev d') = cd_SpdDomeCam (ds_dev d) \<and>
    cd_missionStatus (ds_dev d') = cd_missionStatus (ds_dev d)"
  by (auto simp: rearm_def split: option.splits)

lemma put_dev_holds:
  "se_alive s \<Longrightarrow> holds (fst (put_dev d s e)) = tours_with (ds_dev d) \<and>
     usage (snd (put_dev d s e)) = map dc_isUsing (ds_cams d)"
  by (simp add: put_dev_def holds_def usage_def)

lemma MissoinLoop_effect:
  assumes "MissoinLoop sdk raw stk (as_dev s e) = Some d" and "se_alive s"
  shows "\<exists>x \<in> rounds_end. did x s e (fst (put_dev d s e)) (snd (put_dev d s e))"
proof -
  let ?d = "as_dev s e"
  have us: "map dc_isUsing (ds_cams ?d) = usage e" "ds_dev ?d = se_capDev s" by (simp_all add: as_dev_def usage_def)
  consider (same) "ds_cams d = ds_cams ?d" "tours_with (ds_dev d) = tours_with (se_capDev s)"
    | (round) r where "cd_SpdDomeCam (se_capDev s) = Some r" "on_tour (se_capDev s)"
      "Option.bind (loop_init sdk ?d) (\<lambda>d. Option.bind (loop_turn sdk d) (\<lambda>d. Option.bind (loop_send raw stk d) (loop_advance sdk)))
        = Some d"
  proof (cases "cd_run (ds_dev ?d) = 4")
    case True
    with assms(1) have "ds_cams d = ds_cams ?d \<and> ds_dev d = ds_dev ?d"
      by (auto simp: MissoinLoop_def split: option.splits)
    with us that(1) show thesis by simp
  next
    case False
    with assms(1) obtain i where i: "idle ?d = Some i" and m:
      "(if i then (if cd_timer (ds_dev ?d) = None then Some ?d else rearm 1 ?d)
        else Option.bind (loop_init sdk ?d) (\<lambda>d. Option.bind (loop_turn sdk d) (\<lambda>d. Option.bind (loop_send raw stk d) (loop_advance sdk))))
       = Some d" by (auto simp: MissoinLoop_def bind_eq_Some_conv)
    show thesis
    proof (cases i)
      case True
      with m rearm_idle [of 1 ?d d] us(2) show thesis
        by (intro that(1)) (auto simp: tours_with_def on_tour_def split: if_splits)
    next
      case False
      with i us(2) have "on_tour (se_capDev s)" "cd_SpdDomeCam (se_capDev s) \<noteq> None"
        by (auto simp: idle_def on_tour_def split: if_splits)
      with m False that(2) show thesis by auto
    qed
  qed
  then show ?thesis
  proof cases
    case same
    with us put_dev_holds [OF assms(2), of d e] have "did Same s e (fst (put_dev d s e)) (snd (put_dev d s e))"
      using assms(2) by (simp add: holds_def)
    then show ?thesis by blast
  next
    case (round r)
    have "in_round r (usage e) ?d" using round us by (simp add: in_round_def)
    from round_of_tour [OF this] round(3) have d: "in_round r (usage e) d" by (auto simp: yields_def)
    have h: "holds s = Some r" using round assms(2) by (simp add: holds_def tours_with_def)
    show ?thesis
    proof (cases "on_tour (ds_dev d)")
      case True
      with d h put_dev_holds [OF assms(2), of d e] have "did Same s e (fst (put_dev d s e)) (snd (put_dev d s e))"
        by (simp add: in_round_def tours_with_def)
      then show ?thesis by blast
    next
      case False
      with d h put_dev_holds [OF assms(2), of d e] have "did (Released r) s e (fst (put_dev d s e)) (snd (put_dev d s e))"
        by (simp add: in_round_def tours_with_def)
      then show ?thesis by blast
    qed
  qed
qed


lemma put_dev_flags: "flags (fst (put_dev d s e)) = flags s"
  by (simp add: put_dev_def)

lemma handle_tick_does: "does rounds_end s e (handle_tick sdk raw stk s e)"
  unfolding does_def
proof (intro allI impI)
  fix s' e' assume "handle_tick sdk raw stk s e = Some (s', e')"
  then obtain d where "MissoinLoop sdk raw stk (as_dev s e) = Some d" "se_alive s" "put_dev d s e = (s', e')"
    by (auto simp: handle_tick_def split: if_splits)
  with MissoinLoop_effect [where d = d and s = s and e = e] put_dev_flags [of d s e]
  show "(\<exists>x \<in> rounds_end. did x s e s' e') \<and> flags s' = flags s" by simp
qed

section \<open>The end of a session\<close>

text \<open>
  A device that is gone frees its camera. That is right while its tour runs; when the tour is over the camera
  was given back before and may be another device's by now.
\<close>

definition ends :: "effect set" where
  "ends = insert Left (range Released \<union> range Freed_old)"

lemma CapDev_stop_effect:
  assumes "CapDev_stop sdk d = Some d'"
  shows "(case cd_SpdDomeCam (ds_dev d) of None \<Rightarrow> d' = d
    | Some r \<Rightarrow> map dc_isUsing (ds_cams d') = (map dc_isUsing (ds_cams d))[r := FREE])"
  using assms by (auto simp: CapDev_stop_def on_cam_def upd_cam_def bind_eq_Some_conv map_update split_def Let_def split: option.splits if_splits)

lemma stop_deleted_effect:
  assumes "stop_device sdk s e = Some (t, f)" and "se_alive s"
  shows "\<exists>x \<in> ends. did x s e (fst (delete_this (t, f))) (snd (delete_this (t, f)))"
proof -
  let ?t = "fst (delete_this (t, f))" and ?f = "snd (delete_this (t, f))"
  from assms(1) obtain d where d: "CapDev_stop sdk (as_dev s e) = Some d" "put_dev d s e = (t, f)"
    by (auto simp: stop_device_def)
  have u: "usage ?f = map dc_isUsing (ds_cams d)" "holds ?t = None"
    using d(2) by (auto simp: put_dev_def delete_this_def usage_def holds_def)
  have dev: "ds_dev (as_dev s e) = se_capDev s" "map dc_isUsing (ds_cams (as_dev s e)) = usage e"
    by (simp_all add: as_dev_def usage_def)
  show ?thesis
  proof (cases "cd_SpdDomeCam (se_capDev s)")
    case None
    with CapDev_stop_effect [OF d(1)] u dev have "did Left s e ?t ?f" by simp
    then show ?thesis unfolding ends_def by blast
  next
    case (Some r)
    with CapDev_stop_effect [OF d(1)] u dev have r: "usage ?f = (usage e)[r := FREE]" by simp
    show ?thesis
    proof (cases "on_tour (se_capDev s)")
      case True
      with Some r u assms(2) have "did (Released r) s e ?t ?f" by (simp add: holds_def tours_with_def)
      then show ?thesis unfolding ends_def by blast
    next
      case False
      with Some r u have "did (Freed_old r) s e ?t ?f" by (simp add: holds_def tours_with_def)
      then show ?thesis unfolding ends_def by blast
    qed
  qed
qed

section \<open>The handlers\<close>

text \<open>The flag that guards the deletion says whether the session lives, before and after each handler.\<close>

definition guarded :: "session \<Rightarrow> bool" where
  "guarded s \<longleftrightarrow> se_freeThis s = se_alive s"

lemma delete_guarded: "guarded (fst (delete_this se))"
  by (cases se) (simp add: guarded_def delete_this_def)

lemma flags_guarded: "flags t = flags s \<Longrightarrow> guarded t = guarded s"
  by (simp add: flags_def guarded_def)

definition handler_ok :: "session \<Rightarrow> env \<Rightarrow> (session \<times> env) option \<Rightarrow> bool" where
  "handler_ok s e r \<longleftrightarrow> (\<forall>s' e'. r = Some (s', e') \<longrightarrow> (\<exists>x. did x s e s' e') \<and> guarded s')"

lemma does_handler: "does X s e r \<Longrightarrow> guarded s \<Longrightarrow> handler_ok s e r"
  unfolding handler_ok_def by (metis doesD flags_guarded)

lemma handle_tick_ok: "guarded s \<Longrightarrow> handler_ok s e (handle_tick sdk raw stk s e)"
  by (rule does_handler [OF handle_tick_does])

lemma handle_write_ok:
  assumes "guarded s"
  shows "handler_ok s e (handle_write sdk error s e)"
  unfolding handler_ok_def
proof (intro allI impI)
  fix s' e' assume r: "handle_write sdk error s e = Some (s', e')"
  then have alive: "se_alive s" by (auto simp: handle_write_def split: if_splits)
  show "(\<exists>x. did x s e s' e') \<and> guarded s'"
  proof (cases error)
    case None
    with r alive have "s' = s" "e' = session_start e" by (auto simp: handle_write_def)
    then have "did Same s e s' e'" by (simp add: session_start_def)
    with assms \<open>s' = s\<close> show ?thesis by blast
  next
    case (Some m)
    with r alive have w: "map_option (\<lambda>(s, e). if se_freeThis s then delete_this (s, e) else (s, e))
        (stop_device sdk s e) = Some (s', e')" by (simp only: handle_write_def not_True_eq_False if_False option.case)
    then obtain t f where t: "stop_device sdk s e = Some (t, f)" by (cases "stop_device sdk s e") auto
    from w have t2: "(if se_freeThis t then delete_this (t, f) else (t, f)) = (s', e')"
      by (simp only: t option.map prod.case option.inject)
    from t have "se_freeThis t = se_freeThis s" by (auto simp: stop_device_def put_dev_def)
    with assms alive have "se_freeThis t" by (simp add: guarded_def)
    from t2 have se: "delete_this (t, f) = (s', e')" unfolding if_P [OF \<open>se_freeThis t\<close>] .
    from stop_deleted_effect [OF t alive] delete_guarded [of "(t, f)"] show ?thesis unfolding se by auto
  qed
qed

lemma handle_read_ok:
  assumes "guarded s" and "session_inv s e"
  shows "handler_ok s e (handle_read h sdk un now c s e)"
  unfolding handler_ok_def
proof (intro allI impI)
  fix s' e' assume r: "handle_read h sdk un now c s e = Some (s', e')"
  then have alive: "se_alive s" by (auto simp: handle_read_def split: if_splits)
  show "(\<exists>x. did x s e s' e') \<and> guarded s'"
  proof (cases c)
    case (Failed m)
    with r alive assms(1) obtain t f where t: "stop_device sdk s e = Some (t, f)" "delete_this (t, f) = (s', e')"
      by (auto simp: handle_read_def guarded_def)
    from stop_deleted_effect [OF t(1) alive] delete_guarded [of "(t, f)"] show ?thesis unfolding t(2) by auto
  next
    case (Transferred bs)
    with r alive obtain data where data: "patch 0 bs (se_data s) = Some data" by (auto simp: handle_read_def bind_eq_Some_conv)
    let ?s = "s\<lparr>se_data := data, se_recv_times := se_recv_times s + 1\<rparr>"
    from Transferred r alive data obtain go t f where
      t: "(if se_recvCaprure ?s then map_option (Pair True) (handle_segment h un (length bs) ?s e)
          else handle_frame h sdk un now (length bs) ?s e) = Some (go, t, f)"
      and s': "s' = t" "e' = (if go then emit [ReadMore] f else f)"
      by (auto simp: handle_read_def bind_eq_Some_conv Let_def)
    have inv: "session_inv ?s e" "se_alive ?s" using assms(2) alive data by (auto simp: session_inv_def patch_def split: if_splits)
    have "does restarts ?s e (Some (t, f))"
    proof (cases "se_recvCaprure ?s")
      case True
      with t have "handle_segment h un (length bs) ?s e = Some (t, f)" by auto
      moreover have "does restarts ?s e (handle_segment h un (length bs) ?s e)"
        by (rule does_mono [OF handle_segment_does]) blast
      ultimately show ?thesis by simp
    next
      case False
      with t handle_frame_does [OF inv, of h sdk un now "length bs"] show ?thesis by simp
    qed
    then have "does restarts s e (Some (t, f))" by (rule does_from) simp_all
    from does_handler [OF this assms(1)] s' show ?thesis
      by (auto simp: handler_ok_def) (metis did_emit)
  qed
qed

end
