(* ===== verification/Exclusive.thy ===== *)
theory Exclusive
  imports Allocation
begin

text \<open>
  The allocation of cameras in the whole program: every step of the system is a step of the specification
  in \<open>Allocation\<close> or one of its two lapses.
\<close>

section \<open>The requests of the clients\<close>

text \<open>The client's requests and the updates leave the marks alone; new cameras are free.\<close>

definition installs :: "world \<Rightarrow> world \<Rightarrow> bool" where
  "installs w w' \<longleftrightarrow> (\<exists>n. map dc_isUsing (w_cams w') = map dc_isUsing (w_cams w) @ replicate n FREE)"

lemma installs_same: "map dc_isUsing (w_cams w') = map dc_isUsing (w_cams w) \<Longrightarrow> installs w w'"
  unfolding installs_def by (rule exI [of _ 0]) simp

lemma installs_one: "map dc_isUsing (w_cams w') = map dc_isUsing (w_cams w) @ [FREE] \<Longrightarrow> installs w w'"
  unfolding installs_def by (rule exI [of _ 1]) simp

lemma installs_trans: "installs u v \<Longrightarrow> installs v w \<Longrightarrow> installs u w"
  unfolding installs_def by (metis append_assoc replicate_add)

lemma upd_cfg_marks: "upd_cam cams p (upd_cfg f) = Some cams' \<Longrightarrow> map dc_isUsing cams' = map dc_isUsing cams"
  by (auto simp: upd_cam_def map_update list_update_same_conv split: option.splits if_splits)

lemma addSDC_marks: "addSDC raw cams ms sdc = Some (cams', ms') \<Longrightarrow> map dc_isUsing cams' = map dc_isUsing cams @ [FREE]"
  by (auto simp: addSDC_def Let_def CHIKCam_new_def split: if_splits)

lemma addSDC_ptr_marks: "addSDC_ptr raw cams ms p = Some (cams', ms') \<Longrightarrow> map dc_isUsing cams' = map dc_isUsing cams @ [FREE]"
  by (auto simp: addSDC_ptr_def bind_eq_Some_conv dest: addSDC_marks)

lemma updateSDC_marks: "updateSDC cams ms sdc = Some (r, cams', ms') \<Longrightarrow> map dc_isUsing cams' = map dc_isUsing cams"
  by (auto simp: updateSDC_def bind_eq_Some_conv split: option.splits dest: upd_cfg_marks)

lemma set_missionNum_marks: "set_missionNum num cams p = Some cams' \<Longrightarrow> map dc_isUsing cams' = map dc_isUsing cams"
  unfolding set_missionNum_def by (rule upd_cfg_marks)

lemma unstart_updateSDC_installs: "unstart_updateSDC sdc w = Some w' \<Longrightarrow> installs w w'"
  by (rule installs_same) (auto simp: unstart_updateSDC_def bind_eq_Some_conv dest: updateSDC_marks)

lemma MissionUpdateSDC_installs:
  assumes "MissionUpdateSDC raw sdc w = Some (r, w')"
  shows "installs w w'"
proof (cases "find_mission (sc_missionNum (dc_m_sdcCfg sdc)) w")
  case None
  with assms show ?thesis by (simp add: MissionUpdateSDC_def installs_same)
next
  case (Some i)
  with assms obtain k cams ms cams' ms' where u: "updateSDC (w_cams w) (mission_at i w) sdc = Some (k, cams, ms)"
    and a: "(if k = - 1 then addSDC raw cams ms sdc else Some (cams, ms)) = Some (cams', ms')"
    and w': "w_cams w' = cams'"
    by (auto simp: MissionUpdateSDC_def bind_eq_Some_conv)
  show ?thesis
  proof (cases "k = - 1")
    case True
    with a addSDC_marks [of raw cams ms sdc] updateSDC_marks [OF u] w' show ?thesis by (intro installs_one) auto
  next
    case False
    with a updateSDC_marks [OF u] w' show ?thesis by (intro installs_same) auto
  qed
qed

lemma MissionUpdateSDCMissionGroup_installs: "MissionUpdateSDCMissionGroup raw req w = Some (r, w') \<Longrightarrow> installs w w'"
  by (auto simp: MissionUpdateSDCMissionGroup_def move_SDC_in_def move_SDC_out_def bind_eq_Some_conv
      split: if_splits option.splits dest!: set_missionNum_marks addSDC_ptr_marks intro: installs_same installs_one)

lemma change_group_installs: "change_group raw req w = Some w' \<Longrightarrow> installs w w'"
  by (auto simp: change_group_def installs_same split: if_splits dest: MissionUpdateSDCMissionGroup_installs
      MissionUpdateCapDevMissionGroup_ncams [THEN arg_cong [of _ _ "map dc_isUsing"], THEN installs_same])

lemma request_installs:
  "request_add_SDC h db uc n s e q = Some (e', q') \<Longrightarrow> installs (e_world e) (e_world e')" (is "?A \<Longrightarrow> _")
  "request_update_SDC h db uc n s e q = Some (e', q') \<Longrightarrow> installs (e_world e) (e_world e')" (is "?U \<Longrightarrow> _")
  "request_change_group h db uc n s e q = Some (e', q') \<Longrightarrow> installs (e_world e) (e_world e')" (is "?C \<Longrightarrow> _")
  "request_add_group h db uc n s e q = Some (e', q') \<Longrightarrow> installs (e_world e) (e_world e')" (is "?G \<Longrightarrow> _")
proof -
  assume ?A
  then obtain cfg cfg' f q1 cams un sdc where
    1: "with_db (insert_SDC h db (open_db db) cfg) e q = Some (cfg', f, q1)" and
    2: "addSDC (uc_new uc) (w_cams (e_world f)) (w_unstart (e_world f)) sdc = Some (cams, un)" and
    e': "w_cams (e_world e') = cams"
    by (auto simp: request_add_SDC_def bind_eq_Some_conv Let_def)
  have "f = e" by (rule with_db_world [OF 1 insert_SDC_world])
  with addSDC_marks [OF 2] e' show "installs (e_world e) (e_world e')" by (intro installs_one) simp
next
  assume ?U
  then obtain cfg f q1 x sdc w1 w2 where
    1: "with_db (no_result \<circ> update_SDC h db (open_db db) cfg) e q = Some (x, f, q1)" and
    2: "(if sc_missionNum cfg = - 1 then unstart_updateSDC sdc (e_world f)
         else map_option snd (MissionUpdateSDC (uc_new uc) sdc (e_world f))) = Some w1" and
    3: "unstart_updateSDC sdc w1 = Some w2" and e': "e_world e' = w2"
    by (auto simp: request_update_SDC_def bind_eq_Some_conv Let_def)
  have f: "f = e" by (rule with_statement [OF 1 update_statements_world(1)])
  have "installs (e_world e) w1"
    using 2 f unstart_updateSDC_installs MissionUpdateSDC_installs by (cases "sc_missionNum cfg = - 1") auto
  with unstart_updateSDC_installs [OF 3] e' show "installs (e_world e) (e_world e')" by (metis installs_trans)
next
  assume ?C
  show "installs (e_world e) (e_world e')"
  proof (cases "e' = e")
    case False
    with \<open>?C\<close> obtain req x f q1 w where
      1: "with_db (no_result \<circ> update_group h (uc_sql uc) db (open_db db) req) e q = Some (x, f, q1)" and
      2: "change_group (uc_new uc) req (e_world f) = Some w" and e': "e' = set_world w f"
      by (auto simp: request_change_group_def bind_eq_Some_conv split: if_splits)
    have "f = e" by (rule with_statement [OF 1 update_statements_world(2)])
    with change_group_installs [OF 2] e' show ?thesis by simp
  qed (simp add: installs_same)
next
  assume ?G
  then obtain num x f q1 where
    1: "with_db (no_result \<circ> insert_mission h db (open_db db) ((CMission_new (uc_msi uc))\<lparr>ms_missionNum := num\<rparr>))
      (set_world (MissionAdd ((CMission_new (uc_msi uc))\<lparr>ms_missionNum := num\<rparr>) (e_world e)) e) q = Some (x, f, q1)"
      (is "with_db (no_result \<circ> insert_mission h db (open_db db) ?msi) _ q = _") and e': "e' = f"
    by (auto simp: request_add_group_def bind_eq_Some_conv Let_def)
  have "f = set_world (MissionAdd ?msi (e_world e)) e"
    by (rule with_statement [OF 1 update_statements_world(3)])
  with e' show "installs (e_world e) (e_world e')" by (simp add: installs_same MissionAdd_def)
qed

lemma cfg_handle_read_installs:
  assumes "cfg_handle_read h db uc now c s e q = Some (s', e', q')"
  shows "installs (e_world e) (e_world e')"
proof (cases c)
  case (Failed err)
  with assms show ?thesis by (auto simp: cfg_handle_read_def installs_same)
next
  case (Transferred bs)
  with assms obtain n t s0 where "cfg_request h db uc now n t s0 e q = Some (s', e', q')"
    by (auto simp: cfg_handle_read_def bind_eq_Some_conv Let_def)
  then show ?thesis
    by (auto simp: cfg_request_def split: if_splits dest: request_installs intro: installs_same)
qed

lemma timer_handler_installs: "timer_handler rfile (s, e) = Some (s', e') \<Longrightarrow> cfg_inv s \<Longrightarrow> installs (e_world e) (e_world e')"
  using timer_handler_inv [of rfile s e s' e'] by (intro installs_same) (auto simp: like_world_def)

section \<open>The view of the system\<close>

definition sys_view :: "system \<Rightarrow> view" where
  "sys_view y = (map holds (sy_sessions y), usage (sy_env y))"

text \<open>
  The two lapses of session \<open>i\<close>, whose device has given the camera \<open>r\<close> back: the device tours with it again, or
  the end of the session marks it free although it was marked busy since.
\<close>

definition lapse :: "nat \<Rightarrow> cam_ref \<Rightarrow> system \<Rightarrow> system \<Rightarrow> bool" where
  "lapse i r y y' \<longleftrightarrow> i < length (sy_sessions y) \<and> holds (sy_sessions y ! i) = None \<and>
     cd_SpdDomeCam (se_capDev (sy_sessions y ! i)) = Some r \<and>
     (sys_view y' = ((map holds (sy_sessions y))[i := Some r], usage (sy_env y)) \<or>
      r < ncams (sy_env y) \<and> usage (sy_env y) ! r = BUSY \<and>
      sys_view y' = (map holds (sy_sessions y), (usage (sy_env y))[r := FREE]))"

definition all_guarded :: "system \<Rightarrow> bool" where
  "all_guarded y \<longleftrightarrow> (\<forall>s \<in> set (sy_sessions y). guarded s)"

definition step_ok :: "system \<Rightarrow> system \<Rightarrow> bool" where
  "step_ok y y' \<longleftrightarrow> (alloc (sys_view y) (sys_view y') \<or> (\<exists>i r. lapse i r y y')) \<and> all_guarded y'"

lemma on_session_ok:
  assumes "all_guarded y" and "on_session i f y = Some y'"
    and "i < length (sy_sessions y) \<Longrightarrow> handler_ok (sy_sessions y ! i) (sy_env y) (f (sy_sessions y ! i) (sy_env y))"
  shows "step_ok y y'"
proof (cases "i < length (sy_sessions y)")
  case False
  with assms(1,2) show ?thesis by (auto simp: on_session_def step_ok_def intro: alloc.idle)
next
  case True
  let ?s = "sy_sessions y ! i" and ?hs = "map holds (sy_sessions y)" and ?us = "usage (sy_env y)"
  from assms(2) True obtain t f' where r: "f ?s (sy_env y) = Some (t, f')"
    and y': "y' = y\<lparr>sy_sessions := (sy_sessions y)[i := t], sy_env := f'\<rparr>"
    by (auto simp: on_session_def)
  from assms(3) [OF True] r obtain x where x: "did x ?s (sy_env y) t f'" and g: "guarded t"
    by (auto simp: handler_ok_def)
  have i: "i < length ?hs" "?hs ! i = holds ?s" using True by simp_all
  have v: "sys_view y = (?hs, ?us)" "sys_view y' = (?hs[i := holds t], usage f')"
    by (simp_all add: sys_view_def y' map_update)
  have len: "length ?us = ncams (sy_env y)" by (simp add: usage_def)
  have same: "?hs[i := holds ?s] = ?hs" using i by (metis list_update_id)
  have "alloc (sys_view y) (sys_view y') \<or> (\<exists>i r. lapse i r y y')"
  proof (cases x)
    case Same
    with x same show ?thesis unfolding v by (auto intro: alloc.idle)
  next
    case (Took q)
    with x i(1) len alloc.take [of i ?hs q ?us] show ?thesis unfolding v by simp
  next
    case (Released q)
    with x i alloc.release [of i ?hs q ?us] show ?thesis unfolding v by simp
  next
    case Left
    with x alloc.leave [of ?hs ?us i] show ?thesis unfolding v by simp
  next
    case (Kept_old q)
    with x True v have "lapse i q y y'" by (simp add: lapse_def)
    then show ?thesis by blast
  next
    case (Freed_old q)
    with x same have "?hs[i := holds t] = ?hs" "usage f' = ?us[q := FREE]" by simp_all
    with Freed_old x have v': "sys_view y' = (?hs, ?us[q := FREE])" by (simp add: v)
    show ?thesis
    proof (cases "q < ncams (sy_env y) \<and> ?us ! q = BUSY")
      case True
      with Freed_old x \<open>i < length (sy_sessions y)\<close> v' have "lapse i q y y'" by (simp add: lapse_def)
      then show ?thesis by blast
    next
      case False
      then have "?us[q := FREE] = ?us" using len by (metis SDCSTTAUS.exhaust list_update_beyond list_update_id not_less)
      with v v' show ?thesis by (auto intro: alloc.idle)
    qed
  qed
  moreover have "all_guarded y'"
    using assms(1) g by (auto simp: all_guarded_def y' dest: set_update_cases)
  ultimately show ?thesis by (simp add: step_ok_def)
qed

lemma on_cfg_session_ok:
  assumes "all_guarded y" and "on_cfg_session i f y = Some y'" and "system_inv y"
    and "\<And>s e q s' e' q'. f s e q = Some (s', e', q') \<Longrightarrow> cfg_inv s \<Longrightarrow> installs (e_world e) (e_world e')"
  shows "step_ok y y'"
proof -
  from assms(3) have "cfg_inv (sy_cfg_sessions y ! i)" if "i < length (sy_cfg_sessions y)"
    using that by (simp add: system_inv_def)
  with assms(2,4) have same: "sy_sessions y' = sy_sessions y" and "installs (e_world (sy_env y)) (e_world (sy_env y'))"
    by (auto simp: on_cfg_session_def installs_same split: if_splits)
  from this(2) obtain n where n: "usage (sy_env y') = usage (sy_env y) @ replicate n FREE" by (auto simp: installs_def usage_def)
  have "alloc (sys_view y) (sys_view y')" unfolding sys_view_def same n by (rule alloc.install)
  with same assms(1) show ?thesis by (simp add: step_ok_def all_guarded_def)
qed

lemma accept_ok:
  assumes "all_guarded y"
  shows "accept_session error raw y = Some y' \<Longrightarrow> step_ok y y'" and "accept_cfg_session error raw' y = Some y' \<Longrightarrow> step_ok y y'"
proof -
  have new: "holds (CCaptureDevSession raw) = None" "guarded (CCaptureDevSession raw)"
    by (simp_all add: CCaptureDevSession_def CCaptureDevice_new_def holds_def tours_with_def guarded_def)
  show "step_ok y y'" if "accept_session error raw y = Some y'"
    using that new assms alloc.connect [of "map holds (sy_sessions y)" "usage (sy_env y)"]
      alloc.idle [of "(map holds (sy_sessions y), usage (sy_env y))"]
    by (auto simp: accept_session_def bind_eq_Some_conv Let_def step_ok_def sys_view_def session_start_def
        all_guarded_def split: option.splits)
  show "step_ok y y'" if "accept_cfg_session error raw' y = Some y'"
    using that assms alloc.idle [of "(map holds (sy_sessions y), usage (sy_env y))"]
    by (auto simp: accept_cfg_session_def bind_eq_Some_conv Let_def step_ok_def sys_view_def cfg_start_def
        all_guarded_def split: option.splits)
qed


lemma system_step_ok:
  assumes "system_inv y" and "all_guarded y" and "system_step p ev y = Some y'"
  shows "step_ok y y'"
proof -
  have here: "session_inv (sy_sessions y ! i) (sy_env y)" "guarded (sy_sessions y ! i)" if "i < length (sy_sessions y)" for i
    using that assms(1,2) by (simp_all add: system_inv_def all_guarded_def)
  have stay: "step_ok y y"
    using assms(2) alloc.idle by (simp add: step_ok_def)
  show ?thesis
  proof (cases ev)
    case (Accept error raw)
    with assms(3) stay accept_ok(1) [OF assms(2)] show ?thesis by (auto split: if_splits)
  next
    case (AcceptCfg error raw)
    with assms(3) stay accept_ok(2) [OF assms(2)] show ?thesis by (auto split: if_splits)
  next
    case (ReadDone i un now c)
    with assms(3) have r: "on_session i (handle_read (pl_host p) (pl_sdk p) un now c) y = Some y'" by simp
    show ?thesis by (rule on_session_ok [OF assms(2) r]) (intro handle_read_ok here)
  next
    case (WriteDone i error)
    with assms(3) have r: "on_session i (handle_write (pl_sdk p) error) y = Some y'" by simp
    show ?thesis by (rule on_session_ok [OF assms(2) r]) (intro handle_write_ok here)
  next
    case (Tick i raw stk)
    with assms(3) have r: "on_session i (handle_tick (pl_sdk p) raw stk) y = Some y'" by simp
    show ?thesis by (rule on_session_ok [OF assms(2) r]) (intro handle_tick_ok here)
  next
    case (CfgReadDone i uc now c)
    with assms(3) have r: "on_cfg_session i (cfg_handle_read (pl_host p) (pl_db p) uc now c) y = Some y'" by simp
    show ?thesis by (rule on_cfg_session_ok [OF assms(2) r assms(1)]) (rule cfg_handle_read_installs)
  next
    case (CfgWriteDone i error)
    with assms(3) have "on_cfg_session i (\<lambda>s e q. case cfg_handle_write error s e of (s, e) \<Rightarrow> Some (s, e, q)) y
      = Some y'" by simp
    then show ?thesis
      by (rule on_cfg_session_ok [OF assms(2) _ assms(1)]) (auto simp: cfg_handle_write_def cfg_start_def installs_same split: prod.splits option.splits)
  next
    case (CfgTick i now)
    with assms(3) have "on_cfg_session i (\<lambda>s e q.
       if timer_enabled now s then map_option (\<lambda>(s, e). (s, e, q)) (timer_handler (pl_rfile p) (s, e))
       else Some (s, e, q)) y = Some y'" by simp
    then show ?thesis
      by (rule on_cfg_session_ok [OF assms(2) _ assms(1)])
        (auto simp: installs_same split: if_splits dest: timer_handler_installs)
  qed
qed

text \<open>
  C4: the cameras are allocated as the specification \<open>alloc\<close> says. Whatever happens in the system, the step takes a
  free camera for a device and marks it busy, gives a device's own camera back and marks it free, ends a tour,
  adds a session or free cameras, or changes nothing of the allocation; or it is one of the two lapses of a
  device that keeps the pointer to a camera it has given back. The flag that guards the deletion of a session
  always says whether the session lives.
\<close>

theorem steps_allocate:
  assumes "system_inv y" and "all_guarded y" and "system_step p ev y = Some y'"
  shows "(alloc (sys_view y) (sys_view y') \<or> (\<exists>i r. lapse i r y y')) \<and> all_guarded y'"
  using system_step_ok [OF assms] by (simp add: step_ok_def)

section \<open>Exclusive use\<close>

text \<open>
  Whether a step, and one of the steps of a run, is a lapse that does harm: a device is sent on a tour with a camera that
  another device tours with or that is not marked busy, or a camera that a device tours with is marked free.
\<close>

definition toured :: "cam_ref \<Rightarrow> system \<Rightarrow> bool" where
  "toured r y \<longleftrightarrow> list_ex (\<lambda>s. holds s = Some r) (sy_sessions y)"

definition lapsed :: "system \<Rightarrow> system \<Rightarrow> bool" where
  "lapsed y y' \<longleftrightarrow> list_ex (\<lambda>i. case cd_SpdDomeCam (se_capDev (sy_sessions y ! i)) of
     None \<Rightarrow> False
   | Some r \<Rightarrow> lapse i r y y' \<and> (toured r y \<or> usage (sy_env y) ! r = FREE)) [0..<length (sy_sessions y)]"

fun lapses :: "platform \<Rightarrow> sys_event list \<Rightarrow> system \<Rightarrow> bool" where
  "lapses p [] y = False"
| "lapses p (ev # evs) y =
     (case system_step p ev y of None \<Rightarrow> False | Some y' \<Rightarrow> lapsed y y' \<or> lapses p evs y')"

lemma lapsed: "lapse i r y y' \<Longrightarrow> toured r y \<or> usage (sy_env y) ! r = FREE \<Longrightarrow> lapsed y y'"
  by (auto simp: lapsed_def lapse_def list_ex_iff intro!: bexI [of _ i])

text \<open>A step that changes nothing of the allocation is none.\<close>

lemma idle_no_lapse:
  assumes "sys_view y' = sys_view y"
  shows "\<not> lapse i r y y'"
proof
  assume l: "lapse i r y y'"
  then have i: "i < length (sy_sessions y)" "map holds (sy_sessions y) ! i = None" by (simp_all add: lapse_def)
  from l consider "map holds (sy_sessions y) = (map holds (sy_sessions y))[i := Some r]"
    | "r < ncams (sy_env y)" "usage (sy_env y) ! r = BUSY" "usage (sy_env y) = (usage (sy_env y))[r := FREE]"
    using assms by (auto simp: lapse_def sys_view_def)
  then show False
  proof cases
    case 1
    from arg_cong [OF this, of "\<lambda>xs. xs ! i"] i show ?thesis by simp
  next
    case 2
    from arg_cong [OF 2(3), of "\<lambda>xs. xs ! r"] 2(1,2) show ?thesis by (simp add: usage_def)
  qed
qed

text \<open>A lapse that does no harm keeps the cameras exclusive.\<close>

lemma exclusive_retake:
  assumes "exclusive (hs, us)" and "r < length us" and "us ! r = BUSY" and "\<And>j. j < length hs \<Longrightarrow> hs ! j \<noteq> Some r"
  shows "exclusive (hs[i := Some r], us)"
proof (rule exclusiveI)
  fix j q assume j: "j < length (hs[i := Some r])" "hs[i := Some r] ! j = Some q"
  then show "q < length us \<and> us ! q = BUSY"
    using exclusiveD(1,2) [OF assms(1), of j q] assms(2,3) by (cases "j = i") auto
  fix k assume k: "k < length (hs[i := Some r])" "hs[i := Some r] ! k = Some q"
  show "j = k"
    using j k exclusiveD(3) [OF assms(1), of k q j] assms(4) [of j] assms(4) [of k] by (cases "j = i"; cases "k = i") auto
qed

lemma exclusive_unmark:
  assumes "exclusive (hs, us)" and "\<And>j. j < length hs \<Longrightarrow> hs ! j \<noteq> Some r"
  shows "exclusive (hs, us[r := FREE])"
proof (rule exclusiveI)
  fix j q assume j: "j < length hs" "hs ! j = Some q"
  with assms(2) [of j] have "q \<noteq> r" by auto
  with exclusiveD(1,2) [OF assms(1) j] show "q < length (us[r := FREE]) \<and> us[r := FREE] ! q = BUSY" by simp
  fix k assume "k < length hs" "hs ! k = Some q"
  with exclusiveD(3) [OF assms(1)] j show "j = k" by blast
qed

lemma harmless_lapse:
  assumes "lapse i r y y'" and "\<not> lapsed y y'" and "exclusive (sys_view y)" and "system_inv y"
  shows "exclusive (sys_view y')"
proof -
  let ?hs = "map holds (sy_sessions y)" and ?us = "usage (sy_env y)"
  have i: "i < length (sy_sessions y)" "cd_SpdDomeCam (se_capDev (sy_sessions y ! i)) = Some r"
    using assms(1) by (simp_all add: lapse_def)
  have "session_inv (sy_sessions y ! i) (sy_env y)" using assms(4) i(1) by (simp add: system_inv_def)
  with i(2) have r: "r < length ?us" by (simp add: session_inv_def usage_def)
  from lapsed [OF assms(1)] assms(2) have un: "\<not> toured r y" "?us ! r \<noteq> FREE" by auto
  then have busy: "?us ! r = BUSY" by (cases "?us ! r") simp_all
  have free: "?hs ! j \<noteq> Some r" if "j < length ?hs" for j
    using un(1) that by (auto simp: toured_def list_ex_iff)
  have ex: "exclusive (?hs, ?us)" using assms(3) by (simp add: sys_view_def)
  from assms(1) consider "sys_view y' = (?hs[i := Some r], ?us)" | "sys_view y' = (?hs, ?us[r := FREE])"
    by (auto simp: lapse_def)
  then show ?thesis
  proof cases
    case 1
    with exclusive_retake [OF ex r busy free] show ?thesis by simp
  next
    case 2
    with exclusive_unmark [OF ex free] show ?thesis by simp
  qed
qed

lemma run_exclusive:
  assumes "system_inv y" and "all_guarded y" and "exclusive (sys_view y)" and "\<forall>ev \<in> set evs. wf_event ev"
    and "system_run p evs y = Some y'" and "\<not> lapses p evs y"
  shows "exclusive (sys_view y')"
  using assms
proof (induction evs arbitrary: y)
  case (Cons ev evs)
  then obtain z where z: "system_step p ev y = Some z" "system_run p evs z = Some y'"
    by (auto simp: bind_eq_Some_conv)
  from Cons.prems(6) z have lapses: "\<not> lapsed y z" "\<not> lapses p evs z" by auto
  from system_step_ok [OF Cons.prems(1,2) z(1)] have "all_guarded z"
    and "alloc (sys_view y) (sys_view z) \<or> (\<exists>i r. lapse i r y z)" by (simp_all add: step_ok_def)
  then have "exclusive (sys_view z)"
    using harmless_lapse [OF _ lapses(1) Cons.prems(3,1)] alloc_exclusive [OF _ Cons.prems(3)] by blast
  moreover have "system_inv z" by (rule system_step_inv [OF Cons.prems(1) _ z(1)]) (use Cons.prems(4) in simp)
  ultimately show ?case using Cons.IH [of z] Cons.prems(4) z(2) \<open>all_guarded z\<close> lapses(2) by simp
qed simp

lemma start_exclusive:
  assumes "system_start p lc raw st = Some y"
  shows "all_guarded y \<and> exclusive (sys_view y)"
  using assms by (auto simp: system_start_def bind_eq_Some_conv all_guarded_def sys_view_def exclusive.simps)


text \<open>
  C3: no two devices tour with one camera. A run of the program starts where this holds, as it does when the program
  starts, and does two things never: it sends no device whose tour is over on its next tour in vain, with the camera
  of the former one, while another device tours with that camera or it is not marked busy; and no device whose tour is over
  goes away while another tours with the camera of that tour. Then, if no step leaves defined behaviour, a camera a
  device tours with exists, is marked busy and is nobody else's.
\<close>

theorem cameras_exclusive:
  assumes "system_inv y" and "all_guarded y" and "exclusive (sys_view y)" and "\<forall>ev \<in> set evs. wf_event ev"
    and "system_run p evs y = Some y'" and "\<not> lapses p evs y"
    and "i < length (sy_sessions y')" and "holds (sy_sessions y' ! i) = Some r"
  shows "r < ncams (sy_env y') \<and> dc_isUsing (w_cams (e_world (sy_env y')) ! r) = BUSY \<and>
    (\<forall>j < length (sy_sessions y'). j \<noteq> i \<longrightarrow> holds (sy_sessions y' ! j) \<noteq> Some r)"
proof -
  from run_exclusive [OF assms(1-6)] have ex: "exclusive (map holds (sy_sessions y'), usage (sy_env y'))"
    by (simp add: sys_view_def)
  have i: "i < length (map holds (sy_sessions y'))" "map holds (sy_sessions y') ! i = Some r"
    using assms(7,8) by simp_all
  from exclusiveD(1,2) [OF ex i] exclusiveD(3) [OF ex i] show ?thesis by (auto simp: usage_def)
qed

section \<open>The two lapses\<close>

lemma freed_slot:
  assumes "wf_cams (cams, ms)" and "free_slot (cams, ms) = None" and "r \<in> set (cam_refs ms)"
    and "dc_isUsing c = FREE"
  shows "\<exists>k. free_slot (cams[r := c], ms) = Some k \<and> cam_refs ms ! k = r"
proof -
  have bound: "\<forall>q \<in> set (cam_refs ms). q < length cams" using assms(1) by (auto simp: wf_cams_def cam_refs_def)
  have wf: "wf_cams (cams[r := c], ms)" using assms(1) by (simp add: wf_cams_def)
  have l: "cam_list (cams[r := c], ms) = map (\<lambda>q. cams[r := c] ! q) (cam_refs ms)" by (simp add: cam_list_def)
  have "c \<in> set (cam_list (cams[r := c], ms))"
    using assms(3) bound unfolding l by (auto intro!: image_eqI [of _ _ r])
  with assms(4) have "free_slot (cams[r := c], ms) \<noteq> None" by (auto simp: free_slot_None)
  then obtain k where k: "free_slot (cams[r := c], ms) = Some k" by blast
  from free_slot_Some [OF wf k] have "k < length (cam_refs ms)" "dc_isUsing (cams[r := c] ! (cam_refs ms ! k)) = FREE"
    unfolding l by auto
  moreover have "dc_isUsing (cams ! (cam_refs ms ! k)) \<noteq> FREE"
    using assms(2) \<open>k < length (cam_refs ms)\<close> by (auto simp: free_slot_None cam_list_def)
  ultimately show ?thesis using k by (cases "cam_refs ms ! k = r") auto
qed

text \<open>A handler that marks a free camera busy gave it to the device.\<close>

lemma took:
  assumes "did x s e s' e'" and "r < ncams e" and "usage e ! r = FREE" and "usage e' = (usage e)[r := BUSY]"
  shows "holds s' = Some r"
proof -
  have r: "usage e' ! r = BUSY" "r < length (usage e)" using assms(2,4) by (simp_all add: usage_def)
  have "(usage e)[q := v] ! r = (if q = r then v else usage e ! r)" for q v using r(2) by (cases "q = r") simp_all
  then show ?thesis using assms(1,3) r(1) by (cases x) (auto split: if_splits)
qed

text \<open>The end of a session whose device has given its camera back\<close>

lemma late_end:
  assumes "session_inv s e" and "se_alive s" and "se_freeThis s" and "cd_SpdDomeCam (se_capDev s) = Some r"
  shows "\<exists>s' e'. handle_read h sdk un now (Failed msg) s e = Some (s', e') \<and>
    e_world e' = (e_world e)\<lparr>w_cams := (w_cams (e_world e))[r := (w_cams (e_world e) ! r)\<lparr>dc_isUsing := FREE\<rparr>]\<rparr> \<and>
    holds s' = None"
proof -
  have r: "r < length (w_cams (e_world e))" using assms(1,4) by (auto simp: session_inv_def)
  obtain k log where l: "loginOut sdk (w_cams (e_world e) ! r) (e_log e) = (k, log)" by fastforce
  show ?thesis
    using assms(2-4) r l
    by (auto simp: handle_read_def stop_device_def CapDev_stop_def the_cam_def deref_def as_dev_def on_cam_def upd_cam_def
        put_dev_def delete_this_def holds_def)
qed

text \<open>
  C5: a device that goes away after its tour frees a camera another device tours with. Device \<open>i\<close> still has a pointer to
  the camera \<open>r\<close> of its former tour, which device \<open>j\<close> was given since, and every other camera of the mission is in use. When
  the connection of \<open>i\<close> breaks, \<open>r\<close> is marked free under \<open>j\<close>, and if the next event is the login of a device \<open>k\<close> of that
  mission, not in the middle of a snapshot, \<open>k\<close> is given \<open>r\<close> as well: both devices steer one camera.
\<close>

theorem late_end_shares_camera:
  assumes "system_inv y" and "all_guarded y" and "e_world (sy_env y) = w"
    and "i < length (sy_sessions y)" and "j < length (sy_sessions y)" and "k < length (sy_sessions y)"
    and "i \<noteq> j" and "i \<noteq> k" and "j \<noteq> k"
    and "se_alive (sy_sessions y ! i)" and "cd_SpdDomeCam (se_capDev (sy_sessions y ! i)) = Some r"
    and "holds (sy_sessions y ! j) = Some r"
    and "se_alive (sy_sessions y ! k)" and "\<not> se_recvCaprure (sy_sessions y ! k)"
    and "good_login (pl_host p) un' (sy_sessions y ! k) bs d" and "MissionMatch d w = Some m" and "m \<noteq> - 1"
    and "MissionGet m w = Some ms" and "free_slot (w_cams w, ms) = None" and "r \<in> set (cam_refs ms)"
  shows "\<exists>y'. system_run p [ReadDone i un now (Failed msg), ReadDone k un' now' (Transferred bs)] y = Some y' \<and>
    holds (sy_sessions y' ! j) = Some r \<and> holds (sy_sessions y' ! k) = Some r"
proof -
  let ?ss = "sy_sessions y" and ?c = "(w_cams w ! r)\<lparr>dc_isUsing := FREE\<rparr>"
  have inv: "session_inv (?ss ! l) (sy_env y)" if "l < length ?ss" for l using that assms(1) by (simp add: system_inv_def)
  have free: "se_freeThis (?ss ! i)" using assms(2,4,10) by (auto simp: all_guarded_def guarded_def)
  from late_end [OF inv [OF assms(4)] assms(10) free assms(11), of "pl_host p" "pl_sdk p" un now msg, unfolded assms(3)]
  obtain t e where t: "handle_read (pl_host p) (pl_sdk p) un now (Failed msg) (?ss ! i) (sy_env y) = Some (t, e)"
    and e: "e_world e = w\<lparr>w_cams := (w_cams w)[r := ?c]\<rparr>" by blast
  define z where "z = y\<lparr>sy_sessions := ?ss[i := t], sy_env := e\<rparr>"
  have z: "system_step p (ReadDone i un now (Failed msg)) y = Some z"
    using assms(4) t by (simp add: on_session_def z_def)
  have zinv: "system_inv z" by (rule system_step_inv [OF assms(1) _ z]) simp
  have zk: "sy_sessions z ! k = ?ss ! k" "k < length (sy_sessions z)" using assms(6,8) by (simp_all add: z_def)
  have "session_inv (sy_sessions z ! k) (sy_env z)" using zinv zk(2) by (simp add: system_inv_def)
  then have kinv: "session_inv (?ss ! k) e" unfolding zk(1) by (simp add: z_def)
  have r: "r < length (w_cams w)" using inv [OF assms(4)] assms(3,11) by (auto simp: session_inv_def)
  have "wf_cams (w_cams w, ms)"
    using MissionGet_inv [OF _ assms(18)] assms(1,3) by (auto simp: system_inv_def wf_mission_def)
  from freed_slot [OF this assms(19,20), of ?c] obtain u where
    u: "free_slot ((w_cams w)[r := ?c], ms) = Some u" "cam_refs ms ! u = r" by auto
  have m: "MissionMatch d (e_world e) = Some m" "MissionGet m (e_world e) = Some ms"
    using assms(16,18) by (simp_all add: e MissionMatch_def MissionGet_def)
  have "free_slot (w_cams (e_world e), ms) = Some u" using u(1) by (simp add: e)
  from read_login [OF kinv assms(13-15) m(1) assms(17) m(2) this, of "pl_sdk p" now', unfolded u(2)] obtain s' e' where
    s': "handle_read (pl_host p) (pl_sdk p) un' now' (Transferred bs) (?ss ! k) e = Some (s', e')"
    "w_cams (e_world e') = (w_cams (e_world e))[r := (w_cams (e_world e) ! r)\<lparr>dc_isUsing := BUSY\<rparr>]" by blast
  have "guarded (?ss ! k)" using assms(2,6) by (auto simp: all_guarded_def)
  from handle_read_ok [OF this kinv, of "pl_host p" "pl_sdk p" un' now' "Transferred bs"] s'(1)
  obtain x where x: "did x (?ss ! k) e s' e'" by (auto simp: handler_ok_def)
  have "holds s' = Some r" using r by (intro took [OF x]) (simp_all add: usage_def s'(2) map_update e)
  moreover have "system_run p [ReadDone i un now (Failed msg), ReadDone k un' now' (Transferred bs)] y =
      Some (z\<lparr>sy_sessions := (sy_sessions z)[k := s'], sy_env := e'\<rparr>)"
    using z s'(1) zk by (simp add: on_session_def z_def)
  ultimately show ?thesis using assms(5-9,12) by (auto simp: z_def)
qed


text \<open>A heartbeat, as it arrives in a session\<close>

definition heartbeat_frame :: "byte list \<Rightarrow> bool" where
  "heartbeat_frame bs \<longleftrightarrow> 4 < length bs \<and> length bs \<le> MAX_PACKET_LEN \<and> bs ! 4 = 101"

lemma read_heartbeat:
  assumes "session_inv s e" and "se_alive s" and "\<not> se_recvCaprure s" and "heartbeat_frame bs"
  shows "\<exists>data. length data = length (se_data s) \<and> handle_read h sdk un now (Transferred bs) s e =
    map_option (\<lambda>(s, e). (s, emit [ReadMore] e))
      (handle_heartbeat now (s\<lparr>se_data := data, se_recv_times := se_recv_times s + 1\<rparr>) e)"
proof -
  let ?data = "bs @ drop (length bs) (se_data s)"
  have b: "4 < length bs" "length bs \<le> MAX_PACKET_LEN" "bs ! 4 = 101" using assms(4) by (simp_all add: heartbeat_frame_def)
  obtain w where "ParseFrameHead (Some ?data) (int (length bs)) (un_head un) = Some (0, (un_head un)\<lparr>ph_frameSize := w, ph_type := 101\<rparr>)"
    using frame_head [OF b(1)] b(3) by metis
  then have "handle_read h sdk un now (Transferred bs) s e =
    map_option (\<lambda>(s, e). (s, emit [ReadMore] e)) (handle_heartbeat now (arrived bs s) e)"
    by (cases "handle_heartbeat now (arrived bs s) e") (simp_all add: read_frame [OF assms(1-3) b(2)] handle_frame_def split_def)
  moreover have "length ?data = length (se_data s)" using assms(1) b(2) by (simp add: session_inv_def)
  ultimately show ?thesis by blast
qed

text \<open>
  C36: a heartbeat in vain gives a device the camera of another. Device \<open>i\<close>, not in the middle of a snapshot, has finished
  its tour with the camera \<open>r\<close>, which device \<open>j\<close> was given since, and no camera of its mission is free. The heartbeat of
  \<open>i\<close> sends it on its next tour with \<open>r\<close>: both devices steer one camera, and no flag of a camera changes.
\<close>

theorem heartbeat_shares_camera:
  assumes "system_inv y" and "e_world (sy_env y) = w"
    and "i < length (sy_sessions y)" and "j < length (sy_sessions y)" and "i \<noteq> j" and "sy_sessions y ! i = s"
    and "se_alive s" and "\<not> se_recvCaprure s" and "\<not> on_tour (se_capDev s)"
    and "cd_SpdDomeCam (se_capDev s) = Some r" and "holds (sy_sessions y ! j) = Some r"
    and "MissionMatch (se_capDev s) w = Some m" and "m \<noteq> - 1" and "MissionGet m w = Some ms"
    and "free_slot (w_cams w, ms) = None" and "heartbeat_frame bs"
  shows "\<exists>y'. system_run p [ReadDone i un now (Transferred bs)] y = Some y' \<and> usage (sy_env y') = usage (sy_env y) \<and>
    holds (sy_sessions y' ! i) = Some r \<and> holds (sy_sessions y' ! j) = Some r"
proof -
  from assms(1,3,6) have inv: "session_inv s (sy_env y)" by (auto simp: system_inv_def)
  from read_heartbeat [OF inv assms(7,8,16), of "pl_host p" "pl_sdk p" un now] obtain data where
    len: "length data = length (se_data s)" and
    rd: "handle_read (pl_host p) (pl_sdk p) un now (Transferred bs) s (sy_env y) =
      map_option (\<lambda>(s, e). (s, emit [ReadMore] e))
        (handle_heartbeat now (s\<lparr>se_data := data, se_recv_times := se_recv_times s + 1\<rparr>) (sy_env y))" by blast
  let ?s = "s\<lparr>se_data := data, se_recv_times := se_recv_times s + 1\<rparr>"
  have sinv: "session_inv ?s (sy_env y)" using inv len by (simp add: session_inv_def)
  have "\<exists>s' e'. handle_heartbeat now ?s (sy_env y) = Some (s', e') \<and>
    se_capDev s' = (se_capDev ?s)\<lparr>cd_missionNum := word_of_int m, cd_missionStatus := MISSION_READY\<rparr> \<and>
    w_cams (e_world e') = w_cams (e_world (sy_env y)) \<and> e_out e' = e_out (sy_env y)"
    by (rule heartbeat_reuses_old_camera [OF sinv _ _ assms(13)])
      (use assms(2,9,10,12,14,15) in \<open>auto simp: on_tour_def\<close>)
  then obtain s' e' where h: "handle_heartbeat now ?s (sy_env y) = Some (s', e')"
    and d: "se_capDev s' = (se_capDev s)\<lparr>cd_missionNum := word_of_int m, cd_missionStatus := MISSION_READY\<rparr>"
    and u: "usage e' = usage (sy_env y)" by (auto simp: usage_def)
  have "se_alive s'"
    using doesD [OF handle_heartbeat_does [OF sinv] h] assms(7) by (simp add: flags_def)
  with d assms(10) have "holds s' = Some r" by (simp add: holds_def tours_with_def on_tour_def)
  moreover have "system_run p [ReadDone i un now (Transferred bs)] y =
      Some (y\<lparr>sy_sessions := (sy_sessions y)[i := s'], sy_env := emit [ReadMore] e'\<rparr>)"
    using assms(3,6) rd h by (simp add: on_session_def)
  ultimately show ?thesis using assms(3-5,11) u by auto
qed


text \<open>
  C37: a second login loses a camera. When a device that logs in again during its tour, not in the middle of a snapshot,
  gets a further camera \<open>q\<close> of its mission, the one it toured with, \<open>r\<close>, stays marked busy although now no device tours with
  it, given that before no two devices toured with one camera.
\<close>

theorem second_login_loses_camera:
  assumes "system_inv y" and "all_guarded y" and "exclusive (sys_view y)" and "e_world (sy_env y) = w"
    and "i < length (sy_sessions y)" and "sy_sessions y ! i = s" and "\<not> se_recvCaprure s" and "holds s = Some r"
    and "good_login (pl_host p) un s bs d" and "MissionMatch d w = Some m" and "m \<noteq> - 1"
    and "MissionGet m w = Some ms" and "free_slot (w_cams w, ms) = Some u" and "cam_refs ms ! u = q"
  shows "\<exists>y'. system_run p [ReadDone i un now (Transferred bs)] y = Some y' \<and>
    holds (sy_sessions y' ! i) = Some q \<and> usage (sy_env y') ! r = BUSY \<and>
    (\<forall>j < length (sy_sessions y'). holds (sy_sessions y' ! j) \<noteq> Some r)"
proof -
  from assms(1,2,5,6) have inv: "session_inv s (sy_env y)" "guarded s" by (auto simp: system_inv_def all_guarded_def)
  have alive: "se_alive s" using assms(8) by (simp add: holds_def split: if_splits)
  from read_login [OF inv(1) alive assms(7,9), unfolded assms(4), OF assms(10-13), of "pl_sdk p" now, unfolded assms(14)]
  obtain s' e' where t: "handle_read (pl_host p) (pl_sdk p) un now (Transferred bs) s (sy_env y) = Some (s', e')"
    "w_cams (e_world e') = (w_cams w)[q := (w_cams w ! q)\<lparr>dc_isUsing := BUSY\<rparr>]" by blast
  have "wf_cams (w_cams w, ms)"
    using MissionGet_inv [OF _ assms(12)] assms(1,4) by (auto simp: system_inv_def wf_mission_def)
  from free_slot_Some [OF this assms(13)] this have q: "q < length (w_cams w)" "dc_isUsing (w_cams w ! q) = FREE"
    using assms(14) by (auto simp: cam_list_def wf_cams_def cam_refs_def)
  have us: "usage (sy_env y) = map dc_isUsing (w_cams w)" using assms(4) by (simp add: usage_def)
  with t(2) have us': "usage e' = (usage (sy_env y))[q := BUSY]" by (simp add: usage_def map_update)
  from handle_read_ok [OF inv(2,1), of "pl_host p" "pl_sdk p" un now "Transferred bs"] t(1)
  obtain x where "did x s (sy_env y) s' e'" by (auto simp: handler_ok_def)
  from took [OF this _ _ us'] q us assms(4) have h: "holds s' = Some q" by simp
  have ex: "exclusive (map holds (sy_sessions y), usage (sy_env y))" using assms(3) by (simp add: sys_view_def)
  have i: "i < length (map holds (sy_sessions y))" "map holds (sy_sessions y) ! i = Some r" using assms(5,6,8) by simp_all
  from exclusiveD(1,2) [OF ex i] q us have r: "usage e' ! r = BUSY" "q \<noteq> r" by (auto simp: us' nth_list_update)
  have "holds ((sy_sessions y)[i := s'] ! j) \<noteq> Some r" if "j < length (sy_sessions y)" for j
    using exclusiveD(3) [OF ex i, of j] that h r(2) by (cases "j = i") auto
  moreover have "system_run p [ReadDone i un now (Transferred bs)] y =
      Some (y\<lparr>sy_sessions := (sy_sessions y)[i := s'], sy_env := e'\<rparr>)"
    using assms(5,6) t(1) by (simp add: on_session_def)
  ultimately show ?thesis using assms(5) h r(1) by auto
qed

section \<open>Witnesses\<close>

text \<open>One session before its login, and three of which two were given one camera\<close>

definition system_of :: "session list \<Rightarrow> env \<Rightarrow> system" where
  "system_of ss e = \<lparr>sy_server = server0, sy_server_cfg = server0, sy_sessions = ss, sy_cfg_sessions = [],
     sy_env = e, sy_sql = st0\<rparr>"

definition system1 :: system where
  "system1 = system_of [session1] env1"

definition touring_session :: session where
  "touring_session = session1\<lparr>se_capDev := dev0\<lparr>cd_SpdDomeCam := Some 0\<rparr>\<rparr>"

definition busy_system :: system where
  "busy_system = system_of [done_session, touring_session, session1] busy_env"

lemma system_of_simps [simp]: "sy_sessions (system_of ss e) = ss" "sy_env (system_of ss e) = e"
  by (simp_all add: system_of_def)

lemma system1_inv: "system_inv system1" "all_guarded system1" "exclusive (sys_view system1)"
  using session1_inv
  by (simp_all add: system1_def system_inv_def system_of_def session_inv_def all_guarded_def guarded_def sys_view_def
      exclusive.simps holds_def tours_with_def dev0_def)

lemma login1: "\<exists>y'. system_step platform0 (ReadDone 0 uninit0 7 (Transferred (login_frame [52, 50]))) system1 = Some y' \<and>
    length (sy_sessions y') = 1 \<and> holds (sy_sessions y' ! 0) = Some 0"
proof -
  obtain d where d: "good_login host0 uninit0 session1 (login_frame [52, 50]) d" "cd_devNum d = ''42''"
    using good_login0 by blast
  have "free_slot (w_cams (e_world env1), mission1) = Some 0" using free_sample by simp
  from read_login [OF session1_inv _ _ d(1) match_sample [OF d(2)] _ get_sample this, of sdk_ok 7] obtain s' e' where
    r: "handle_read host0 sdk_ok uninit0 7 (Transferred (login_frame [52, 50])) session1 env1 = Some (s', e')"
    "w_cams (e_world e') = [cam0\<lparr>dc_isUsing := BUSY\<rparr>]" by auto
  from handle_read_ok [OF _ session1_inv, of host0 sdk_ok uninit0 7 "Transferred (login_frame [52, 50])"] r(1)
  obtain x where x: "did x session1 env1 s' e'" by (auto simp: handler_ok_def guarded_def)
  have "holds s' = Some 0" by (intro took [OF x]) (simp_all add: usage_def r(2) cam0_def)
  with r(1) show ?thesis by (simp add: on_session_def system1_def platform0_def)
qed

corollary steps_allocate_witness:
  "\<exists>y'. (alloc (sys_view system1) (sys_view y') \<or> (\<exists>i r. lapse i r system1 y')) \<and> all_guarded y' \<and>
    holds (sy_sessions y' ! 0) = Some 0"
  using login1 steps_allocate [OF system1_inv(1,2)] by blast

corollary cameras_exclusive_witness:
  "\<exists>y'. system_run platform0 [ReadDone 0 uninit0 7 (Transferred (login_frame [52, 50]))] system1 = Some y' \<and>
    holds (sy_sessions y' ! 0) = Some 0 \<and> dc_isUsing (w_cams (e_world (sy_env y')) ! 0) = BUSY"
proof -
  let ?evs = "[ReadDone 0 uninit0 7 (Transferred (login_frame [52, 50]))]"
  obtain y' where y': "system_step platform0 (hd ?evs) system1 = Some y'" "length (sy_sessions y') = 1"
    "holds (sy_sessions y' ! 0) = Some 0" using login1 by auto
  then have r: "system_run platform0 ?evs system1 = Some y'" by (simp del: system_step.simps)
  have "\<not> lapses platform0 ?evs system1"
    using y'(1) by (simp del: system_step.simps add: lapsed_def) (simp add: system1_def dev0_def)
  from cameras_exclusive [OF system1_inv _ r this, of 0 0] y' r show ?thesis by simp
qed

lemma busy_system_inv: "system_inv busy_system" "all_guarded busy_system"
proof -
  have "world_inv ((e_world env1)\<lparr>w_cams := [cam0\<lparr>dc_isUsing := BUSY\<rparr>]\<rparr>)"
    by (rule world_inv_cams [OF world_inv_env1]) simp
  then show "system_inv busy_system"
    using session1_inv
    by (simp add: system_inv_def busy_system_def system_of_def session_inv_def done_session_def touring_session_def busy_env_def)
  show "all_guarded busy_system"
    by (simp add: all_guarded_def busy_system_def guarded_def done_session_def touring_session_def)
qed

lemma busy_world:
  "MissionGet 3 (e_world busy_env) = Some mission1" "free_slot (w_cams (e_world busy_env), mission1) = None"
  "0 \<in> set (cam_refs mission1)" "cd_devNum d = ''42'' \<Longrightarrow> MissionMatch d (e_world busy_env) = Some 3"
proof -
  show "MissionGet 3 (e_world busy_env) = Some mission1" using get_sample by (simp add: MissionGet_def busy_env_def)
  have "cam_list ([cam0\<lparr>dc_isUsing := BUSY\<rparr>], mission1) = [cam0\<lparr>dc_isUsing := BUSY\<rparr>]" by (simp add: cam_list_def)
  then show "free_slot (w_cams (e_world busy_env), mission1) = None" by (simp add: free_slot_None busy_env_def)
  show "0 \<in> set (cam_refs mission1)" by simp
  show "cd_devNum d = ''42'' \<Longrightarrow> MissionMatch d (e_world busy_env) = Some 3"
    using match_sample [of d] by (simp add: MissionMatch_def busy_env_def)
qed

corollary late_end_shares_camera_witness:
  "\<exists>y'. system_run platform0 [ReadDone 0 uninit0 3 (Failed ''reset''),
      ReadDone 2 uninit0 7 (Transferred (login_frame [52, 50]))] busy_system = Some y' \<and>
    holds (sy_sessions y' ! 1) = Some 0 \<and> holds (sy_sessions y' ! 2) = Some 0"
proof -
  obtain d where d: "good_login host0 uninit0 session1 (login_frame [52, 50]) d" "cd_devNum d = ''42''"
    using good_login0 by blast
  show ?thesis
    by (rule late_end_shares_camera [where i = 0 and d = d and m = 3 and ms = mission1, OF busy_system_inv refl])
      (use d busy_world in \<open>simp_all add: busy_system_def platform0_def done_session_def touring_session_def holds_def
        tours_with_def on_tour_def dev0_def\<close>)
qed

corollary heartbeat_shares_camera_witness:
  "\<exists>y'. system_run platform0 [ReadDone 0 uninit0 7 (Transferred [9, 0, 0, 0, 101, 0, 0, 0, 0])] busy_system = Some y' \<and>
    usage (sy_env y') = usage (sy_env busy_system) \<and>
    holds (sy_sessions y' ! 0) = Some 0 \<and> holds (sy_sessions y' ! 1) = Some 0"
  by (rule heartbeat_shares_camera [where s = done_session and m = 3 and ms = mission1, OF busy_system_inv(1) refl])
    (use busy_world in \<open>simp_all add: busy_system_def done_session_def touring_session_def holds_def
        tours_with_def on_tour_def dev0_def heartbeat_frame_def MAX_PACKET_LEN_def\<close>)


definition two_cams_env :: env where
  "two_cams_env = env1\<lparr>e_world := (e_world env1)\<lparr>w_cams := [cam0\<lparr>dc_isUsing := BUSY\<rparr>, cam0],
     w_missions := [(3, (mission0 2)\<lparr>ms_totalCapDev := 1\<rparr>)]\<rparr>\<rparr>"

lemma good_login_touring:
  assumes "good_login host0 uninit0 session1 bs d"
  shows "good_login host0 uninit0 touring_session bs (d\<lparr>cd_SpdDomeCam := Some 0\<rparr>)"
proof -
  have "CapDev_init host0 (dev0\<lparr>cd_SpdDomeCam := x\<rparr>) q li = map_option (\<lambda>d. d\<lparr>cd_SpdDomeCam := x\<rparr>) (CapDev_init host0 dev0 q li)"
    for x q li
    by (cases "cstr (li_name li)"; cases "cstr (li_devNum li)") (simp_all add: CapDev_init_def)
  with assms show ?thesis by (fastforce simp: good_login_def touring_session_def)
qed

corollary second_login_loses_camera_witness:
  "\<exists>y'. system_run platform0 [ReadDone 0 uninit0 7 (Transferred (login_frame [52, 50]))]
      (system_of [touring_session] two_cams_env) = Some y' \<and>
    holds (sy_sessions y' ! 0) = Some 1 \<and> usage (sy_env y') ! 0 = BUSY \<and>
    (\<forall>j < length (sy_sessions y'). holds (sy_sessions y' ! j) \<noteq> Some 0)"
proof -
  let ?y = "system_of [touring_session] two_cams_env" and ?ms = "(mission0 2)\<lparr>ms_totalCapDev := 1\<rparr>"
  have inv: "world_inv (e_world two_cams_env)"
    by (simp add: world_inv_def two_cams_env_def env1_def wf_mission_def wf_cams_def wf_devs_def mission0_def
        MAX_CAPDEV_def MAX_SDC_def)
  then have sys: "system_inv ?y" "all_guarded ?y" "exclusive (sys_view ?y)"
    using session1_inv
    by (simp_all add: system_inv_def system_of_def session_inv_def all_guarded_def guarded_def sys_view_def
      exclusive.simps holds_def tours_with_def on_tour_def dev0_def touring_session_def two_cams_env_def usage_def)
  obtain d where d: "good_login host0 uninit0 session1 (login_frame [52, 50]) d" "cd_devNum d = ''42''"
    using good_login0 by blast
  have l: "cam_list ([cam0\<lparr>dc_isUsing := BUSY\<rparr>, cam0], ?ms) = [cam0\<lparr>dc_isUsing := BUSY\<rparr>] @ [cam0]"
    by (simp add: cam_list_def cam_refs_def mission0_def upt_rec)
  have "wf_cams ([cam0\<lparr>dc_isUsing := BUSY\<rparr>, cam0], ?ms)" by (simp add: wf_cams_def mission0_def MAX_SDC_def)
  from only_free_slot [OF this l] have free: "free_slot (w_cams (e_world two_cams_env), ?ms) = Some 1"
    by (simp add: cam0_def two_cams_env_def)
  have m: "MissionMatch d (e_world two_cams_env) = Some 3" if "cd_devNum d = ''42''" for d
    using that by (simp add: MissionMatch_def two_cams_env_def CMission_match_def find_CapDev_def CapDev_at_def
      MAX_CAPDEV_def mission0_def)
  show ?thesis
    by (rule second_login_loses_camera [OF sys refl, where s = touring_session and m = 3 and ms = ?ms and u = 1 and
        d = "d\<lparr>cd_SpdDomeCam := Some 0\<rparr>"])
      (use good_login_touring [OF d(1)] d(2) free m in \<open>simp_all add: platform0_def touring_session_def holds_def tours_with_def
        on_tour_def dev0_def MissionGet_def two_cams_env_def cam_refs_def mission0_def\<close>)
qed

end
