(* ===== verification/Tours.thy ===== *)
theory Tours
  imports Exclusive
begin

text \<open>
  The tours in the whole program. The handlers of other devices leave a camera alone that is marked busy and
  that they hold no pointer to; so a tour goes on among them as it does alone.
\<close>

section \<open>The lists of devices\<close>

text \<open>Only a client changes which mission a device is listed in.\<close>

definition like_numbers :: "CMission \<Rightarrow> CMission \<Rightarrow> bool" where
  "like_numbers ms ms' \<longleftrightarrow> ms_missionNum ms' = ms_missionNum ms \<and> ms_totalCapDev ms' = ms_totalCapDev ms \<and>
     (\<forall>i. cd_devNum (ms_capDev ms' i) = cd_devNum (ms_capDev ms i))"

definition same_lists :: "world \<Rightarrow> world \<Rightarrow> bool" where
  "same_lists w w' \<longleftrightarrow> list_all2 (\<lambda>x y. like_numbers (snd x) (snd y)) (w_missions w) (w_missions w')"

lemma like_numbers_refl [simp]: "like_numbers ms ms"
  by (simp add: like_numbers_def)

lemma like_numbers_trans: "like_numbers a b \<Longrightarrow> like_numbers b c \<Longrightarrow> like_numbers a c"
  by (simp add: like_numbers_def)

lemma same_lists_refl [simp]: "w_missions w' = w_missions w \<Longrightarrow> same_lists w w'"
  by (simp add: same_lists_def list_all2_same)

lemma same_lists_trans: "same_lists u v \<Longrightarrow> same_lists v w \<Longrightarrow> same_lists u w"
  unfolding same_lists_def by (rule list_all2_trans [OF like_numbers_trans])

lemma same_lists_cong: "w_missions w' = w_missions w \<Longrightarrow> same_lists u w' = same_lists u w"
  by (simp add: same_lists_def)

lemma CMission_match_numbers:
  assumes "like_numbers ms ms'"
  shows "CMission_match ms' d = CMission_match ms d"
proof -
  have "map_option (\<lambda>x. k = cd_devNum x) (CapDev_at ms' i) = map_option (\<lambda>x. k = cd_devNum x) (CapDev_at ms i)" for k i
    using assms by (simp add: CapDev_at_def like_numbers_def)
  with assms show ?thesis by (simp add: CMission_match_def find_CapDev_def like_numbers_def)
qed

lemma MissionMatch_same_lists:
  assumes "same_lists w w'"
  shows "MissionMatch d w' = MissionMatch d w"
proof -
  have "list_all2 (\<lambda>x y. like_numbers (snd x) (snd y)) xs ys \<Longrightarrow> MissionMatch_loop ys d = MissionMatch_loop xs d" for xs ys
  proof (induction rule: list_all2_induct)
    case (Cons x xs y ys)
    then show ?case using CMission_match_numbers [of "snd x" "snd y" d]
      by (cases x; cases y; cases "CMission_match (snd x) d") (simp_all add: like_numbers_def)
  qed simp
  with assms show ?thesis by (simp add: same_lists_def MissionMatch_def)
qed

lemma updateCapdev_numbers:
  assumes "updateCapdev cams ms dev = Some (n, ms')" and "wf_devs ms"
  shows "like_numbers ms ms'"
proof (cases "find_index (\<lambda>d. cd_devNum d = cd_devNum dev) (dev_list ms)")
  case None
  with assms show ?thesis by (simp add: updateCapdev_def find_CapDev_list)
next
  case (Some i)
  with find_index_Some [OF Some] have "cd_devNum (ms_capDev ms i) = cd_devNum dev" by (auto simp: dev_list_def)
  with Some assms show ?thesis
    by (auto simp: updateCapdev_def find_CapDev_list bind_eq_Some_conv Let_def like_numbers_def copy_CapDev_def
        split: option.splits)
qed

lemma getFreeSDC_numbers: "getFreeSDC cams ms = Some (n, p, cams', ms') \<Longrightarrow> like_numbers ms ms'"
  by (auto simp: getFreeSDC_def bind_eq_Some_conv Let_def like_numbers_def split: option.splits)

lemma put_mission_same_lists:
  assumes "world_inv (e_world e)" and "MissionGet k (e_world e) = Some ms" and "like_numbers ms ms'"
  shows "same_lists (e_world e) (e_world (put_mission k ms' cams e))"
proof -
  have "distinct (map fst (w_missions (e_world e)))"
    using assms(1) strict_sorted_iff [of "map fst (w_missions (e_world e))"] by (simp add: world_inv_def)
  then have "m = ms" if "(k, m) \<in> set (w_missions (e_world e))" for m
    using that assms(2) by (simp add: MissionGet_def)
  with assms(3) show ?thesis
    by (auto simp: same_lists_def put_mission_def list_all2_map2 list_all2_same)
qed

lemma MissionGet_put_mission:
  "MissionGet k (e_world e) = Some ms \<Longrightarrow> MissionGet k (e_world (put_mission k ms' cams e)) = Some ms'"
proof -
  have "map_of xs k = Some ms \<Longrightarrow> map_of (map (\<lambda>(l, m). (l, if l = k then ms' else m)) xs) k = Some ms'" for xs
    by (induction xs) (auto split: if_splits)
  then show "MissionGet k (e_world e) = Some ms \<Longrightarrow> ?thesis" by (simp add: MissionGet_def put_mission_def)
qed

lemma like_world_same_lists:
  assumes "like_world w w'"
  shows "same_lists w w'"
proof -
  have "like_numbers (snd (w_missions w ! i)) (snd (w_missions w' ! i))" if "i < length (w_missions w)" for i
  proof -
    have l: "like_mission (mission_at i w) (mission_at i w')" using assms that by (simp add: like_world_def)
    then have "cd_devNum (ms_capDev (mission_at i w') j) = cd_devNum (ms_capDev (mission_at i w) j)" for j
      by (auto simp: like_mission_def shown_def dest!: spec [of _ j])
    with like_mission_fields [OF l] show ?thesis by (simp add: like_numbers_def mission_at_def)
  qed
  with assms show ?thesis by (simp add: same_lists_def like_world_def list_all2_conv_all_nth)
qed

section \<open>The handlers of other devices\<close>

text \<open>The session has no pointer to the camera \<open>r\<close>, which is marked busy.\<close>

definition apart :: "cam_ref \<Rightarrow> session \<Rightarrow> env \<Rightarrow> bool" where
  "apart r s e \<longleftrightarrow> session_inv s e \<and> cd_SpdDomeCam (se_capDev s) \<noteq> Some r \<and> r < ncams e \<and>
     dc_isUsing (w_cams (e_world e) ! r) = BUSY"

text \<open>The handler leaves the camera and the lists of devices as they are and takes no pointer to the camera.\<close>

definition spared :: "cam_ref \<Rightarrow> env \<Rightarrow> session \<Rightarrow> env \<Rightarrow> bool" where
  "spared r e s' e' \<longleftrightarrow> w_cams (e_world e') ! r = w_cams (e_world e) ! r \<and> cd_SpdDomeCam (se_capDev s') \<noteq> Some r \<and>
     same_lists (e_world e) (e_world e')"

abbreviation spares :: "cam_ref \<Rightarrow> env \<Rightarrow> (session \<times> env) option \<Rightarrow> bool" where
  "spares r e \<equiv> yields (\<lambda>(s', e'). spared r e s' e')"

lemma sparesI: "(\<And>s' e'. x = Some (s', e') \<Longrightarrow> spared r e s' e') \<Longrightarrow> spares r e x"
  by (simp add: yields_def)

lemma sparesD: "spares r e x \<Longrightarrow> x = Some (s', e') \<Longrightarrow> spared r e s' e'"
  by (simp add: yields_def)

lemma spared_emit [simp]: "spared r e s' (emit evs e') = spared r e s' e'"
  by (simp add: spared_def)

lemma spared_trans:
  "spared r f s' e' \<Longrightarrow> w_cams (e_world f) ! r = w_cams (e_world e) ! r \<Longrightarrow> same_lists (e_world e) (e_world f) \<Longrightarrow>
     spared r e s' e'"
  by (auto simp: spared_def intro: same_lists_trans)

lemma apart_same: "apart r s e \<Longrightarrow> spares r e (Some (s\<lparr>se_status := x\<rparr>, e))" "apart r s e \<Longrightarrow> spares r e (Some (s, e))"
  by (simp_all add: yields_def spared_def apart_def)

lemma respond_world: "respond t v s e = Some (s', e') \<Longrightarrow> e_world e' = e_world e \<and> se_capDev s' = se_capDev s"
  by (auto simp: respond_def bind_eq_Some_conv Let_def)

lemma respond_spares: "cd_SpdDomeCam (se_capDev s) \<noteq> Some r \<Longrightarrow> spares r e (respond t v s e)"
  using respond_world by (fastforce simp: yields_def spared_def)

lemma getFreeSDC_spares:
  assumes "wf_cams (cams, ms)" and "getFreeSDC cams ms = Some (n, p, cams', ms')"
    and "r < length cams" and "dc_isUsing (cams ! r) = BUSY"
  shows "cams' ! r = cams ! r \<and> p \<noteq> Some (Some r)"
proof (cases "free_slot (cams, ms)")
  case None
  with assms show ?thesis by (simp add: getFreeSDC_eq)
next
  case (Some j)
  from free_slot_Some [OF assms(1) Some] have j: "j < unat (ms_totalSpdDomeCam ms)"
    "dc_isUsing (cam_list (cams, ms) ! j) = FREE" by auto
  with SDC_at_wf(2) [OF assms(1) j(1)] have "dc_isUsing (cams ! (cam_refs ms ! j)) = FREE"
    by (auto simp: cam_list_def cam_refs_def)
  with assms(4) have "cam_refs ms ! j \<noteq> r" by auto
  with assms Some show ?thesis by (auto simp: getFreeSDC_eq Let_def)
qed

lemma give_camera_lists:
  assumes "give_camera now p ms s e = Some (s', e')"
    and "world_inv (e_world e)" and "MissionGet (mission_key s) (e_world e) = Some ms"
  shows "same_lists (e_world e) (e_world e') \<and> w_cams (e_world e') = w_cams (e_world e) \<and>
    cd_SpdDomeCam (se_capDev s') = Some p"
proof -
  let ?s = "set_capDev (\<lambda>d. d\<lparr>cd_SpdDomeCam := Some p, cd_missionStatus := MISSION_READY\<rparr>) s"
  obtain t f where tf: "put_dev (CapDev_start now (as_dev ?s e)) ?s e = (t, f)" by fastforce
  have t: "cd_SpdDomeCam (se_capDev (set_capDev (\<lambda>d. d\<lparr>cd_isOnline := 1\<rparr>) t)) = Some p" "e_world f = e_world e"
    "mission_key t = mission_key s"
    using tf by (auto simp: put_dev_def CapDev_start_def as_dev_def split: if_splits)
  from assms(1) tf obtain n ms' where
    u: "updateCapdev (w_cams (e_world f)) ms (se_capDev (set_capDev (\<lambda>d. d\<lparr>cd_isOnline := 1\<rparr>) t)) = Some (n, ms')" and
    resp: "respond LOGIN_RESP 1 (set_capDev (\<lambda>d. d\<lparr>cd_isOnline := 1\<rparr>) t)
      (put_mission (mission_key (set_capDev (\<lambda>d. d\<lparr>cd_isOnline := 1\<rparr>) t)) ms' (w_cams (e_world f)) f) = Some (s', e')"
    by (auto simp: give_camera_def bind_eq_Some_conv Let_def)
  have "like_numbers ms ms'"
    by (rule updateCapdev_numbers [OF u]) (use MissionGet_inv [OF assms(2,3)] in \<open>simp add: wf_mission_def\<close>)
  from put_mission_same_lists [OF _ _ this, of f "mission_key s"] assms(2,3) t
  have "same_lists (e_world e) (e_world (put_mission (mission_key s) ms' (w_cams (e_world f)) f))" by simp
  with respond_world [OF resp] t show ?thesis by simp (simp add: put_mission_def)
qed

text \<open>The search for a free camera and what follows it\<close>

lemma take_free_camera_cases:
  assumes "take_free_camera now s e = Some (s', e')" and "session_inv s e"
  obtains ms n p cams ms' f where
    "MissionGet (mission_key s) (e_world e) = Some ms" and "getFreeSDC (w_cams (e_world e)) ms = Some (n, p, cams, ms')"
    and "f = put_mission (mission_key s) ms' cams e" and "same_lists (e_world e) (e_world f)"
    and "world_inv (e_world f)" and "MissionGet (mission_key s) (e_world f) = Some ms'"
    and "(case p of Some (Some p) \<Rightarrow> give_camera now p ms' s f | _ \<Rightarrow> Some (s, f)) = Some (s', e')"
proof -
  from assms(1) obtain ms n p cams ms' where
    g: "MissionGet (mission_key s) (e_world e) = Some ms"
      "getFreeSDC (w_cams (e_world e)) ms = Some (n, p, cams, ms')"
    by (auto simp: take_free_camera_def bind_eq_Some_conv)
  let ?e = "put_mission (mission_key s) ms' cams e"
  have "same_lists (e_world e) (e_world ?e)"
    using put_mission_same_lists [OF _ g(1) getFreeSDC_numbers [OF g(2)]] assms(2) by (simp add: session_inv_def)
  moreover have "world_inv (e_world ?e)" using free_camera_step [OF g assms(2)] by (simp add: session_inv_def)
  moreover have "MissionGet (mission_key s) (e_world ?e) = Some ms'" by (rule MissionGet_put_mission [OF g(1)])
  ultimately show thesis using that [OF g refl] assms(1) g by (simp add: take_free_camera_def Let_def)
qed

lemma take_free_camera_lists:
  assumes "take_free_camera now s e = Some (s', e')" and "session_inv s e"
  shows "same_lists (e_world e) (e_world e')"
proof -
  from take_free_camera_cases [OF assms] obtain ms' p f where
    f: "same_lists (e_world e) (e_world f)" "world_inv (e_world f)" "MissionGet (mission_key s) (e_world f) = Some ms'"
    and c: "(case p of Some (Some p) \<Rightarrow> give_camera now p ms' s f | _ \<Rightarrow> Some (s, f)) = Some (s', e')" .
  show ?thesis
  proof (cases "\<exists>q. p = Some (Some q)")
    case True
    with c obtain q where "give_camera now q ms' s f = Some (s', e')" by auto
    from give_camera_lists [OF this f(2,3)] f(1) show ?thesis by (auto intro: same_lists_trans)
  next
    case False
    with c f(1) show ?thesis by (auto split: option.splits)
  qed
qed

lemma login_lists:
  assumes "handle_login h un now n s e = Some (b, s', e')" and "session_inv s e"
  shows "same_lists (e_world e) (e_world e')"
proof -
  from assms(1) obtain k li num where l:
    "ParseLoginInfo (Some (drop 5 (se_data s))) (int n - 5) (un_loginInfo un) = Some (k, li)"
    "cstr (li_devNum li) = Some num" by (auto simp: handle_login_def bind_eq_Some_conv)
  show ?thesis
  proof (cases "checkTextChineseOrNumberOrLetter num = - 1")
    case True
    with l assms(1) have "respond LOGIN_RESP 0 s e = Some (s', e')" by (auto simp: handle_login_def)
    from respond_world [OF this] show ?thesis by simp
  next
    case False
    with l assms(1) obtain d t where d: "CapDev_init h (se_capDev s) (Some (se_socket s)) li = Some d"
      "match_device (s\<lparr>se_capDev := d\<rparr>) e = Some t"
      and r: "(if cd_missionNum (se_capDev t) = - 1 then Some (True, t, e)
        else map_option (Pair True) (take_free_camera now t e)) = Some (b, s', e')"
      by (auto simp: handle_login_def bind_eq_Some_conv)
    have "cd_SpdDomeCam d = cd_SpdDomeCam (se_capDev s)"
      using d(1) by (auto simp: CapDev_init_def bind_eq_Some_conv split: if_splits)
    then have "session_inv (s\<lparr>se_capDev := d\<rparr>) e" using session_inv_capDev [OF assms(2)] by simp
    with match_device_inv [OF d(2)] have inv: "session_inv t e" by simp
    from r take_free_camera_lists [OF _ inv, of now s' e'] show ?thesis by (auto split: if_splits)
  qed
qed

lemma give_camera_spares:
  assumes "p \<noteq> r" and "world_inv (e_world e)" and "MissionGet (mission_key s) (e_world e) = Some ms"
  shows "spares r e (give_camera now p ms s e)"
  using give_camera_lists [OF _ assms(2,3)] assms(1) by (fastforce simp: yields_def spared_def)

lemma take_free_camera_spares:
  assumes "apart r s e"
  shows "spares r e (take_free_camera now s e)"
proof (rule sparesI)
  fix s' e' assume t: "take_free_camera now s e = Some (s', e')"
  have inv: "session_inv s e" using assms by (simp add: apart_def)
  from take_free_camera_cases [OF t this] obtain ms n p cams ms' f where
    g: "MissionGet (mission_key s) (e_world e) = Some ms" "getFreeSDC (w_cams (e_world e)) ms = Some (n, p, cams, ms')"
    and f: "f = put_mission (mission_key s) ms' cams e" "same_lists (e_world e) (e_world f)" "world_inv (e_world f)"
      "MissionGet (mission_key s) (e_world f) = Some ms'"
    and c: "(case p of Some (Some p) \<Rightarrow> give_camera now p ms' s f | _ \<Rightarrow> Some (s, f)) = Some (s', e')" .
  have wf: "wf_cams (w_cams (e_world e), ms)"
    using MissionGet_inv [OF _ g(1)] inv by (simp add: session_inv_def wf_mission_def)
  from getFreeSDC_spares [OF wf g(2)] assms have r: "cams ! r = w_cams (e_world e) ! r" "p \<noteq> Some (Some r)"
    by (auto simp: apart_def)
  then have e: "w_cams (e_world f) ! r = w_cams (e_world e) ! r" unfolding f(1) by (simp add: put_mission_def)
  show "spared r e s' e'"
  proof (cases "\<exists>q. p = Some (Some q)")
    case True
    then obtain q where q: "p = Some (Some q)" by blast
    with r(2) have "q \<noteq> r" by simp
    from c q sparesD [OF give_camera_spares [OF this f(3,4), of now]] have "spared r f s' e'" by simp
    from spared_trans [OF this e f(2)] show ?thesis .
  next
    case False
    with c have "s' = s \<and> e' = f" by (auto split: option.splits)
    with e f(2) assms show ?thesis by (simp add: spared_def apart_def)
  qed
qed

lemma apart_capDev:
  "apart r s e \<Longrightarrow> cd_SpdDomeCam d = cd_SpdDomeCam (se_capDev s) \<Longrightarrow> apart r (s\<lparr>se_capDev := d\<rparr>) e"
  using session_inv_capDev by (simp add: apart_def)

lemma match_apart: "match_device s e = Some t \<Longrightarrow> apart r s e \<Longrightarrow> apart r t e"
  using match_device_inv [of s e t] by (auto simp: apart_def match_device_def)

lemma handle_login_spares:
  assumes "apart r s e"
  shows "spares r e (map_option snd (handle_login h un now n s e))"
proof (rule sparesI)
  fix s' e' assume "map_option snd (handle_login h un now n s e) = Some (s', e')"
  then obtain b k li num where l: "handle_login h un now n s e = Some (b, s', e')"
    "ParseLoginInfo (Some (drop 5 (se_data s))) (int n - 5) (un_loginInfo un) = Some (k, li)"
    "cstr (li_devNum li) = Some num" by (auto simp: handle_login_def bind_eq_Some_conv)
  show "spared r e s' e'"
  proof (cases "checkTextChineseOrNumberOrLetter num = - 1")
    case True
    with l have "respond LOGIN_RESP 0 s e = Some (s', e')" by (auto simp: handle_login_def)
    from sparesD [OF respond_spares this] assms show ?thesis by (simp add: apart_def)
  next
    case False
    with l obtain d t where d: "CapDev_init h (se_capDev s) (Some (se_socket s)) li = Some d"
      "match_device (s\<lparr>se_capDev := d\<rparr>) e = Some t"
      and r: "(if cd_missionNum (se_capDev t) = - 1 then Some (True, t, e)
        else map_option (Pair True) (take_free_camera now t e)) = Some (b, s', e')"
      by (auto simp: handle_login_def bind_eq_Some_conv)
    have "cd_SpdDomeCam d = cd_SpdDomeCam (se_capDev s)"
      using d(1) by (auto simp: CapDev_init_def bind_eq_Some_conv split: if_splits)
    from match_apart [OF d(2) apart_capDev [OF assms this]] have t: "apart r t e" .
    show ?thesis
    proof (cases "cd_missionNum (se_capDev t) = - 1")
      case True
      with r have "s' = t \<and> e' = e" by simp
      with t show ?thesis by (simp add: spared_def apart_def)
    next
      case False
      with r have "take_free_camera now t e = Some (s', e')" by auto
      from sparesD [OF take_free_camera_spares [OF t] this] show ?thesis .
    qed
  qed
qed


lemma first_mission_spares:
  assumes "apart r s e"
  shows "spares r e (first_mission now s e)"
  unfolding first_mission_def
  by (intro yields_any_bind yields_rules(1,2) take_free_camera_spares)
    (auto dest: match_apart [OF _ assms] simp: spared_def apart_def)

lemma next_mission_spares:
  assumes "apart r s e"
  shows "spares r e (map_option snd (next_mission s e))"
proof (rule sparesI)
  fix s' e' assume "map_option snd (next_mission s e) = Some (s', e')"
  then obtain b where n: "next_mission s e = Some (b, s', e')" by auto
  from n obtain t where t: "match_device s e = Some t" by (auto simp: next_mission_def bind_eq_Some_conv)
  have apart: "apart r t e" by (rule match_apart [OF t assms])
  show "spared r e s' e'"
  proof (cases "cd_missionNum (se_capDev t) = - 1")
    case True
    with n t apart show ?thesis by (simp add: next_mission_def spared_def apart_def)
  next
    case False
    with n t obtain ms n' p cams ms' where
      g: "MissionGet (mission_key t) (e_world e) = Some ms"
        "getFreeSDC (w_cams (e_world e)) ms = Some (n', p, cams, ms')"
      by (auto simp: next_mission_def bind_eq_Some_conv)
    from n t False g have u: "s' = set_capDev (\<lambda>d. d\<lparr>cd_missionStatus := MISSION_READY\<rparr>)
        (case p of None \<Rightarrow> t | Some p \<Rightarrow> set_capDev (\<lambda>d. d\<lparr>cd_SpdDomeCam := p\<rparr>) t)"
      and "\<exists>ms'' k d. e' = put_mission (mission_key t) ms'' cams e \<and> updateCapdev cams ms' d = Some (k, ms'')"
      by (auto simp: next_mission_def bind_eq_Some_conv Let_def split: option.splits)
    then obtain ms'' k d where e'': "e' = put_mission (mission_key t) ms'' cams e" "updateCapdev cams ms' d = Some (k, ms'')"
      by blast
    from u e''(1) have s': "cd_SpdDomeCam (se_capDev s') = (case p of None \<Rightarrow> cd_SpdDomeCam (se_capDev t) | Some p \<Rightarrow> p)"
      and e': "w_cams (e_world e') = cams" by (auto simp: put_mission_def split: option.split)
    have wf: "wf_cams (w_cams (e_world e), ms)"
      using MissionGet_inv [OF _ g(1)] apart by (simp add: apart_def session_inv_def wf_mission_def)
    have inv: "session_inv t e" using apart by (simp add: apart_def)
    have "like_numbers ms' ms''"
      by (rule updateCapdev_numbers [OF e''(2)]) (use free_camera_step [OF g inv] in \<open>simp add: wf_mission_def\<close>)
    with getFreeSDC_numbers [OF g(2)] have "like_numbers ms ms''" by (rule like_numbers_trans)
    with put_mission_same_lists [OF _ g(1)] inv e''(1) have "same_lists (e_world e) (e_world e')"
      by (simp add: session_inv_def)
    with getFreeSDC_spares [OF wf g(2)] apart s' e' show ?thesis by (auto simp: apart_def spared_def split: option.splits)
  qed
qed

lemma handle_heartbeat_spares:
  assumes "apart r s e"
  shows "spares r e (handle_heartbeat now s e)"
proof (cases "on_tour (se_capDev s)")
  case True
  then have "handle_heartbeat now s e = (if cd_SpdDomeCam (se_capDev s) = None \<or> cd_missionNum (se_capDev s) = - 1
      then first_mission now s e else Some (s, e))" by (simp add: handle_heartbeat_def on_tour_def)
  with first_mission_spares [OF assms] apart_same(2) [OF assms] show ?thesis by simp
next
  case False
  show ?thesis
  proof (rule sparesI)
    fix s' e' assume h: "handle_heartbeat now s e = Some (s', e')"
    with False obtain go t f where n: "next_mission s e = Some (go, t, f)"
      by (auto simp: handle_heartbeat_def on_tour_def bind_eq_Some_conv split: if_splits)
    then have "cd_SpdDomeCam (se_capDev t) \<noteq> None \<and> cd_missionNum (se_capDev t) \<noteq> - 1" if go
      using that by (auto simp: next_mission_def bind_eq_Some_conv Let_def deref_def split: if_splits option.splits)
    with h n False have "s' = t \<and> e' = f" by (cases go) (auto simp: handle_heartbeat_def on_tour_def)
    with sparesD [OF next_mission_spares [OF assms], of t f] n show "spared r e s' e'" by simp
  qed
qed

lemma put_dev_spared:
  "ds_cams d ! r = w_cams (e_world e) ! r \<Longrightarrow> cd_SpdDomeCam (ds_dev d) \<noteq> Some r \<Longrightarrow>
    spared r e (fst (put_dev d s e)) (snd (put_dev d s e))"
  by (simp add: put_dev_def spared_def)

lemma handle_3d_spares:
  assumes "apart r s e"
  shows "spares r e (handle_3d sdk un n s e)"
proof (rule sparesI)
  fix s' e' assume r: "handle_3d sdk un n s e = Some (s', e')"
  let ?s = "s\<lparr>se_status := 0\<rparr>"
  from r obtain tdr k d where d: "threeD_Request sdk (as_dev ?s e) tdr = Some (k, d)"
    and p: "respond RIO_RESP 1 (fst (put_dev d ?s e)) (snd (put_dev d ?s e)) = Some (s', e')"
    by (auto simp: handle_3d_def bind_eq_Some_conv split_def Let_def)
  from put_dev_spared [of d r e ?s] threeD_Request_shape [OF d] respond_world [OF p] assms
  show "spared r e s' e'" by (simp add: spared_def apart_def as_dev_def)
qed

lemma handle_illegal_stop_spares:
  assumes "apart r s e"
  shows "spares r e (handle_illegal_stop sdk s e)"
proof (rule sparesI)
  fix s' e' assume r: "handle_illegal_stop sdk s e = Some (s', e')"
  let ?s = "s\<lparr>se_status := 0\<rparr>"
  from r obtain d where d: "reload_Preset sdk (as_dev ?s e) = Some d" and p: "put_dev d ?s e = (s', e')"
    by (auto simp: handle_illegal_stop_def bind_eq_Some_conv Let_def)
  from put_dev_spared [of d r e ?s] reload_Preset_shape [OF d] p assms
  show "spared r e s' e'" by (simp add: apart_def as_dev_def)
qed

lemma handle_snap_spares:
  assumes "apart r s e"
  shows "spares r e (handle_snap h un n s e)"
  unfolding handle_snap_def Let_def
  by (intro yields_any_bind yields_split respond_spares)
    (use assms in \<open>auto simp: apart_def bind_eq_Some_conv split: if_splits\<close>)

lemma handle_segment_spares:
  assumes "apart r s e"
  shows "spares r e (handle_segment h un n s e)"
  unfolding handle_segment_def Let_def
proof (rule yields_any_bind, rule yields_rules(2))
  fix pic assume pic: "patch (se_curPicDataPos s) (take n (se_data s)) (se_picData s) = Some pic"
  let ?t = "s\<lparr>se_rcvdSzie := se_rcvdSzie s + word_of_nat n, se_picData := pic, se_curPicDataPos := se_curPicDataPos s + n\<rparr>"
  show "spares r e (store_result h un ?t e)"
  proof (rule sparesI)
    fix s' e' assume "store_result h un ?t e = Some (s', e')"
    then obtain res ops u where
      u: "match_device (?t\<lparr>se_res := res\<rparr>) (emit (map File ops) e) = Some u"
      and s': "se_capDev s' = se_capDev u"
      and e': "w_cams (e_world e') = w_cams (e_world e)" "w_missions (e_world e') = w_missions (e_world e)"
      by (auto simp: store_result_def bind_eq_Some_conv Let_def)
    from match_device_same [OF u] s' e' assms show "spared r e s' e'" by (simp add: spared_def apart_def)
  qed
  show "spares r e (Some (?t, e))" using assms by (intro yields_rules(1)) (simp add: spared_def apart_def)
qed

lemma handle_frame_spares:
  assumes "apart r s e"
  shows "spares r e (map_option snd (handle_frame h sdk un now n s e))"
proof (cases "ParseFrameHead (Some (se_data s)) (int n) (un_head un)")
  case None
  then show ?thesis by (simp add: handle_frame_def yields_def)
next
  case (Some x)
  obtain k head where x: "x = (k, head)" by fastforce
  have eq: "map_option snd (if b then f else map_option (Pair True) g) = (if b then map_option snd f else g)"
    for b and f :: "(bool \<times> session \<times> env) option" and g
    by (simp add: option.map_comp comp_def option.map_ident)
  have r: "cd_SpdDomeCam (se_capDev s) \<noteq> Some r" using assms by (simp add: apart_def)
  show ?thesis
    unfolding handle_frame_def Some x Option.bind.bind_lunit prod.case eq
    by (intro yields_rules(2) apart_same assms handle_heartbeat_spares handle_login_spares handle_3d_spares
        handle_illegal_stop_spares handle_snap_spares respond_spares r)
qed

text \<open>A device's tour and its stop touch its own camera alone.\<close>

definition other_cam :: "cam_ref \<Rightarrow> CSpeedDomeCam \<Rightarrow> dev_state \<Rightarrow> bool" where
  "other_cam r c d \<longleftrightarrow> cd_SpdDomeCam (ds_dev d) \<noteq> Some r \<and> ds_cams d ! r = c"

lemma other_cam_simps [simp]:
  "other_cam r c (d\<lparr>ds_log := l\<rparr>) = other_cam r c d" "other_cam r c (d\<lparr>ds_failed := n\<rparr>) = other_cam r c d"
  "other_cam r c (d\<lparr>ds_out := out\<rparr>) = other_cam r c d"
  by (simp_all add: other_cam_def)

lemma on_cam_other:
  assumes "other_cam r c d" and "cd_SpdDomeCam (g (ds_dev d)) = cd_SpdDomeCam (ds_dev d)"
  shows "yields (other_cam r c) (on_cam f (set_dev g d))"
  using assms by (auto simp: yields_def on_cam_def upd_cam_def other_cam_def split: option.splits if_splits)

lemma on_cam_other_same: "other_cam r c d \<Longrightarrow> yields (other_cam r c) (on_cam f d)"
  using on_cam_other [of r c d "\<lambda>x. x"] by simp

lemma rearm_other: "other_cam r c d \<Longrightarrow> yields (other_cam r c) (rearm n d)"
  by (auto simp: rearm_def yields_def other_cam_def split: option.splits)

lemma MissoinLoop_other:
  assumes "other_cam r c d"
  shows "yields (other_cam r c) (MissoinLoop sdk raw stk d)"
proof -
  have init: "yields (other_cam r c) (loop_init sdk d)" if "other_cam r c d" for d
    unfolding loop_init_def Let_def
    by (intro yields_any_bind yields_split yields_rules(2) yields_rules(3) [OF on_cam_other_same] on_cam_other yields_rules(1))
      (use that in simp_all)
  have turn: "yields (other_cam r c) (loop_turn sdk d)" if "other_cam r c d" for d
    unfolding loop_turn_def Let_def
    by (rule yields_any_bind, rule yields_any_bind, rule yields_split)
      (intro yields_rules rearm_other on_cam_other; use that in simp)
  have send: "yields (other_cam r c) (loop_send raw stk d)" if "other_cam r c d" for d
    unfolding loop_send_def by (intro yields_any_bind yields_split yields_rules(1)) (use that in simp)
  have advance: "yields (other_cam r c) (loop_advance sdk d)" if "other_cam r c d" for d
    unfolding loop_advance_def Let_def
    by (rule yields_rules(3) [OF on_cam_other_same], rule that)
      (intro yields_any_bind yields_rules(2) yields_split on_cam_other yields_rules(1); simp)
  have "yields (other_cam r c) (do { d \<leftarrow> loop_init sdk d; d \<leftarrow> loop_turn sdk d; d \<leftarrow> loop_send raw stk d; loop_advance sdk d })"
    by (intro yields_rules(3) [OF init] yields_rules(3) [OF turn] yields_rules(3) [OF send] advance assms)
  then show ?thesis
    unfolding MissoinLoop_def
    by (intro yields_rules(2) yields_case yields_any_bind [of "idle d"] yields_rules(1) rearm_other) (use assms in simp_all)
qed

lemma CapDev_stop_other: "other_cam r c d \<Longrightarrow> yields (other_cam r c) (CapDev_stop sdk d)"
  unfolding CapDev_stop_def Let_def
  by (intro yields_rules(1,2) yields_any_bind yields_split on_cam_other) simp_all

lemma put_dev_other:
  "other_cam r (w_cams (e_world e) ! r) d \<Longrightarrow> spared r e (fst (put_dev d s e)) (snd (put_dev d s e))"
  by (simp add: put_dev_def spared_def other_cam_def)

lemma as_dev_other: "apart r s e \<Longrightarrow> other_cam r (w_cams (e_world e) ! r) (as_dev s e)"
  by (simp add: apart_def other_cam_def as_dev_def)

lemma handle_tick_spares:
  assumes "apart r s e"
  shows "spares r e (handle_tick sdk raw stk s e)"
proof (rule sparesI)
  fix s' e' assume "handle_tick sdk raw stk s e = Some (s', e')"
  then obtain d where "MissoinLoop sdk raw stk (as_dev s e) = Some d" "put_dev d s e = (s', e')"
    by (auto simp: handle_tick_def split: if_splits)
  with put_dev_other [OF yieldsD [OF MissoinLoop_other [OF as_dev_other [OF assms]]]] show "spared r e s' e'"
    by (metis fst_conv snd_conv)
qed

lemma stop_device_spares:
  assumes "apart r s e"
  shows "spares r e (stop_device sdk s e)"
proof (rule sparesI)
  fix s' e' assume "stop_device sdk s e = Some (s', e')"
  then obtain d where "CapDev_stop sdk (as_dev s e) = Some d" "put_dev d s e = (s', e')"
    by (auto simp: stop_device_def)
  with put_dev_other [OF yieldsD [OF CapDev_stop_other [OF as_dev_other [OF assms]]]] show "spared r e s' e'"
    by (metis fst_conv snd_conv)
qed

lemma delete_spared: "spared r e t f \<Longrightarrow> spared r e (fst (delete_this (t, f))) (snd (delete_this (t, f)))"
  by (simp add: delete_this_def spared_def)

lemma handle_write_spares:
  assumes "apart r s e"
  shows "spares r e (handle_write sdk error s e)"
proof (rule sparesI)
  fix s' e' assume w: "handle_write sdk error s e = Some (s', e')"
  show "spared r e s' e'"
  proof (cases "\<exists>t f. stop_device sdk s e = Some (t, f) \<and> error \<noteq> None")
    case True
    then obtain t f where t: "stop_device sdk s e = Some (t, f)" "error \<noteq> None" by blast
    have "(s', e') = delete_this (t, f) \<or> (s', e') = (t, f)"
      using w t by (cases "se_freeThis t") (auto simp: handle_write_def split: if_splits)
    with sparesD [OF stop_device_spares [OF assms] t(1)] delete_spared [of r e t f] show ?thesis
      by (metis fst_conv snd_conv)
  next
    case False
    with w have "s' = s \<and> e' = session_start e"
      by (cases "stop_device sdk s e") (auto simp: handle_write_def split: if_splits option.splits)
    with assms show ?thesis by (simp add: spared_def apart_def session_start_def)
  qed
qed

lemma handle_read_spares:
  assumes "apart r s e"
  shows "spares r e (handle_read h sdk un now c s e)"
proof (rule sparesI)
  fix s' e' assume w: "handle_read h sdk un now c s e = Some (s', e')"
  then have alive: "se_alive s" by (auto simp: handle_read_def split: if_splits)
  show "spared r e s' e'"
  proof (cases c)
    case (Failed m)
    show ?thesis
    proof (cases "se_freeThis s")
      case True
      with w Failed alive obtain t f where t: "stop_device sdk s e = Some (t, f)" "delete_this (t, f) = (s', e')"
        by (auto simp: handle_read_def)
      from delete_spared [OF sparesD [OF stop_device_spares [OF assms] t(1)]] t(2) show ?thesis by simp
    next
      case False
      with w Failed alive assms show ?thesis by (simp add: handle_read_def spared_def apart_def)
    qed
  next
    case (Transferred bs)
    with w alive obtain data where data: "patch 0 bs (se_data s) = Some data" by (auto simp: handle_read_def bind_eq_Some_conv)
    let ?s = "s\<lparr>se_data := data, se_recv_times := se_recv_times s + 1\<rparr>"
    from Transferred w alive data obtain go t f where
      t: "(if se_recvCaprure ?s then map_option (Pair True) (handle_segment h un (length bs) ?s e)
          else handle_frame h sdk un now (length bs) ?s e) = Some (go, t, f)"
      and s': "s' = t" "e' = (if go then emit [ReadMore] f else f)"
      by (auto simp: handle_read_def bind_eq_Some_conv Let_def)
    have apart: "apart r ?s e"
      using assms length_patch [OF data] by (simp add: apart_def session_inv_def)
    have "spared r e t f"
    proof (cases "se_recvCaprure ?s")
      case True
      with t have "handle_segment h un (length bs) ?s e = Some (t, f)" by auto
      from sparesD [OF handle_segment_spares [OF apart] this] show ?thesis .
    next
      case False
      with t sparesD [OF handle_frame_spares [OF apart, of h sdk un now "length bs"], of t f] show ?thesis by simp
    qed
    with s' show ?thesis by simp
  qed
qed


section \<open>The messages of the device itself\<close>

text \<open>The device is on its tour and listed in a mission.\<close>

definition listed :: "CCaptureDevice \<Rightarrow> world \<Rightarrow> bool" where
  "listed d w \<longleftrightarrow> cd_missionNum d \<noteq> - 1 \<and> (\<exists>m. MissionMatch d w = Some m \<and> m \<noteq> - 1)"

text \<open>A handler changes nothing of the tour; at most it notes the mission again.\<close>

definition steady :: "session \<Rightarrow> env \<Rightarrow> session \<Rightarrow> env \<Rightarrow> bool" where
  "steady s e s' e' \<longleftrightarrow> (\<exists>x. x \<noteq> - 1 \<and> se_capDev s' = (se_capDev s)\<lparr>cd_missionNum := x\<rparr>) \<and> se_alive s' = se_alive s \<and>
     w_cams (e_world e') = w_cams (e_world e) \<and> w_missions (e_world e') = w_missions (e_world e)"

abbreviation keeps_tour :: "session \<Rightarrow> env \<Rightarrow> (session \<times> env) option \<Rightarrow> bool" where
  "keeps_tour s e \<equiv> yields (\<lambda>(s', e'). steady s e s' e')"

lemma steadyI:
  "listed (se_capDev s) (e_world e) \<Longrightarrow> se_capDev s' = se_capDev s \<Longrightarrow> se_alive s' = se_alive s \<Longrightarrow>
     w_cams (e_world e') = w_cams (e_world e) \<Longrightarrow> w_missions (e_world e') = w_missions (e_world e) \<Longrightarrow> steady s e s' e'"
  unfolding steady_def listed_def by (intro conjI exI [of _ "cd_missionNum (se_capDev s)"]) simp_all

lemma MissionMatch_cong: "cd_devNum d' = cd_devNum d \<Longrightarrow> MissionMatch d' w = MissionMatch d w"
proof -
  assume d: "cd_devNum d' = cd_devNum d"
  have "MissionMatch_loop xs d' = MissionMatch_loop xs d" for xs
    using d by (induction xs) (auto simp: CMission_match_def cong del: if_weak_cong)
  then show ?thesis by (simp add: MissionMatch_def)
qed

lemma match_number:
  assumes "world_inv w" and "MissionMatch d w = Some m" and "m \<noteq> - 1"
  shows "word_of_int m \<noteq> (- 1 :: u32)"
proof
  assume w: "word_of_int m = (- 1 :: u32)"
  from match_get [OF assms] obtain ms where "m = sint (ms_missionNum (ms :: CMission))" by auto
  with w assms(3) show False by simp
qed

lemma respond_keeps_tour:
  assumes "listed (se_capDev s) (e_world e)"
  shows "keeps_tour s e (respond t v s e)"
proof (rule yieldsI, clarify)
  fix s' e' assume "respond t v s e = Some (s', e')"
  with respond_world [OF this] respond_same [OF this] show "steady s e s' e'" by (intro steadyI [OF assms]) simp_all
qed

text \<open>The session whose device tours with the camera \<open>r\<close>\<close>

definition own :: "cam_ref \<Rightarrow> session \<Rightarrow> env \<Rightarrow> bool" where
  "own r s e \<longleftrightarrow> session_inv s e \<and> on_tour (se_capDev s) \<and> cd_SpdDomeCam (se_capDev s) = Some r \<and>
     listed (se_capDev s) (e_world e)"

lemma own_steady: "own r s e \<Longrightarrow> se_capDev s' = se_capDev s \<Longrightarrow> se_alive s' = se_alive s \<Longrightarrow>
     w_cams (e_world e') = w_cams (e_world e) \<Longrightarrow> w_missions (e_world e') = w_missions (e_world e) \<Longrightarrow> steady s e s' e'"
  by (rule steadyI) (simp_all add: own_def)

lemma own_same: "own r s e \<Longrightarrow> keeps_tour s e (Some (s\<lparr>se_status := x\<rparr>, e))" "own r s e \<Longrightarrow> keeps_tour s e (Some (s, e))"
  by (auto intro!: yields_rules(1) own_steady)

lemma heartbeat_keeps_tour:
  assumes "own r s e"
  shows "keeps_tour s e (handle_heartbeat now s e)"
proof -
  have "handle_heartbeat now s e = Some (s, e)"
    using assms by (auto simp: handle_heartbeat_def on_tour_def listed_def own_def)
  with own_same(2) [OF assms] show ?thesis by simp
qed

lemma put_dev_steady:
  assumes "own r s e" and "ds_cams d = w_cams (e_world e)" and "ds_dev d = se_capDev s" and "put_dev d (s\<lparr>se_status := x\<rparr>) e = (t, f)"
  shows "steady s e t f"
  using assms(2-4) by (intro own_steady [OF assms(1)]) (auto simp: put_dev_def)

lemma handle_3d_keeps_tour:
  assumes "own r s e"
  shows "keeps_tour s e (handle_3d sdk un n s e)"
proof (rule yieldsI, clarify)
  fix s' e' assume h: "handle_3d sdk un n s e = Some (s', e')"
  let ?s = "s\<lparr>se_status := 0\<rparr>"
  from h obtain tdr k d where d: "threeD_Request sdk (as_dev ?s e) tdr = Some (k, d)"
    and p: "respond RIO_RESP 1 (fst (put_dev d ?s e)) (snd (put_dev d ?s e)) = Some (s', e')"
    by (auto simp: handle_3d_def bind_eq_Some_conv split_def Let_def)
  from threeD_Request_shape [OF d] respond_world [OF p] respond_same [OF p] show "steady s e s' e'"
    by (intro own_steady [OF assms]) (simp_all add: put_dev_def as_dev_def)
qed

lemma handle_illegal_stop_keeps_tour:
  assumes "own r s e"
  shows "keeps_tour s e (handle_illegal_stop sdk s e)"
proof (rule yieldsI, clarify)
  fix s' e' assume h: "handle_illegal_stop sdk s e = Some (s', e')"
  let ?s = "s\<lparr>se_status := 0\<rparr>"
  from h obtain d where d: "reload_Preset sdk (as_dev ?s e) = Some d" and p: "put_dev d ?s e = (s', e')"
    by (auto simp: handle_illegal_stop_def bind_eq_Some_conv Let_def)
  from put_dev_steady [OF assms _ _ p] reload_Preset_shape [OF d] show "steady s e s' e'" by (simp add: as_dev_def)
qed

lemma handle_snap_keeps_tour:
  assumes "own r s e"
  shows "keeps_tour s e (handle_snap h un n s e)"
proof (rule yieldsI, clarify)
  fix s' e' assume "handle_snap h un n s e = Some (s', e')"
  then obtain t where t: "respond SNAP_RESP 0 t e = Some (s', e')" and "se_capDev t = se_capDev s" "se_alive t = se_alive s"
    by (auto simp: handle_snap_def bind_eq_Some_conv Let_def split: if_splits)
  with respond_world [OF t] respond_same [OF t] show "steady s e s' e'" by (intro own_steady [OF assms]) simp_all
qed

lemma handle_segment_keeps_tour:
  assumes "own r s e"
  shows "keeps_tour s e (handle_segment h un n s e)"
  unfolding handle_segment_def Let_def
proof (rule yields_any_bind, rule yields_rules(2))
  fix pic assume pic: "patch (se_curPicDataPos s) (take n (se_data s)) (se_picData s) = Some pic"
  let ?t = "s\<lparr>se_rcvdSzie := se_rcvdSzie s + word_of_nat n, se_picData := pic, se_curPicDataPos := se_curPicDataPos s + n\<rparr>"
  show "keeps_tour s e (store_result h un ?t e)"
  proof (rule yieldsI, clarify)
    fix s' e' assume "store_result h un ?t e = Some (s', e')"
    then obtain res ops u where
      u: "match_device (?t\<lparr>se_res := res\<rparr>) (emit (map File ops) e) = Some u"
      and s': "se_capDev s' = se_capDev u" "se_alive s' = se_alive u"
      and e': "w_cams (e_world e') = w_cams (e_world e)" "w_missions (e_world e') = w_missions (e_world e)"
      by (auto simp: store_result_def bind_eq_Some_conv Let_def)
    from u assms obtain m where m: "MissionMatch (se_capDev s) (e_world e) = Some m" "m \<noteq> - 1"
      "se_capDev u = (se_capDev s)\<lparr>cd_missionNum := word_of_int m\<rparr>"
      by (auto simp: match_device_def own_def listed_def)
    have "word_of_int m \<noteq> (- 1 :: u32)"
      by (rule match_number [OF _ m(1,2)]) (use assms in \<open>simp add: own_def session_inv_def\<close>)
    with m(3) s' e' match_device_same [OF u] show "steady s e s' e'" unfolding steady_def by auto
  qed
  show "keeps_tour s e (Some (?t, e))" using assms by (auto intro!: yields_rules(1) own_steady)
qed

text \<open>A message that is no login\<close>

definition quiet :: "byte list \<Rightarrow> bool" where
  "quiet bs \<longleftrightarrow> 4 < length bs \<and> length bs \<le> MAX_PACKET_LEN \<and> bs ! 4 \<noteq> 1"

lemma frame_type:
  assumes "4 < length bs" and "ParseFrameHead (Some (bs @ q)) (int n) head = Some (k, head')"
  shows "ph_type head' = bs ! 4"
  using frame_head [OF assms(1), of q n head] assms(2) by auto

lemma handle_frame_keeps_tour:
  assumes "own r s e" and "ParseFrameHead (Some (se_data s)) (int n) (un_head un) = Some (k, head)" and "ph_type head \<noteq> 1"
  shows "keeps_tour s e (map_option snd (handle_frame h sdk un now n s e))"
proof -
  have eq: "map_option snd (map_option (Pair True) g) = g" for g :: "(session \<times> env) option"
    by (simp add: option.map_comp comp_def option.map_ident)
  have listed: "listed (se_capDev s) (e_world e)" using assms(1) by (simp add: own_def)
  show ?thesis
    unfolding handle_frame_def assms(2) Option.bind.bind_lunit prod.case if_not_P [OF assms(3)] eq
    by (intro yields_rules(2) own_same [OF assms(1)] heartbeat_keeps_tour [OF assms(1)] handle_3d_keeps_tour [OF assms(1)]
        handle_illegal_stop_keeps_tour [OF assms(1)] handle_snap_keeps_tour [OF assms(1)] respond_keeps_tour listed)
qed

lemma handle_read_keeps_tour:
  assumes "own r s e" and "quiet bs"
  shows "keeps_tour s e (handle_read h sdk un now (Transferred bs) s e)"
proof (rule yieldsI, clarify)
  fix s' e' assume w: "handle_read h sdk un now (Transferred bs) s e = Some (s', e')"
  then have alive: "se_alive s" by (auto simp: handle_read_def split: if_splits)
  let ?data = "bs @ drop (length bs) (se_data s)"
  let ?s = "s\<lparr>se_data := ?data, se_recv_times := se_recv_times s + 1\<rparr>"
  have b: "length bs \<le> length (se_data s)" using assms by (simp add: own_def session_inv_def quiet_def)
  then have data: "patch 0 bs (se_data s) = Some ?data" by (simp add: patch_def)
  from w alive data obtain go t f where
    t: "(if se_recvCaprure ?s then map_option (Pair True) (handle_segment h un (length bs) ?s e)
        else handle_frame h sdk un now (length bs) ?s e) = Some (go, t, f)"
    and s': "s' = t" "e' = (if go then emit [ReadMore] f else f)"
    by (auto simp: handle_read_def bind_eq_Some_conv Let_def)
  have o: "own r ?s e" using assms(1) b by (simp add: own_def session_inv_def)
  have "steady ?s e t f"
  proof (cases "se_recvCaprure ?s")
    case True
    with t have "handle_segment h un (length bs) ?s e = Some (t, f)" by auto
    with yieldsD [OF handle_segment_keeps_tour [OF o] this] show ?thesis by simp
  next
    case False
    with t have fr: "handle_frame h sdk un now (length bs) ?s e = Some (go, t, f)" by simp
    then obtain k head where k: "ParseFrameHead (Some (se_data ?s)) (int (length bs)) (un_head un) = Some (k, head)"
      by (auto simp: handle_frame_def bind_eq_Some_conv)
    with frame_type [of bs] assms(2) have "ph_type head \<noteq> 1" by (auto simp: quiet_def)
    from yieldsD [OF handle_frame_keeps_tour [OF o k this, of h sdk now], of "(t, f)"] fr show ?thesis by simp
  qed
  with s' show "steady s e s' e'" by (simp add: steady_def)
qed


section \<open>A tour in the whole program\<close>

text \<open>
  Device \<open>i\<close> tours with camera \<open>r\<close>, set as \<open>c\<close> is, stands at preset \<open>k\<close> of \<open>n\<close> and talks over socket \<open>q\<close>; the
  camera is marked busy and no other device has a pointer to it.
\<close>

definition goes :: "nat \<Rightarrow> cam_ref \<Rightarrow> CSpeedDomeCam \<Rightarrow> nat \<Rightarrow> nat \<Rightarrow> nat \<Rightarrow> system \<Rightarrow> bool" where
  "goes i r c q n k y \<longleftrightarrow> system_inv y \<and> i < length (sy_sessions y) \<and>
     (let s = sy_sessions y ! i; e = sy_env y in
       se_alive s \<and> touring r n k (as_dev s e) \<and> cd_socket (se_capDev s) = Some q \<and> listed (se_capDev s) (e_world e) \<and>
       dc_m_sdcCfg (w_cams (e_world e) ! r) = dc_m_sdcCfg c \<and> dc_isUsing (w_cams (e_world e) ! r) = BUSY) \<and>
     (\<forall>j < length (sy_sessions y). j \<noteq> i \<longrightarrow> cd_SpdDomeCam (se_capDev (sy_sessions y ! j)) \<noteq> Some r)"

text \<open>
  What may happen meanwhile: everything but the requests of clients, a login of the device itself and a failure of its
  own connection. An expiry of its timer finds room for its frame.
\<close>

fun meanwhile :: "nat \<Rightarrow> CSpeedDomeCam \<Rightarrow> sys_event \<Rightarrow> bool" where
  "meanwhile i c (ReadDone j un now x) \<longleftrightarrow> (j = i \<longrightarrow> (case x of Transferred bs \<Rightarrow> quiet bs | Failed _ \<Rightarrow> False))"
| "meanwhile i c (WriteDone j error) \<longleftrightarrow> (j = i \<longrightarrow> error = None)"
| "meanwhile i c (Tick j raw stk) \<longleftrightarrow> (j = i \<longrightarrow> frames_fit raw stk c)"
| "meanwhile i c (CfgReadDone j uc now x) \<longleftrightarrow> False"
| "meanwhile i c _ \<longleftrightarrow> True"

fun own_tick :: "nat \<Rightarrow> sys_event \<Rightarrow> bool" where
  "own_tick i (Tick j raw stk) \<longleftrightarrow> j = i"
| "own_tick i _ \<longleftrightarrow> False"

lemma goes_step:
  assumes "goes i r c q n k y" and "system_inv y'" and "i < length (sy_sessions y')"
    and "x \<noteq> - 1" and "se_capDev (sy_sessions y' ! i) = (se_capDev (sy_sessions y ! i))\<lparr>cd_missionNum := x\<rparr>"
    and "se_alive (sy_sessions y' ! i) = se_alive (sy_sessions y ! i)"
    and "w_cams (e_world (sy_env y')) ! r = w_cams (e_world (sy_env y)) ! r"
    and "same_lists (e_world (sy_env y)) (e_world (sy_env y'))"
    and "\<And>j. j < length (sy_sessions y') \<Longrightarrow> j \<noteq> i \<Longrightarrow> cd_SpdDomeCam (se_capDev (sy_sessions y' ! j)) \<noteq> Some r"
  shows "goes i r c q n k y'"
proof -
  let ?s = "sy_sessions y ! i" and ?s' = "sy_sessions y' ! i"
  from assms(1) have t: "touring r n k (as_dev ?s (sy_env y))" and l: "listed (se_capDev ?s) (e_world (sy_env y))"
    by (simp_all add: goes_def Let_def)
  have "session_inv ?s' (sy_env y')" using assms(2,3) by (simp add: system_inv_def)
  with t assms(5) have "r < ncams (sy_env y')" by (simp add: session_inv_def touring_def as_dev_def)
  with t assms(5,7) have "touring r n k (as_dev ?s' (sy_env y'))" by (simp add: touring_def as_dev_def)
  moreover have "MissionMatch (se_capDev ?s') w = MissionMatch (se_capDev ?s) w" for w
    by (rule MissionMatch_cong) (simp add: assms(5))
  with l MissionMatch_same_lists [OF assms(8)] assms(4,5) have "listed (se_capDev ?s') (e_world (sy_env y'))"
    by (simp add: listed_def)
  ultimately show ?thesis using assms by (simp add: goes_def Let_def)
qed

lemma goes_own: "goes i r c q n k y \<Longrightarrow> own r (sy_sessions y ! i) (sy_env y)"
  by (auto simp: goes_def Let_def own_def system_inv_def touring_def as_dev_def on_tour_def)

lemma goes_apart: "goes i r c q n k y \<Longrightarrow> j < length (sy_sessions y) \<Longrightarrow> j \<noteq> i \<Longrightarrow> apart r (sy_sessions y ! j) (sy_env y)"
  by (auto simp: goes_def Let_def apart_def system_inv_def touring_def as_dev_def)

lemma goes_same:
  assumes "goes i r c q n k y" and "system_inv y'" and "sy_sessions y' = sy_sessions y"
    and "w_cams (e_world (sy_env y')) ! r = w_cams (e_world (sy_env y)) ! r"
    and "same_lists (e_world (sy_env y)) (e_world (sy_env y'))"
  shows "goes i r c q n k y'"
proof -
  let ?x = "cd_missionNum (se_capDev (sy_sessions y ! i))"
  have "?x \<noteq> - 1" using assms(1) by (simp add: goes_def Let_def listed_def)
  from goes_step [OF assms(1,2) _ this] assms(1,3-5) show ?thesis by (simp add: goes_def)
qed

lemma goes_on_session:
  assumes "goes i r c q n k y" and "system_inv y'" and "on_session j f y = Some y'"
    and "j = i \<Longrightarrow> keeps_tour (sy_sessions y ! i) (sy_env y) (f (sy_sessions y ! i) (sy_env y))"
    and "j \<noteq> i \<Longrightarrow> apart r (sy_sessions y ! j) (sy_env y) \<Longrightarrow> spares r (sy_env y) (f (sy_sessions y ! j) (sy_env y))"
  shows "goes i r c q n k y'"
proof (cases "j < length (sy_sessions y)")
  case False
  with assms(1,3) show ?thesis by (simp add: on_session_def)
next
  case True
  let ?ss = "sy_sessions y"
  from assms(3) True obtain s e where f: "f (?ss ! j) (sy_env y) = Some (s, e)"
    and y': "y' = y\<lparr>sy_sessions := ?ss[j := s], sy_env := e\<rparr>" by (auto simp: on_session_def)
  have i: "i < length ?ss" "\<And>l. l < length ?ss \<Longrightarrow> l \<noteq> i \<Longrightarrow> cd_SpdDomeCam (se_capDev (?ss ! l)) \<noteq> Some r"
    using assms(1) by (simp_all add: goes_def)
  show ?thesis
  proof (cases "j = i")
    case True
    from yieldsD [OF assms(4) [OF True]] f True have st: "steady (?ss ! i) (sy_env y) s e" by simp
    then obtain x where x: "x \<noteq> - 1" "se_capDev s = (se_capDev (?ss ! i))\<lparr>cd_missionNum := x\<rparr>" by (auto simp: steady_def)
    from goes_step [OF assms(1,2) _ x(1)] x(2) st i True show ?thesis by (simp add: y' steady_def)
  next
    case False
    let ?x = "cd_missionNum (se_capDev (?ss ! i))"
    have x: "?x \<noteq> - 1" using assms(1) by (simp add: goes_def Let_def listed_def)
    from yieldsD [OF assms(5) [OF False goes_apart [OF assms(1) \<open>j < length ?ss\<close> False]]] f
    have sp: "spared r (sy_env y) s e" by simp
    have "cd_SpdDomeCam (se_capDev (?ss[j := s] ! l)) \<noteq> Some r" if "l < length ?ss" "l \<noteq> i" for l
      using that i(2) sp by (cases "l = j") (simp_all add: spared_def)
    then show ?thesis
      using goes_step [OF assms(1,2) _ x] sp i(1) False by (simp add: y' spared_def)
  qed
qed


lemma handle_write_keeps_tour: "own r s e \<Longrightarrow> se_alive s \<Longrightarrow> keeps_tour s e (handle_write sdk None s e)"
  by (auto simp: handle_write_def session_start_def intro!: yields_rules(1) own_steady)

lemma meanwhile_step:
  assumes "goes i r c q n k y" and "wf_event ev" and "meanwhile i c ev" and "\<not> own_tick i ev"
    and "system_step p ev y = Some y'"
  shows "goes i r c q n k y'"
proof -
  have inv: "system_inv y" using assms(1) by (simp add: goes_def)
  have inv': "system_inv y'" by (rule system_step_inv [OF inv assms(2,5)])
  note here = goes_on_session [OF assms(1) inv'] and same = goes_same [OF assms(1) inv']
  show ?thesis
  proof (cases ev)
    case (Accept error raw)
    show ?thesis
    proof (cases "sr_pending (sy_server y) = None \<or> error \<noteq> None")
      case True
      with assms(5) Accept have "sy_sessions y' = sy_sessions y" "sy_env y' = sy_env y"
        by (auto simp: accept_session_def bind_eq_Some_conv Let_def split: if_splits option.splits)
      with same show ?thesis by simp
    next
      case False
      with assms(5) Accept have y': "sy_sessions y' = sy_sessions y @ [CCaptureDevSession raw]" "e_world (sy_env y') = e_world (sy_env y)"
        by (auto simp: accept_session_def bind_eq_Some_conv Let_def session_start_def split: if_splits option.splits)
      let ?x = "cd_missionNum (se_capDev (sy_sessions y ! i))"
      have i: "i < length (sy_sessions y)" "?x \<noteq> - 1"
        "\<And>l. l < length (sy_sessions y) \<Longrightarrow> l \<noteq> i \<Longrightarrow> cd_SpdDomeCam (se_capDev (sy_sessions y ! l)) \<noteq> Some r"
        using assms(1) by (simp_all add: goes_def Let_def listed_def)
      have "cd_SpdDomeCam (se_capDev (CCaptureDevSession raw)) = None"
        by (simp add: CCaptureDevSession_def CCaptureDevice_new_def)
      then have "cd_SpdDomeCam (se_capDev (sy_sessions y' ! l)) \<noteq> Some r" if "l < length (sy_sessions y')" "l \<noteq> i" for l
        using that i(3) y'(1) by (cases "l < length (sy_sessions y)") (auto simp: nth_append)
      then show ?thesis using goes_step [OF assms(1) inv' _ i(2)] i(1) y' by (simp add: nth_append)
    qed
  next
    case (AcceptCfg error raw)
    with assms(5) have "sy_sessions y' = sy_sessions y" "e_world (sy_env y') = e_world (sy_env y)"
      by (auto simp: accept_cfg_session_def bind_eq_Some_conv Let_def cfg_start_def split: if_splits option.splits)
    with same show ?thesis by simp
  next
    case (ReadDone j un now x)
    with assms(5) have "on_session j (handle_read (pl_host p) (pl_sdk p) un now x) y = Some y'" by simp
    then show ?thesis
    proof (rule here)
      assume "j = i"
      with assms(3) ReadDone obtain bs where "x = Transferred bs" "quiet bs" by (cases x) auto
      with handle_read_keeps_tour [OF goes_own [OF assms(1)]]
      show "keeps_tour (sy_sessions y ! i) (sy_env y)
        (handle_read (pl_host p) (pl_sdk p) un now x (sy_sessions y ! i) (sy_env y))" by simp
    qed (rule handle_read_spares)
  next
    case (WriteDone j error)
    with assms(5) have "on_session j (handle_write (pl_sdk p) error) y = Some y'" by simp
    then show ?thesis
    proof (rule here)
      assume "j = i"
      with assms(3) WriteDone have "error = None" by simp
      with handle_write_keeps_tour [OF goes_own [OF assms(1)]] assms(1)
      show "keeps_tour (sy_sessions y ! i) (sy_env y) (handle_write (pl_sdk p) error (sy_sessions y ! i) (sy_env y))"
        by (simp add: goes_def Let_def)
    qed (rule handle_write_spares)
  next
    case (Tick j raw stk)
    with assms(5) have "on_session j (handle_tick (pl_sdk p) raw stk) y = Some y'" by simp
    with assms(4) Tick show ?thesis by (intro here) (auto intro: handle_tick_spares)
  next
    case (CfgReadDone j uc now x)
    with assms(3) show ?thesis by simp
  next
    case (CfgWriteDone j error)
    with assms(5) have "sy_sessions y' = sy_sessions y" "e_world (sy_env y') = e_world (sy_env y)"
      by (auto simp: on_cfg_session_def cfg_handle_write_def cfg_start_def split: if_splits option.splits prod.splits)
    with same show ?thesis by simp
  next
    case (CfgTick j now)
    show ?thesis
    proof (cases "j < length (sy_cfg_sessions y) \<and> timer_enabled now (sy_cfg_sessions y ! j)")
      case True
      with CfgTick assms(5) obtain s e where t: "timer_handler (pl_rfile p) (sy_cfg_sessions y ! j, sy_env y) = Some (s, e)"
        and y': "sy_sessions y' = sy_sessions y" "sy_env y' = e" by (auto simp: on_cfg_session_def)
      have "cfg_inv (sy_cfg_sessions y ! j)" using inv True by (simp add: system_inv_def)
      with timer_handler_inv [OF t] have l: "like_world (e_world (sy_env y)) (e_world e)" by simp
      with like_world_same_lists [OF l] y' same show ?thesis by (simp add: like_world_def)
    next
      case False
      with CfgTick assms(5) have "y' = y" by (auto simp: on_cfg_session_def split: if_splits)
      with assms(1) show ?thesis by simp
    qed
  qed
qed


lemma frames_fit_cfg: "dc_m_sdcCfg c' = dc_m_sdcCfg c \<Longrightarrow> frames_fit raw stk c' = frames_fit raw stk c"
  using snap_schedule_cfg [of c' c] by (simp add: frames_fit_def)

lemma schedule_frame_cfg: "dc_m_sdcCfg c' = dc_m_sdcCfg c \<Longrightarrow> schedule_frame raw stk c' = schedule_frame raw stk c"
  using snap_schedule_cfg [of c' c] by (simp add: schedule_frame_def fun_eq_iff)

text \<open>An expiry of the device's timer\<close>

lemma own_tick_step:
  assumes "goes i r c q n k y" and "turns_ok (pl_sdk p) (dc_m_sdcCfg c)" and "frames_fit raw stk c"
  shows "\<exists>y' t out. system_step p (Tick i raw stk) y = Some y' \<and>
    e_out (sy_env y') = e_out (sy_env y) @
      Device (TimerArmed t) # Device (AsyncWrite q (schedule_frame raw stk c k)) # out \<and>
    (if Suc k < n then goes i r c q n (Suc k) y'
     else cd_missionStatus (se_capDev (sy_sessions y' ! i)) = MISSION_COMPLETED \<and>
       dc_isUsing (w_cams (e_world (sy_env y')) ! r) = FREE \<and> dc_curPTZposion (w_cams (e_world (sy_env y')) ! r) = 0)"
proof -
  let ?s = "sy_sessions y ! i" and ?e = "sy_env y"
  let ?d = "as_dev ?s ?e"
  have inv: "system_inv y" and i: "i < length (sy_sessions y)" and alive: "se_alive ?s" and t: "touring r n k ?d"
    and q: "cd_socket (ds_dev ?d) = Some q" and cfg: "dc_m_sdcCfg (ds_cams ?d ! r) = dc_m_sdcCfg c"
    and busy: "dc_isUsing (w_cams (e_world ?e) ! r) = BUSY"
    and others: "\<And>j. j < length (sy_sessions y) \<Longrightarrow> j \<noteq> i \<Longrightarrow> cd_SpdDomeCam (se_capDev (sy_sessions y ! j)) \<noteq> Some r"
    using assms(1) by (simp_all add: goes_def Let_def as_dev_def)
  have ok: "turns_ok (pl_sdk p) (cam_cfg r ?d)" "frames_fit raw stk (ds_cams ?d ! r)"
    using assms(2,3) cfg frames_fit_cfg [OF cfg] by (simp_all add: cam_cfg_def)
  from MissoinLoop_touring [OF t ok q] obtain d x out where
    m: "MissoinLoop (pl_sdk p) raw stk ?d = Some d" "cam_cfg r d = cam_cfg r ?d" "cd_socket (ds_dev d) = Some q"
      "ds_out d = ds_out ?d @ [TimerArmed x, AsyncWrite q (schedule_frame raw stk (ds_cams ?d ! r) k)] @ out"
      "if Suc k < n then touring r n (Suc k) d \<and> out = []
       else cd_missionStatus (ds_dev d) = MISSION_COMPLETED \<and> cd_run (ds_dev d) = 1 \<and> cd_timer (ds_dev d) \<noteq> None \<and>
         dc_isUsing (ds_cams d ! r) = FREE \<and> dc_curPTZposion (ds_cams d ! r) = 0 \<and> (\<exists>t. out = [Slept t])" by blast
  let ?y = "y\<lparr>sy_sessions := (sy_sessions y)[i := fst (put_dev d ?s ?e)], sy_env := snd (put_dev d ?s ?e)\<rparr>"
  have step: "system_step p (Tick i raw stk) y = Some ?y"
    using i alive m(1) by (simp add: on_session_def handle_tick_def split_def)
  have outs: "e_out (sy_env ?y) = e_out ?e @ Device (TimerArmed x) #
      Device (AsyncWrite q (schedule_frame raw stk c k)) # map Device out"
    using m(4) schedule_frame_cfg [OF cfg] by (simp add: put_dev_def as_dev_def)
  show ?thesis
  proof (cases "Suc k < n")
    case True
    with m(5) have t': "touring r n (Suc k) d" by simp
    have inv': "system_inv ?y" by (rule system_step_inv [OF inv _ step]) simp
    from MissoinLoop_shape [OF m(1)] have dev: "cd_devNum (ds_dev d) = cd_devNum (se_capDev ?s)"
      "cd_missionNum (ds_dev d) = cd_missionNum (se_capDev ?s)" by (simp_all add: as_dev_def)
    have l: "listed (se_capDev ?s) (e_world ?e)" using assms(1) by (simp add: goes_def Let_def)
    have "MissionMatch (ds_dev d) w = MissionMatch (se_capDev ?s) w" for w by (rule MissionMatch_cong [OF dev(1)])
    then have l': "listed (ds_dev d) (e_world (sy_env ?y))"
      using l dev(2) MissionMatch_same_lists [of "e_world ?e" "e_world (sy_env ?y)"] by (simp add: listed_def put_dev_def)
    have busy': "dc_isUsing (ds_cams d ! r) = BUSY"
    proof -
      from MissoinLoop_effect [OF m(1) alive] obtain z where
        z: "z \<in> rounds_end" "did z ?s ?e (fst (put_dev d ?s ?e)) (snd (put_dev d ?s ?e))" by blast
      have "tours_with (ds_dev d) = Some r" using t' by (simp add: touring_def tours_with_def on_tour_def)
      with z put_dev_holds [OF alive, of d ?e] have "map dc_isUsing (ds_cams d) = usage ?e" by auto
      then have "map dc_isUsing (ds_cams d) ! r = usage ?e ! r" by simp
      moreover have "r < length (ds_cams d)" "r < ncams ?e" using t t' by (simp_all add: touring_def as_dev_def)
      ultimately show ?thesis using busy by (simp add: usage_def)
    qed
    have "goes i r c q n (Suc k) ?y"
      using inv' i alive t' m(2,3) l' busy' cfg others
      by (simp add: goes_def Let_def) (simp add: put_dev_def as_dev_def touring_def cam_cfg_def)
    with step outs True show ?thesis by (intro exI [of _ ?y] exI [of _ x] exI [of _ "map Device out"]) simp
  next
    case False
    with m(5) step outs i show ?thesis by (intro exI [of _ ?y] exI [of _ x] exI [of _ "map Device out"])
      (simp add: put_dev_def)
  qed
qed


lemma goes_run:
  assumes "goes i r c q n k y" and "turns_ok (pl_sdk p) (dc_m_sdcCfg c)"
    and "\<forall>ev \<in> set evs. wf_event ev \<and> meanwhile i c ev" and "k + length (filter (own_tick i) evs) < n"
    and "system_run p evs y = Some z"
  shows "goes i r c q n (k + length (filter (own_tick i) evs)) z"
  using assms
proof (induction evs arbitrary: k y)
  case (Cons ev evs)
  from Cons.prems(5) obtain u where u: "system_step p ev y = Some u" "system_run p evs u = Some z"
    by (auto simp: bind_eq_Some_conv)
  have ev: "wf_event ev" "meanwhile i c ev" and evs: "\<forall>ev \<in> set evs. wf_event ev \<and> meanwhile i c ev"
    using Cons.prems(3) by simp_all
  show ?case
  proof (cases "own_tick i ev")
    case True
    then obtain raw stk where tick: "ev = Tick i raw stk" by (cases ev) auto
    with ev have "frames_fit raw stk c" by simp
    from own_tick_step [OF Cons.prems(1,2) this] u(1) tick True Cons.prems(4) have "goes i r c q n (Suc k) u"
      by (auto split: if_splits)
    from Cons.IH [OF this Cons.prems(2) evs _ u(2)] Cons.prems(4) True show ?thesis by simp
  next
    case False
    from meanwhile_step [OF Cons.prems(1) ev False u(1)] have "goes i r c q n k u" .
    from Cons.IH [OF this Cons.prems(2) evs _ u(2)] Cons.prems(4) False show ?thesis by simp
  qed
qed simp


definition tour_session :: "byte \<Rightarrow> session" where
  "tour_session m = session1\<lparr>se_capDev := ds_dev (dev_cam m)\<rparr>"

definition tour_system :: "byte \<Rightarrow> system" where
  "tour_system m = system_of [tour_session m, session1] (env1\<lparr>e_world := (e_world env1)\<lparr>w_cams := ds_cams (dev_cam m)\<rparr>\<rparr>)"

lemma tour_system_goes:
  assumes "0 < m"
  shows "goes 0 0 (ds_cams (dev_cam m) ! 0) 5 (unat m) 0 (tour_system m)"
proof -
  have t: "touring 0 (unat m) 0 (dev_cam m)" using touring_dev_cam [OF assms] .
  have "world_inv ((e_world env1)\<lparr>w_cams := ds_cams (dev_cam m)\<rparr>)"
    by (rule world_inv_cams [OF world_inv_env1]) (simp add: dev_cam_def env1_def)
  moreover have "MissionMatch (ds_dev (dev_cam m)) ((e_world env1)\<lparr>w_cams := ds_cams (dev_cam m)\<rparr>) = Some 3"
    using match_sample [of "ds_dev (dev_cam m)"] by (simp add: MissionMatch_def dev_cam_def dev0_def)
  ultimately show ?thesis
    using session1_inv t
    by (simp add: goes_def system_inv_def tour_system_def system_of_def session_inv_def tour_session_def Let_def
        touring_def as_dev_def listed_def)
      (auto simp: dev_cam_def dev0_def)
qed


end
