(* ===== verification/Journey.thy ===== *)
theory Journey
  imports Tours
begin

text \<open>
  The way of a device through the whole program: from its login over the presets of the camera it is given to the
  end of the tour.
\<close>

text \<open>
  The message \<open>bs\<close> on connection \<open>i\<close> is a good login of a device that is listed in a mission, and \<open>r\<close> is the
  next free camera of that mission.
\<close>

definition logs_in :: "platform \<Rightarrow> uninit \<Rightarrow> byte list \<Rightarrow> nat \<Rightarrow> cam_ref \<Rightarrow> system \<Rightarrow> bool" where
  "logs_in p un bs i r y \<longleftrightarrow> i < length (sy_sessions y) \<and>
     (let s = sy_sessions y ! i; w = e_world (sy_env y) in
       se_alive s \<and> \<not> se_recvCaprure s \<and> cd_run (se_capDev s) = 1 \<and>
       (\<exists>d m ms j. good_login (pl_host p) un s bs d \<and> MissionMatch d w = Some m \<and> m \<noteq> - 1 \<and>
          MissionGet m w = Some ms \<and> free_slot (w_cams w, ms) = Some j \<and> r = cam_refs ms ! j))"

text \<open>No other device has a pointer to the camera, which would be one left over from a former tour.\<close>

definition unclaimed :: "nat \<Rightarrow> cam_ref \<Rightarrow> system \<Rightarrow> bool" where
  "unclaimed i r y \<longleftrightarrow> (\<forall>j < length (sy_sessions y). j \<noteq> i \<longrightarrow> cd_SpdDomeCam (se_capDev (sy_sessions y ! j)) \<noteq> Some r)"

lemma good_login_device:
  assumes "good_login h un s bs d"
  shows "cd_socket d = Some (se_socket s) \<and> cd_run d = cd_run (se_capDev s)"
  using assms by (auto simp: good_login_def CapDev_init_def bind_eq_Some_conv split: if_splits)

lemma login_goes:
  assumes "system_inv y" and "logs_in p un bs i r y" and "unclaimed i r y" and "c = w_cams (e_world (sy_env y)) ! r"
    and "unat (sc_presetTotal (dc_m_sdcCfg c)) = n" and "unat (dc_curPTZposion c) = k" and "k < n"
  shows "\<exists>y'. system_step p (ReadDone i un now (Transferred bs)) y = Some y' \<and>
    goes i r c (se_socket (sy_sessions y ! i)) n k y'"
proof -
  let ?s = "sy_sessions y ! i" and ?e = "sy_env y"
  let ?w = "e_world ?e"
  from assms(2) obtain d m ms j where i: "i < length (sy_sessions y)" and s: "se_alive ?s" "\<not> se_recvCaprure ?s" "cd_run (se_capDev ?s) = 1"
    and d: "good_login (pl_host p) un ?s bs d" and m: "MissionMatch d ?w = Some m" "m \<noteq> - 1"
    and ms: "MissionGet m ?w = Some ms" "free_slot (w_cams ?w, ms) = Some j" and r: "r = cam_refs ms ! j"
    by (auto simp: logs_in_def Let_def)
  have inv: "session_inv ?s ?e" using assms(1) i by (simp add: system_inv_def)
  from read_login_state [OF inv s(1,2) d m ms, of "pl_sdk p" now] r obtain s' e' where
    read: "handle_read (pl_host p) (pl_sdk p) un now (Transferred bs) ?s ?e = Some (s', emit [ReadMore] e')"
    and login: "handle_login (pl_host p) un now (length bs) (arrived bs ?s) ?e = Some (True, s', e')"
    and dev: "se_capDev s' = d\<lparr>cd_missionNum := word_of_int m, cd_SpdDomeCam := Some r,
      cd_missionStatus := MISSION_READY, cd_timer := Some (now + 3), cd_isOnline := 1\<rparr>" and alive: "se_alive s'"
    and cams: "w_cams (e_world e') = (w_cams ?w)[r := c\<lparr>dc_isUsing := BUSY\<rparr>]"
    using assms(4) by auto
  let ?y = "y\<lparr>sy_sessions := (sy_sessions y)[i := s'], sy_env := emit [ReadMore] e'\<rparr>"
  have step: "system_step p (ReadDone i un now (Transferred bs)) y = Some ?y"
    using i read by (simp add: on_session_def)
  have inv': "system_inv ?y" by (rule system_step_inv [OF assms(1) _ step]) simp
  have "session_inv s' (emit [ReadMore] e')" using inv' i by (simp add: system_inv_def set_update_memI)
  then have r': "r < length (w_cams ?w)" using dev cams by (simp add: session_inv_def)
  have "session_inv (arrived bs ?s) ?e" using inv d by (simp add: session_inv_def good_login_def)
  from login_lists [OF login this] have "same_lists ?w (e_world e')" .
  from MissionMatch_same_lists [OF this] have match: "MissionMatch (se_capDev s') (e_world e') = Some m"
    using m(1) MissionMatch_cong [of "se_capDev s'" d] by (simp add: dev)
  have world: "world_inv ?w" using assms(1) by (simp add: system_inv_def)
  have "listed (se_capDev s') (e_world e')"
    unfolding listed_def using match match_number [OF world m] m(2) by (simp add: dev)
  moreover have "touring r n k (as_dev s' (emit [ReadMore] e'))"
    using good_login_device [OF d] s(3) r' assms(5-7) by (simp add: touring_def as_dev_def dev cams)
  ultimately have "goes i r c (se_socket ?s) n k ?y"
    using inv' i alive good_login_device [OF d] r' cams assms(3)
    by (simp add: goes_def Let_def dev unclaimed_def)
  with step show ?thesis by blast
qed


definition ready_cam :: CSpeedDomeCam where
  "ready_cam = (ds_cams (dev_cam 2) ! 0)\<lparr>dc_isUsing := FREE\<rparr>"

definition login_system :: system where
  "login_system = system_of [session1, session1] (env1\<lparr>e_world := (e_world env1)\<lparr>w_cams := [ready_cam]\<rparr>\<rparr>)"

lemma ready_cam_simps:
  "dc_isUsing ready_cam = FREE" "unat (sc_presetTotal (dc_m_sdcCfg ready_cam)) = 2" "unat (dc_curPTZposion ready_cam) = 0"
  "frames_fit vfs0 (replicate 4096 0) ready_cam"
proof -
  show "frames_fit vfs0 (replicate 4096 0) ready_cam"
    using fit_dev_cam [of 2] frames_fit_cfg [of ready_cam "ds_cams (dev_cam 2) ! 0"] by (simp add: ready_cam_def)
qed (simp_all add: ready_cam_def dev_cam_def cam0_def)

lemma login_system_ok:
  "system_inv login_system" "logs_in platform0 uninit0 (login_frame [52, 50]) 0 0 login_system"
  "unclaimed 0 0 login_system"
proof -
  let ?w = "(e_world env1)\<lparr>w_cams := [ready_cam]\<rparr>"
  have "world_inv ?w" by (rule world_inv_cams [OF world_inv_env1]) (simp add: env1_def)
  then show "system_inv login_system"
    using session1_inv by (simp add: system_inv_def login_system_def system_of_def session_inv_def)
  obtain d where d: "good_login host0 uninit0 session1 (login_frame [52, 50]) d" "cd_devNum d = ''42''"
    using good_login0 by blast
  have m: "MissionMatch d ?w = Some 3" using match_sample [OF d(2)] by (simp add: MissionMatch_def)
  have g: "MissionGet 3 ?w = Some mission1" using get_sample by (simp add: MissionGet_def)
  have "cam_list ([ready_cam], mission1) = [ready_cam]" by (simp add: cam_list_def)
  then have f: "free_slot (w_cams ?w, mission1) = Some 0" by (simp add: free_slot_def Let_def ready_cam_simps)
  show "logs_in platform0 uninit0 (login_frame [52, 50]) 0 0 login_system"
    unfolding logs_in_def Let_def
    by (intro conjI exI [of _ d] exI [of _ 3] exI [of _ mission1] exI [of _ 0])
      (use d m g f in \<open>simp_all add: login_system_def platform0_def dev0_def\<close>)
  show "unclaimed 0 0 login_system" by (simp add: unclaimed_def login_system_def dev0_def less_Suc_eq)
qed


end
