(* ===== verification/Rounds.thy ===== *)
theory Rounds
  imports Journey
begin

text \<open>
  The life of a device after its tour: the last expiry of the timer leaves it without work and its camera free, and the
  next heartbeat sends it on a tour again, with the next free camera of its mission. So the tours of a device follow each
  other for as long as its connection lasts.
\<close>

text \<open>A heartbeat of a device without work takes the next free camera.\<close>

lemma heartbeat_next_camera:
  assumes "session_inv s e"
    and "cd_missionStatus (se_capDev s) \<in> {MISSION_COMPLETED, MISSION_FAILD}"
    and "MissionMatch (se_capDev s) (e_world e) = Some m" and "m \<noteq> - 1"
    and "MissionGet m (e_world e) = Some ms" and "free_slot (w_cams (e_world e), ms) = Some j"
    and "r = cam_refs ms ! j"
  shows "\<exists>e'. handle_heartbeat now s e = Some (s\<lparr>se_capDev := (se_capDev s)\<lparr>cd_missionNum := word_of_int m,
      cd_SpdDomeCam := Some r, cd_missionStatus := MISSION_READY\<rparr>\<rparr>, e') \<and>
    w_cams (e_world e') = (w_cams (e_world e))[r := (w_cams (e_world e) ! r)\<lparr>dc_isUsing := BUSY\<rparr>] \<and>
    e_out e' = e_out e \<and> same_lists (e_world e) (e_world e')"
proof -
  let ?cams = "w_cams (e_world e)"
  let ?cams' = "?cams[r := (?cams ! r)\<lparr>dc_isUsing := BUSY\<rparr>]" and ?ms = "ms\<lparr>ms_curSpdDomeCam := word_of_nat j\<rparr>"
  have w: "world_inv (e_world e)" using assms(1) by (simp add: session_inv_def)
  from match_get [OF w assms(3,4)] assms(5) obtain i where
    f: "find_CapDev ms (cd_devNum (se_capDev s)) = Some (Some i)" and m: "m = sint (ms_missionNum ms)" by auto
  from MissionGet_inv [OF w assms(5)] have wfm: "wf_mission ?cams ms" by simp
  then have wf: "wf_cams (?cams, ms)" by (simp add: wf_mission_def)
  have "j < length (cam_refs ms)" using free_slot_Some [OF wf assms(6)] by simp
  then have "r \<in> set (cam_refs ms)" by (simp add: assms(7))
  then have r: "r < length ?cams" using wf by (auto simp: wf_cams_def cam_refs_def)
  let ?d = "(se_capDev s)\<lparr>cd_missionNum := word_of_int m, cd_SpdDomeCam := Some r, cd_missionStatus := MISSION_READY\<rparr>"
  have g: "getFreeSDC ?cams ms = Some (int j, Some (Some r), ?cams', ?ms)"
    using assms(6,7) by (simp add: getFreeSDC_eq [OF wf] Let_def)
  have "find_CapDev ?ms (cd_devNum ?d) = Some (Some i)" using f by (simp add: find_CapDev_def CapDev_at_def cong: if_cong)
  then obtain q ms' where u: "updateCapdev ?cams' ?ms ?d = Some (q, ms')"
    using updateCapdev_total [of ?ms ?d "Some i" ?cams'] r by auto
  have neq: "word_of_int m \<noteq> (- 1 :: u32)"
  proof
    assume "word_of_int m = (- 1 :: u32)"
    then have "ms_missionNum ms = - 1" by (simp add: m)
    with m assms(4) show False by simp
  qed
  have key: "sint (word_of_int m :: u32) = m" using m by simp
  let ?e = "put_mission m ms' ?cams' e"
  have "next_mission s e = Some (True, s\<lparr>se_capDev := ?d\<rparr>, ?e)"
    using assms(3,5) g u neq key r by (simp add: next_mission_def match_device_def Let_def deref_def)
  then have h: "handle_heartbeat now s e = Some (s\<lparr>se_capDev := ?d\<rparr>, ?e)"
    using assms(2) neq by (auto simp: handle_heartbeat_def)
  have "wf_devs ?ms" using wfm by (simp add: wf_mission_def wf_devs_def)
  from like_numbers_trans [OF getFreeSDC_numbers [OF g] updateCapdev_numbers [OF u this]]
  have "same_lists (e_world e) (e_world ?e)" by (rule put_mission_same_lists [OF w assms(5)])
  with h show ?thesis by (auto simp: put_mission_def)
qed


text \<open>
  The system after the last preset of the camera \<open>r\<close>: the device is without work, and nothing but its session and
  its camera has changed.
\<close>

definition tour_over :: "nat \<Rightarrow> cam_ref \<Rightarrow> nat \<Rightarrow> system \<Rightarrow> system \<Rightarrow> bool" where
  "tour_over i r q y z \<longleftrightarrow> system_inv z \<and> length (sy_sessions z) = length (sy_sessions y) \<and>
     (\<forall>j. j \<noteq> i \<longrightarrow> sy_sessions z ! j = sy_sessions y ! j) \<and>
     (let s = sy_sessions y ! i; s' = sy_sessions z ! i; w = e_world (sy_env y); w' = e_world (sy_env z) in
       se_alive s' \<and> se_recvCaprure s' = se_recvCaprure s \<and> cd_devNum (se_capDev s') = cd_devNum (se_capDev s) \<and>
       cd_missionStatus (se_capDev s') = MISSION_COMPLETED \<and> cd_run (se_capDev s') = 1 \<and>
       cd_timer (se_capDev s') \<noteq> None \<and> cd_socket (se_capDev s') = Some q \<and> w_missions w' = w_missions w \<and>
       (\<exists>x. w_cams w' = (w_cams w)[r := x] \<and> dc_isUsing x = FREE \<and> dc_curPTZposion x = 0 \<and>
          dc_m_sdcCfg x = dc_m_sdcCfg (w_cams w ! r)))"

lemma MissoinLoop_own_cam:
  assumes "MissoinLoop sdk raw stk d = Some d'" and "cd_SpdDomeCam (ds_dev d) = Some r"
  shows "ds_cams d' = (ds_cams d)[r := ds_cams d' ! r]"
proof (rule nth_equalityI)
  show "length (ds_cams d') = length ((ds_cams d)[r := ds_cams d' ! r])" using MissoinLoop_shape [OF assms(1)] by simp
next
  fix x assume x: "x < length (ds_cams d')"
  then have "x < length (ds_cams d)" using MissoinLoop_shape [OF assms(1)] by simp
  moreover have "other_cam x (ds_cams d ! x) d" if "x \<noteq> r" using that assms(2) by (simp add: other_cam_def)
  then have "ds_cams d' ! x = ds_cams d ! x" if "x \<noteq> r"
    using MissoinLoop_other [of x "ds_cams d ! x" d sdk raw stk] assms(1) that by (simp add: yields_def other_cam_def)
  ultimately show "ds_cams d' ! x = (ds_cams d)[r := ds_cams d' ! r] ! x" by (cases "x = r") simp_all
qed

lemma last_tick:
  assumes "goes i r c q n k y" and "Suc k = n" and "turns_ok (pl_sdk p) (dc_m_sdcCfg c)" and "frames_fit raw stk c"
  shows "\<exists>z. system_step p (Tick i raw stk) y = Some z \<and> tour_over i r q y z"
proof -
  let ?s = "sy_sessions y ! i" and ?e = "sy_env y"
  let ?d = "as_dev ?s ?e"
  have inv: "system_inv y" and i: "i < length (sy_sessions y)" and alive: "se_alive ?s" and t: "touring r n k ?d"
    and q: "cd_socket (ds_dev ?d) = Some q" and cfg: "dc_m_sdcCfg (ds_cams ?d ! r) = dc_m_sdcCfg c"
    using assms(1) by (simp_all add: goes_def Let_def as_dev_def)
  have ok: "turns_ok (pl_sdk p) (cam_cfg r ?d)" "frames_fit raw stk (ds_cams ?d ! r)"
    using assms(3,4) cfg frames_fit_cfg [OF cfg] by (simp_all add: cam_cfg_def)
  from MissoinLoop_touring [OF t ok q] assms(2) obtain d where
    m: "MissoinLoop (pl_sdk p) raw stk ?d = Some d" "cam_cfg r d = cam_cfg r ?d" "cd_socket (ds_dev d) = Some q"
      "cd_missionStatus (ds_dev d) = MISSION_COMPLETED" "cd_run (ds_dev d) = 1" "cd_timer (ds_dev d) \<noteq> None"
      "dc_isUsing (ds_cams d ! r) = FREE" "dc_curPTZposion (ds_cams d ! r) = 0" by auto
  let ?z = "y\<lparr>sy_sessions := (sy_sessions y)[i := fst (put_dev d ?s ?e)], sy_env := snd (put_dev d ?s ?e)\<rparr>"
  have step: "system_step p (Tick i raw stk) y = Some ?z"
    using i alive m(1) by (simp add: on_session_def handle_tick_def split_def)
  have inv': "system_inv ?z" by (rule system_step_inv [OF inv _ step]) simp
  have "cd_SpdDomeCam (ds_dev ?d) = Some r" using t by (simp add: touring_def)
  from MissoinLoop_own_cam [OF m(1) this] have cams: "ds_cams d = (w_cams (e_world ?e))[r := ds_cams d ! r]"
    by (simp add: as_dev_def)
  have num: "cd_devNum (ds_dev d) = cd_devNum (se_capDev ?s)" using MissoinLoop_shape [OF m(1)] by (simp add: as_dev_def)
  have "tour_over i r q y ?z"
    unfolding tour_over_def Let_def
  proof (intro conjI exI [of _ "ds_cams d ! r"] allI impI)
    show "w_cams (e_world (sy_env ?z)) = (w_cams (e_world (sy_env y)))[r := ds_cams d ! r]"
      using cams by (simp add: put_dev_def)
    show "dc_m_sdcCfg (ds_cams d ! r) = dc_m_sdcCfg (w_cams (e_world (sy_env y)) ! r)"
      using m(2) by (simp add: cam_cfg_def as_dev_def)
  qed (use inv' i alive m num in \<open>simp_all add: put_dev_def\<close>)
  with step show ?thesis by blast
qed


text \<open>A camera a device may be sent on a tour with: no other device has a pointer to it, and it has presets left.\<close>

definition may_tour :: "nat \<Rightarrow> cam_ref \<Rightarrow> system \<Rightarrow> bool" where
  "may_tour i r y \<longleftrightarrow> unclaimed i r y \<and>
     (let c = w_cams (e_world (sy_env y)) ! r in unat (dc_curPTZposion c) < unat (sc_presetTotal (dc_m_sdcCfg c)))"

lemma heartbeat_goes:
  assumes "system_inv y" and "i < length (sy_sessions y)" and "s = sy_sessions y ! i" and "se_alive s"
    and "\<not> se_recvCaprure s" and "heartbeat_frame bs"
    and "cd_missionStatus (se_capDev s) = MISSION_COMPLETED" and "cd_run (se_capDev s) = 1"
    and "cd_timer (se_capDev s) \<noteq> None" and "cd_socket (se_capDev s) = Some q" and "e_world (sy_env y) = w"
    and "MissionMatch (se_capDev s) w = Some m" and "m \<noteq> - 1" and "MissionGet m w = Some ms"
    and "free_slot (w_cams w, ms) = Some j" and "r = cam_refs ms ! j" and "may_tour i r y"
    and "c = w_cams w ! r"
  shows "\<exists>z. system_step p (ReadDone i un now (Transferred bs)) y = Some z \<and>
    goes i r c q (unat (sc_presetTotal (dc_m_sdcCfg c))) (unat (dc_curPTZposion c)) z"
proof -
  let ?e = "sy_env y"
  have inv: "session_inv s ?e" using assms(1-3) by (auto simp: system_inv_def)
  from read_heartbeat [OF inv assms(4-6), of "pl_host p" "pl_sdk p" un now] obtain data where
    len: "length data = length (se_data s)" and
    rd: "handle_read (pl_host p) (pl_sdk p) un now (Transferred bs) s ?e =
      map_option (\<lambda>(s, e). (s, emit [ReadMore] e))
        (handle_heartbeat now (s\<lparr>se_data := data, se_recv_times := se_recv_times s + 1\<rparr>) ?e)" by blast
  let ?s = "s\<lparr>se_data := data, se_recv_times := se_recv_times s + 1\<rparr>"
  let ?t = "?s\<lparr>se_capDev := (se_capDev s)\<lparr>cd_missionNum := word_of_int m, cd_SpdDomeCam := Some r, cd_missionStatus := MISSION_READY\<rparr>\<rparr>"
  have sinv: "session_inv ?s ?e" using inv len by (simp add: session_inv_def)
  have "\<exists>e'. handle_heartbeat now ?s ?e = Some (?s\<lparr>se_capDev := (se_capDev ?s)\<lparr>cd_missionNum := word_of_int m,
      cd_SpdDomeCam := Some r, cd_missionStatus := MISSION_READY\<rparr>\<rparr>, e') \<and>
    w_cams (e_world e') = (w_cams (e_world ?e))[r := (w_cams (e_world ?e) ! r)\<lparr>dc_isUsing := BUSY\<rparr>] \<and>
    e_out e' = e_out ?e \<and> same_lists (e_world ?e) (e_world e')"
    by (rule heartbeat_next_camera [OF sinv, where ms = ms and j = j]) (use assms(7,11-16) in simp_all)
  then obtain e' where h: "handle_heartbeat now ?s ?e = Some (?t, e')"
    and cams: "w_cams (e_world e') = (w_cams w)[r := c\<lparr>dc_isUsing := BUSY\<rparr>]"
    and lists: "same_lists w (e_world e')" using assms(11,18) by auto
  let ?z = "y\<lparr>sy_sessions := (sy_sessions y)[i := ?t], sy_env := emit [ReadMore] e'\<rparr>"
  have step: "system_step p (ReadDone i un now (Transferred bs)) y = Some ?z"
    using assms(2,3) rd h by (simp add: on_session_def)
  have inv': "system_inv ?z" by (rule system_step_inv [OF assms(1) _ step]) simp
  have "session_inv ?t (emit [ReadMore] e')" using inv' assms(2) by (simp add: system_inv_def set_update_memI)
  then have r: "r < length (w_cams w)" using cams by (simp add: session_inv_def)
  have world: "world_inv w" using assms(1,11) by (auto simp: system_inv_def)
  have "MissionMatch (se_capDev ?t) (e_world e') = Some m"
    using MissionMatch_same_lists [OF lists] assms(12) MissionMatch_cong [of "se_capDev ?t" "se_capDev s"] by simp
  then have "listed (se_capDev ?t) (e_world e')"
    using match_number [OF world assms(12,13)] assms(13) by (auto simp: listed_def)
  with inv' assms(2,4,8-11,17,18) cams r step show ?thesis
    by (intro exI [of _ ?z]) (auto simp: goes_def Let_def touring_def as_dev_def may_tour_def unclaimed_def)
qed



lemma next_free:
  assumes "wf_cams (cams, ms)" and "r \<in> set (cam_refs ms)" and "dc_isUsing (cams ! r) = FREE"
  shows "\<exists>j. free_slot (cams, ms) = Some j \<and> cam_refs ms ! j \<in> set (cam_refs ms) \<and>
    dc_isUsing (cams ! (cam_refs ms ! j)) = FREE"
proof -
  have list: "cam_list (cams, ms) = map ((!) cams) (cam_refs ms)" by (simp add: cam_list_def)
  have "cams ! r \<in> set (cam_list (cams, ms))" using assms(2) unfolding list by simp
  with assms(3) have "free_slot (cams, ms) \<noteq> None" unfolding free_slot_None by auto
  then obtain j where j: "free_slot (cams, ms) = Some j" by auto
  have len: "j < length (cam_refs ms)" using free_slot_Some [OF assms(1) j] by (simp add: list)
  then have "dc_isUsing (cams ! (cam_refs ms ! j)) = FREE"
    using free_slot_Some [OF assms(1) j] by (simp add: list nth_map [OF len])
  with j len show ?thesis by auto
qed

text \<open>
  C14: a tour is followed by the next. Device \<open>i\<close>, not in the middle of a snapshot, is at the last preset of the camera
  \<open>r\<close>, a camera of its mission to which no other device has a pointer; the vendor's library accepts each preset of \<open>r\<close>, and
  the frame of the schedule has room. Each other camera of the mission is busy, or no other device has a pointer to it and it has
  presets left. The expiry of the timer, and as the very next event a heartbeat of the device, leave the device on a tour again: with
  \<open>r\<close>, from its first preset, or with another camera of the mission that was free, from the preset it stood at. The camera is
  marked busy, has the settings it had, and the connection is the same; what a tour starts from is so restored.
\<close>

theorem next_tour:
  assumes "goes i r c q n k y" and "Suc k = n" and "turns_ok (pl_sdk p) (dc_m_sdcCfg c)" and "frames_fit raw stk c"
    and "heartbeat_frame bs" and "\<not> se_recvCaprure (sy_sessions y ! i)" and "w = e_world (sy_env y)"
    and "MissionMatch (se_capDev (sy_sessions y ! i)) w = Some m" and "MissionGet m w = Some ms" and "r \<in> set (cam_refs ms)"
    and "\<forall>x \<in> set (cam_refs ms). x \<noteq> r \<longrightarrow> dc_isUsing (w_cams w ! x) = BUSY \<or> may_tour i x y"
  shows "\<exists>z x d. system_run p [Tick i raw stk, ReadDone i un now (Transferred bs)] y = Some z \<and>
    x \<in> set (cam_refs ms) \<and> (x = r \<or> dc_isUsing (w_cams w ! x) = FREE) \<and> dc_m_sdcCfg d = dc_m_sdcCfg (w_cams w ! x) \<and>
    goes i x d q (unat (sc_presetTotal (dc_m_sdcCfg d))) (if x = r then 0 else unat (dc_curPTZposion (w_cams w ! x))) z"
proof -
  let ?s = "sy_sessions y ! i"
  from last_tick [OF assms(1-4)] obtain u where u: "system_step p (Tick i raw stk) y = Some u" "tour_over i r q y u" by blast
  let ?s' = "sy_sessions u ! i" and ?w = "e_world (sy_env u)"
  from u(2) obtain f where inv: "system_inv u" "length (sy_sessions u) = length (sy_sessions y)"
    and same: "\<And>j. j \<noteq> i \<Longrightarrow> sy_sessions u ! j = sy_sessions y ! j"
    and s: "se_alive ?s'" "se_recvCaprure ?s' = se_recvCaprure ?s" "cd_devNum (se_capDev ?s') = cd_devNum (se_capDev ?s)"
      "cd_missionStatus (se_capDev ?s') = MISSION_COMPLETED" "cd_run (se_capDev ?s') = 1"
      "cd_timer (se_capDev ?s') \<noteq> None" "cd_socket (se_capDev ?s') = Some q"
    and ms: "w_missions ?w = w_missions w"
    and cams: "w_cams ?w = (w_cams w)[r := f]"
    and f: "dc_isUsing f = FREE" "dc_curPTZposion f = 0" "dc_m_sdcCfg f = dc_m_sdcCfg (w_cams w ! r)"
    by (auto simp: tour_over_def Let_def assms(7))
  have i: "i < length (sy_sessions y)" and l: "listed (se_capDev ?s) w" and r: "r < length (w_cams w)"
    and free: "unclaimed i r y" using assms(1,7) by (simp_all add: goes_def Let_def touring_def as_dev_def unclaimed_def)
  have n: "unat (sc_presetTotal (dc_m_sdcCfg (w_cams w ! r))) = n"
  proof -
    have "touring r n k (as_dev ?s (sy_env y))" using assms(1) by (simp add: goes_def Let_def)
    then show ?thesis by (simp add: touring_def as_dev_def assms(7))
  qed
  have m: "m \<noteq> - 1" using l assms(8) by (auto simp: listed_def)
  have match: "MissionMatch (se_capDev ?s') ?w = Some m"
    using assms(8) MissionMatch_cong [OF s(3)] ms by (simp add: MissionMatch_def)
  have get: "MissionGet m ?w = Some ms" using assms(9) ms by (simp add: MissionGet_def)
  have wf: "wf_cams (w_cams ?w, ms)"
    using MissionGet_inv [OF _ get] inv(1) by (auto simp: system_inv_def wf_mission_def)
  have "dc_isUsing (w_cams ?w ! r) = FREE" using f(1) r cams by simp
  from next_free [OF wf assms(10) this] obtain j where j: "free_slot (w_cams ?w, ms) = Some j"
    and jf: "cam_refs ms ! j \<in> set (cam_refs ms)" "dc_isUsing (w_cams ?w ! (cam_refs ms ! j)) = FREE" by blast
  define x where "x = cam_refs ms ! j"
  have mem: "x \<in> set (cam_refs ms)" and fx: "dc_isUsing (w_cams ?w ! x) = FREE" using jf by (simp_all add: x_def)
  have claim: "unclaimed i x u \<longleftrightarrow> unclaimed i x y" using same inv(2) by (simp add: unclaimed_def)
  have may: "may_tour i x u"
  proof (cases "x = r")
    case True
    with free claim f r cams n assms(2) show ?thesis by (simp add: may_tour_def Let_def)
  next
    case False
    with fx cams have "dc_isUsing (w_cams w ! x) = FREE" by simp
    with assms(7,11) mem False have "may_tour i x y" by auto
    with False claim cams assms(7) show ?thesis by (simp add: may_tour_def Let_def)
  qed
  let ?d = "w_cams ?w ! x"
  have rcv: "\<not> se_recvCaprure ?s'" using s(2) assms(6) by simp
  have i': "i < length (sy_sessions u)" using i inv(2) by simp
  from heartbeat_goes [OF inv(1) i' refl s(1) rcv assms(5) s(4-7) refl match m get j x_def may refl]
  obtain z where z: "system_step p (ReadDone i un now (Transferred bs)) u = Some z"
    "goes i x ?d q (unat (sc_presetTotal (dc_m_sdcCfg ?d))) (unat (dc_curPTZposion ?d)) z" by blast
  have run: "system_run p [Tick i raw stk, ReadDone i un now (Transferred bs)] y = Some z"
    using u(1) z(1) by (simp del: system_step.simps)
  have pos: "unat (dc_curPTZposion ?d) = (if x = r then 0 else unat (dc_curPTZposion (w_cams w ! x)))"
    and cfg: "dc_m_sdcCfg ?d = dc_m_sdcCfg (w_cams w ! x)" and was: "x = r \<or> dc_isUsing (w_cams w ! x) = FREE"
    using f r cams fx by (cases "x = r"; simp)+
  from z(2) have "goes i x ?d q (unat (sc_presetTotal (dc_m_sdcCfg ?d)))
      (if x = r then 0 else unat (dc_curPTZposion (w_cams w ! x))) z" unfolding pos .
  with run mem cfg was show ?thesis by blast
qed


lemma cam_refs_mission1: "cam_refs mission1 = [0]"
  by (simp add: cam_refs_def mission1_def mission0_def)

corollary next_tour_witness:
  "\<exists>z d. system_run platform0 [Tick 0 vfs0 (replicate 4096 0),
      ReadDone 0 uninit0 9 (Transferred [9, 0, 0, 0, 101, 0, 0, 0, 0])] (tour_system 1) = Some z \<and>
    goes 0 0 d 5 1 0 z"
proof -
  let ?c = "ds_cams (dev_cam 1) ! 0" and ?y = "tour_system 1"
  let ?w = "e_world (sy_env ?y)" and ?s = "sy_sessions ?y ! 0"
  let ?hb = "[9, 0, 0, 0, 101, 0, 0, 0, 0] :: byte list"
  have goes: "goes 0 0 ?c 5 1 0 ?y" using tour_system_goes [of 1] by simp
  have turns: "turns_ok (pl_sdk platform0) (dc_m_sdcCfg ?c)"
    by (simp add: turns_ok_def sdk_ok_def dev_cam_def cfg0_def preset0_def platform0_def)
  have hb: "heartbeat_frame ?hb" by (simp add: heartbeat_frame_def MAX_PACKET_LEN_def)
  have idle: "\<not> se_recvCaprure ?s" by (simp add: tour_system_def tour_session_def)
  have "MissionMatch (se_capDev ?s) ?w = Some 3"
    using match_sample [of "se_capDev ?s"]
    by (simp add: MissionMatch_def tour_system_def tour_session_def dev_cam_def dev0_def)
  moreover have "MissionGet 3 ?w = Some mission1" using get_sample by (simp add: MissionGet_def tour_system_def)
  ultimately obtain z x d where
    z: "system_run platform0 [Tick 0 vfs0 (replicate 4096 0), ReadDone 0 uninit0 9 (Transferred ?hb)] ?y = Some z"
    "x = 0" "dc_m_sdcCfg d = dc_m_sdcCfg (w_cams ?w ! x)"
    "goes 0 x d 5 (unat (sc_presetTotal (dc_m_sdcCfg d))) (if x = 0 then 0 else unat (dc_curPTZposion (w_cams ?w ! x))) z"
    using next_tour [OF goes _ turns fit_dev_cam hb idle refl, of 3 mission1 uninit0 9]
    by (auto simp: cam_refs_mission1 simp del: runs.simps)
  then have "goes 0 0 d 5 1 0 z" by (simp add: tour_system_def dev_cam_def)
  with z(1) show ?thesis by blast
qed

end
