(* ===== verification/Threads.thy ===== *)
theory Threads
  imports Machine
begin

text \<open>
  Programs of threads that share a state and a set of mutexes. A program is the tree of its steps: it
  locks or unlocks a mutex, or acts on the state and goes on according to what it found there. The
  threads are interleaved step by step. The judgement \<open>locks\<close> says that a program takes the
  mutexes in the order of their ranks and gives back what it took; programs it accepts never block
  each other for good. The judgement \<open>within\<close> says that a program acts on the state only while it
  holds one given mutex; such programs take effect one after another.
\<close>

section \<open>Programs\<close>

datatype ('s, 'm, 'a) prog =
  Ret 'a
| Lock 'm "('s, 'm, 'a) prog"
| Unlock 'm "('s, 'm, 'a) prog"
| Act "'s \<Rightarrow> ('s \<times> ('s, 'm, 'a) prog) option"

primrec andThen :: "('s, 'm, 'a) prog \<Rightarrow> ('a \<Rightarrow> ('s, 'm, 'b) prog) \<Rightarrow> ('s, 'm, 'b) prog" where
  "andThen (Ret a) k = k a"
| "andThen (Lock m p) k = Lock m (andThen p k)"
| "andThen (Unlock m p) k = Unlock m (andThen p k)"
| "andThen (Act f) k = Act (\<lambda>s. map_option (map_prod id (\<lambda>p. andThen p k)) (f s))"

text \<open>One action with a result\<close>

definition act :: "('s \<Rightarrow> ('a \<times> 's) option) \<Rightarrow> ('s, 'm, 'a) prog" where
  "act f = Act (\<lambda>s. map_option (\<lambda>(a, t). (t, Ret a)) (f s))"

text \<open>\<open>mutex::scoped_lock lock(m);\<close> holds the mutex to the end of the block, whichever way it is left.\<close>

definition scoped :: "'m \<Rightarrow> ('s, 'm, 'a) prog \<Rightarrow> ('s, 'm, 'a) prog" where
  "scoped m p = Lock m (andThen p (\<lambda>a. Unlock m (Ret a)))"

text \<open>A program run alone; without other threads the mutexes do not matter.\<close>

primrec solo :: "('s, 'm, 'a) prog \<Rightarrow> 's \<Rightarrow> ('a \<times> 's) option" where
  "solo (Ret a) = (\<lambda>s. Some (a, s))"
| "solo (Lock m p) = solo p"
| "solo (Unlock m p) = solo p"
| "solo (Act f) = (\<lambda>s. Option.bind (map_option (map_prod id solo) (f s)) (\<lambda>(t, g). g t))"

text \<open>Induction over the programs a program may go on as\<close>

lemma prog_induct [case_names Ret Lock Unlock Act]:
  assumes "\<And>a. P (Ret a)" and "\<And>m p. P p \<Longrightarrow> P (Lock m p)" and "\<And>m p. P p \<Longrightarrow> P (Unlock m p)"
    and "\<And>f. (\<And>s t q. f s = Some (t, q) \<Longrightarrow> P q) \<Longrightarrow> P (Act f)"
  shows "P p"
proof (induction p)
  case (Act f)
  have "P q" if "f s = Some (t, q)" for s t q
    by (rule Act.IH [OF rangeI [of f s], of "(t, q)"]) (simp_all add: that)
  then show ?case by (rule assms(4))
qed (rule assms, assumption?)+

lemma solo_andThen [simp]: "solo (andThen p k) s = Option.bind (solo p s) (\<lambda>(a, t). solo (k a) t)"
proof (induction p arbitrary: s rule: prog_induct)
  case (Act f)
  show ?case
  proof (cases "f s")
    case None
    then show ?thesis by simp
  next
    case (Some u)
    then obtain t q where "f s = Some (t, q)" by (cases u) auto
    with Act.IH [OF this] show ?thesis by simp
  qed
qed simp_all

lemma solo_act [simp]: "solo (act f) s = f s"
  by (cases "f s") (auto simp: act_def)

lemma solo_scoped [simp]: "solo (scoped m p) s = solo p s"
  by (cases "solo p s") (auto simp: scoped_def)

section \<open>The order of the mutexes\<close>

text \<open>
  \<open>locks rank H p R\<close>: started with the mutexes \<open>H\<close> held, \<open>p\<close> takes only mutexes above all that it
  holds, gives back only what it holds, and ends with \<open>R\<close> held.
\<close>

inductive locks :: "('m \<Rightarrow> nat) \<Rightarrow> 'm set \<Rightarrow> ('s, 'm, 'a) prog \<Rightarrow> 'm set \<Rightarrow> bool" for rank where
  Ret: "locks rank H (Ret a) H"
| Lock: "\<forall>h \<in> H. rank h < rank m \<Longrightarrow> locks rank (insert m H) p R \<Longrightarrow> locks rank H (Lock m p) R"
| Unlock: "m \<in> H \<Longrightarrow> locks rank (H - {m}) p R \<Longrightarrow> locks rank H (Unlock m p) R"
| Act: "(\<And>s t q. f s = Some (t, q) \<Longrightarrow> locks rank H q R) \<Longrightarrow> locks rank H (Act f) R"

inductive_simps locks_simps [simp]:
  "locks rank H (Ret a) R"
  "locks rank H (Lock m p) R"
  "locks rank H (Unlock m p) R"
  "locks rank H (Act f) R"

lemma locks_andThen:
  "locks rank H p R \<Longrightarrow> (\<And>a. locks rank R (k a) T) \<Longrightarrow> locks rank H (andThen p k) T"
proof (induction rule: locks.induct)
  case (Act f H R)
  then show ?case by (auto simp: map_option_case split: option.splits)
qed auto

lemma locks_act [simp]: "locks rank H (act f) H"
  by (auto simp: act_def)

lemma locks_scoped:
  assumes "locks rank (insert m H) p (insert m H)" and "\<forall>h \<in> H. rank h < rank m"
  shows "locks rank H (scoped m p) H"
proof -
  from assms(2) have "insert m H - {m} = H" by auto
  with assms locks_andThen [OF assms(1), of "\<lambda>a. Unlock m (Ret a)" H] show ?thesis
    by (simp add: scoped_def)
qed

section \<open>Threads\<close>

record ('s, 'm, 'a) conf =
  th_progs :: "('s, 'm, 'a) prog list"
  th_owner :: "'m \<Rightarrow> nat option"
  th_shared :: 's

text \<open>
  One step of the thread \<open>i\<close>: none when it has returned, waits for a mutex or leaves defined
  behaviour. The mutexes are not recursive: a thread that locks twice waits for itself.
\<close>

fun tstep :: "nat \<Rightarrow> ('s, 'm, 'a) conf \<Rightarrow> ('s, 'm, 'a) conf option" where
  "tstep i c =
     (if i < length (th_progs c) then
        (case th_progs c ! i of
           Ret a \<Rightarrow> None
         | Lock m p \<Rightarrow> if th_owner c m = None
             then Some (c\<lparr>th_progs := (th_progs c)[i := p], th_owner := (th_owner c)(m := Some i)\<rparr>) else None
         | Unlock m p \<Rightarrow> if th_owner c m = Some i
             then Some (c\<lparr>th_progs := (th_progs c)[i := p], th_owner := (th_owner c)(m := None)\<rparr>) else None
         | Act f \<Rightarrow> map_option (\<lambda>(t, p). c\<lparr>th_progs := (th_progs c)[i := p], th_shared := t\<rparr>)
             (f (th_shared c)))
      else None)"

declare tstep.simps [simp del]

definition start :: "('s, 'm, 'a) prog list \<Rightarrow> 's \<Rightarrow> ('s, 'm, 'a) conf" where
  "start ps s = \<lparr>th_progs = ps, th_owner = \<lambda>_. None, th_shared = s\<rparr>"

fun returned :: "('s, 'm, 'a) prog \<Rightarrow> bool" where
  "returned (Ret _) \<longleftrightarrow> True"
| "returned _ \<longleftrightarrow> False"

text \<open>The next action leaves defined behaviour.\<close>

fun faults :: "'s \<Rightarrow> ('s, 'm, 'a) prog \<Rightarrow> bool" where
  "faults s (Act f) \<longleftrightarrow> f s = None"
| "faults s _ \<longleftrightarrow> False"

definition finished :: "('s, 'm, 'a) conf \<Rightarrow> bool" where
  "finished c \<longleftrightarrow> list_all returned (th_progs c)"

definition faulty :: "('s, 'm, 'a) conf \<Rightarrow> bool" where
  "faulty c \<longleftrightarrow> list_ex (faults (th_shared c)) (th_progs c)"

definition held :: "('s, 'm, 'a) conf \<Rightarrow> nat \<Rightarrow> 'm set" where
  "held c i = {m. th_owner c m = Some i}"

definition well_locked :: "('m \<Rightarrow> nat) \<Rightarrow> ('s, 'm, 'a) conf \<Rightarrow> bool" where
  "well_locked rank c \<longleftrightarrow>
     (\<forall>i < length (th_progs c). locks rank (held c i) (th_progs c ! i) {}) \<and>
     (\<forall>m i. th_owner c m = Some i \<longrightarrow> i < length (th_progs c))"

lemma tstep_cases:
  assumes "tstep i c = Some d"
  obtains (Lock) m p where "i < length (th_progs c)" "th_progs c ! i = Lock m p" "th_owner c m = None"
      "d = c\<lparr>th_progs := (th_progs c)[i := p], th_owner := (th_owner c)(m := Some i)\<rparr>"
    | (Unlock) m p where "i < length (th_progs c)" "th_progs c ! i = Unlock m p" "th_owner c m = Some i"
      "d = c\<lparr>th_progs := (th_progs c)[i := p], th_owner := (th_owner c)(m := None)\<rparr>"
    | (Act) f t p where "i < length (th_progs c)" "th_progs c ! i = Act f" "f (th_shared c) = Some (t, p)"
      "d = c\<lparr>th_progs := (th_progs c)[i := p], th_shared := t\<rparr>"
  using assms by (auto simp: tstep.simps split: if_splits prog.splits)

lemma start_well_locked:
  "(\<And>p. p \<in> set ps \<Longrightarrow> locks rank {} p {}) \<Longrightarrow> well_locked rank (start ps s)"
  by (auto simp: well_locked_def start_def held_def)

lemma tstep_well_locked:
  assumes "well_locked rank c" and "tstep i c = Some d"
  shows "well_locked rank d"
  using assms(2)
proof (cases rule: tstep_cases)
  case (Lock m p)
  have "held d j = (if j = i then insert m (held c i) else held c j)" for j
    using Lock by (auto simp: held_def)
  with Lock assms(1) show ?thesis
    by (auto simp: well_locked_def nth_list_update split: if_splits)
next
  case (Unlock m p)
  have "held d j = (if j = i then held c i - {m} else held c j)" for j
    using Unlock by (auto simp: held_def)
  with Unlock assms(1) show ?thesis
    by (auto simp: well_locked_def nth_list_update split: if_splits) (metis locks_simps(3))
next
  case (Act f t p)
  have "held d j = held c j" for j using Act by (simp add: held_def)
  with Act assms(1) show ?thesis
    by (auto simp: well_locked_def nth_list_update)
qed

interpretation tstep_inv: machine tstep "well_locked rank" "\<lambda>_. True" for rank
  by unfold_locales (rule tstep_well_locked)

lemma runs_well_locked: "well_locked rank c \<Longrightarrow> runs tstep sched c = Some d \<Longrightarrow> well_locked rank d"
  using tstep_inv.runs_inv [of rank c sched d] by (simp add: list_all_iff)

text \<open>A thread that has returned holds nothing.\<close>

lemma finished_free:
  assumes "well_locked rank c" and "finished c"
  shows "th_owner c m = None"
proof (rule ccontr)
  assume "th_owner c m \<noteq> None"
  then obtain i where i: "m \<in> held c i" "i < length (th_progs c)"
    using assms(1) by (auto simp: well_locked_def held_def)
  moreover from i(2) assms(2) obtain a where "th_progs c ! i = Ret a"
    by (cases "th_progs c ! i") (auto simp: finished_def list_all_length)
  ultimately show False using assms(1) by (auto simp: well_locked_def)
qed

text \<open>
  Threads that wait for each other would wait for ever higher mutexes: of the threads that wait, the one
  that waits for the highest mutex can have it.
\<close>

lemma progress:
  assumes "well_locked rank c" and "\<not> finished c" and "\<not> faulty c"
  shows "\<exists>i. tstep i c \<noteq> None"
proof (rule ccontr)
  assume "\<nexists>i. tstep i c \<noteq> None"
  then have stuck: "tstep i c = None" for i by simp
  let ?W = "{i. i < length (th_progs c) \<and> (\<exists>m p. th_progs c ! i = Lock m p)}"
  let ?want = "\<lambda>i. case th_progs c ! i of Lock m p \<Rightarrow> rank m | _ \<Rightarrow> 0"
  have waits: "i \<in> ?W" if "i < length (th_progs c)" "\<And>a. th_progs c ! i \<noteq> Ret a" for i
  proof (cases "th_progs c ! i")
    case (Unlock m p)
    have "locks rank (held c i) (Unlock m p) {}" using assms(1) that(1) Unlock by (auto simp: well_locked_def)
    then show ?thesis using stuck [of i] Unlock that(1) by (simp add: tstep.simps held_def)
  next
    case (Act f)
    then have "f (th_shared c) \<noteq> None" using assms(3) that(1) by (auto simp: faulty_def list_ex_length)
    then show ?thesis using stuck [of i] Act that(1) by (auto simp: tstep.simps)
  qed (use that in auto)
  from assms(2) obtain i where i: "i < length (th_progs c)" "\<And>a. th_progs c ! i \<noteq> Ret a"
    by (auto simp: finished_def list_all_length) (metis returned.simps(1))
  have "finite ?W" "?W \<noteq> {}" using waits [OF i] by auto
  from obtains_MAX [OF this, of ?want] obtain j where j: "j \<in> ?W" "\<forall>k \<in> ?W. ?want k \<le> ?want j"
    using \<open>finite ?W\<close> by (metis (no_types, lifting) Max_ge finite_imageI imageI)
  then obtain m p where m: "j < length (th_progs c)" "th_progs c ! j = Lock m p" by auto
  with stuck [of j] obtain k where k: "th_owner c m = Some k" by (auto simp: tstep.simps split: if_splits)
  then have kl: "k < length (th_progs c)" and mk: "m \<in> held c k"
    using assms(1) by (auto simp: well_locked_def held_def)
  have lk: "locks rank (held c k) (th_progs c ! k) {}" using assms(1) kl by (simp add: well_locked_def)
  with mk have "th_progs c ! k \<noteq> Ret a" for a by auto
  from waits [OF kl this] obtain m' p' where "k \<in> ?W" "th_progs c ! k = Lock m' p'" by auto
  with lk mk j(2) m show False by fastforce
qed

text \<open>No run is infinite: each step leaves a smaller program.\<close>

inductive_set goes_on :: "(('s, 'm, 'a) prog \<times> ('s, 'm, 'a) prog) set" where
  "(p, Lock m p) \<in> goes_on"
| "(p, Unlock m p) \<in> goes_on"
| "f s = Some (t, p) \<Longrightarrow> (p, Act f) \<in> goes_on"

inductive_cases goes_on_cases: "(p, Ret a) \<in> goes_on" "(p, Lock m q) \<in> goes_on" "(p, Unlock m q) \<in> goes_on"
  "(p, Act f) \<in> goes_on"

lemma wf_goes_on: "wf (goes_on :: (('s, 'm, 'a) prog \<times> ('s, 'm, 'a) prog) set)"
proof (rule wfUNIVI)
  fix P :: "('s, 'm, 'a) prog \<Rightarrow> bool" and p :: "('s, 'm, 'a) prog"
  assume *: "\<forall>p. (\<forall>q. (q, p) \<in> goes_on \<longrightarrow> P q) \<longrightarrow> P p"
  show "P p" by (induction p rule: prog_induct) (use * in \<open>blast elim: goes_on_cases\<close>)+
qed

lemma tstep_goes_on:
  assumes "tstep i c = Some d"
  shows "(th_progs d, th_progs c) \<in> listrel1 goes_on"
proof -
  from assms have i: "i < length (th_progs c)" and g: "(th_progs d ! i, th_progs c ! i) \<in> goes_on"
    and d: "th_progs d = (th_progs c)[i := th_progs d ! i]"
    by (auto elim!: tstep_cases intro: goes_on.intros)
  then have "th_progs c = take i (th_progs c) @ th_progs c ! i # drop (Suc i) (th_progs c)"
    "th_progs d = take i (th_progs c) @ th_progs d ! i # drop (Suc i) (th_progs c)"
    by (auto simp: id_take_nth_drop upd_conv_take_nth_drop)
  with g show ?thesis by (metis listrel1I)
qed

lemma wf_tstep: "wf {(d, c). \<exists>i. tstep i c = Some d}"
proof (rule wf_subset)
  show "wf (inv_image (listrel1 goes_on) th_progs)" by (intro wf_inv_image) (simp add: wf_goes_on)
qed (auto dest: tstep_goes_on)

lemma no_infinite_run: "\<not> (\<forall>n. \<exists>i. tstep i (c n) = Some (c (Suc n)))"
  using wf_tstep by (auto simp: wf_iff_no_infinite_down_chain)

text \<open>So every schedule that is carried on long enough ends with all threads returned, or with a fault.\<close>

lemma runs_to_end:
  assumes "well_locked rank c"
  shows "\<exists>sched d. runs tstep sched c = Some d \<and> (finished d \<or> faulty d)"
  using wf_tstep assms
proof (induction c rule: wf_induct_rule)
  case (less c)
  show ?case
  proof (cases "finished c \<or> faulty c")
    case True
    then show ?thesis by (intro exI [of _ "[]"]) simp
  next
    case False
    with progress [OF less.prems] obtain i d where d: "tstep i c = Some d" by auto
    then have "(d, c) \<in> {(d, c). \<exists>i. tstep i c = Some d}" by auto
    from less.IH [OF this tstep_well_locked [OF less.prems d]] obtain sched e where
      "runs tstep sched d = Some e" "finished e \<or> faulty e" by blast
    with d show ?thesis by (intro exI [of _ "i # sched"]) auto
  qed
qed

section \<open>Calls that hold one mutex\<close>

text \<open>The program never locks or unlocks \<open>m\<close> itself.\<close>

inductive inner :: "'m \<Rightarrow> ('s, 'm, 'a) prog \<Rightarrow> bool" for m where
  Ret: "inner m (Ret a)"
| Lock: "k \<noteq> m \<Longrightarrow> inner m p \<Longrightarrow> inner m (Lock k p)"
| Unlock: "k \<noteq> m \<Longrightarrow> inner m p \<Longrightarrow> inner m (Unlock k p)"
| Act: "(\<And>s t q. f s = Some (t, q) \<Longrightarrow> inner m q) \<Longrightarrow> inner m (Act f)"

inductive_simps inner_simps [simp]: "inner m (Ret a)" "inner m (Lock k p)" "inner m (Unlock k p)" "inner m (Act f)"

lemma inner_andThen: "inner m p \<Longrightarrow> (\<And>a. inner m (k a)) \<Longrightarrow> inner m (andThen p k)"
proof (induction rule: inner.induct)
  case (Act f)
  then show ?case by (auto simp: map_option_case split: option.splits)
qed auto

lemma inner_act [simp]: "inner m (act f)"
  by (auto simp: act_def)

lemma inner_scoped: "k \<noteq> m \<Longrightarrow> inner m p \<Longrightarrow> inner m (scoped k p)"
  by (simp add: scoped_def inner_andThen)

text \<open>
  The specification of calls made at the same time: each takes effect at once, in some order. The list
  holds the results of the calls that were made.
\<close>

fun calls :: "('op \<Rightarrow> 's \<Rightarrow> ('a \<times> 's) option) \<Rightarrow> 'op list \<Rightarrow> nat \<Rightarrow> 'a option list \<times> 's \<Rightarrow>
    ('a option list \<times> 's) option" where
  "calls run ops i (rs, s) =
     (if i < length ops \<and> rs ! i = None then
        map_option (\<lambda>(a, t). (rs[i := Some a], t)) (run (ops ! i) s) else None)"

lemma length_calls: "runs (calls run ops) js (rs, s) = Some (rs', t) \<Longrightarrow> length rs' = length rs"
  by (induction js arbitrary: rs s) (auto simp: bind_eq_Some_conv split: if_splits)

text \<open>Each call is made once, and those with a result were made.\<close>

lemma calls_once:
  assumes "runs (calls run ops) js (rs, s) = Some (rs', t)" and "length rs = length ops"
  shows "distinct js \<and> set js = {i. i < length ops \<and> rs ! i = None \<and> rs' ! i \<noteq> None} \<and>
    (\<forall>i < length ops. rs ! i \<noteq> None \<longrightarrow> rs' ! i = rs ! i)"
  using assms
proof (induction js arbitrary: rs s)
  case Nil
  then show ?case by auto
next
  case (Cons i js)
  then obtain a u where i: "i < length ops" "rs ! i = None" "run (ops ! i) s = Some (a, u)"
    and r: "runs (calls run ops) js (rs[i := Some a], u) = Some (rs', t)"
    by (auto simp: bind_eq_Some_conv split: if_splits)
  from Cons.IH [OF r] Cons.prems(2) have
    d: "distinct js" "set js = {j. j < length ops \<and> rs[i := Some a] ! j = None \<and> rs' ! j \<noteq> None}" and
    k: "\<And>j. j < length ops \<Longrightarrow> rs[i := Some a] ! j \<noteq> None \<Longrightarrow> rs' ! j = rs[i := Some a] ! j" by auto
  have "rs' ! i = Some a" using k [of i] i(1) Cons.prems(2) by simp
  moreover have "\<forall>j < length ops. rs ! j \<noteq> None \<longrightarrow> rs' ! j = rs ! j"
    using k i(2) by (metis nth_list_update_neq)
  ultimately show ?case using d i(1,2) Cons.prems(2) by (auto simp: nth_list_update split: if_splits)
qed

text \<open>
  The interface of operations whose whole body holds the mutex \<open>m\<close>: \<open>body\<close> is the program of an operation,
  \<open>run\<close> what it does when it is alone.
\<close>

locale locked_ops =
  fixes rank :: "'m \<Rightarrow> nat"
    and m :: 'm
    and body :: "'op \<Rightarrow> ('s, 'm, 'a) prog"
    and run :: "'op \<Rightarrow> 's \<Rightarrow> ('a \<times> 's) option"
  assumes body_locks: "locks rank {m} (body p) {m}"
    and body_inner: "inner m (body p)"
    and solo_body: "solo (body p) = run p"
begin

abbreviation call :: "'op \<Rightarrow> ('s, 'm, 'a) prog" where
  "call p \<equiv> scoped m (body p)"

lemma call_locks: "locks rank {} (call p) {}"
  by (rule locks_scoped) (simp_all add: body_locks)

text \<open>What a thread is left with that has, or has not, made its call\<close>

definition rest :: "'op list \<Rightarrow> 'a option list \<Rightarrow> nat \<Rightarrow> ('s, 'm, 'a) prog" where
  "rest ops rs j = (case rs ! j of None \<Rightarrow> call (ops ! j) | Some a \<Rightarrow> Ret a)"

abbreviation inside :: "('s, 'm, 'a) prog \<Rightarrow> ('s, 'm, 'a) prog" where
  "inside q \<equiv> andThen q (\<lambda>a. Unlock m (Ret a))"

text \<open>
  Between the steps of the threads the calls that are complete have taken effect one after
  another, and at most one more call is under way.
\<close>

definition serial :: "'op list \<Rightarrow> 's \<Rightarrow> ('s, 'm, 'a) conf \<Rightarrow> bool" where
  "serial ops s c \<longleftrightarrow> length (th_progs c) = length ops \<and>
     (\<exists>js rs v. runs (calls run ops) js (replicate (length ops) None, s) = Some (rs, v) \<and>
        (case th_owner c m of
           None \<Rightarrow> th_shared c = v \<and> (\<forall>j < length ops. th_progs c ! j = rest ops rs j)
         | Some i \<Rightarrow> i < length ops \<and> rs ! i = None \<and>
             (\<exists>q. th_progs c ! i = inside q \<and> inner m q \<and> solo q (th_shared c) = run (ops ! i) v) \<and>
             (\<forall>j < length ops. j \<noteq> i \<longrightarrow> th_progs c ! j = rest ops rs j)))"

lemma serial_start: "serial ops s (start (map call ops) s)"
  unfolding serial_def
  by (intro conjI exI [of _ "[]"] exI [of _ "replicate (length ops) None"] exI [of _ s])
    (auto simp: start_def rest_def)

lemma serial_insideI:
  assumes "length (th_progs c) = length ops" and "th_owner c m = Some i"
    and "runs (calls run ops) js (replicate (length ops) None, s) = Some (rs, v)" and "i < length ops" and "rs ! i = None"
    and "th_progs c ! i = inside q" and "inner m q" and "solo q (th_shared c) = run (ops ! i) v"
    and "\<forall>j < length ops. j \<noteq> i \<longrightarrow> th_progs c ! j = rest ops rs j"
  shows "serial ops s c"
  unfolding serial_def assms(2) option.case using assms by (intro conjI exI [of _ js] exI [of _ rs] exI [of _ v]) auto

lemma serial_enter:
  assumes "serial ops s c" and "th_owner c m = None" and "tstep i c = Some d"
  shows "serial ops s d"
proof -
  from assms(1,2) obtain js rs v where
    r: "runs (calls run ops) js (replicate (length ops) None, s) = Some (rs, v)" "th_shared c = v"
    and p: "\<forall>j < length ops. th_progs c ! j = rest ops rs j" and l: "length (th_progs c) = length ops"
    by (auto simp: serial_def)
  from assms(3) l have i: "i < length ops" by (auto simp: tstep.simps split: if_splits)
  have n: "rs ! i = None"
  proof (rule ccontr)
    assume "rs ! i \<noteq> None"
    with p i have "\<exists>a. th_progs c ! i = Ret a" by (auto simp: rest_def)
    with assms(3) show False by (auto simp: tstep.simps split: if_splits)
  qed
  with p i have c: "th_progs c ! i = call (ops ! i)" by (simp add: rest_def)
  with assms(2,3) have d: "d = c\<lparr>th_progs := (th_progs c)[i := inside (body (ops ! i))],
      th_owner := (th_owner c)(m := Some i)\<rparr>"
    by (auto simp: tstep.simps scoped_def split: if_splits)
  show ?thesis
    by (rule serial_insideI [OF _ _ r(1) i n, of d "body (ops ! i)"])
      (use r(2) p l i in \<open>auto simp: d body_inner solo_body\<close>)
qed

lemma serial_inside:
  assumes "serial ops s c" and "th_owner c m = Some i" and "tstep j c = Some d"
  shows "serial ops s d"
proof -
  from assms(1,2) obtain js rs v q where
    r: "runs (calls run ops) js (replicate (length ops) None, s) = Some (rs, v)" and i: "i < length ops" "rs ! i = None"
    and q: "th_progs c ! i = inside q" "inner m q" "solo q (th_shared c) = run (ops ! i) v"
    and p: "\<forall>j < length ops. j \<noteq> i \<longrightarrow> th_progs c ! j = rest ops rs j" and l: "length (th_progs c) = length ops"
    by (auto simp: serial_def)
  have rs: "length rs = length ops" using length_calls [OF r] by simp
  have "j = i"
  proof (rule ccontr)
    assume "j \<noteq> i"
    with p assms(2,3) l show False by (auto simp: tstep.simps rest_def scoped_def split: option.splits if_splits)
  qed
  note step = assms(3) [unfolded \<open>j = i\<close>]
  show ?thesis
  proof (cases q)
    case (Ret a)
    with step q(1) i(1) l assms(2) have d: "d = c\<lparr>th_progs := (th_progs c)[i := Ret a], th_owner := (th_owner c)(m := None)\<rparr>"
      by (simp add: tstep.simps)
    from q(3) Ret have run: "run (ops ! i) v = Some (a, th_shared c)" by simp
    have "runs (calls run ops) (js @ [i]) (replicate (length ops) None, s) = Some (rs[i := Some a], th_shared c)"
      using r i run by (simp add: runs_append)
    moreover have "\<forall>j < length ops. th_progs d ! j = rest ops (rs[i := Some a]) j"
      using p l rs i d by (auto simp: nth_list_update rest_def)
    ultimately show ?thesis using l unfolding serial_def
      by (intro conjI exI [of _ "js @ [i]"] exI [of _ "rs[i := Some a]"] exI [of _ "th_shared c"]) (simp_all add: d)
  next
    case (Lock k q')
    with step q(1,2) i(1) l have "th_owner c k = None" "k \<noteq> m" "inner m q'" and
      d: "d = c\<lparr>th_progs := (th_progs c)[i := inside q'], th_owner := (th_owner c)(k := Some i)\<rparr>"
      by (auto simp: tstep.simps split: if_splits)
    then show ?thesis
      by (intro serial_insideI [OF _ _ r i, of d q']) (use i l p q(3) Lock assms(2) in auto)
  next
    case (Unlock k q')
    with step q(1,2) i(1) l have "k \<noteq> m" "inner m q'" and
      d: "d = c\<lparr>th_progs := (th_progs c)[i := inside q'], th_owner := (th_owner c)(k := None)\<rparr>"
      by (auto simp: tstep.simps split: if_splits)
    then show ?thesis
      by (intro serial_insideI [OF _ _ r i, of d q']) (use i l p q(3) Unlock assms(2) in auto)
  next
    case (Act f)
    with step q(1) i(1) l obtain t q' where f: "f (th_shared c) = Some (t, q')" and
      d: "d = c\<lparr>th_progs := (th_progs c)[i := inside q'], th_shared := t\<rparr>"
      by (auto simp: tstep.simps)
    moreover have "inner m q'" using q(2) Act f by auto
    moreover have "solo q' t = run (ops ! i) v" using q(3) Act f by simp
    ultimately show ?thesis
      by (intro serial_insideI [OF _ _ r i, of d q']) (use i l p assms(2) in auto)
  qed
qed

lemma serial_runs: "serial ops s c \<Longrightarrow> runs tstep sched c = Some d \<Longrightarrow> serial ops s d"
proof (induction sched arbitrary: c)
  case (Cons i sched)
  then obtain e where "tstep i c = Some e" "runs tstep sched e = Some d" by (auto simp: bind_eq_Some_conv)
  with Cons show ?case using serial_enter [of ops s c i e] serial_inside [of ops s c _ i e]
    by (cases "th_owner c m") blast+
qed simp

text \<open>
  However the threads are interleaved, when all have returned their calls have taken effect one after
  another, each with the result it returned.
\<close>

lemma linearizable:
  assumes "runs tstep sched (start (map call ops) s) = Some c" and "finished c"
  shows "\<exists>order results. distinct order \<and> set order = {..<length ops} \<and> length results = length ops \<and>
    runs (calls run ops) order (replicate (length ops) None, s) = Some (map Some results, th_shared c) \<and>
    th_progs c = map Ret results"
proof -
  have "serial ops s c" by (rule serial_runs [OF serial_start assms(1)])
  moreover have "well_locked rank (start (map call ops) s)"
    by (rule start_well_locked) (auto simp: call_locks)
  from runs_well_locked [OF this assms(1)] have "well_locked rank c" .
  from finished_free [OF this assms(2)] have "th_owner c m = None" .
  ultimately obtain js rs where
    r: "runs (calls run ops) js (replicate (length ops) None, s) = Some (rs, th_shared c)" and
    p: "\<forall>j < length ops. th_progs c ! j = rest ops rs j" and l: "length (th_progs c) = length ops"
    by (auto simp: serial_def)
  have rs: "length rs = length ops" using length_calls [OF r] by simp
  have all: "rs ! j \<noteq> None" if "j < length ops" for j
  proof
    assume "rs ! j = None"
    then have "th_progs c ! j = call (ops ! j)" using p that by (simp add: rest_def)
    then show False using assms(2) that l by (auto simp: finished_def list_all_length scoped_def)
  qed
  then have some: "rs = map Some (map the rs)" using rs by (auto intro: nth_equalityI)
  moreover have "th_progs c = map Ret (map the rs)"
    using p l rs all by (auto intro!: nth_equalityI simp: rest_def split: option.splits)
  moreover have "distinct js \<and> set js = {..<length ops}" using calls_once [OF r] all by auto
  ultimately show ?thesis using r rs by (metis length_map)
qed

text \<open>No schedule ends before all threads have returned, and none can be carried on for ever.\<close>

lemma not_stuck:
  assumes "runs tstep sched (start (map call ops) s) = Some c"
  shows "finished c \<or> faulty c \<or> (\<exists>i. tstep i c \<noteq> None)"
proof -
  have "well_locked rank (start (map call ops) s)"
    by (rule start_well_locked) (auto simp: call_locks)
  from runs_well_locked [OF this assms] have "well_locked rank c" .
  from progress [OF this] show ?thesis by blast
qed

end

end
