(* ===== verification/Locks.thy ===== *)
theory Locks
  imports Threads SessionFacts ConfigSession
begin

text \<open>
  The mutexes of the program, and what its threads do between the operations on them: \<open>src/mission.cpp\<close>
  guards the missions with \<open>mu\<close> and the members of a mission with \<open>mu_SDC\<close>, \<open>inc/config_session.h\<close>
  its requests with \<open>cfg_mtx\<close>. An operation of \<open>Mission\<close> or \<open>MissionMap\<close> is here a program on the shared
  world: its calls are actions of their own, between which other threads run, and the search for a free camera
  is one action for each look at a camera.
\<close>

datatype mutex = cfg_mtx | mu | mu_SDC

fun mutex_rank :: "mutex \<Rightarrow> nat" where
  "mutex_rank cfg_mtx = 0"
| "mutex_rank mu = 1"
| "mutex_rank mu_SDC = 2"

type_synonym 'a wprog = "(world, mutex, 'a) prog"

section \<open>The members of a mission\<close>

text \<open>
  A pointer to a mission: \<open>G_missionUnstart\<close>, the position of an iterator (stable while \<open>mu\<close> is held, as the
  map changes only under it), or the node of a key, which \<open>MissionGet\<close> returns a pointer to.
\<close>

datatype place = Unstart | At nat | Key int

fun mission_in :: "place \<Rightarrow> world \<Rightarrow> CMission option" where
  "mission_in Unstart w = Some (w_unstart w)"
| "mission_in (At i) w = (if i < length (w_missions w) then Some (mission_at i w) else None)"
| "mission_in (Key k) w = MissionGet k w"

fun put_in :: "place \<Rightarrow> cam_heap \<Rightarrow> CMission \<Rightarrow> world \<Rightarrow> world" where
  "put_in Unstart cams ms w = w\<lparr>w_cams := cams, w_unstart := ms\<rparr>"
| "put_in (At i) cams ms w = set_mission i ms (w\<lparr>w_cams := cams\<rparr>)"
| "put_in (Key k) cams ms w =
     (case find_index (\<lambda>(l, _). l = k) (w_missions w) of
        None \<Rightarrow> w\<lparr>w_cams := cams\<rparr> | Some i \<Rightarrow> set_mission i ms (w\<lparr>w_cams := cams\<rparr>))"

definition member :: "place \<Rightarrow> (cam_heap \<Rightarrow> CMission \<Rightarrow> ('a \<times> cam_heap \<times> CMission) option) \<Rightarrow> world \<Rightarrow> ('a \<times> world) option" where
  "member pl f w = do {
     ms \<leftarrow> mission_in pl w;
     (a, cams, ms) \<leftarrow> f (w_cams w) ms;
     Some (a, put_in pl cams ms w)
   }"

abbreviation reads :: "(world \<Rightarrow> 'a option) \<Rightarrow> 'a wprog" where
  "reads f \<equiv> act (\<lambda>w. map_option (\<lambda>a. (a, w)) (f w))"

text \<open>The members that take \<open>mu_SDC\<close>\<close>

definition updateSDC_prog :: "place \<Rightarrow> CSpeedDomeCam \<Rightarrow> int wprog" where
  "updateSDC_prog pl sdc = scoped mu_SDC (act (member pl (\<lambda>cams ms. updateSDC cams ms sdc)))"

definition addSDC_prog :: "CSpeedDomeCam \<Rightarrow> place \<Rightarrow> CSpeedDomeCam \<Rightarrow> unit wprog" where
  "addSDC_prog raw pl sdc = scoped mu_SDC (act (member pl (\<lambda>cams ms. map_option (Pair ()) (addSDC raw cams ms sdc))))"

definition addSDC_ptr_prog :: "CSpeedDomeCam \<Rightarrow> place \<Rightarrow> cam_ref option \<Rightarrow> unit wprog" where
  "addSDC_ptr_prog raw pl sdc =
     scoped mu_SDC (act (member pl (\<lambda>cams ms. map_option (Pair ()) (addSDC_ptr raw cams ms sdc))))"

definition removeSDC_prog :: "place \<Rightarrow> string \<Rightarrow> int wprog" where
  "removeSDC_prog pl camNum =
     scoped mu_SDC (act (member pl (\<lambda>cams ms. map_option (\<lambda>(r, ms). (r, cams, ms)) (removeSDC cams ms camNum))))"

definition getSDC_prog :: "place \<Rightarrow> string \<Rightarrow> cam_ref option wprog" where
  "getSDC_prog pl camNum =
     scoped mu_SDC (reads (\<lambda>w. Option.bind (mission_in pl w) (\<lambda>ms. getSDC (w_cams w) ms camNum)))"

definition updateCapdev_prog :: "place \<Rightarrow> CCaptureDevice \<Rightarrow> int wprog" where
  "updateCapdev_prog pl dev =
     scoped mu_SDC (act (member pl (\<lambda>cams ms. map_option (\<lambda>(r, ms). (r, cams, ms)) (updateCapdev cams ms dev))))"

definition removeCapDev_prog :: "place \<Rightarrow> string \<Rightarrow> int wprog" where
  "removeCapDev_prog pl devNum =
     scoped mu_SDC (act (member pl (\<lambda>cams ms. map_option (\<lambda>(r, ms). (r, cams, ms)) (removeCapDev ms devNum))))"

definition getCapDev_prog :: "place \<Rightarrow> string \<Rightarrow> nat wprog" where
  "getCapDev_prog pl devNum = scoped mu_SDC (reads (\<lambda>w. Option.bind (mission_in pl w) (\<lambda>ms. getCapDev ms devNum)))"

text \<open>
  The search of \<open>getFreeSDC\<close>, one action for each camera it looks at; the camera is marked and the
  position stored by actions of their own. Only \<open>mu_SDC\<close> keeps two searches from finding one camera.
\<close>

definition look :: "place \<Rightarrow> u32 \<Rightarrow> (u32 \<times> bool) wprog" where
  "look pl j = reads (\<lambda>w. do {
     ms \<leftarrow> mission_in pl w;
     let j = j + 1;
     let j = (if j > ms_totalSpdDomeCam ms - 1 then 0 else j);
     c \<leftarrow> SDC_at (w_cams w) ms (unat j);
     Some (j, dc_isUsing c = FREE)
   })"

definition mark :: "place \<Rightarrow> u32 \<Rightarrow> cam_ref option wprog" where
  "mark pl j = act (\<lambda>w. do {
     ms \<leftarrow> mission_in pl w;
     let p = ms_SpdDomeCam ms (unat j);
     cams \<leftarrow> upd_cam (w_cams w) p (\<lambda>c. c\<lparr>dc_isUsing := BUSY\<rparr>);
     Some (p, w\<lparr>w_cams := cams\<rparr>)
   })"

definition set_cur :: "place \<Rightarrow> u32 \<Rightarrow> unit wprog" where
  "set_cur pl j = act (member pl (\<lambda>cams ms. Some ((), cams, ms\<lparr>ms_curSpdDomeCam := j\<rparr>)))"

primrec search :: "place \<Rightarrow> nat \<Rightarrow> u32 \<Rightarrow> (int \<times> cam_ref option option) wprog" where
  "search pl 0 j = Ret (- 1, None)"
| "search pl (Suc k) j = andThen (look pl j) (\<lambda>(j, free).
     if free then andThen (mark pl j) (\<lambda>p. andThen (set_cur pl j) (\<lambda>_. Ret (sint j, Some p)))
     else search pl k j)"

definition getFreeSDC_body :: "place \<Rightarrow> (int \<times> cam_ref option option) wprog" where
  "getFreeSDC_body pl =
     andThen (reads (\<lambda>w. map_option (\<lambda>ms. (ms_curSpdDomeCam ms, ms_totalSpdDomeCam ms)) (mission_in pl w)))
       (\<lambda>(j, n). search pl (unat n) j)"

definition getFreeSDC_prog :: "place \<Rightarrow> (int \<times> cam_ref option option) wprog" where
  "getFreeSDC_prog pl = scoped mu_SDC (getFreeSDC_body pl)"

text \<open>The members without a mutex\<close>

definition addCapDev_prog :: "place \<Rightarrow> CCaptureDevice \<Rightarrow> unit wprog" where
  "addCapDev_prog pl dev = act (member pl (\<lambda>cams ms. map_option (\<lambda>ms. ((), cams, ms)) (addCapDev ms dev)))"

definition showCfg_prog :: "place \<Rightarrow> unit wprog" where
  "showCfg_prog pl = reads (\<lambda>w. Option.bind (mission_in pl w) (showCfg (w_cams w)))"

definition match_prog :: "place \<Rightarrow> CCaptureDevice \<Rightarrow> int wprog" where
  "match_prog pl dev = reads (\<lambda>w. Option.bind (mission_in pl w) (\<lambda>ms. CMission_match ms dev))"

definition addPreset_prog :: "place \<Rightarrow> Preset \<Rightarrow> int wprog" where
  "addPreset_prog pl preset = act (member pl (\<lambda>cams ms. map_option (\<lambda>(r, cams). (r, cams, ms)) (addPreset cams ms preset)))"

section \<open>The functions on the missions\<close>

text \<open>The loops over the map up to the first call that returns 0\<close>

primrec try_each :: "(place \<Rightarrow> int wprog) \<Rightarrow> nat \<Rightarrow> nat \<Rightarrow> nat option wprog" where
  "try_each f 0 i = Ret None"
| "try_each f (Suc k) i = andThen (f (At i)) (\<lambda>r. if r = 0 then Ret (Some i) else try_each f k (Suc i))"

definition over_missions :: "(place \<Rightarrow> int wprog) \<Rightarrow> nat option wprog" where
  "over_missions f = andThen (reads (\<lambda>w. Some (length (w_missions w)))) (\<lambda>n. try_each f n 0)"

definition MissionMatch_body :: "CCaptureDevice \<Rightarrow> int wprog" where
  "MissionMatch_body dev = andThen (over_missions (\<lambda>pl. match_prog pl dev)) (\<lambda>r. case r of
     None \<Rightarrow> Ret (- 1)
   | Some i \<Rightarrow> reads (\<lambda>w. map_option (\<lambda>ms. sint (ms_missionNum ms)) (mission_in (At i) w)))"

definition MissionAddPreset_body :: "Preset \<Rightarrow> int wprog" where
  "MissionAddPreset_body preset = andThen (over_missions (\<lambda>pl. addPreset_prog pl preset))
     (\<lambda>r. Ret (case r of None \<Rightarrow> - 1 | Some _ \<Rightarrow> 0))"

text \<open>The loops that look for the mission with a number\<close>

definition with_mission :: "u32 \<Rightarrow> (nat \<Rightarrow> int wprog) \<Rightarrow> int wprog" where
  "with_mission num k = andThen (reads (\<lambda>w. Some (find_mission num w)))
     (\<lambda>r. case r of None \<Rightarrow> Ret (- 1) | Some i \<Rightarrow> k i)"

definition MissionAddSDC_body :: "CSpeedDomeCam \<Rightarrow> CSpeedDomeCam \<Rightarrow> int wprog" where
  "MissionAddSDC_body raw sdc = with_mission (sc_missionNum (dc_m_sdcCfg sdc))
     (\<lambda>i. andThen (addSDC_prog raw (At i) sdc) (\<lambda>_. Ret 0))"

definition MissionUpdateSDC_body :: "CSpeedDomeCam \<Rightarrow> CSpeedDomeCam \<Rightarrow> int wprog" where
  "MissionUpdateSDC_body raw sdc = with_mission (sc_missionNum (dc_m_sdcCfg sdc))
     (\<lambda>i. andThen (updateSDC_prog (At i) sdc)
       (\<lambda>r. if r = - 1 then andThen (addSDC_prog raw (At i) sdc) (\<lambda>_. Ret 0) else Ret 0))"

definition MissionAddCapDev_body :: "CCaptureDevice \<Rightarrow> int wprog" where
  "MissionAddCapDev_body dev = with_mission (cd_missionNum dev)
     (\<lambda>i. andThen (addCapDev_prog (At i) dev) (\<lambda>_. Ret 0))"

text \<open>
  A camera's move from one mission to another; \<open>missionNum\<close> is written through the shared pointer,
  under \<open>mu\<close> alone.
\<close>

definition move_SDC_prog :: "CSpeedDomeCam \<Rightarrow> missionGroupChgReq \<Rightarrow> place \<Rightarrow> place \<Rightarrow> cam_ref option \<Rightarrow> int wprog" where
  "move_SDC_prog raw req src dst sdc =
     andThen (act (\<lambda>w. map_option (\<lambda>cams. ((), w\<lparr>w_cams := cams\<rparr>)) (set_missionNum (gr_dts_num req) (w_cams w) sdc)))
       (\<lambda>_. andThen (addSDC_ptr_prog raw dst sdc)
         (\<lambda>_. andThen (showCfg_prog dst) (\<lambda>_. andThen (removeSDC_prog src (gr_num req)) (\<lambda>_. Ret 0))))"

definition MissionUpdateSDCMissionGroup_body :: "CSpeedDomeCam \<Rightarrow> missionGroupChgReq \<Rightarrow> int wprog" where
  "MissionUpdateSDCMissionGroup_body raw req =
     (if gr_ori_num req = - 1 then
        with_mission (gr_dts_num req) (\<lambda>i. andThen (getSDC_prog Unstart (gr_num req))
          (\<lambda>sdc. if sdc = None then Ret (- 1) else move_SDC_prog raw req Unstart (At i) sdc))
      else
        with_mission (gr_ori_num req) (\<lambda>i. andThen (getSDC_prog (At i) (gr_num req)) (move_SDC_prog raw req (At i) Unstart)))"

definition move_CapDev_prog :: "missionGroupChgReq \<Rightarrow> place \<Rightarrow> place \<Rightarrow> int wprog" where
  "move_CapDev_prog req src dst =
     andThen (getCapDev_prog src (gr_num req))
       (\<lambda>j. andThen (act (member src (\<lambda>cams ms. let ms = retag_CapDev (gr_dts_num req) j ms in Some (ms_capDev ms j, cams, ms))))
         (\<lambda>dev. andThen (addCapDev_prog dst dev)
           (\<lambda>_. andThen (showCfg_prog dst) (\<lambda>_. andThen (removeCapDev_prog src (gr_num req)) (\<lambda>_. Ret 0)))))"

definition MissionUpdateCapDevMissionGroup_body :: "missionGroupChgReq \<Rightarrow> int wprog" where
  "MissionUpdateCapDevMissionGroup_body req =
     (if gr_ori_num req = - 1 then with_mission (gr_dts_num req) (\<lambda>i. move_CapDev_prog req Unstart (At i))
      else with_mission (gr_ori_num req) (\<lambda>i. move_CapDev_prog req (At i) Unstart))"

text \<open>
  The calls of the missions; each holds \<open>mu\<close> from its first to its last line. The two without a \<open>return\<close>
  count as 0, which nobody reads.
\<close>

datatype mission_call =
  Call_MissionAdd CMission
| Call_MissionDelete CMission
| Call_MissionMatch CCaptureDevice
| Call_MissionAddSDC CSpeedDomeCam CSpeedDomeCam
| Call_MissionAddPreset Preset
| Call_MissionUpdateSDC CSpeedDomeCam CSpeedDomeCam
| Call_MissionUpdateSDCMissionGroup CSpeedDomeCam missionGroupChgReq
| Call_MissionUpdateCapDevMissionGroup missionGroupChgReq
| Call_MissionAddCapDev CCaptureDevice
| Call_MissionGet int

fun mission_body :: "mission_call \<Rightarrow> int wprog" where
  "mission_body (Call_MissionAdd msi) = act (\<lambda>w. Some (0, MissionAdd msi w))"
| "mission_body (Call_MissionDelete msi) = act (\<lambda>w. Some (0, MissionDelete msi w))"
| "mission_body (Call_MissionMatch dev) = MissionMatch_body dev"
| "mission_body (Call_MissionAddSDC raw sdc) = MissionAddSDC_body raw sdc"
| "mission_body (Call_MissionAddPreset preset) = MissionAddPreset_body preset"
| "mission_body (Call_MissionUpdateSDC raw sdc) = MissionUpdateSDC_body raw sdc"
| "mission_body (Call_MissionUpdateSDCMissionGroup raw req) = MissionUpdateSDCMissionGroup_body raw req"
| "mission_body (Call_MissionUpdateCapDevMissionGroup req) = MissionUpdateCapDevMissionGroup_body req"
| "mission_body (Call_MissionAddCapDev dev) = MissionAddCapDev_body dev"
| "mission_body (Call_MissionGet num) = reads (\<lambda>w. map_option (\<lambda>_. num) (MissionGet num w))"

text \<open>What each does alone: the functions of \<open>MissionMap\<close>\<close>

fun mission_run :: "mission_call \<Rightarrow> world \<Rightarrow> (int \<times> world) option" where
  "mission_run (Call_MissionAdd msi) w = Some (0, MissionAdd msi w)"
| "mission_run (Call_MissionDelete msi) w = Some (0, MissionDelete msi w)"
| "mission_run (Call_MissionMatch dev) w = map_option (\<lambda>r. (r, w)) (MissionMatch dev w)"
| "mission_run (Call_MissionAddSDC raw sdc) w = MissionAddSDC raw sdc w"
| "mission_run (Call_MissionAddPreset preset) w = MissionAddPreset preset w"
| "mission_run (Call_MissionUpdateSDC raw sdc) w = MissionUpdateSDC raw sdc w"
| "mission_run (Call_MissionUpdateSDCMissionGroup raw req) w = MissionUpdateSDCMissionGroup raw req w"
| "mission_run (Call_MissionUpdateCapDevMissionGroup req) w = MissionUpdateCapDevMissionGroup req w"
| "mission_run (Call_MissionAddCapDev dev) w = MissionAddCapDev dev w"
| "mission_run (Call_MissionGet num) w = map_option (\<lambda>_. (num, w)) (MissionGet num w)"

definition mission_prog :: "mission_call \<Rightarrow> int wprog" where
  "mission_prog call = scoped mu (mission_body call)"

text \<open>The calls of a mission's members that hold \<open>mu_SDC\<close> to their end\<close>

datatype member_call =
  Call_getFreeSDC place
| Call_updateCapdev place CCaptureDevice
| Call_addSDC CSpeedDomeCam place CSpeedDomeCam
| Call_updateSDC place CSpeedDomeCam
| Call_removeSDC place string

abbreviation with_int :: "int wprog \<Rightarrow> (int \<times> cam_ref option option) wprog" where
  "with_int p \<equiv> andThen p (\<lambda>r. Ret (r, None))"

fun member_body :: "member_call \<Rightarrow> (int \<times> cam_ref option option) wprog" where
  "member_body (Call_getFreeSDC pl) = getFreeSDC_body pl"
| "member_body (Call_updateCapdev pl dev) =
     act (member pl (\<lambda>cams ms. map_option (\<lambda>(r, ms). ((r, None), cams, ms)) (updateCapdev cams ms dev)))"
| "member_body (Call_addSDC raw pl sdc) = act (member pl (\<lambda>cams ms. map_option (Pair (0, None)) (addSDC raw cams ms sdc)))"
| "member_body (Call_updateSDC pl sdc) =
     act (member pl (\<lambda>cams ms. map_option (\<lambda>(r, x). ((r, None), x)) (updateSDC cams ms sdc)))"
| "member_body (Call_removeSDC pl camNum) =
     act (member pl (\<lambda>cams ms. map_option (\<lambda>(r, ms). ((r, None), cams, ms)) (removeSDC cams ms camNum)))"

section \<open>The handlers\<close>

text \<open>
  What a handler does to the shared world: the requests of a client by their types, the update of a client, the
  messages of a device that need its mission, and the accesses to a camera through the device's pointer (tour,
  reload, stop), which hold no mutex.
\<close>

datatype handler =
  On_add_SDC CSpeedDomeCam CSpeedDomeCam
| On_update_SDC CSpeedDomeCam CSpeedDomeCam
| On_change_group CSpeedDomeCam missionGroupChgReq
| On_add_group CMission
| On_update
| On_login CCaptureDevice
| On_next_mission CCaptureDevice
| On_first_mission CCaptureDevice
| On_snapshot CCaptureDevice IlligalProcResult
| On_camera "cam_ref option" "(CSpeedDomeCam \<Rightarrow> CSpeedDomeCam) list"

text \<open>The loops of an update are one action each.\<close>

definition update_prog :: "int wprog" where
  "update_prog = scoped cfg_mtx
     (andThen (reads (\<lambda>w. Some (map (\<lambda>(k, ms). ms_missionNum ms) (w_missions w))))
       (\<lambda>_. andThen (reads (\<lambda>w. Some (map snd (w_missions w))))
         (\<lambda>_. andThen (reads (\<lambda>w. Some (w_unstart w)))
           (\<lambda>_. andThen (reads (\<lambda>w. Some (w_results w))) (\<lambda>_. Ret 0)))))"

definition match_then :: "CCaptureDevice \<Rightarrow> (int \<Rightarrow> int wprog) \<Rightarrow> int wprog" where
  "match_then dev k = andThen (mission_prog (Call_MissionMatch dev)) k"

text \<open>A free camera of the mission of key \<open>n\<close>, and the mission's copy of the device that gets it\<close>

definition free_camera_prog :: "CCaptureDevice \<Rightarrow> int \<Rightarrow> int wprog" where
  "free_camera_prog dev n = andThen (getFreeSDC_prog (Key n)) (\<lambda>(_, p). case p of
     Some (Some r) \<Rightarrow> andThen (reads (\<lambda>w. deref (w_cams w) (Some r)))
       (\<lambda>_. updateCapdev_prog (Key n) (dev\<lparr>cd_missionNum := word_of_int n, cd_SpdDomeCam := Some r, cd_isOnline := 1\<rparr>))
   | _ \<Rightarrow> Ret (- 1))"

text \<open>The next mission of a device: without a free camera it keeps the one it has.\<close>

definition next_mission_prog :: "CCaptureDevice \<Rightarrow> int \<Rightarrow> int wprog" where
  "next_mission_prog dev n = andThen (getFreeSDC_prog (Key n)) (\<lambda>(_, p).
     let dev = (case p of None \<Rightarrow> dev | Some p \<Rightarrow> dev\<lparr>cd_SpdDomeCam := p\<rparr>)
     in andThen (updateCapdev_prog (Key n) (dev\<lparr>cd_missionNum := word_of_int n\<rparr>))
       (\<lambda>r. andThen (reads (\<lambda>w. deref (w_cams w) (cd_SpdDomeCam dev))) (\<lambda>_. Ret r)))"

fun handler_prog :: "handler \<Rightarrow> int wprog" where
  "handler_prog (On_add_SDC raw sdc) = scoped cfg_mtx (andThen (addSDC_prog raw Unstart sdc) (\<lambda>_. Ret 0))"
| "handler_prog (On_update_SDC raw sdc) = scoped cfg_mtx
     (andThen (if sc_missionNum (dc_m_sdcCfg sdc) = - 1 then updateSDC_prog Unstart sdc
               else mission_prog (Call_MissionUpdateSDC raw sdc))
       (\<lambda>_. updateSDC_prog Unstart sdc))"
| "handler_prog (On_change_group raw req) =
     (if gr_type req = 0 then mission_prog (Call_MissionUpdateSDCMissionGroup raw req)
      else if gr_type req = 1 then mission_prog (Call_MissionUpdateCapDevMissionGroup req)
      else Ret 0)"
| "handler_prog (On_add_group msi) = mission_prog (Call_MissionAdd msi)"
| "handler_prog On_update = update_prog"
| "handler_prog (On_login dev) = match_then dev (\<lambda>n. if n = - 1 then Ret (- 1)
     else andThen (mission_prog (Call_MissionGet n)) (free_camera_prog dev))"
| "handler_prog (On_next_mission dev) = match_then dev (\<lambda>n. if n = - 1 then Ret (- 1)
     else andThen (mission_prog (Call_MissionGet n)) (next_mission_prog dev))"
| "handler_prog (On_first_mission dev) = match_then dev (\<lambda>n. andThen (mission_prog (Call_MissionGet n))
     (\<lambda>n. if n = - 1 then Ret (- 1) else free_camera_prog dev n))"
| "handler_prog (On_snapshot dev res) = match_then dev (\<lambda>n. andThen (mission_prog (Call_MissionGet n))
     (\<lambda>_. act (\<lambda>w. Some (0, w\<lparr>w_results := w_results w @ [res]\<rparr>))))"
| "handler_prog (On_camera p fs) = foldr (\<lambda>f k. andThen
     (act (\<lambda>w. map_option (\<lambda>cams. ((), w\<lparr>w_cams := cams\<rparr>)) (upd_cam (w_cams w) p f))) (\<lambda>_. k)) fs (Ret 0)"

section \<open>The programs run alone\<close>

named_theorems prog_defs \<open>the programs of the members\<close>

lemmas [prog_defs] = updateSDC_prog_def addSDC_prog_def addSDC_ptr_prog_def removeSDC_prog_def getSDC_prog_def
  updateCapdev_prog_def removeCapDev_prog_def getCapDev_prog_def addCapDev_prog_def showCfg_prog_def
  match_prog_def addPreset_prog_def member_def

lemma put_in_get: "pl = Unstart \<or> (\<exists>i. pl = At i \<and> i < length (w_missions w)) \<Longrightarrow>
    mission_in pl (put_in pl cams ms w) = Some ms"
  by (auto simp: mission_at_def set_mission_def)

lemma set_mission_fields [simp]:
  "length (w_missions (set_mission i ms w)) = length (w_missions w)"
  "w_cams (set_mission i ms w) = w_cams w" "w_unstart (set_mission i ms w) = w_unstart w"
  by (simp_all add: set_mission_def)

lemma set_mission_again [simp]: "i < length (w_missions w) \<Longrightarrow> set_mission i ms (set_mission i ms' w) = set_mission i ms w"
  by (simp add: set_mission_def)

lemma mission_at_cams [simp]: "mission_at i (w\<lparr>w_cams := cams\<rparr>) = mission_at i w"
  "mission_at i (w\<lparr>w_unstart := un\<rparr>) = mission_at i w"
  by (simp_all add: mission_at_def)

lemma set_mission_commute [simp]:
  "(set_mission i ms w)\<lparr>w_cams := cams\<rparr> = set_mission i ms (w\<lparr>w_cams := cams\<rparr>)"
  "(set_mission i ms w)\<lparr>w_unstart := un\<rparr> = set_mission i ms (w\<lparr>w_unstart := un\<rparr>)"
  by (simp_all add: set_mission_def)

lemma solo_with_mission: "solo (with_mission num k) w =
    (case find_mission num w of None \<Rightarrow> Some (- 1, w) | Some i \<Rightarrow> solo (k i) w)"
  by (simp add: with_mission_def split: option.split)

lemma world_commute: "w\<lparr>w_unstart := un, w_cams := cams\<rparr> = w\<lparr>w_cams := cams, w_unstart := un\<rparr>"
  by (cases w) simp

lemma find_mission_length: "find_mission num w = Some i \<Longrightarrow> i < length (w_missions w)"
  by (simp add: find_mission_Some)

lemma mission_at_set_same [simp]: "i < length (w_missions w) \<Longrightarrow> mission_at i (set_mission i ms w) = ms"
  by (simp add: mission_at_def set_mission_def)

lemma solo_MissionAddSDC: "solo (MissionAddSDC_body raw sdc) = MissionAddSDC raw sdc"
  by (auto simp: fun_eq_iff MissionAddSDC_body_def MissionAddSDC_def solo_with_mission prog_defs
     
      dest!: find_mission_length split: option.split bind_splits)

lemma solo_MissionUpdateSDC: "solo (MissionUpdateSDC_body raw sdc) = MissionUpdateSDC raw sdc"
  by (auto simp: fun_eq_iff MissionUpdateSDC_body_def MissionUpdateSDC_def solo_with_mission prog_defs
     
      dest!: find_mission_length split: option.split bind_splits)

lemma solo_MissionAddCapDev: "solo (MissionAddCapDev_body dev) = MissionAddCapDev dev"
  by (auto simp: fun_eq_iff MissionAddCapDev_body_def MissionAddCapDev_def solo_with_mission prog_defs
     
      dest!: find_mission_length split: option.split bind_splits)

lemma solo_MissionUpdateSDCMissionGroup:
  "solo (MissionUpdateSDCMissionGroup_body raw req) = MissionUpdateSDCMissionGroup raw req"
  by (auto simp: fun_eq_iff MissionUpdateSDCMissionGroup_body_def MissionUpdateSDCMissionGroup_def move_SDC_prog_def
      move_SDC_in_def move_SDC_out_def world_commute solo_with_mission prog_defs
      dest!: find_mission_length split: option.split bind_splits)

lemma solo_MissionUpdateCapDevMissionGroup:
  "solo (MissionUpdateCapDevMissionGroup_body req) = MissionUpdateCapDevMissionGroup req"
  by (auto simp: fun_eq_iff MissionUpdateCapDevMissionGroup_body_def MissionUpdateCapDevMissionGroup_def move_CapDev_prog_def
      move_CapDev_in_def move_CapDev_out_def solo_with_mission prog_defs Let_def
      dest!: find_mission_length split: option.split bind_splits)

lemma missions_drop:
  assumes "i < length (w_missions w)"
  shows "drop i (w_missions w) = (fst (w_missions w ! i), mission_at i w) # drop (Suc i) (w_missions w)"
  using assms by (simp add: Cons_nth_drop_Suc mission_at_def)

lemma solo_try_match:
  "i + k = length (w_missions w) \<Longrightarrow>
     Option.bind (solo (try_each (\<lambda>pl. match_prog pl dev) k i) w)
       (\<lambda>(r, w). solo (case r of None \<Rightarrow> Ret (- 1)
         | Some i \<Rightarrow> reads (\<lambda>w. map_option (\<lambda>ms. sint (ms_missionNum ms)) (mission_in (At i) w))) w) =
     map_option (\<lambda>r. (r, w)) (MissionMatch_loop (drop i (w_missions w)) dev)"
proof (induction k arbitrary: i)
  case 0
  then show ?case by simp
next
  case (Suc k)
  then have "i < length (w_missions w)" by simp
  with Suc.IH [of "Suc i"] Suc.prems show ?case
    by (cases "CMission_match (mission_at i w) dev") (simp_all add: missions_drop match_prog_def del: mission_in.simps(2), auto)
qed

lemma solo_MissionMatch: "solo (MissionMatch_body dev) w = map_option (\<lambda>r. (r, w)) (MissionMatch dev w)"
  using solo_try_match [of 0 "length (w_missions w)" w dev]
  by (simp add: MissionMatch_body_def over_missions_def MissionMatch_def)

lemma solo_try_preset:
  "i + k = length (w_missions w) \<Longrightarrow>
     map_option (\<lambda>(r, w). (case r of None \<Rightarrow> - 1 | Some _ \<Rightarrow> 0, w)) (solo (try_each (\<lambda>pl. addPreset_prog pl preset) k i) w) =
     map_option (\<lambda>(r, cams). (r, w\<lparr>w_cams := cams\<rparr>)) (MissionAddPreset_loop (w_cams w) (drop i (w_missions w)) preset)"
proof (induction k arbitrary: i w)
  case 0
  then show ?case by simp
next
  case (Suc k)
  then have "i < length (w_missions w)" by simp
  moreover have "set_mission i (mission_at i w) (w\<lparr>w_cams := cams\<rparr>) = w\<lparr>w_cams := cams\<rparr>" for cams
    using calculation by (simp add: set_mission_def mission_at_def)
  ultimately show ?case using Suc.IH [of "Suc i" "w\<lparr>w_cams := c\<rparr>" for c] Suc.prems
    by (auto simp: missions_drop addPreset_prog_def member_def split: bind_splits)
qed

lemma solo_MissionAddPreset: "solo (MissionAddPreset_body preset) = MissionAddPreset preset"
proof
  fix w
  show "solo (MissionAddPreset_body preset) w = MissionAddPreset preset w"
    using solo_try_preset [of 0 "length (w_missions w)" w preset]
    by (auto simp: MissionAddPreset_body_def over_missions_def MissionAddPreset_def split: bind_splits)
qed

lemma solo_mission_body: "solo (mission_body call) = mission_run call"
  by (cases call) (simp_all add: fun_eq_iff solo_MissionAddSDC solo_MissionUpdateSDC solo_MissionAddCapDev
      solo_MissionUpdateSDCMissionGroup solo_MissionUpdateCapDevMissionGroup solo_MissionMatch solo_MissionAddPreset
      option.map_comp comp_def)

section \<open>The order of the mutexes\<close>

text \<open>Rules that follow the shape of a program, for the judgements \<open>locks\<close> and \<open>inner\<close>\<close>

lemmas locks_rules = locks_andThen locks_act locks.Ret

lemmas inner_rules = inner_andThen inner_act inner.Ret inner_scoped

named_theorems member_locks \<open>the members of a mission take only \<open>mu_SDC\<close>\<close>

text \<open>What takes no mutex, and what takes \<open>mu_SDC\<close> for one action\<close>

lemma member_scoped [member_locks]: "mu_SDC \<notin> H \<Longrightarrow> locks mutex_rank H (scoped mu_SDC (act f)) H"
proof -
  assume *: "mu_SDC \<notin> H"
  have "\<forall>h \<in> H. mutex_rank h < mutex_rank mu_SDC"
  proof
    fix h assume "h \<in> H"
    with * show "mutex_rank h < mutex_rank mu_SDC" by (cases h) auto
  qed
  then show ?thesis by (intro locks_scoped) simp_all
qed

lemma locks_search: "locks mutex_rank H (search pl k j) H"
  by (induction k arbitrary: j)
    (auto simp: look_def mark_def set_cur_def intro!: locks_rules split: prod.split)

lemma locks_try_each: "(\<And>i. locks mutex_rank H (f (At i)) H) \<Longrightarrow> locks mutex_rank H (try_each f k i) H"
  by (induction k arbitrary: i) (auto intro!: locks_rules)

lemma locks_with_mission: "(\<And>i. locks mutex_rank H (k i) H) \<Longrightarrow> locks mutex_rank H (with_mission num k) H"
  unfolding with_mission_def by (intro locks_rules) (auto split: option.split)

lemma locks_mission_body: "mu_SDC \<notin> H \<Longrightarrow> locks mutex_rank H (mission_body call) H"
  by (cases call)
    (auto simp: MissionMatch_body_def MissionAddPreset_body_def over_missions_def MissionAddSDC_body_def
      MissionUpdateSDC_body_def MissionAddCapDev_body_def MissionUpdateSDCMissionGroup_body_def
      MissionUpdateCapDevMissionGroup_body_def move_SDC_prog_def move_CapDev_prog_def prog_defs
      intro!: locks_rules locks_try_each locks_with_mission member_locks split: option.split)

lemma inner_try_each: "(\<And>i. inner m (f (At i))) \<Longrightarrow> inner m (try_each f k i)"
  by (induction k arbitrary: i) (auto intro!: inner_rules)

lemma inner_with_mission: "(\<And>i. inner m (k i)) \<Longrightarrow> inner m (with_mission num k)"
  unfolding with_mission_def by (intro inner_rules) (auto split: option.split)

lemma inner_search: "inner m (search pl k j)"
  by (induction k arbitrary: j) (auto simp: look_def mark_def set_cur_def intro!: inner_rules split: prod.split)

lemma inner_mission_body: "inner mu (mission_body call)"
  by (cases call)
    (auto simp: MissionMatch_body_def MissionAddPreset_body_def over_missions_def MissionAddSDC_body_def
      MissionUpdateSDC_body_def MissionAddCapDev_body_def MissionUpdateSDCMissionGroup_body_def
      MissionUpdateCapDevMissionGroup_body_def move_SDC_prog_def move_CapDev_prog_def prog_defs
      intro!: inner_rules inner_try_each inner_with_mission split: option.split)

interpretation mission_calls: locked_ops mutex_rank mu mission_body mission_run
  by unfold_locales (simp_all add: locks_mission_body inner_mission_body solo_mission_body)

section \<open>The search for a free camera\<close>

text \<open>What a call of a member does alone: the operation of \<open>Mission\<close>\<close>

fun member_run :: "member_call \<Rightarrow> world \<Rightarrow> ((int \<times> cam_ref option option) \<times> world) option" where
  "member_run (Call_getFreeSDC pl) w =
     member pl (\<lambda>cams ms. map_option (\<lambda>(r, p, x). ((r, p), x)) (getFreeSDC cams ms)) w"
| "member_run (Call_updateCapdev pl dev) w =
     member pl (\<lambda>cams ms. map_option (\<lambda>(r, ms). ((r, None), cams, ms)) (updateCapdev cams ms dev)) w"
| "member_run (Call_addSDC raw pl sdc) w = member pl (\<lambda>cams ms. map_option (Pair (0, None)) (addSDC raw cams ms sdc)) w"
| "member_run (Call_updateSDC pl sdc) w =
     member pl (\<lambda>cams ms. map_option (\<lambda>(r, x). ((r, None), x)) (updateSDC cams ms sdc)) w"
| "member_run (Call_removeSDC pl camNum) w =
     member pl (\<lambda>cams ms. map_option (\<lambda>(r, ms). ((r, None), cams, ms)) (removeSDC cams ms camNum)) w"

lemma mission_in_cams [simp]: "mission_in pl (w\<lparr>w_cams := cams\<rparr>) = mission_in pl w"
  by (cases pl) (simp_all add: MissionGet_def)

lemma put_in_cams [simp]: "put_in pl cams ms (w\<lparr>w_cams := c\<rparr>) = put_in pl cams ms w"
  by (cases pl) (simp_all add: set_mission_def split: option.split)

lemma solo_search:
  assumes "mission_in pl w = Some ms"
  shows "solo (search pl k j) w =
    (case getFreeSDC_loop (w_cams w) ms k j of
       None \<Rightarrow> None
     | Some None \<Rightarrow> Some ((- 1, None), w)
     | Some (Some j) \<Rightarrow> (let p = ms_SpdDomeCam ms (unat j)
         in map_option (\<lambda>cams. ((sint j, Some p), put_in pl cams (ms\<lparr>ms_curSpdDomeCam := j\<rparr>) w))
              (upd_cam (w_cams w) p (\<lambda>c. c\<lparr>dc_isUsing := BUSY\<rparr>))))"
proof (induction k arbitrary: j)
  case 0
  then show ?case by simp
next
  case (Suc k)
  let ?j = "if j + 1 > ms_totalSpdDomeCam ms - 1 then 0 else j + 1"
  show ?case
  proof (cases "SDC_at (w_cams w) ms (unat ?j)")
    case None
    with assms show ?thesis by (simp add: look_def Let_def del: unat_0)
  next
    case (Some c)
    have look: "solo (look pl j) w = Some ((?j, dc_isUsing c = FREE), w)"
      using Some assms unfolding look_def solo_act by (simp add: Let_def)
    show ?thesis
    proof (cases "dc_isUsing c = FREE")
      case True
      with look Some assms show ?thesis
        unfolding search.simps solo_andThen look
        by (simp add: mark_def set_cur_def member_def Let_def split: bind_splits)
    next
      case False
      with look Some Suc.IH [of ?j] show ?thesis
        unfolding search.simps solo_andThen look by (simp add: Let_def)
    qed
  qed
qed

lemma map_of_find_index:
  "map_of xs k = (case find_index (\<lambda>(l, _). l = k) xs of None \<Rightarrow> None | Some i \<Rightarrow> Some (snd (xs ! i)))"
  by (induction xs) (auto split: option.split)

lemma put_in_same: "mission_in pl w = Some ms \<Longrightarrow> put_in pl (w_cams w) ms w = w"
proof (cases pl)
  case (Key k)
  assume "mission_in pl w = Some ms"
  with Key find_index_Some [of "\<lambda>(l, _). l = k" "w_missions w"] show ?thesis
    by (auto simp: MissionGet_def map_of_find_index set_mission_def list_update_same_conv prod_eq_iff split: option.splits)
qed (auto simp: set_mission_def mission_at_def list_update_same_conv prod_eq_iff split: if_splits)

lemma solo_getFreeSDC_body: "solo (getFreeSDC_body pl) = member_run (Call_getFreeSDC pl)"
proof
  fix w
  show "solo (getFreeSDC_body pl) w = member_run (Call_getFreeSDC pl) w"
  proof (cases "mission_in pl w")
    case None
    then show ?thesis by (simp add: getFreeSDC_body_def member_def)
  next
    case (Some ms)
    with put_in_same [OF Some] show ?thesis
      by (auto simp: getFreeSDC_body_def member_def getFreeSDC_def solo_search Let_def
          split: option.splits bind_splits)
  qed
qed

interpretation member_calls: locked_ops mutex_rank mu_SDC member_body member_run
proof
  fix call
  show "locks mutex_rank {mu_SDC} (member_body call) {mu_SDC}"
    by (cases call) (auto simp: getFreeSDC_body_def intro!: locks_rules locks_search split: prod.split)
  show "inner mu_SDC (member_body call)"
    by (cases call) (auto simp: getFreeSDC_body_def intro!: inner_rules inner_search split: prod.split)
  show "solo (member_body call) = member_run call"
    by (cases call) (auto simp: fun_eq_iff solo_getFreeSDC_body)
qed

end
