(* ===== verification/Concurrency.thy ===== *)
theory Concurrency
  imports Locks
begin

text \<open>
  What the mutexes achieve, and what they do not: calls that hold one mutex take effect one after another,
  no two searches find one camera, and no set of handlers deadlocks; but the loops over the missions and over
  their devices are guarded by different mutexes and run at the same time.
\<close>

section \<open>Free cameras\<close>

lemma map_of_list_update:
  assumes "find_index (\<lambda>(l, _). l = k) xs = Some i"
  shows "map_of (xs[i := (fst (xs ! i), v)]) l = (if l = k then Some v else map_of xs l)"
  using assms
proof (induction xs arbitrary: i)
  case Nil
  then show ?case by simp
next
  case (Cons x xs)
  then show ?case by (cases x) (auto split: if_splits)
qed

text \<open>After a store to the mission at one place the other places hold what they held.\<close>

lemma find_index_list_update:
  "i < length xs \<Longrightarrow> find_index (\<lambda>(l, _). l = k) (xs[i := (fst (xs ! i), v)]) = find_index (\<lambda>(l, _). l = k) xs"
proof (induction xs arbitrary: i)
  case (Cons x xs)
  then show ?case by (cases i) (auto split: prod.splits)
qed simp

lemma mission_in_set_mission:
  assumes "i < length (w_missions w)" and "mission_in pl (set_mission i ms2 w) = Some ms'"
  shows "ms' = ms2 \<and> mission_in pl w = Some (mission_at i w) \<or> mission_in pl w = Some ms'"
proof (cases pl)
  case (Key k)
  with assms show ?thesis
    using find_index_Some [of "\<lambda>(l, _). l = k" "w_missions w"]
    by (auto simp: MissionGet_def map_of_find_index set_mission_def mission_at_def find_index_list_update nth_list_update
        split: option.splits if_splits)
qed (use assms in \<open>auto simp: set_mission_def mission_at_def nth_list_update split: if_splits\<close>)

lemma mission_in_put_in:
  assumes "mission_in pl w = Some ms" and "mission_in pl' (put_in pl cams ms2 w) = Some ms'"
  shows "ms' = ms2 \<and> mission_in pl' w = Some ms \<or> mission_in pl' w = Some ms'"
proof (cases pl)
  case Unstart
  have "mission_in pl' (w\<lparr>w_cams := cams, w_unstart := ms2\<rparr>) =
      (if pl' = Unstart then Some ms2 else mission_in pl' w)"
    by (cases pl') (simp_all add: MissionGet_def mission_at_def)
  with assms Unstart show ?thesis by (auto split: if_splits)
next
  case (At i)
  with assms mission_in_set_mission [of i "w\<lparr>w_cams := cams\<rparr>" pl' ms2 ms'] show ?thesis by (auto split: if_splits)
next
  case (Key k)
  with assms(1) find_index_Some [of "\<lambda>(l, _). l = k" "w_missions w"] obtain i where
    i: "find_index (\<lambda>(l, _). l = k) (w_missions w) = Some i" "i < length (w_missions w)" "mission_at i w = ms"
    by (auto simp: MissionGet_def map_of_find_index mission_at_def split: option.splits)
  with assms Key mission_in_set_mission [of i "w\<lparr>w_cams := cams\<rparr>" pl' ms2 ms'] show ?thesis by auto
qed

lemma w_cams_put_in [simp]: "w_cams (put_in pl cams ms w) = cams"
  by (cases pl) (simp_all add: set_mission_def split: option.split)

text \<open>The missions, wherever they are, with the same cameras in the same slots\<close>

definition same_slots :: "world \<Rightarrow> world \<Rightarrow> bool" where
  "same_slots w v \<longleftrightarrow> (\<forall>pl ms'. mission_in pl v = Some ms' \<longrightarrow>
     (\<exists>ms. mission_in pl w = Some ms \<and> ms_SpdDomeCam ms' = ms_SpdDomeCam ms \<and>
        ms_totalSpdDomeCam ms' = ms_totalSpdDomeCam ms))"

lemma same_slots_refl [simp]: "same_slots w w"
  by (auto simp: same_slots_def)

lemma same_slots_trans: "same_slots w v \<Longrightarrow> same_slots v u \<Longrightarrow> same_slots w u"
  by (fastforce simp: same_slots_def)

definition cams_wf :: "world \<Rightarrow> bool" where
  "cams_wf w \<longleftrightarrow> (\<forall>pl ms. mission_in pl w = Some ms \<longrightarrow> wf_cams (w_cams w, ms))"

lemma cams_wf_same: "cams_wf w \<Longrightarrow> same_slots w v \<Longrightarrow> length (w_cams v) = length (w_cams w) \<Longrightarrow> cams_wf v"
  by (fastforce simp: cams_wf_def same_slots_def wf_cams_def)

lemma world_inv_cams_wf: "world_inv w \<Longrightarrow> cams_wf w"
  unfolding cams_wf_def
proof (intro allI impI)
  fix pl ms assume "world_inv w" "mission_in pl w = Some ms"
  then have "wf_mission (w_cams w) ms"
    by (cases pl) (auto simp: MissionGet_inv mission_at_inv split: if_splits, auto simp: world_inv_def)
  then show "wf_cams (w_cams w, ms)" by (simp add: wf_mission_def)
qed

definition all_busy :: "place \<Rightarrow> world \<Rightarrow> bool" where
  "all_busy pl w \<longleftrightarrow> (\<forall>ms. mission_in pl w = Some ms \<longrightarrow> (\<forall>c \<in> set (cam_list (w_cams w, ms)). dc_isUsing c = BUSY))"

lemma free_step:
  assumes "cams_wf v" and "member_run (Call_getFreeSDC pl) v = Some ((k, g), v')"
  shows "same_slots v v' \<and> (g = None \<and> v' = v \<and> all_busy pl v \<or>
    (\<exists>r < length (w_cams v). g = Some (Some r) \<and> dc_isUsing (w_cams v ! r) = FREE \<and>
      w_cams v' = (w_cams v)[r := (w_cams v ! r)\<lparr>dc_isUsing := BUSY\<rparr>]))"
proof -
  from assms(2) obtain ms where ms: "mission_in pl v = Some ms" by (auto simp: member_def bind_eq_Some_conv)
  with assms(1) have wf: "wf_cams (w_cams v, ms)" by (simp add: cams_wf_def)
  show ?thesis
  proof (cases "free_slot (w_cams v, ms)")
    case None
    then have "all_busy pl v" using ms by (auto simp: free_slot_None all_busy_def) (metis SDCSTTAUS.exhaust)
    with None assms(2) ms show ?thesis
      by (auto simp: member_def getFreeSDC_eq [OF wf] put_in_same)
  next
    case (Some j)
    from free_slot_Some [OF wf Some] have j: "j < unat (ms_totalSpdDomeCam ms)"
      "dc_isUsing (cam_list (w_cams v, ms) ! j) = FREE" by auto
    let ?r = "cam_refs ms ! j" and ?ms = "ms\<lparr>ms_curSpdDomeCam := word_of_nat j\<rparr>"
    have r: "?r < length (w_cams v)" "dc_isUsing (w_cams v ! ?r) = FREE"
      using SDC_at_wf(2) [OF wf j(1)] j by (auto simp: cam_list_def cam_refs_def)
    have v': "v' = put_in pl ((w_cams v)[?r := (w_cams v ! ?r)\<lparr>dc_isUsing := BUSY\<rparr>]) ?ms v" "g = Some (Some ?r)"
      using assms(2) ms by (auto simp: member_def getFreeSDC_eq [OF wf] Some Let_def)
    have "same_slots v v'"
      unfolding same_slots_def v' using mission_in_put_in [OF ms] by fastforce
    with r v' show ?thesis by auto
  qed
qed

text \<open>
  What holds between the calls: a camera is as it was or busy; a call that got one got a camera that
  was free before; two calls got two; one that got none found all cameras of its mission busy.
\<close>

definition served :: "world \<Rightarrow> world \<Rightarrow> (int \<times> cam_ref option option) \<Rightarrow> place \<Rightarrow> bool" where
  "served w v result pl \<longleftrightarrow>
     (case snd result of
        None \<Rightarrow> all_busy pl v
      | Some p \<Rightarrow> \<exists>r < length (w_cams w). p = Some r \<and> dc_isUsing (w_cams w ! r) = FREE \<and>
          dc_isUsing (w_cams v ! r) = BUSY)"

definition serving :: "place list \<Rightarrow> world \<Rightarrow> (int \<times> cam_ref option option) option list \<times> world \<Rightarrow> bool" where
  "serving pls w st \<longleftrightarrow> (case st of (rs, v) \<Rightarrow>
     length rs = length pls \<and> length (w_cams v) = length (w_cams w) \<and> same_slots w v \<and>
     (\<forall>r < length (w_cams w). dc_isUsing (w_cams v ! r) = BUSY \<or> w_cams v ! r = w_cams w ! r) \<and>
     (\<forall>i < length pls. \<forall>x. rs ! i = Some x \<longrightarrow> served w v x (pls ! i)) \<and>
     (\<forall>i < length pls. \<forall>j < length pls. \<forall>x y. i \<noteq> j \<and> rs ! i = Some x \<and> rs ! j = Some y \<and> snd x = snd y \<longrightarrow> snd x = None))"

text \<open>A busy camera stays busy, so what was served stays served.\<close>

lemma served_mono:
  assumes "served w v x pl" and "same_slots v v'" and "length (w_cams v') = length (w_cams v)" and "cams_wf v"
    and "length (w_cams v) = length (w_cams w)"
    and "\<forall>r < length (w_cams v). dc_isUsing (w_cams v ! r) = BUSY \<longrightarrow> dc_isUsing (w_cams v' ! r) = BUSY"
  shows "served w v' x pl"
proof (cases "snd x")
  case (Some p)
  with assms show ?thesis by (auto simp: served_def)
next
  case None
  have "dc_isUsing c = BUSY" if m: "mission_in pl v' = Some ms'" and c: "c \<in> set (cam_list (w_cams v', ms'))" for ms' c
  proof -
    from m assms(2) obtain ms where ms: "mission_in pl v = Some ms" "ms_SpdDomeCam ms' = ms_SpdDomeCam ms"
      "ms_totalSpdDomeCam ms' = ms_totalSpdDomeCam ms" by (auto simp: same_slots_def)
    then have refs: "cam_refs ms' = cam_refs ms" by (simp add: cam_refs_def)
    with c obtain r where r: "r \<in> set (cam_refs ms)" "c = w_cams v' ! r" by (auto simp: cam_list_def)
    have "w_cams v ! r \<in> set (cam_list (w_cams v, ms))" using r(1) by (simp add: cam_list_def)
    with assms(1) None ms(1) have "dc_isUsing (w_cams v ! r) = BUSY" by (auto simp: served_def all_busy_def)
    moreover have "r < length (w_cams v)"
      using assms(4) ms(1) r(1) by (fastforce simp: cams_wf_def wf_cams_def cam_refs_def)
    ultimately show ?thesis using assms(6) r(2) by simp
  qed
  with None show ?thesis by (simp add: served_def all_busy_def)
qed

lemma serving_step:
  assumes "serving pls w (rs, v)" and "cams_wf w"
    and "calls member_run (map Call_getFreeSDC pls) i (rs, v) = Some (rs', v')"
  shows "serving pls w (rs', v')"
proof -
  from assms(1) have inv: "length rs = length pls" "length (w_cams v) = length (w_cams w)" "same_slots w v"
    "\<forall>r < length (w_cams w). dc_isUsing (w_cams v ! r) = BUSY \<or> w_cams v ! r = w_cams w ! r"
    "\<And>j x. j < length pls \<Longrightarrow> rs ! j = Some x \<Longrightarrow> served w v x (pls ! j)"
    "\<And>j k x y. j < length pls \<Longrightarrow> k < length pls \<Longrightarrow> j \<noteq> k \<Longrightarrow> rs ! j = Some x \<Longrightarrow> rs ! k = Some y \<Longrightarrow>
      snd x = snd y \<Longrightarrow> snd x = None"
    by (auto simp: serving_def)
  from assms(3) obtain x where i: "i < length pls" "rs ! i = None" "rs' = rs[i := Some x]"
    and run: "member_run (Call_getFreeSDC (pls ! i)) v = Some (x, v')" by (auto split: if_splits)
  from cams_wf_same [OF assms(2) inv(3,2)] have wf: "cams_wf v" .
  from free_step [OF wf, of "pls ! i" "fst x" "snd x" v'] run have
    step: "same_slots v v' \<and> (snd x = None \<and> v' = v \<and> all_busy (pls ! i) v \<or>
      (\<exists>r < length (w_cams v). snd x = Some (Some r) \<and> dc_isUsing (w_cams v ! r) = FREE \<and>
        w_cams v' = (w_cams v)[r := (w_cams v ! r)\<lparr>dc_isUsing := BUSY\<rparr>]))" by simp
  then have len: "length (w_cams v') = length (w_cams v)" and
    mono: "\<forall>r < length (w_cams v). dc_isUsing (w_cams v' ! r) = BUSY \<or> w_cams v' ! r = w_cams v ! r"
    by (auto simp: nth_list_update)
  have old: "served w v' y (pls ! j)" if "j < length pls" "rs ! j = Some y" for j y
    using served_mono [OF inv(5) [OF that] _ len wf inv(2)] step mono by (metis SDCSTTAUS.distinct(1))
  have new: "served w v' x (pls ! i)" using step inv(2,4) by (auto simp: served_def)
  have fresh: "snd y \<noteq> snd x \<or> snd x = None" if "j < length pls" "rs ! j = Some y" for j y
    using inv(5) [OF that] step by (auto simp: served_def split: option.splits)
  have slots: "same_slots w v'" using inv(3) step same_slots_trans by blast
  have keep: "\<forall>r < length (w_cams w). dc_isUsing (w_cams v' ! r) = BUSY \<or> w_cams v' ! r = w_cams w ! r"
    using inv(2,4) mono by metis
  have all: "\<forall>j < length pls. \<forall>y. rs' ! j = Some y \<longrightarrow> served w v' y (pls ! j)"
    using old new i inv(1) by (auto simp: nth_list_update simp del: split_paired_All)
  have two: "snd y = None" if h: "j < length pls" "k < length pls" "j \<noteq> k" "rs' ! j = Some y" "rs' ! k = Some z"
      "snd y = snd z" for j k y z
  proof -
    have "i < length rs" using i(1) inv(1) by simp
    then consider "j = i" "y = x" "rs ! k = Some z" | "k = i" "z = x" "rs ! j = Some y" | "rs ! j = Some y" "rs ! k = Some z"
      using h(3-5) i(3) by (cases "j = i"; cases "k = i") auto
    then show ?thesis using fresh h inv(6) by cases metis+
  qed
  have "\<forall>j < length pls. \<forall>k < length pls. \<forall>y z. j \<noteq> k \<and> rs' ! j = Some y \<and> rs' ! k = Some z \<and> snd y = snd z \<longrightarrow>
      snd y = None"
    using two by blast
  with slots keep all inv(1,2) len i(3) show ?thesis
    by (simp add: serving_def del: split_paired_All)
qed

lemma serving_runs:
  "serving pls w st \<Longrightarrow> cams_wf w \<Longrightarrow> runs (calls member_run (map Call_getFreeSDC pls)) js st = Some st' \<Longrightarrow>
     serving pls w st'"
proof (induction js arbitrary: st)
  case (Cons j js)
  then obtain u where u: "calls member_run (map Call_getFreeSDC pls) j st = Some u"
    "runs (calls member_run (map Call_getFreeSDC pls)) js u = Some st'" by (auto simp: bind_eq_Some_conv)
  have "serving pls w u"
    using serving_step [of pls w "fst st" "snd st" j "fst u" "snd u"] Cons.prems u(1) by simp
  from Cons.IH [OF this Cons.prems(2) u(2)] show ?case .
qed simp

text \<open>
  C6: no two searches find one camera. Whatever threads look for a free camera at the same time and however
  their steps are interleaved, when all have returned each has a camera that was free and is now busy, or none, which
  only happens when every camera of its mission is busy; and no two have the same.
\<close>

theorem concurrent_free_cameras:
  assumes "world_inv w" and "runs tstep sched (start (map getFreeSDC_prog pls) w) = Some c" and "finished c"
  shows "\<exists>results. th_progs c = map Ret results \<and> length results = length pls \<and>
    (\<forall>i < length pls. case snd (results ! i) of
       None \<Rightarrow> all_busy (pls ! i) (th_shared c)
     | Some p \<Rightarrow> \<exists>r < length (w_cams w). p = Some r \<and> dc_isUsing (w_cams w ! r) = FREE \<and>
         dc_isUsing (w_cams (th_shared c) ! r) = BUSY) \<and>
    (\<forall>i < length pls. \<forall>j < length pls. i \<noteq> j \<and> snd (results ! i) = snd (results ! j) \<longrightarrow> snd (results ! i) = None)"
proof -
  let ?ops = "map Call_getFreeSDC pls"
  have progs: "map getFreeSDC_prog pls = map (\<lambda>p. scoped mu_SDC (member_body p)) ?ops"
    by (simp add: getFreeSDC_prog_def)
  from member_calls.linearizable [OF assms(2) [unfolded progs] assms(3)] obtain js results where
    l: "length results = length pls" "th_progs c = map Ret results" and
    r: "runs (calls member_run ?ops) js (replicate (length ?ops) None, w) = Some (map Some results, th_shared c)"
    by auto
  have "serving pls w (replicate (length ?ops) None, w)" by (simp add: serving_def)
  from serving_runs [OF this world_inv_cams_wf [OF assms(1)] r] have "serving pls w (map Some results, th_shared c)" .
  with l show ?thesis by (intro exI [of _ results]) (simp add: serving_def served_def del: split_paired_All)
qed

section \<open>No deadlock\<close>

lemma locks_mission_prog: "H \<subseteq> {cfg_mtx} \<Longrightarrow> locks mutex_rank H (mission_prog call) H"
  unfolding mission_prog_def by (intro locks_scoped locks_mission_body) auto

lemma locks_getFreeSDC_prog: "locks mutex_rank {} (getFreeSDC_prog pl) {}"
  using member_calls.call_locks [of "Call_getFreeSDC pl"] by (simp add: getFreeSDC_prog_def)

lemma locks_match_then: "(\<And>n. locks mutex_rank {} (k n) {}) \<Longrightarrow> locks mutex_rank {} (match_then dev k) {}"
  unfolding match_then_def by (intro locks_andThen [OF locks_mission_prog]) auto

lemma locks_free_camera: "locks mutex_rank {} (free_camera_prog dev n) {}" "locks mutex_rank {} (next_mission_prog dev n) {}"
  unfolding free_camera_prog_def next_mission_prog_def updateCapdev_prog_def Let_def
  by (auto intro!: locks_andThen [OF locks_getFreeSDC_prog] locks_rules member_locks split: option.split)

lemma locks_handler: "locks mutex_rank {} (handler_prog h) {}"
proof (cases h)
  case (On_camera p fs)
  have "locks mutex_rank {} (foldr (\<lambda>f k. andThen
     (act (\<lambda>w. map_option (\<lambda>cams. ((), w\<lparr>w_cams := cams\<rparr>)) (upd_cam (w_cams w) p f))) (\<lambda>_. k)) fs (Ret 0)) {}"
    by (induction fs) (auto intro: locks_rules)
  with On_camera show ?thesis by simp
qed (auto simp: update_prog_def addSDC_prog_def updateSDC_prog_def
    intro!: locks_scoped locks_rules locks_mission_prog member_locks locks_match_then locks_free_camera
      locks_andThen [OF locks_mission_prog])

lemma length_runs_tstep: "runs tstep sched c = Some d \<Longrightarrow> length (th_progs d) = length (th_progs c)"
  by (induction sched arbitrary: c) (auto simp: bind_eq_Some_conv elim!: tstep_cases)

lemma start_handlers: "well_locked mutex_rank (start (map handler_prog hs) w)"
  by (rule start_well_locked) (auto simp: locks_handler)

text \<open>
  C9: no handler leaves the order of the mutexes, wherever the scheduler has taken it: every thread's
  remaining program takes only mutexes above those it holds, gives back only what it holds, and when all
  have returned no mutex is held.
\<close>

theorem handlers_well_locked:
  assumes "runs tstep sched (start (map handler_prog hs) w) = Some c"
  shows "(\<forall>i < length hs. locks mutex_rank (held c i) (th_progs c ! i) {}) \<and>
    (finished c \<longrightarrow> (\<forall>m. th_owner c m = None))"
proof -
  have wl: "well_locked mutex_rank c" by (rule runs_well_locked [OF start_handlers assms])
  moreover have "length (th_progs c) = length hs"
    using length_runs_tstep [OF assms] by (simp add: start_def)
  ultimately show ?thesis using finished_free [OF wl] by (auto simp: well_locked_def)
qed

text \<open>
  C8: no set of handlers deadlocks. Whatever was run before, as long as a handler has not returned some thread can make
  its next step, unless a handler has left defined behaviour; every run can be carried on until all have
  returned, and none goes on for ever.
\<close>

theorem handlers_never_deadlock:
  assumes "runs tstep sched (start (map handler_prog hs) w) = Some c"
  shows "(finished c \<or> faulty c \<or> (\<exists>i. tstep i c \<noteq> None)) \<and>
    (\<exists>more d. runs tstep more c = Some d \<and> (finished d \<or> faulty d)) \<and>
    \<not> (\<exists>cs. cs 0 = c \<and> (\<forall>n. \<exists>i. tstep i (cs n) = Some (cs (Suc n))))"
proof -
  have wl: "well_locked mutex_rank c" by (rule runs_well_locked [OF start_handlers assms])
  then show ?thesis using progress [OF wl] runs_to_end [OF wl] no_infinite_run by blast
qed

lemma mission_run_reachable:
  assumes "reachable w" and "mission_run call w = Some (r, w')"
    and "\<And>msi. call = Call_MissionAdd msi \<Longrightarrow> empty_mission msi"
  shows "reachable w'"
  using assms by (cases call) (auto intro: reachable.intros)

lemma calls_reachable:
  assumes "reachable w" and "\<And>msi. Call_MissionAdd msi \<in> set ops \<Longrightarrow> empty_mission msi"
  shows "runs (calls mission_run ops) js (rs, w) = Some (rs', w') \<Longrightarrow> reachable w'"
  using assms(1)
proof (induction js arbitrary: rs w)
  case (Cons j js)
  then obtain a v where v: "j < length ops" "mission_run (ops ! j) w = Some (a, v)"
    "runs (calls mission_run ops) js (rs[j := Some a], v) = Some (rs', w')"
    by (auto simp: bind_eq_Some_conv split: if_splits)
  have "reachable v"
    by (rule mission_run_reachable [OF Cons.prems(2) v(2)]) (metis assms(2) nth_mem v(1))
  with Cons.IH v(3) show ?case by blast
qed simp

text \<open>
  C7: the functions on the missions are atomic. Whatever threads call them at the same time and however their steps
  are interleaved, when all have returned the missions are as if the calls had been made one after
  another in some order, each with the result it returned; so they are well-formed if they were.
\<close>

theorem mission_calls_atomic:
  assumes "runs tstep sched (start (map mission_prog ops) w) = Some c" and "finished c"
  shows "\<exists>order results. distinct order \<and> set order = {..<length ops} \<and> th_progs c = map Ret results \<and>
    runs (calls mission_run ops) order (replicate (length ops) None, w) = Some (map Some results, th_shared c) \<and>
    (reachable w \<and> (\<forall>msi. Call_MissionAdd msi \<in> set ops \<longrightarrow> empty_mission msi) \<longrightarrow> reachable (th_shared c))"
proof -
  have "map mission_prog ops = map (\<lambda>p. scoped mu (mission_body p)) ops" by (simp add: mission_prog_def)
  from mission_calls.linearizable [OF assms(1) [unfolded this] assms(2)] obtain order results where
    "distinct order" "set order = {..<length ops}" "th_progs c = map Ret results" and
    r: "runs (calls mission_run ops) order (replicate (length ops) None, w) = Some (map Some results, th_shared c)"
    by blast
  with calls_reachable [OF _ _ r] show ?thesis by blast
qed

section \<open>Races\<close>

lemma map_insert_new: "map_of xs k = None \<Longrightarrow> length (map_insert k v xs) = Suc (length xs)"
  by (induction k v xs rule: map_insert.induct) (auto split: if_splits)

text \<open>
  C38: an update of a client goes through the map of the missions under \<open>cfg_mtx\<close>, a request for a new mission inserts
  into it under \<open>mu\<close>: after two steps both are inside, and each can go on, the one to read and the
  other to change the map.
\<close>

theorem update_races_with_add:
  assumes "MissionGet (sint (ms_missionNum msi)) w = None"
  shows "\<exists>c. runs tstep [0, 1] (start (map handler_prog [On_update, On_add_group msi]) w) = Some c \<and>
    (\<forall>i < 2. \<exists>d. tstep i c = Some d \<and> th_owner d = th_owner c) \<and>
    (\<forall>d. tstep 1 c = Some d \<longrightarrow> w_missions (th_shared d) \<noteq> w_missions w)"
proof -
  have "map_insert (sint (ms_missionNum msi)) msi (w_missions w) \<noteq> w_missions w"
    using map_insert_new [of "w_missions w" _ msi] assms by (metis MissionGet_def n_not_Suc_n)
  then show ?thesis
    by (auto simp: tstep.simps start_def update_prog_def mission_prog_def scoped_def act_def MissionAdd_def less_2_cases_iff)
qed

text \<open>
  The same of the devices of a mission: \<open>MissionMatch\<close> reads their numbers under \<open>mu\<close>, \<open>updateCapdev\<close> assigns
  them under \<open>mu_SDC\<close>.
\<close>

lemma match_races_with_updateCapdev:
  assumes "w_missions w \<noteq> []" and "world_inv w" and "MissionGet n w = Some ms"
    and "updateCapdev (w_cams w) ms dev = Some (r, ms')"
  shows "\<exists>c. runs tstep [0, 0, 1] (start [mission_prog (Call_MissionMatch d), updateCapdev_prog (Key n) dev] w) = Some c \<and>
    (\<forall>i < 2. \<exists>e. tstep i c = Some e \<and> th_owner e = th_owner c)"
proof -
  have "wf_devs (mission_at 0 w)" using mission_at_inv [of w 0] assms(1,2) by (simp add: wf_mission_def)
  then obtain x where x: "CMission_match (mission_at 0 w) d = Some x"
    using dev_slots.find_first by (auto simp: CMission_match_def)
  obtain k where k: "length (w_missions w) = Suc k" using assms(1) by (cases "w_missions w") auto
  show ?thesis using x k assms(3,4)
    by (auto simp: tstep.simps start_def mission_prog_def MissionMatch_body_def over_missions_def match_prog_def
        updateCapdev_prog_def scoped_def act_def member_def less_2_cases_iff)
qed

section \<open>Examples\<close>

definition camera_world :: world where
  "camera_world = \<lparr>w_cams = [cam0], w_missions = [(3, mission0 1)], w_unstart = mission0 0, w_results = []\<rparr>"

lemma camera_world_inv: "world_inv camera_world"
  by (simp add: world_inv_def camera_world_def wf_mission_def wf_mission0 wf_devs_def mission0_def MAX_CAPDEV_def MAX_SDC_def)
    (simp add: wf_cams_def MAX_SDC_def)

lemma run_witness:
  assumes "case runs tstep sched c of None \<Rightarrow> False | Some d \<Rightarrow> P d"
  obtains d where "runs tstep sched c = Some d" "P d"
  using assms that by (cases "runs tstep sched c") auto

text \<open>Two devices ask for the only camera: one of them gets none.\<close>

corollary concurrent_free_cameras_witness:
  "\<exists>c results. runs tstep [0, 0, 0, 0, 0, 0, 1, 1, 1, 1] (start (map getFreeSDC_prog [Key 3, Key 3]) camera_world) = Some c \<and>
     th_progs c = map Ret results \<and> (snd (results ! 0) = None \<or> snd (results ! 1) = None)"
proof -
  have "case runs tstep [0, 0, 0, 0, 0, 0, 1, 1, 1, 1] (start (map getFreeSDC_prog [Key 3, Key 3]) camera_world) of
      None \<Rightarrow> False | Some d \<Rightarrow> finished d" by code_simp
  then obtain c where c: "runs tstep [0, 0, 0, 0, 0, 0, 1, 1, 1, 1]
      (start (map getFreeSDC_prog [Key 3, Key 3]) camera_world) = Some c" "finished c" by (rule run_witness)
  from concurrent_free_cameras [OF camera_world_inv c] obtain results where
    r: "th_progs c = map Ret results" and
    s: "\<And>i. i < 2 \<Longrightarrow> case snd (results ! i) of None \<Rightarrow> all_busy ([Key 3, Key 3] ! i) (th_shared c)
      | Some p \<Rightarrow> \<exists>r < length (w_cams camera_world). p = Some r \<and> dc_isUsing (w_cams camera_world ! r) = FREE \<and>
          dc_isUsing (w_cams (th_shared c) ! r) = BUSY" and
    d: "\<And>i j. i < 2 \<Longrightarrow> j < 2 \<Longrightarrow> i \<noteq> j \<Longrightarrow> snd (results ! i) = snd (results ! j) \<Longrightarrow> snd (results ! i) = None"
    by (auto simp: numeral_2_eq_2)
  have "snd (results ! i) = None \<or> snd (results ! i) = Some (Some 0)" if "i < 2" for i
    using s [OF that] by (auto simp: camera_world_def split: option.splits)
  from this [of 0] this [of 1] d [of 0 1] r c(1) show ?thesis by auto
qed

corollary mission_calls_atomic_witness:
  "\<exists>c. runs tstep [1, 1, 1, 0, 0, 0] (start (map mission_prog [Call_MissionAdd (mission0 0), Call_MissionMatch dev0]) world0) = Some c \<and>
     reachable (th_shared c)"
proof -
  have "case runs tstep [1, 1, 1, 0, 0, 0]
      (start (map mission_prog [Call_MissionAdd (mission0 0), Call_MissionMatch dev0]) world0) of
      None \<Rightarrow> False | Some d \<Rightarrow> finished d" by code_simp
  then obtain c where c: "runs tstep [1, 1, 1, 0, 0, 0]
      (start (map mission_prog [Call_MissionAdd (mission0 0), Call_MissionMatch dev0]) world0) = Some c" "finished c"
    by (rule run_witness)
  have "reachable world0" by (rule reachable.start) (simp_all add: world0_def empty_mission_def mission0_def)
  moreover have "empty_mission (mission0 0)" by (simp add: empty_mission_def mission0_def)
  ultimately show ?thesis using mission_calls_atomic [OF c] c(1) by auto
qed

corollary handlers_well_locked_witness:
  "\<exists>c. runs tstep [0, 1, 0, 1] (start (map handler_prog [On_update, On_add_group (mission0 0)]) world0) = Some c \<and>
     locks mutex_rank (held c 0) (th_progs c ! 0) {}"
proof -
  have "case runs tstep [0, 1, 0, 1] (start (map handler_prog [On_update, On_add_group (mission0 0)]) world0) of
      None \<Rightarrow> False | Some d \<Rightarrow> True" by code_simp
  then obtain c where c: "runs tstep [0, 1, 0, 1]
      (start (map handler_prog [On_update, On_add_group (mission0 0)]) world0) = Some c" by (rule run_witness)
  from handlers_well_locked [OF c] c show ?thesis by auto
qed

corollary handlers_never_deadlock_witness:
  "\<exists>c d more. runs tstep [0, 1] (start (map handler_prog [On_update, On_update]) world0) = None \<and>
     runs tstep [0] (start (map handler_prog [On_update, On_update]) world0) = Some c \<and>
     runs tstep more c = Some d \<and> (finished d \<or> faulty d)"
proof -
  have "case runs tstep [0] (start (map handler_prog [On_update, On_update]) world0) of
      None \<Rightarrow> False | Some d \<Rightarrow> True" by code_simp
  then obtain c where c: "runs tstep [0] (start (map handler_prog [On_update, On_update]) world0) = Some c"
    by (rule run_witness)
  have "runs tstep [0, 1] (start (map handler_prog [On_update, On_update]) world0) = None" by code_simp
  with handlers_never_deadlock [OF c] c show ?thesis by blast
qed

corollary update_races_with_add_witness:
  "\<exists>c. runs tstep [0, 1] (start (map handler_prog [On_update, On_add_group (mission0 0)]) world0) = Some c \<and>
     (\<forall>i < 2. \<exists>d. tstep i c = Some d \<and> th_owner d = th_owner c)"
proof -
  have "MissionGet (sint (ms_missionNum (mission0 0))) world0 = None" by (simp add: MissionGet_def world0_def)
  from update_races_with_add [OF this] show ?thesis by blast
qed

end
