(* ===== verification/UpdateContents.thy ===== *)
theory UpdateContents
  imports ConfigUpdateFacts
begin

text \<open>
  What an update tells a client: the frames it sends, in order, are those of a reply, of the missions, of the devices
  and the cameras of each mission, of the ungrouped ones, and of the results.
\<close>

section \<open>The frames of an update\<close>

definition respone_frame :: "byte list" where
  "respone_frame = cfg_head_bytes 4 @ le_enc 4 (15 :: u32) @ [1]"

text \<open>A group is told by one byte of its number.\<close>

definition group_told :: "CMission \<Rightarrow> byte list" where
  "group_told ms = cfg_head_bytes 9 @ le_enc 4 (18 :: u32) @ le_enc 4 (ucast (ucast (ms_missionNum ms) :: byte) :: u32)"

definition device_frame :: "CCaptureDevice \<Rightarrow> byte list" where
  "device_frame d = plain_frame 5 (CapDev_body (shown d))"

definition mission_text :: "cam_heap \<Rightarrow> CMission \<Rightarrow> byte list list" where
  "mission_text cams ms = map (\<lambda>i. device_frame (ms_capDev ms i)) [0..<unat (ms_totalCapDev ms)] @
     map (\<lambda>c. SDC_frame (dc_m_sdcCfg c)) (cam_list (cams, ms))"

definition update_text :: "world \<Rightarrow> nat \<Rightarrow> byte list list" where
  "update_text w c = respone_frame # map group_told (map snd (w_missions w)) @
     concat (map (mission_text (w_cams w)) (map snd (w_missions w))) @ mission_text (w_cams w) (w_unstart w) @
     map result_frame (drop (Suc c div 2) (w_results w))"

text \<open>A write of \<open>SEND_LEN\<close> bytes begins with the frame, or is cut out of it.\<close>

definition begins :: "byte list \<Rightarrow> byte list \<Rightarrow> bool" where
  "begins f bs \<longleftrightarrow> (\<exists>z. bs = take SEND_LEN (f @ z))"

section \<open>What is told\<close>

definition tells :: "byte list list \<Rightarrow> cfg_state \<Rightarrow> cfg_state \<Rightarrow> bool" where
  "tells frs st st' \<longleftrightarrow> sent (length frs) st st' \<and>
     (\<exists>bss. e_out (snd st') = e_out (snd st) @ map Reply bss \<and> list_all2 begins frs bss)"

lemma tells_sent: "tells frs st st' \<Longrightarrow> sent (length frs) st st'"
  by (simp add: tells_def)

lemma tells_refl [simp]: "tells [] st st"
  by (simp add: tells_def)

lemma tells_trans:
  assumes "tells xs a b" and "tells ys b c"
  shows "tells (xs @ ys) a c"
proof -
  from assms obtain bss css where
    "e_out (snd b) = e_out (snd a) @ map Reply bss" "list_all2 begins xs bss"
    "e_out (snd c) = e_out (snd b) @ map Reply css" "list_all2 begins ys css" by (auto simp: tells_def)
  then have "\<exists>ess. e_out (snd c) = e_out (snd a) @ map Reply ess \<and> list_all2 begins (xs @ ys) ess"
    by (intro exI [of _ "bss @ css"]) (simp add: list_all2_appendI)
  with sent_trans [OF tells_sent [OF assms(1)] tells_sent [OF assms(2)]] show ?thesis by (simp add: tells_def)
qed

lemma begin_write_tells:
  assumes "room st" and "length (f @ z) = MAX_PACKET_LEN"
  shows "tells [f] st (begin_write (f @ z) st)"
  using begin_write_sent [OF assms(2,1)] by (cases st) (auto simp: tells_def begins_def begin_write_def intro!: exI [of _ "[take SEND_LEN (f @ z)]"])

lemma tells_room: "tells frs st st' \<Longrightarrow> room st \<Longrightarrow> room st'"
  using tells_sent sent_room by blast

lemma tells_like: "tells frs st st' \<Longrightarrow> like_world (e_world (snd st)) (e_world (snd st'))"
  using tells_sent sent_like by blast

lemma for_loop_tells:
  assumes "for_loop 0 k f st = Some st'" and "room st"
    and "\<And>j a b. j < k \<Longrightarrow> like_world (e_world (snd st)) (e_world (snd a)) \<Longrightarrow> room a \<Longrightarrow> f j a = Some b \<Longrightarrow> tells (F j) a b"
  shows "tells (concat (map F [0..<k])) st st'"
proof -
  have "tells (concat (map F [0..<0 + k])) st st'"
  proof (rule for_loop_invariant [where P = "\<lambda>j u. tells (concat (map F [0..<j])) st u", OF assms(1)])
    fix j u v assume "j < 0 + k" "tells (concat (map F [0..<j])) st u" "f j u = Some v"
    with tells_trans [of "concat (map F [0..<j])" st u "F j" v] assms(3) [of j u v] tells_like tells_room assms(2)
    show "tells (concat (map F [0..<Suc j])) st v" by simp
  qed simp
  then show ?thesis by simp
qed

section \<open>The parts of an update\<close>

lemma send_respone_tells:
  assumes "send_respone st = Some st'" and "room st"
  shows "tells [respone_frame] st st'"
proof -
  from assms packageSDCrespone_store [of "k_data_write (fst st)" "int MAX_PACKET_LEN" 1]
  obtain z where z: "st' = begin_write (respone_frame @ z) st" "length (respone_frame @ z) = MAX_PACKET_LEN"
    by (auto simp: send_respone_def respone_frame_def MAX_PACKET_LEN_def split: if_splits)
  show ?thesis unfolding z(1) by (rule begin_write_tells [OF assms(2) z(2)])
qed

lemma send_group_tells:
  assumes "send_group i st = Some st'" and "room st"
  shows "tells [group_told (mission_at i (e_world (snd st)))] st st'"
proof -
  let ?f = "group_told (mission_at i (e_world (snd st)))"
  from assms packageGroupInfo_store [of "k_data_write (fst st)" "int MAX_PACKET_LEN"]
  obtain z where z: "st' = begin_write (?f @ z) st" "length (?f @ z) = MAX_PACKET_LEN"
    by (auto simp: send_group_def group_told_def MAX_PACKET_LEN_def split: if_splits)
  show ?thesis unfolding z(1) by (rule begin_write_tells [OF assms(2) z(2)])
qed

lemma send_SDC_tells:
  assumes "send_SDC ms i st = Some st'" and "room st" and "sendable_mission (w_cams (e_world (snd st))) ms"
    and "i < unat (ms_totalSpdDomeCam ms)"
  shows "tells [SDC_frame (dc_m_sdcCfg (cam_list (w_cams (e_world (snd st)), ms) ! i))] st st'"
proof -
  let ?cams = "w_cams (e_world (snd st))" and ?b = "k_data_write (fst st)"
  let ?c = "cam_list (?cams, ms) ! i"
  let ?f = "SDC_frame (dc_m_sdcCfg ?c)"
  have at: "SDC_at ?cams ms i = Some ?c"
    using assms(3,4) SDC_at_wf(1) [of ?cams ms i] by (simp add: sendable_mission_def wf_mission_def)
  have "?c \<in> set (cam_list (?cams, ms))" using assms(4) by simp
  with assms(3) have s: "sendable_SDC (dc_m_sdcCfg ?c)" by (simp add: sendable_mission_def)
  have n: "unat (word_of_nat MAX_PACKET_LEN :: u32) = length ?b" using assms(2) by (simp add: MAX_PACKET_LEN_def)
  from s assms(1,2) at packageSDCinfo_store [of "dc_m_sdcCfg ?c" "word_of_nat MAX_PACKET_LEN" ?b]
  obtain z where z: "st' = begin_write (?f @ z) st" "length (?f @ z) = MAX_PACKET_LEN"
    by (auto simp: send_SDC_def sendable_SDC_def n Let_def split: if_splits)
  show ?thesis unfolding z(1) by (rule begin_write_tells [OF assms(2) z(2)])
qed

lemma send_CapDev_tells:
  assumes "send_CapDev i (ms, st) = Some (ms', st')" and "room st"
    and "12 + length (CapDev_body (shown (ms_capDev ms i))) \<le> MAX_PACKET_LEN"
  shows "tells [device_frame (ms_capDev ms i)] st st'"
proof -
  let ?f = "device_frame (ms_capDev ms i)"
  from assms packageCapDevinfo_store [of "shown (ms_capDev ms i)" "ms_capDev ms i" "k_data_write (fst st)"
      "word_of_nat MAX_PACKET_LEN"]
  obtain z where z: "st' = begin_write (?f @ z) st" "length (?f @ z) = MAX_PACKET_LEN"
    by (auto simp: send_CapDev_def CapDev_at_def shown_def device_frame_def plain_frame_def MAX_PACKET_LEN_def split: if_splits)
  show ?thesis unfolding z(1) by (rule begin_write_tells [OF assms(2) z(2)])
qed

section \<open>The missions\<close>

lemma like_shown: "like_mission m m' \<Longrightarrow> shown (ms_capDev m' i) = shown (ms_capDev m i)"
  by (auto simp: like_mission_def dest!: spec [of _ i])

lemma mission_text_like:
  assumes "like_mission m m'"
  shows "mission_text cams m' = mission_text cams m"
  using like_mission_fields [OF assms] like_shown [OF assms]
  by (simp add: mission_text_def device_frame_def cam_list_def cam_refs_def)

lemma send_CapDevs_tells:
  assumes "for_loop 0 k send_CapDev (ms, st) = Some (ms', st')" and "room st"
    and "k = unat (ms_totalCapDev ms)" and "sendable_mission cams ms"
  shows "tells (map (\<lambda>i. device_frame (ms_capDev ms i)) [0..<k]) st st' \<and> like_mission ms ms'"
proof -
  let ?P = "\<lambda>j u. tells (map (\<lambda>i. device_frame (ms_capDev ms i)) [0..<j]) st (snd u) \<and> like_mission ms (fst u)"
  have "?P (0 + k) (ms', st')"
  proof (rule for_loop_invariant [where P = ?P, OF assms(1)])
    fix j u v assume j: "j < 0 + k" and u: "?P j u" and v: "send_CapDev j u = Some v"
    from u have t: "tells (map (\<lambda>i. device_frame (ms_capDev ms i)) [0..<j]) st (snd u)" and l: "like_mission ms (fst u)" by auto
    have r: "room (snd u)" by (rule tells_room [OF t assms(2)])
    from v have w: "send_CapDev j (fst u, snd u) = Some (fst v, snd v)" by simp
    have "j < unat (ms_totalCapDev (fst u))" using j assms(3) like_mission_fields [OF l] by simp
    from send_CapDev_tells [OF w r sendable_CapDev [OF like_sendable [OF l assms(4)] this]]
    have "tells [device_frame (ms_capDev ms j)] (snd u) (snd v)" using like_shown [OF l, of j] by (simp add: device_frame_def)
    with u tells_trans have "tells (map (\<lambda>i. device_frame (ms_capDev ms i)) [0..<j] @ [device_frame (ms_capDev ms j)]) st (snd v)"
      by blast
    with like_mission_trans [OF l] send_CapDev_sent [OF w r] show "?P (Suc j) v" by simp
  qed simp
  then show ?thesis by simp
qed

lemma map_cam_list_upt:
  "map (\<lambda>i. f (cam_list (cams, ms) ! i)) [0..<unat (ms_totalSpdDomeCam ms)] = map f (cam_list (cams, ms))"
  by (rule nth_equalityI) (simp_all add: cam_list_def cam_refs_def)

lemma send_mission_tells:
  assumes "send_mission ms st = Some (ms', st')" and "room st"
    and "sendable_mission (w_cams (e_world (snd st))) ms"
  shows "tells (mission_text (w_cams (e_world (snd st))) ms) st st' \<and> like_mission ms ms'"
proof -
  let ?cams = "w_cams (e_world (snd st))"
  from assms(1) obtain st1 where
    1: "for_loop 0 (unat (ms_totalCapDev ms)) send_CapDev (ms, st) = Some (ms', st1)"
    and 2: "for_loop 0 (unat (ms_totalSpdDomeCam ms')) (send_SDC ms') st1 = Some st'"
    by (auto simp: send_mission_def bind_eq_Some_conv)
  from send_CapDevs_tells [OF 1 assms(2) refl assms(3)] have
    a: "tells (map (\<lambda>i. device_frame (ms_capDev ms i)) [0..<unat (ms_totalCapDev ms)]) st st1" and l: "like_mission ms ms'"
    by auto
  have r: "room st1" by (rule tells_room [OF a assms(2)])
  have cams: "w_cams (e_world (snd st1)) = ?cams" using tells_like [OF a] by (simp add: like_world_def)
  have s: "sendable_mission ?cams ms'" by (rule like_sendable [OF l assms(3)])
  have "tells (concat (map (\<lambda>i. [SDC_frame (dc_m_sdcCfg (cam_list (?cams, ms') ! i))])
      [0..<unat (ms_totalSpdDomeCam ms')])) st1 st'"
  proof (rule for_loop_tells [OF 2 r])
    fix j a b assume j: "j < unat (ms_totalSpdDomeCam ms')" and a: "like_world (e_world (snd st1)) (e_world (snd a))" "room a"
      and b: "send_SDC ms' j a = Some b"
    have "w_cams (e_world (snd a)) = ?cams" using a(1) cams by (simp add: like_world_def)
    with send_SDC_tells [OF b a(2) _ j] s show "tells [SDC_frame (dc_m_sdcCfg (cam_list (?cams, ms') ! j))] a b" by simp
  qed
  with tells_trans [OF a] have "tells (map (\<lambda>i. device_frame (ms_capDev ms i)) [0..<unat (ms_totalCapDev ms)] @
      map (\<lambda>c. SDC_frame (dc_m_sdcCfg c)) (cam_list (?cams, ms'))) st st'"
    by (simp add: map_cam_list_upt [where f = "\<lambda>c. SDC_frame (dc_m_sdcCfg c)"])
  moreover have "cam_list (?cams, ms') = cam_list (?cams, ms)"
    using like_mission_fields [OF l] by (simp add: cam_list_def cam_refs_def)
  ultimately show ?thesis using l by (simp add: mission_text_def)
qed

lemma tells_world:
  assumes "tells frs st (s, e)" and "like_world (e_world (snd st)) w"
  shows "tells frs st (s, e\<lparr>e_world := w\<rparr>)"
  using assms sent_world [OF tells_sent [OF assms(1)] assms(2)] by (simp add: tells_def)

lemma send_mission_at_tells:
  assumes "send_mission_at i st = Some st'" and "room st" and "i < length (w_missions (e_world (snd st)))"
    and "sendable (e_world (snd st))"
  shows "tells (mission_text (w_cams (e_world (snd st))) (mission_at i (e_world (snd st)))) st st'"
proof -
  from assms(1) obtain ms s e where
    m: "send_mission (mission_at i (e_world (snd st))) st = Some (ms, s, e)"
    and st': "st' = (s, e\<lparr>e_world := set_mission i ms (e_world e)\<rparr>)"
    by (auto simp: send_mission_at_def bind_eq_Some_conv)
  from assms(3,4) have "sendable_mission (w_cams (e_world (snd st))) (mission_at i (e_world (snd st)))"
    by (simp add: sendable_def)
  from send_mission_tells [OF m assms(2) this] have
    a: "tells (mission_text (w_cams (e_world (snd st))) (mission_at i (e_world (snd st)))) st (s, e)"
    and l: "like_mission (mission_at i (e_world (snd st))) ms" by auto
  from like_world_set_mission [OF tells_like [OF a] assms(3) l] show ?thesis
    unfolding st' by (intro tells_world [OF a]) simp
qed

lemma send_unstart_tells:
  assumes "send_unstart st = Some st'" and "room st" and "sendable (e_world (snd st))"
  shows "tells (mission_text (w_cams (e_world (snd st))) (w_unstart (e_world (snd st)))) st st'"
proof -
  from assms(1) obtain ms s e where m: "send_mission (w_unstart (e_world (snd st))) st = Some (ms, s, e)"
    and st': "st' = (s, e\<lparr>e_world := (e_world e)\<lparr>w_unstart := ms\<rparr>\<rparr>)"
    by (auto simp: send_unstart_def bind_eq_Some_conv)
  from assms(3) have "sendable_mission (w_cams (e_world (snd st))) (w_unstart (e_world (snd st)))"
    by (simp add: sendable_def)
  from send_mission_tells [OF m assms(2) this] have
    a: "tells (mission_text (w_cams (e_world (snd st))) (w_unstart (e_world (snd st)))) st (s, e)"
    and l: "like_mission (w_unstart (e_world (snd st))) ms" by auto
  from tells_like [OF a] l show ?thesis
    unfolding st' by (intro tells_world [OF a]) (simp add: like_world_def mission_at_def)
qed

section \<open>The whole update\<close>

lemma send_results_tells:
  assumes "send_results rfile 0 rs st = Some (j, st')" and "room st"
    and "\<forall>r \<in> set rs. 12 + length (Result_body (\<lambda>_. None) r False) \<le> MAX_PACKET_LEN"
  shows "tells (map result_frame (drop (Suc (k_curCapResult (fst st)) div 2) rs)) st st'"
proof -
  from send_results_frames [OF assms(2,3), of rfile 0] assms(1) obtain bss where
    b: "e_out (snd st') = e_out (snd st) @ map Reply bss"
      "list_all2 (\<lambda>r bs. \<exists>z. bs = take SEND_LEN (result_frame r @ z)) (drop (Suc (k_curCapResult (fst st)) div 2) rs) bss"
    by auto
  then have "list_all2 begins (map result_frame (drop (Suc (k_curCapResult (fst st)) div 2) rs)) bss"
    by (simp add: list_all2_map1 begins_def)
  with b(1) send_results_sent [OF assms(1,2)] show ?thesis by (auto simp: tells_def)
qed

lemma missions_map: "map (\<lambda>i. f (mission_at i w)) [0..<length (w_missions w)] = map f (map snd (w_missions w))"
  by (rule nth_equalityI) (simp_all add: mission_at_def)

lemma like_world_missions:
  assumes "like_world w w'" and "\<And>m m'. like_mission m m' \<Longrightarrow> f m' = f m"
  shows "map f (map snd (w_missions w')) = map f (map snd (w_missions w))"
  using assms by (intro nth_equalityI) (auto simp: like_world_def mission_at_def)

lemma update_tells:
  assumes "update rfile st = Some st'" and "room st" and "sendable (e_world (snd st))"
  shows "\<exists>s e c. st' = (s\<lparr>k_curCapResult := c\<rparr>, e) \<and>
    tells (update_text (e_world (snd st)) (k_curCapResult (fst st))) st (s, e)"
proof -
  let ?w = "e_world (snd st)" and ?n = "length (w_missions (e_world (snd st)))"
  from assms(1) obtain st1 st2 st3 st4 j s e where
    1: "send_respone st = Some st1" and
    2: "for_loop 0 (length (w_missions (e_world (snd st1)))) send_group st1 = Some st2" and
    3: "for_loop 0 (length (w_missions (e_world (snd st1)))) send_mission_at st2 = Some st3" and
    4: "send_unstart st3 = Some st4" and
    5: "send_results rfile 0 (w_results (e_world (snd st4))) st4 = Some (j, s, e)" and
    st': "st' = (s\<lparr>k_curCapResult := j\<rparr>, e)"
    by (auto simp: update_def bind_eq_Some_conv Let_def)
  have a1: "tells [respone_frame] st st1" by (rule send_respone_tells [OF 1 assms(2)])
  note l1 = tells_like [OF a1] and r1 = tells_room [OF a1 assms(2)]
  from l1 have n: "length (w_missions (e_world (snd st1))) = ?n" by (simp add: like_world_def)
  have "tells (concat (map (\<lambda>i. [group_told (mission_at i ?w)]) [0..<?n])) st1 st2"
  proof (rule for_loop_tells [OF 2 [unfolded n] r1])
    fix i a b assume i: "i < ?n" and a: "like_world (e_world (snd st1)) (e_world (snd a))" "room a" and b: "send_group i a = Some b"
    from like_world_trans [OF l1 a(1)] i have "like_mission (mission_at i ?w) (mission_at i (e_world (snd a)))"
      by (simp add: like_world_def)
    from like_mission_fields [OF this] send_group_tells [OF b a(2)]
    show "tells [group_told (mission_at i ?w)] a b" by (simp add: group_told_def)
  qed
  then have a2: "tells (map group_told (map snd (w_missions ?w))) st1 st2"
    by (simp only: concat_map_singleton missions_map)
  note a2 = tells_trans [OF a1 a2]
  note l2 = tells_like [OF a2] and r2 = tells_room [OF a2 assms(2)]
  have "tells (concat (map (\<lambda>i. mission_text (w_cams ?w) (mission_at i ?w)) [0..<?n])) st2 st3"
  proof (rule for_loop_tells [OF 3 [unfolded n] r2])
    fix i a b assume i: "i < ?n" and a: "like_world (e_world (snd st2)) (e_world (snd a))" "room a" and b: "send_mission_at i a = Some b"
    note l = like_world_trans [OF l2 a(1)]
    from l i have m: "like_mission (mission_at i ?w) (mission_at i (e_world (snd a)))"
      and x: "i < length (w_missions (e_world (snd a)))" "w_cams (e_world (snd a)) = w_cams ?w" by (simp_all add: like_world_def)
    from send_mission_at_tells [OF b a(2) x(1) like_world_sendable [OF l assms(3)]] x(2) mission_text_like [OF m]
    show "tells (mission_text (w_cams ?w) (mission_at i ?w)) a b" by simp
  qed
  note a3 = tells_trans [OF a2 this [unfolded missions_map]]
  note l3 = tells_like [OF a3] and r3 = tells_room [OF a3 assms(2)]
  from l3 have "w_cams (e_world (snd st3)) = w_cams ?w" "like_mission (w_unstart ?w) (w_unstart (e_world (snd st3)))"
    by (simp_all add: like_world_def)
  with send_unstart_tells [OF 4 r3 like_world_sendable [OF l3 assms(3)]] mission_text_like
  have "tells (mission_text (w_cams ?w) (w_unstart ?w)) st3 st4" by metis
  note a4 = tells_trans [OF a3 this]
  note l4 = tells_like [OF a4] and r4 = tells_room [OF a4 assms(2)]
  have res: "w_results (e_world (snd st4)) = w_results ?w" using l4 by (simp add: like_world_def)
  have "\<forall>r \<in> set (w_results ?w). 12 + length (Result_body (\<lambda>_. None) r False) \<le> MAX_PACKET_LEN"
    using assms(3) by (simp add: sendable_def)
  from send_results_tells [OF 5 [unfolded res] r4 this] sent_cur [OF tells_sent [OF a4]]
  have "tells (map result_frame (drop (Suc (k_curCapResult (fst st)) div 2) (w_results ?w))) st4 (s, e)" by simp
  from tells_trans [OF a4 this] st' show ?thesis by (auto simp: update_text_def)
qed

text \<open>
  C25: what an update packages and in which order. Suppose that the frame of every device, camera and result fits the
  buffer of the session, that the presets of the cameras have at most ten points for an area, and that no byte a checksum
  is taken over is 0x80 or more: none of the hundred bytes of a camera's frame that follow its first four (a camera with
  the mission's number -1 has such bytes), not the lowest byte of a mission's number, and none of the four bytes that the
  buffer holds where the first checksum is taken over the length. Then the update returns.
  It packages into the buffer, one after the other, the frames of a reply, of the number of every mission, of the devices
  and the cameras of every mission, of the devices and the cameras that are in none, and of the results but the first half
  of those counted, and after each begins a write of the first 1024 bytes of the buffer, which are the frame, cut if it is
  longer. These are the bytes the buffer holds when the write begins; as the next frame is packaged into the same
  buffer while the write is pending, it does not follow that they are the bytes the client receives.
\<close>

theorem update_tells_everything:
  assumes "length (k_data_write s) = MAX_PACKET_LEN" and "\<forall>x \<in> set (stale (k_data_write s)). x < 0x80"
    and "sendable (e_world e)"
  shows "\<exists>s' e' bss. update rfile (s, e) = Some (s', e') \<and> e_out e' = e_out e @ map Reply bss \<and>
    list_all2 begins (update_text (e_world e) (k_curCapResult s)) bss"
proof -
  from update_total [where st = "(s, e)" and rfile = rfile] assms obtain st' where "update rfile (s, e) = Some st'" by auto
  with update_tells [OF this] assms show ?thesis by (auto simp: tells_def)
qed

corollary update_tells_everything_witness:
  "\<exists>s' e' bss. update (\<lambda>_. None) (cfg_session0, env2) = Some (s', e') \<and> e_out e' = e_out env2 @ map Reply bss \<and>
    list_all2 begins [respone_frame, group_told (snd (w_missions world2 ! 0)), device_frame dev0, result_frame res1, result_frame res1] bss"
proof -
  have "length (k_data_write cfg_session0) = MAX_PACKET_LEN" "sendable (e_world env2)" "k_curCapResult cfg_session0 = 0"
    "\<forall>x \<in> set (stale (k_data_write cfg_session0)). x < 0x80"
    using small_stale0 sendable_world2 by (simp_all add: cfg_session0_def env2_def)
  with update_tells_everything [of cfg_session0 env2 "\<lambda>_. None"] show ?thesis
    by (simp add: update_text_def mission_text_def env2_def world2_def mission0_def cam_list_def cam_refs_def)
qed

end
