(* ===== verification/Rows.thy ===== *)
theory Rows
  imports SqlFacts
begin

text \<open>
  The rows of the tables as the statements of \<open>src/sql_conn.cpp\<close> store them, and the static objects of
  the callback after each: a preset row goes through its 55 columns one by one.
\<close>

section \<open>Numbers\<close>

text \<open>
  What is relied on of \<open>printf\<close> and \<open>boost::lexical_cast\<close>: a 32-bit number that was printed with \<open>%d\<close> is read
  back, a negative one also by the unsigned cast, which takes it modulo \<open>2 ^ 32\<close>; and \<open>2.0\<close>, as SQLite
  prints the number 2.00 of a REAL column, is the float 2.
\<close>

definition reads_back :: "host \<Rightarrow> parser \<Rightarrow> bool" where
  "reads_back h lc \<longleftrightarrow> (\<forall>i. - (2 ^ 31) \<le> i \<and> i < 2 ^ 31 \<longrightarrow>
     lc_int lc (h_lexical_cast h i) = Some (word_of_int i) \<and>
     lc_uint lc (h_lexical_cast h i) = Some (word_of_int i)) \<and>
   lc_float lc ''2.0'' = Some 0x40000000"

lemma reads_back_decimal:
  assumes "reads_back h lc"
  shows "lc_int lc (decimal h v) = Some v" "lc_uint lc (decimal h v) = Some v"
proof -
  have "- (2 ^ 31) \<le> sint v" "sint v < 2 ^ 31"
    using sint_greater_eq [of v] sint_less [of v] by simp_all
  with assms show "lc_int lc (decimal h v) = Some v" "lc_uint lc (decimal h v) = Some v"
    by (simp_all add: reads_back_def decimal_def)
qed

lemma reads_back_16:
  assumes "reads_back h lc"
  shows "lc_uint lc (h_lexical_cast h (sint (v :: u16))) = Some (word_of_int (sint v))"
proof -
  have "- (2 ^ 31) \<le> sint v" "sint v < 2 ^ 31"
    using sint_greater_eq [of v] sint_less [of v] by simp_all
  with assms show ?thesis by (simp add: reads_back_def)
qed

lemma reads_back_8:
  assumes "reads_back h lc"
  shows "lc_int lc (h_lexical_cast h (uint (v :: byte))) = Some (ucast v)"
proof -
  have "- (2 ^ 31) \<le> uint v" "uint v < 2 ^ 31"
    using uint_lt2p [of v] by (simp_all add: order_trans [OF _ uint_ge_0])
  with assms show ?thesis by (simp add: reads_back_def)
qed

lemma narrow_16: "(ucast (word_of_int (sint (v :: u16)) :: u32) :: u16) = v"
proof (rule bit_word_eqI)
  fix n
  assume "n < LENGTH(16)"
  then have "n < 15 \<or> n = 15" by auto
  then show "bit (ucast (word_of_int (sint v) :: u32) :: u16) n = bit v n"
    by (auto simp: bit_ucast_iff bit_word_of_int_iff bit_sint_iff bit_signed_iff min_def)
qed

section \<open>The row of a preset\<close>

definition coordinate :: "IllegalParkParam \<Rightarrow> bool \<times> nat \<times> bool \<Rightarrow> u32" where
  "coordinate ip c = (case c of (second, i, y) \<Rightarrow>
     let q = (if second then ip_Area2 ip else ip_Area1 ip) ! i in if y then pt_y q else pt_x q)"

text \<open>The columns of one area, point by point\<close>

definition of_area :: "bool \<Rightarrow> (string \<times> bool \<times> nat \<times> bool) list" where
  "of_area a = filter (\<lambda>(_, second, _). second = a) area_columns"

text \<open>
  The row that \<open>insert_SDC\<close> stores for a preset of camera \<open>k\<close>, the columns in the order of the table.
\<close>

definition preset_row :: "host \<Rightarrow> string \<Rightarrow> Preset \<Rightarrow> row" where
  "preset_row h k p =
     (let ip = pr_illparkpara p; r = pr_rect p; n = (\<lambda>v. Some (decimal h v));
          w = (\<lambda>v. Some (h_lexical_cast h (sint v)));
          cells = (\<lambda>b. map (\<lambda>(name, c). (name, n (coordinate ip c))) (of_area b))
      in [(''num'', n (pr_presetNum p)), (''SDC_ID'', Some (c_str k)), (''holdSeconds'', n (pr_holdSeconds p)),
          (''mode'', n (pr_mode p)), (''priority'', n (pr_priority p)), (''plateMinWidth'', n (pr_plateMinWidth p)),
          (''plateMaxWidth'', n (pr_plateMaxWidth p)), (''nNum1'', w (ip_nNum1 ip)), (''nNum2'', w (ip_nNum2 ip))] @
         cells False @ cells True @
         [(''fScaleScreen'', Some ''2.0''), (''rectLeft'', n (rc_left r)), (''rectRight'', n (rc_right r)),
          (''rectBottom'', n (rc_bottom r)), (''rectTop'', n (rc_top r)), (''photo'', Some ''NULL'')])"

lemma callback_append:
  "callback lc raw t (xs @ ys) st = Option.bind (callback lc raw t xs st) (callback lc raw t ys)"
proof (induction xs arbitrary: st)
  case (Cons c xs)
  have IH: "callback lc raw t (xs @ ys) = (\<lambda>st. Option.bind (callback lc raw t xs st) (callback lc raw t ys))"
    by (rule ext) (rule Cons)
  show ?case by (cases c) (simp add: IH)
qed simp

lemma area_names:
  "\<forall>(n, c) \<in> set area_columns. take 4 n = ''Area''"
  by (simp add: area_columns_def)

lemma area_distinct: "distinct (map fst area_columns)"
  by code_simp

lemma scalar_names: "\<forall>n \<in> fst ` set preset_columns. take 4 n \<noteq> ''Area''"
  by (simp add: preset_columns_def)

lemma column_area:
  assumes "(n, c) \<in> set area_columns"
  shows "column_preset lc n v st =
    map_option (\<lambda>v. set_preset (upd_ip (set_area_column c v)) st) (lc_uint lc v)"
proof -
  have a: "take 4 n = ''Area''" using area_names assms by blast
  then have "map_of preset_columns n = None" using scalar_names by (force simp: map_of_eq_None_iff)
  moreover from a have "n \<noteq> ''SDC_ID''" "n \<noteq> ''fScaleScreen''" "n \<noteq> ''rectTop''" by auto
  moreover have "map_of area_columns n = Some c" using area_distinct assms by simp
  ultimately show ?thesis by (simp add: column_preset_def)
qed


text \<open>The cells of some of the coordinates\<close>

lemma callback_areas:
  assumes "\<And>v. lc_uint lc (f v) = Some v" and "set cs \<subseteq> set area_columns"
  shows "callback lc raw ''preset'' (map (\<lambda>(n, c). (n, Some (f (g c)))) cs) st =
    Some (set_preset (upd_ip (fold (\<lambda>(n, c). set_area_column c (g c)) cs)) st)"
  using assms(2)
proof (induction cs arbitrary: st)
  case (Cons x cs)
  obtain n c where x: "x = (n, c)" by (cases x)
  with Cons.prems have "(n, c) \<in> set area_columns" by simp
  note step = column_area [OF this, of lc "f (g c)" for st]
  from Cons x show ?case by (simp add: step assms(1))
qed simp

lemma of_area_points:
  "map snd (of_area a) = concat (map (\<lambda>i. [(a, i, False), (a, i, True)]) [0..<10])"
  by (cases a) (simp_all add: of_area_def area_columns_def upt_rec)

lemma set_point_both:
  assumes "i < length ps"
  shows "set_point i True (pt_y q) (set_point i False (pt_x q) ps) = ps[i := q]"
  using assms by (cases q; cases "ps ! i") (simp add: set_point_def)

lemma fold_update:
  assumes "n \<le> length qs" "length ps = length qs"
  shows "fold (\<lambda>i ps. ps[i := qs ! i]) [0..<n] ps = take n qs @ drop n ps"
  using assms(1)
proof (induction n)
  case (Suc n)
  then show ?case
    using assms(2) by (simp add: list_update_append take_Suc_conv_app_nth Cons_nth_drop_Suc [symmetric])
qed simp

lemma fold_area:
  assumes "length (if a then ip_Area2 ip else ip_Area1 ip) = 10" and "n \<le> 10"
    and "length (if a then ip_Area2 s else ip_Area1 s) = 10"
  shows "fold (\<lambda>c. set_area_column c (coordinate ip c)) (concat (map (\<lambda>i. [(a, i, False), (a, i, True)]) [0..<n])) s =
    (if a then s\<lparr>ip_Area2 := fold (\<lambda>i ps. ps[i := ip_Area2 ip ! i]) [0..<n] (ip_Area2 s)\<rparr>
     else s\<lparr>ip_Area1 := fold (\<lambda>i ps. ps[i := ip_Area1 ip ! i]) [0..<n] (ip_Area1 s)\<rparr>)"
  using assms(2)
proof (induction n)
  case (Suc n)
  then show ?case using assms(1,3)
    by (cases a) (simp_all add: set_area_column_def coordinate_def set_point_both fold_update)
qed simp

lemma read_area:
  assumes "length (if a then ip_Area2 ip else ip_Area1 ip) = 10"
    and "length (if a then ip_Area2 s else ip_Area1 s) = 10"
  shows "fold (\<lambda>(n, c). set_area_column c (coordinate ip c)) (of_area a) s =
    (if a then s\<lparr>ip_Area2 := ip_Area2 ip\<rparr> else s\<lparr>ip_Area1 := ip_Area1 ip\<rparr>)"
proof -
  have "fold (\<lambda>(n, c). set_area_column c (coordinate ip c)) (of_area a) s =
      fold (\<lambda>c. set_area_column c (coordinate ip c)) (map snd (of_area a)) s"
    by (simp add: fold_map comp_def split_def)
  with fold_area [OF assms(1) order_refl assms(2)] assms show ?thesis
    by (cases a) (simp_all add: of_area_points fold_update del: upt_rec_numeral)
qed


text \<open>
  The static preset after the row. Two fields have no column and stay zero, as the static object
  starts.
\<close>

definition loaded_preset :: "string \<Rightarrow> Preset \<Rightarrow> Preset" where
  "loaded_preset k p = p\<lparr>pr_camNum := k,
     pr_illparkpara := (pr_illparkpara p)\<lparr>ip_fHitThreshold := 0, ip_nIllegalParkMin := 0\<rparr>\<rparr>"

text \<open>The areas are arrays of ten points.\<close>

definition ten_points :: "Preset \<Rightarrow> bool" where
  "ten_points p \<longleftrightarrow> length (ip_Area1 (pr_illparkpara p)) = 10 \<and> length (ip_Area2 (pr_illparkpara p)) = 10"

text \<open>The static preset as the program starts with it, as far as it matters\<close>

definition blank_preset :: "Preset \<Rightarrow> bool" where
  "blank_preset p \<longleftrightarrow> ten_points p \<and> ip_fHitThreshold (pr_illparkpara p) = 0 \<and>
     ip_nIllegalParkMin (pr_illparkpara p) = 0"

lemma blank_loaded_preset: "ten_points p \<Longrightarrow> blank_preset (loaded_preset k p)"
  by (simp add: blank_preset_def loaded_preset_def ten_points_def)

lemma loaded_preset_fields:
  assumes "ip_fScaleScreen (pr_illparkpara p) = v" and "blank_preset s"
  shows "s\<lparr>pr_presetNum := pr_presetNum p, pr_camNum := k, pr_holdSeconds := pr_holdSeconds p,
      pr_mode := pr_mode p, pr_priority := pr_priority p, pr_plateMinWidth := pr_plateMinWidth p,
      pr_plateMaxWidth := pr_plateMaxWidth p,
      pr_illparkpara := (pr_illparkpara s)\<lparr>ip_nNum1 := ip_nNum1 (pr_illparkpara p),
        ip_nNum2 := ip_nNum2 (pr_illparkpara p), ip_Area1 := ip_Area1 (pr_illparkpara p),
        ip_Area2 := ip_Area2 (pr_illparkpara p), ip_fScaleScreen := v\<rparr>,
      pr_rect := (pr_rect s)\<lparr>rc_left := rc_left (pr_rect p), rc_right := rc_right (pr_rect p),
        rc_bottom := rc_bottom (pr_rect p), rc_top := rc_top (pr_rect p)\<rparr>\<rparr> = loaded_preset k p"
  using assms
  by (cases p; cases "pr_illparkpara p"; cases "pr_rect p"; cases s; cases "pr_illparkpara s"; cases "pr_rect s")
    (simp add: loaded_preset_def blank_preset_def)

lemma callback_preset_row:
  assumes "reads_back h lc" and "no_nul k" and "ten_points p" and "blank_preset (q_preset st)"
    and "ip_fScaleScreen (pr_illparkpara p) = 0x40000000"
  shows "callback lc raw ''preset'' (preset_row h k p) st =
    add_loaded_preset (st\<lparr>q_preset := loaded_preset k p\<rparr>)"
proof -
  note r = reads_back_decimal(2) [OF assms(1)] reads_back_16 [OF assms(1)]
  have f: "lc_float lc ''2.0'' = Some 0x40000000" using assms(1) by (simp add: reads_back_def)
  note area = callback_areas [where f = "decimal h" and lc = lc and g = "coordinate (pr_illparkpara p)", OF r(1)]
  have a: "set (of_area b) \<subseteq> set area_columns" for b by (auto simp: of_area_def)
  note points = read_area [of False "pr_illparkpara p", simplified] read_area [of True "pr_illparkpara p", simplified]
  have photo: "callback lc raw ''preset'' [(''photo'', Some v)] = Some" for v
    by (rule ext) (simp add: column_preset_def preset_columns_def area_columns_def)
  from assms(2-5) show ?thesis
    by (simp add: preset_row_def Let_def callback_append area [OF a] points ten_points_def blank_preset_def column_preset_def preset_columns_def
      area_columns_def r f narrow_16 [simplified] photo loaded_preset_fields)
qed

end
