(* ===== verification/MissionGroups.thy ===== *)
theory MissionGroups
  imports SqlFacts
begin

text \<open>
  A group is a mission of the map or the ungrouped objects: the position of the mission, or none.
  What the callback of \<open>src/sql_conn.cpp\<close> does with a complete camera, device or preset, in these terms.
\<close>

section \<open>Groups\<close>

definition group_at :: "nat option \<Rightarrow> world \<Rightarrow> CMission" where
  "group_at g w = (case g of None \<Rightarrow> w_unstart w | Some i \<Rightarrow> mission_at i w)"

definition put_group :: "nat option \<Rightarrow> CMission \<Rightarrow> world \<Rightarrow> world" where
  "put_group g ms w = (case g of None \<Rightarrow> w\<lparr>w_unstart := ms\<rparr> | Some i \<Rightarrow> set_mission i ms w)"

definition groups :: "world \<Rightarrow> nat option set" where
  "groups w = insert None (Some ` {..<length (w_missions w)})"

lemma groups_simps [simp]:
  "groups (w\<lparr>w_cams := c\<rparr>) = groups w" "group_at g (w\<lparr>w_cams := c\<rparr>) = group_at g w"
  "groups (put_group g ms w) = groups w" "w_cams (put_group g ms w) = w_cams w"
  "find_mission n (w\<lparr>w_cams := c\<rparr>) = find_mission n w"
  by (auto simp: groups_def group_at_def put_group_def set_mission_def find_mission_def mission_at_def split: option.splits)

lemma find_mission_group [simp]: "find_mission n w \<in> groups w"
  using find_mission_Some [of n w] by (cases "find_mission n w") (auto simp: groups_def)

lemma group_at_put:
  assumes "g \<in> groups w" "g' \<in> groups w"
  shows "group_at g' (put_group g ms w) = (if g' = g then ms else group_at g' w)"
  using assms by (auto simp: groups_def group_at_def put_group_def mission_at_def set_mission_def nth_list_update split: if_splits)

lemma find_mission_numbers:
  "find_mission n w = find_index ((=) n) (map (\<lambda>x. ms_missionNum (snd x)) (w_missions w))"
  by (simp add: find_mission_def find_index_map comp_def split_def)

lemma find_mission_put:
  assumes "g \<in> groups w" and "ms_missionNum ms = ms_missionNum (group_at g w)"
  shows "find_mission n (put_group g ms w) = find_mission n w"
proof (cases g)
  case None
  then show ?thesis by (simp add: put_group_def find_mission_def)
next
  case (Some i)
  with assms have "i < length (w_missions w)" "ms_missionNum ms = ms_missionNum (snd (w_missions w ! i))"
    by (auto simp: groups_def group_at_def mission_at_def)
  then have "map (\<lambda>x. ms_missionNum (snd x)) ((w_missions w)[i := (fst (w_missions w ! i), ms)]) =
      map (\<lambda>x. ms_missionNum (snd x)) (w_missions w)"
    by (simp add: map_update list_update_same_conv)
  with Some show ?thesis by (simp add: find_mission_numbers put_group_def set_mission_def)
qed

lemma group_wf: "world_inv w \<Longrightarrow> g \<in> groups w \<Longrightarrow> wf_mission (w_cams w) (group_at g w)"
  using mission_at_inv [of w] unstart_wf [of w] by (auto simp: groups_def group_at_def)

lemma put_group_inv:
  assumes "world_inv w" "g \<in> groups w" "length (w_cams w) \<le> length cams" "wf_mission cams ms"
    and "ms_missionNum ms = ms_missionNum (group_at g w)"
  shows "world_inv (put_group g ms (w\<lparr>w_cams := cams\<rparr>))"
proof (cases g)
  case None
  with world_inv_unstart [OF assms(1,3,4)] show ?thesis by (simp add: put_group_def)
next
  case (Some i)
  with assms(2,5) have "i < length (w_missions w)" "ms_missionNum ms = ms_missionNum (mission_at i w)"
    by (auto simp: groups_def group_at_def)
  from world_inv_update [OF assms(1) this(1) assms(3,4) this(2) wf_mission_mono [OF unstart_wf [OF assms(1)] assms(3)]] Some
  show ?thesis by (simp add: put_group_def)
qed

lemma find_mission_known:
  assumes "world_inv w"
  shows "find_mission n w \<noteq> None \<longleftrightarrow> sint n \<in> fst ` set (w_missions w)"
proof -
  have "find_mission n w \<noteq> None \<longleftrightarrow> (\<exists>x \<in> set (w_missions w). n = ms_missionNum (snd x))"
    by (auto simp: find_mission_def find_index_None split_def)
  also have "\<dots> \<longleftrightarrow> (\<exists>x \<in> set (w_missions w). fst x = sint n)"
    using assms by (intro bex_cong refl) (fastforce simp: world_inv_def dest: signed_word_eqI)
  finally show ?thesis by force
qed

text \<open>A complete camera or device goes to the group of its number, or to the ungrouped with number -1.\<close>

lemma add_loaded_SDC_group:
  assumes "g = find_mission (sc_missionNum (dc_m_sdcCfg (q_SDC st))) (q_world st)"
    and "sdc = (if g = None then upd_cfg (\<lambda>c. c\<lparr>sc_missionNum := - 1\<rparr>) (q_SDC st) else q_SDC st)"
  shows "add_loaded_SDC raw st = map_option (\<lambda>(cams, ms). st\<lparr>q_SDC := sdc,
      q_world := put_group g ms ((q_world st)\<lparr>w_cams := cams\<rparr>)\<rparr>)
    (addSDC raw (w_cams (q_world st)) (group_at g (q_world st)) sdc)"
proof (cases g)
  case None
  with assms show ?thesis
    by (auto simp: add_loaded_SDC_def MissionAddSDC_def Let_def put_group_def group_at_def map_option_case
        split: option.splits)
next
  case (Some i)
  with assms show ?thesis
    by (auto simp: add_loaded_SDC_def MissionAddSDC_def Let_def put_group_def group_at_def map_option_case
        split: option.splits)
qed

lemma add_loaded_CapDev_group:
  assumes "g = find_mission (cd_missionNum (q_capdev st)) (q_world st)"
    and "d = (if g = None then (q_capdev st)\<lparr>cd_missionNum := - 1\<rparr> else q_capdev st)"
  shows "add_loaded_CapDev st = map_option (\<lambda>ms. st\<lparr>q_capdev := d, q_world := put_group g ms (q_world st)\<rparr>)
    (addCapDev (group_at g (q_world st)) d)"
  using assms
  by (cases g) (auto simp: add_loaded_CapDev_def MissionAddCapDev_def Let_def put_group_def group_at_def map_option_case
      split: option.splits)

text \<open>A preset goes to the only camera \<open>r\<close> of its number; an \<open>r\<close> that is no camera stands for none.\<close>

definition only_camera :: "string \<Rightarrow> nat \<Rightarrow> cam_heap \<Rightarrow> bool" where
  "only_camera k r cams \<longleftrightarrow> (\<forall>i < length cams. camNum_of (cams ! i) = k \<longleftrightarrow> i = r)"

abbreviation preset_pushed :: "Preset \<Rightarrow> nat \<Rightarrow> cam_heap \<Rightarrow> cam_heap" where
  "preset_pushed p r cams \<equiv> cams[r := upd_cfg (push_preset p) (cams ! r)]"

lemma addPreset_only:
  assumes "wf_cams (cams, ms)" and "only_camera (pr_camNum p) r cams"
  shows "addPreset cams ms p =
    Some (if r \<in> set (cam_refs ms) then (0, preset_pushed p r cams) else (- 1, cams))"
proof -
  have refs: "\<forall>i \<in> set (cam_refs ms). i < length cams"
    using assms(1) by (auto simp: wf_cams_def cam_refs_def)
  have f: "find_SDC cams ms (pr_camNum p) = Some (find_index ((=) r) (cam_refs ms))"
  proof -
    have "find_index (\<lambda>c. camNum_of c = pr_camNum p) (cam_list (cams, ms)) = find_index ((=) r) (cam_refs ms)"
      using refs assms(2) by (auto simp: cam_list_def only_camera_def find_index_map comp_def intro: find_index_cong)
    then show ?thesis by (simp add: find_SDC_list [OF assms(1)])
  qed
  show ?thesis
  proof (cases "find_index ((=) r) (cam_refs ms)")
    case None
    with f show ?thesis by (auto simp: addPreset_def find_index_None)
  next
    case (Some i)
    from find_index_Some [OF Some] have i: "i < unat (ms_totalSpdDomeCam ms)" "cam_refs ms ! i = r" by auto
    then have "r \<in> set (cam_refs ms)" by (metis length_cam_refs nth_mem)
    with f Some i SDC_at_wf(2) [OF assms(1) i(1)] show ?thesis
      by (auto simp: addPreset_def upd_cam_def)
  qed
qed

lemma MissionAddPreset_loop_only:
  assumes "\<forall>x \<in> set xs. wf_cams (cams, snd x)" and "only_camera (pr_camNum p) r cams"
  shows "MissionAddPreset_loop cams xs p =
    Some (if \<exists>x \<in> set xs. r \<in> set (cam_refs (snd x)) then (0, preset_pushed p r cams) else (- 1, cams))"
  using assms
  by (induction cams xs p rule: MissionAddPreset_loop.induct) (auto simp: addPreset_only)

lemma add_loaded_preset_only:
  assumes "world_inv (q_world st)" and "only_camera (pr_camNum (q_preset st)) r (w_cams (q_world st))"
    and "r < length (w_cams (q_world st)) \<Longrightarrow> \<exists>g \<in> groups (q_world st). r \<in> set (cam_refs (group_at g (q_world st)))"
  shows "add_loaded_preset st = Some (st\<lparr>q_world := (q_world st)\<lparr>w_cams :=
    preset_pushed (q_preset st) r (w_cams (q_world st))\<rparr>\<rparr>)"
proof -
  let ?w = "q_world st"
  have wf: "\<forall>x \<in> set (w_missions ?w). wf_cams (w_cams ?w, snd x)" "wf_cams (w_cams ?w, w_unstart ?w)"
    using assms(1) by (auto simp: world_inv_def wf_mission_def)
  have "r < length (w_cams ?w) \<Longrightarrow>
      (\<exists>x \<in> set (w_missions ?w). r \<in> set (cam_refs (snd x))) \<or> r \<in> set (cam_refs (w_unstart ?w))"
    using assms(3) by (auto simp: groups_def group_at_def mission_at_def)
  moreover have "\<not> r < length (w_cams ?w) \<Longrightarrow>
      st\<lparr>q_world := ?w\<lparr>w_cams := preset_pushed (q_preset st) r (w_cams ?w)\<rparr>\<rparr> = st" by (simp add: list_update_beyond)
  ultimately show ?thesis
    using MissionAddPreset_loop_only [OF wf(1) assms(2)] addPreset_only [OF wf(2) assms(2)]
    by (cases "r < length (w_cams ?w)") (auto simp: add_loaded_preset_def MissionAddPreset_def)
qed

end
