(* ===== verification/Loading.thy ===== *)
theory Loading
  imports Rows MissionGroups
begin

text \<open>
  Starting the program with a full database. While the tables are read \<open>loaded\<close> holds of the
  missions: it says which cameras, devices and presets of the rows so far are where. At the end
  the configuration is the one that was stored.
\<close>

section \<open>What has been loaded\<close>

text \<open>The presets of a camera; the number of a group that does not exist becomes -1.\<close>

definition presets_of :: "SDCcfg \<Rightarrow> Preset list" where
  "presets_of cfg = map (sc_missionPreset cfg) [0..<unat (sc_presetTotal cfg)]"

definition grouped :: "u32 list \<Rightarrow> u32 \<Rightarrow> u32" where
  "grouped ns n = (if n \<in> set ns then n else - 1)"

text \<open>What is back of a camera, its presets apart, and of a device\<close>

definition camera_back :: "u32 list \<Rightarrow> SDCcfg \<Rightarrow> CSpeedDomeCam \<Rightarrow> bool" where
  "camera_back ns cfg c \<longleftrightarrow>
     same_settings (cfg\<lparr>sc_missionNum := grouped ns (sc_missionNum cfg)\<rparr>) (dc_m_sdcCfg c) \<and>
     dc_isUsing c = FREE \<and> dc_curPTZposion c = 0"

definition device_back :: "u32 list \<Rightarrow> CCaptureDevice \<Rightarrow> CCaptureDevice \<Rightarrow> bool" where
  "device_back ns d e \<longleftrightarrow> cd_devNum e = cd_devNum d \<and> cd_devName e = cd_devName d \<and>
     cd_devType e = cd_devType d \<and> cd_IP e = cd_IP d \<and> cd_MAC e = cd_MAC d \<and>
     cd_missionNum e = grouped ns (cd_missionNum d)"

text \<open>
  The rows of the missions \<open>ns\<close>, the cameras \<open>cfgs\<close> and the devices \<open>devs\<close> have been read: the heap holds
  one camera for each camera row, in their order, with the presets \<open>P\<close> of its number, and each group holds
  the cameras and devices of its number in the order of the rows.
\<close>

definition loaded ::
  "u32 list \<Rightarrow> SDCcfg list \<Rightarrow> CCaptureDevice list \<Rightarrow> (string \<Rightarrow> Preset list) \<Rightarrow> world \<Rightarrow> bool" where
  "loaded ns cfgs devs P w \<longleftrightarrow> world_inv w \<and> (\<forall>n. find_mission n w \<noteq> None \<longleftrightarrow> n \<in> set ns) \<and>
     list_all2 (camera_back ns) cfgs (w_cams w) \<and>
     (\<forall>c \<in> set (w_cams w). presets_of (dc_m_sdcCfg c) = P (camNum_of c)) \<and>
     (\<forall>g \<in> groups w.
        cam_refs (group_at g w) = filter (\<lambda>r. find_mission (sc_missionNum (cfgs ! r)) w = g) [0..<length cfgs] \<and>
        list_all2 (device_back ns) (filter (\<lambda>d. find_mission (cd_missionNum d) w = g) devs) (dev_list (group_at g w)))"

text \<open>What the callback's static objects keep while it runs\<close>

definition statics_ready :: "sql_state \<Rightarrow> bool" where
  "statics_ready st \<longleftrightarrow> sc_presetTotal (dc_m_sdcCfg (q_SDC st)) = 0 \<and> blank_preset (q_preset st) \<and>
     empty_mission (q_mission st)"

lemma loadedD:
  assumes "loaded ns cfgs devs P w"
  shows "world_inv w" "find_mission n w \<noteq> None \<longleftrightarrow> n \<in> set ns" "list_all2 (camera_back ns) cfgs (w_cams w)"
    "length (w_cams w) = length cfgs"
    "c \<in> set (w_cams w) \<Longrightarrow> presets_of (dc_m_sdcCfg c) = P (camNum_of c)"
    "g \<in> groups w \<Longrightarrow>
      cam_refs (group_at g w) = filter (\<lambda>r. find_mission (sc_missionNum (cfgs ! r)) w = g) [0..<length cfgs]"
    "g \<in> groups w \<Longrightarrow>
      list_all2 (device_back ns) (filter (\<lambda>d. find_mission (cd_missionNum d) w = g) devs) (dev_list (group_at g w))"
  using assms by (auto simp: loaded_def list_all2_lengthD)

lemma filter_snoc_index:
  "filter (\<lambda>r. Q ((xs @ [x]) ! r)) [0..<length (xs @ [x])] =
    filter (\<lambda>r. Q (xs ! r)) [0..<length xs] @ (if Q x then [length xs] else [])"
  by (auto simp: nth_append intro: filter_cong)

lemma grouped_find:
  assumes "\<And>n. find_mission n w \<noteq> None \<longleftrightarrow> n \<in> set ns"
  shows "grouped ns n = (if find_mission n w = None then - 1 else n)"
  using assms [of n] by (auto simp: grouped_def)

section \<open>A camera\<close>

lemma load_SDC:
  assumes "loaded ns cfgs devs (\<lambda>_. []) (q_world st)" and "statics_ready st" and "storable h lc cfg"
    and "length cfgs < MAX_SDC"
  shows "\<exists>st'. callback lc raw ''SDCs'' (SDC_row h cfg) st = Some st' \<and>
    loaded ns (cfgs @ [cfg]) devs (\<lambda>_. []) (q_world st') \<and> statics_ready st'"
proof -
  let ?w = "q_world st"
  let ?q = "loaded_SDC cfg (ucast (sc_presetTotal cfg)) (q_SDC st)"
  define g where "g = find_mission (sc_missionNum cfg) ?w"
  define sdc where "sdc = (if g = None then upd_cfg (\<lambda>c. c\<lparr>sc_missionNum := - 1\<rparr>) ?q else ?q)"
  define c where "c = fresh_SDC raw sdc"
  note l = loadedD [OF assms(1)]
  have g: "g \<in> groups ?w" by (simp add: g_def)
  have "length (cam_refs (group_at g ?w)) \<le> length cfgs"
    using length_filter_le [of _ "[0..<length cfgs]"] l(6) [OF g] by simp
  with assms(4) have room: "unat (ms_totalSpdDomeCam (group_at g ?w)) < MAX_SDC" by simp
  have wf: "wf_mission (w_cams ?w) (group_at g ?w)" by (rule group_wf [OF l(1) g])
  then have "wf_cams (w_cams ?w, group_at g ?w)" by (simp add: wf_mission_def)
  from addSDC_list [OF this room, of raw sdc] obtain ms where
    a: "addSDC raw (w_cams ?w) (group_at g ?w) sdc = Some (w_cams ?w @ [c], ms)"
    and refs: "cam_refs ms = cam_refs (group_at g ?w) @ [length cfgs]"
    and devs: "ms_capDev ms = ms_capDev (group_at g ?w)" "ms_totalCapDev ms = ms_totalCapDev (group_at g ?w)"
    and num: "ms_missionNum ms = ms_missionNum (group_at g ?w)"
    by (auto simp: c_def l(4))
  let ?w' = "put_group g ms (?w\<lparr>w_cams := w_cams ?w @ [c]\<rparr>)"
  have st': "callback lc raw ''SDCs'' (SDC_row h cfg) st = Some (st\<lparr>q_SDC := sdc, q_world := ?w'\<rparr>)"
    using a by (simp add: callback_SDC_row [OF assms(3)] add_loaded_SDC_group [where g = g and sdc = sdc] g_def sdc_def)
  have inv: "world_inv ?w'"
    using addSDC_inv [OF wf a] num by (intro put_group_inv [OF l(1) g]) auto
  have find: "find_mission n ?w' = find_mission n ?w" for n
    using find_mission_put [of g "?w\<lparr>w_cams := w_cams ?w @ [c]\<rparr>" ms] g num by simp
  have restored: "camera_back ns cfg c" "presets_of (dc_m_sdcCfg c) = []"
    using assms(2) grouped_find [of ?w ns, OF l(2)] 
    by (auto simp: camera_back_def c_def sdc_def g_def fresh_SDC_def copy_SDC_cfg_def loaded_SDC_def same_settings_def
        CHIKCam_new_def presets_of_def statics_ready_def)
  have "loaded ns (cfgs @ [cfg]) devs (\<lambda>_. []) ?w'"
    unfolding loaded_def
  proof (intro conjI ballI)
    show "list_all2 (camera_back ns) (cfgs @ [cfg]) (w_cams ?w')"
      using l(3) restored(1) by (simp add: list_all2_appendI)
    show "\<forall>n. find_mission n ?w' \<noteq> None \<longleftrightarrow> n \<in> set ns" using l(2) by (simp add: find)
    show "presets_of (dc_m_sdcCfg d) = []" if "d \<in> set (w_cams ?w')" for d
      using that l(5) restored(2) by auto
    fix k
    assume "k \<in> groups ?w'"
    then have k: "k \<in> groups ?w" by simp
    then have there: "group_at k ?w' = (if k = g then ms else group_at k ?w)"
      using group_at_put [of g "?w\<lparr>w_cams := w_cams ?w @ [c]\<rparr>" k ms] g by simp
    show "cam_refs (group_at k ?w') =
        filter (\<lambda>r. find_mission (sc_missionNum ((cfgs @ [cfg]) ! r)) ?w' = k) [0..<length (cfgs @ [cfg])]"
      unfolding find filter_snoc_index [of "\<lambda>c. find_mission (sc_missionNum c) ?w = k"]
      using l(6) [OF k] refs there by (auto simp: g_def)
    show "list_all2 (device_back ns) (filter (\<lambda>d. find_mission (cd_missionNum d) ?w' = k) devs) (dev_list (group_at k ?w'))"
      using l(7) [OF k] there devs by (cases "k = g") (simp_all add: find dev_list_def)
  qed (rule inv)
  with st' assms(2) show ?thesis
    by (auto simp: statics_ready_def sdc_def loaded_SDC_def)
qed

section \<open>A capture device\<close>

text \<open>The row that \<open>insert_CapDev\<close> stores\<close>

definition CapDev_row :: "host \<Rightarrow> CCaptureDevice \<Rightarrow> row" where
  "CapDev_row h d =
     [(''devNum'', Some (c_str (cd_devNum d))), (''missionID'', Some (decimal h (cd_missionNum d))),
      (''IP'', Some (c_str (cd_IP d))), (''devType'', Some (c_str (cd_devType d))),
      (''MAC'', Some (c_str (cd_MAC d))), (''devName'', Some (c_str (cd_devName d)))]"

definition clean_device :: "CCaptureDevice \<Rightarrow> bool" where
  "clean_device d \<longleftrightarrow> no_nul (cd_devNum d) \<and> no_nul (cd_IP d) \<and> no_nul (cd_devType d) \<and>
     no_nul (cd_MAC d) \<and> no_nul (cd_devName d)"

lemma load_CapDev:
  assumes "loaded ns cfgs devs P (q_world st)" and "statics_ready st" and "reads_back h lc" and "clean_device d"
    and "length devs < MAX_CAPDEV"
  shows "\<exists>st'. callback lc raw ''capDevs'' (CapDev_row h d) st = Some st' \<and>
    loaded ns cfgs (devs @ [d]) P (q_world st') \<and> statics_ready st'"
proof -
  let ?w = "q_world st"
  let ?q = "(q_capdev st)\<lparr>cd_devNum := cd_devNum d, cd_missionNum := cd_missionNum d, cd_IP := cd_IP d,
    cd_devType := cd_devType d, cd_MAC := cd_MAC d, cd_devName := cd_devName d\<rparr>"
  define g where "g = find_mission (cd_missionNum d) ?w"
  define e where "e = (if g = None then ?q\<lparr>cd_missionNum := - 1\<rparr> else ?q)"
  note l = loadedD [OF assms(1)]
  have g: "g \<in> groups ?w" by (simp add: g_def)
  have "length (dev_list (group_at g ?w)) \<le> length devs"
    using length_filter_le [of _ devs] list_all2_lengthD [OF l(7) [OF g]] by metis
  with assms(5) have room: "unat (ms_totalCapDev (group_at g ?w)) < MAX_CAPDEV" by simp
  have wf: "wf_mission (w_cams ?w) (group_at g ?w)" by (rule group_wf [OF l(1) g])
  from addCapDev_list [OF room, of e] obtain ms x where
    a: "addCapDev (group_at g ?w) e = Some ms" and x: "x = copy_CapDev e (ms_capDev (group_at g ?w) (unat (ms_totalCapDev (group_at g ?w))))"
    and devs: "dev_list ms = dev_list (group_at g ?w) @ [x]"
    and same: "ms_SpdDomeCam ms = ms_SpdDomeCam (group_at g ?w)" "ms_totalSpdDomeCam ms = ms_totalSpdDomeCam (group_at g ?w)"
    and num: "ms_missionNum ms = ms_missionNum (group_at g ?w)"
    by auto
  let ?w' = "put_group g ms ?w"
  have "callback lc raw ''capDevs'' (CapDev_row h d) st = add_loaded_CapDev (st\<lparr>q_capdev := ?q\<rparr>)"
    using assms(4) by (simp add: CapDev_row_def column_capDevs_def reads_back_decimal [OF assms(3)] clean_device_def callback_Nil)
  then have st': "callback lc raw ''capDevs'' (CapDev_row h d) st = Some (st\<lparr>q_capdev := e, q_world := ?w'\<rparr>)"
    using a by (simp add: add_loaded_CapDev_group [where g = g and d = e] g_def e_def)
  have inv: "world_inv ?w'"
    using addCapDev_inv [OF wf a] put_group_inv [OF l(1) g, of "w_cams ?w" ms] num by simp
  have find: "find_mission n ?w' = find_mission n ?w" for n
    using find_mission_put [OF g num] by simp
  have restored: "device_back ns d x"
    using grouped_find [of ?w ns, OF l(2)] by (auto simp: device_back_def x copy_CapDev_def e_def g_def)
  have "loaded ns cfgs (devs @ [d]) P ?w'"
    unfolding loaded_def
  proof (intro conjI ballI)
    show "list_all2 (camera_back ns) cfgs (w_cams ?w')" using l(3) by simp
    show "\<forall>n. find_mission n ?w' \<noteq> None \<longleftrightarrow> n \<in> set ns" using l(2) by (simp add: find)
    show "presets_of (dc_m_sdcCfg c) = P (camNum_of c)" if "c \<in> set (w_cams ?w')" for c
      using that l(5) by simp
    fix k
    assume "k \<in> groups ?w'"
    then have k: "k \<in> groups ?w" by simp
    note there = group_at_put [OF g k, of ms]
    show "cam_refs (group_at k ?w') = filter (\<lambda>r. find_mission (sc_missionNum (cfgs ! r)) ?w' = k) [0..<length cfgs]"
      using l(6) [OF k] same there by (cases "k = g") (simp_all add: find cam_refs_def)
    show "list_all2 (device_back ns) (filter (\<lambda>d. find_mission (cd_missionNum d) ?w' = k) (devs @ [d]))
        (dev_list (group_at k ?w'))"
      unfolding find using l(7) [OF k] there devs restored
      by (cases "k = g") (simp_all add: g_def [symmetric] list_all2_appendI)
  qed (rule inv)
  with st' assms(2) show ?thesis by (auto simp: statics_ready_def)
qed

section \<open>A preset\<close>

lemma presets_of_push:
  assumes "unat (sc_presetTotal cfg) < 255"
  shows "presets_of (push_preset p cfg) = presets_of cfg @ [p]"
proof -
  have "unat (sc_presetTotal cfg + 1) = Suc (unat (sc_presetTotal cfg))"
    using assms by (simp add: unat_word_ariths)
  then show ?thesis by (simp add: presets_of_def push_preset_def)
qed

lemma length_presets_of [simp]: "length (presets_of cfg) = unat (sc_presetTotal cfg)"
  by (simp add: presets_of_def)

lemma camera_back_num: "camera_back ns cfg c \<Longrightarrow> camNum_of c = sc_camNum cfg"
  by (simp add: camera_back_def same_settings_def)

lemma only_camera_exists:
  assumes "list_all2 (camera_back ns) cfgs cams" and "distinct (map sc_camNum cfgs)"
  shows "\<exists>r. only_camera k r cams"
proof -
  have n: "camNum_of (cams ! i) = sc_camNum (cfgs ! i)" if "i < length cams" for i
    using list_all2_nthD2 [OF assms(1) that] by (rule camera_back_num)
  have l: "length cfgs = length cams" using assms(1) by (rule list_all2_lengthD)
  show ?thesis
  proof (cases "k \<in> set (map sc_camNum cfgs)")
    case True
    then obtain r where "r < length cfgs" "k = sc_camNum (cfgs ! r)" by (auto simp: in_set_conv_nth)
    with n l assms(2) show ?thesis by (intro exI [of _ r]) (auto simp: only_camera_def distinct_conv_nth)
  next
    case False
    moreover have "sc_camNum (cfgs ! i) \<in> set (map sc_camNum cfgs)" if "i < length cams" for i
      using that l by simp
    ultimately have "only_camera k (length cams) cams" using n by (fastforce simp: only_camera_def)
    then show ?thesis ..
  qed
qed

lemma load_preset:
  assumes "loaded ns cfgs devs P (q_world st)" and "statics_ready st" and "reads_back h lc"
    and "no_nul k" and "ten_points p" and "ip_fScaleScreen (pr_illparkpara p) = 0x40000000"
    and "distinct (map sc_camNum cfgs)" and "length (P k) < 255"
  shows "\<exists>st'. callback lc raw ''preset'' (preset_row h k p) st = Some st' \<and>
    loaded ns cfgs devs (P(k := P k @ [loaded_preset k p])) (q_world st') \<and> statics_ready st'"
proof -
  let ?w = "q_world st" and ?p = "loaded_preset k p"
  note l = loadedD [OF assms(1)]
  obtain r where r: "only_camera k r (w_cams ?w)" using only_camera_exists [OF l(3) assms(7)] by blast
  let ?cams = "preset_pushed ?p r (w_cams ?w)"
  have num: "pr_camNum ?p = k" by (simp add: loaded_preset_def)
  have ten: "blank_preset ?p" by (rule blank_loaded_preset [OF assms(5)])
  have "\<exists>g \<in> groups ?w. r \<in> set (cam_refs (group_at g ?w))" if "r < length (w_cams ?w)"
    using that l(4,6) find_mission_group [of "sc_missionNum (cfgs ! r)" ?w]
    by (intro bexI [of _ "find_mission (sc_missionNum (cfgs ! r)) ?w"]) auto
  with add_loaded_preset_only [of "st\<lparr>q_preset := ?p\<rparr>" r] l(1) r num
  have st': "callback lc raw ''preset'' (preset_row h k p) st =
      Some (st\<lparr>q_preset := ?p, q_world := ?w\<lparr>w_cams := ?cams\<rparr>\<rparr>)"
    using assms(2) by (simp add: callback_preset_row [OF assms(3,4,5) _ assms(6)] statics_ready_def)
  have pushed: "camNum_of (?cams ! i) = camNum_of (w_cams ?w ! i) \<and>
      presets_of (dc_m_sdcCfg (?cams ! i)) = (P(k := P k @ [?p])) (camNum_of (w_cams ?w ! i)) \<and>
      (camera_back ns cfg (w_cams ?w ! i) \<longrightarrow> camera_back ns cfg (?cams ! i))"
    if i: "i < length (w_cams ?w)" for i cfg
  proof (cases "i = r")
    case True
    with r i have k: "camNum_of (w_cams ?w ! i) = k" by (simp add: only_camera_def)
    with l(5) i have "presets_of (dc_m_sdcCfg (w_cams ?w ! i)) = P k" by simp
    with presets_of_push [of "dc_m_sdcCfg (w_cams ?w ! i)" ?p] assms(8) True i k show ?thesis
      by (simp add: camera_back_def same_settings_def push_preset_def flip: length_presets_of)
  next
    case False
    with r i have "camNum_of (w_cams ?w ! i) \<noteq> k" by (simp add: only_camera_def)
    with l(5) i False show ?thesis by simp
  qed
  have "loaded ns cfgs devs (P(k := P k @ [?p])) (?w\<lparr>w_cams := ?cams\<rparr>)"
    unfolding loaded_def
  proof (intro conjI ballI)
    show "world_inv (?w\<lparr>w_cams := ?cams\<rparr>)" by (rule world_inv_cams [OF l(1)]) simp
    show "\<forall>n. find_mission n (?w\<lparr>w_cams := ?cams\<rparr>) \<noteq> None \<longleftrightarrow> n \<in> set ns" using l(2) by simp
    show "list_all2 (camera_back ns) cfgs (w_cams (?w\<lparr>w_cams := ?cams\<rparr>))"
      using l(3) pushed by (simp add: list_all2_conv_all_nth)
    show "presets_of (dc_m_sdcCfg c) = (P(k := P k @ [?p])) (camNum_of c)"
      if "c \<in> set (w_cams (?w\<lparr>w_cams := ?cams\<rparr>))" for c
    proof -
      from that obtain i where "i < length (w_cams ?w)" "c = ?cams ! i" by (auto simp: in_set_conv_nth)
      with pushed show ?thesis by metis
    qed
    fix g
    assume "g \<in> groups (?w\<lparr>w_cams := ?cams\<rparr>)"
    then have g: "g \<in> groups ?w" by simp
    show "cam_refs (group_at g (?w\<lparr>w_cams := ?cams\<rparr>)) =
        filter (\<lambda>r. find_mission (sc_missionNum (cfgs ! r)) (?w\<lparr>w_cams := ?cams\<rparr>) = g) [0..<length cfgs]"
      using l(6) [OF g] by simp
    show "list_all2 (device_back ns) (filter (\<lambda>d. find_mission (cd_missionNum d) (?w\<lparr>w_cams := ?cams\<rparr>) = g) devs)
        (dev_list (group_at g (?w\<lparr>w_cams := ?cams\<rparr>)))"
      using l(7) [OF g] by simp
  qed
  with st' assms(2) ten show ?thesis by (auto simp: statics_ready_def)
qed

section \<open>A mission\<close>

text \<open>The row that \<open>insert_mission\<close> stores\<close>

definition mission_row :: "host \<Rightarrow> u32 \<Rightarrow> row" where
  "mission_row h n = [(''ID'', Some (decimal h n)), (''SDC_ID'', Some ''0''), (''capDevID'', Some ''0'')]"

definition missions_loaded :: "u32 list \<Rightarrow> world \<Rightarrow> bool" where
  "missions_loaded ns w \<longleftrightarrow> world_inv w \<and> w_cams w = [] \<and> empty_mission (w_unstart w) \<and>
     (\<forall>x \<in> set (w_missions w). empty_mission (snd x)) \<and> fst ` set (w_missions w) = sint ` set ns"

lemma missions_loaded_loaded:
  assumes "missions_loaded ns w"
  shows "loaded ns [] [] (\<lambda>_. []) w"
proof -
  have "empty_mission (group_at g w)" if "g \<in> groups w" for g
    using assms that by (auto simp: missions_loaded_def groups_def group_at_def mission_at_def)
  then have "cam_refs (group_at g w) = []" "dev_list (group_at g w) = []" if "g \<in> groups w" for g
    using that by (simp_all add: empty_mission_def cam_refs_def dev_list_def)
  moreover have "find_mission n w \<noteq> None \<longleftrightarrow> n \<in> set ns" for n
    using assms find_mission_known [of w n] by (auto simp: missions_loaded_def dest: signed_word_eqI)
  ultimately show ?thesis using assms by (simp add: loaded_def missions_loaded_def)
qed

lemma load_mission:
  assumes "missions_loaded ns (q_world st)" and "statics_ready st" and "reads_back h lc"
  shows "\<exists>st'. callback lc raw ''missions'' (mission_row h n) st = Some st' \<and>
    missions_loaded (ns @ [n]) (q_world st') \<and> statics_ready st'"
proof -
  let ?ms = "(q_mission st)\<lparr>ms_missionNum := n\<rparr>"
  have e: "empty_mission ?ms" using assms(2) by (simp add: statics_ready_def empty_mission_def)
  have "callback lc raw ''missions'' (mission_row h n) st =
      Some (st\<lparr>q_mission := ?ms, q_world := MissionAdd ?ms (q_world st)\<rparr>)"
    by (simp add: mission_row_def column_missions_def reads_back_decimal [OF assms(3)] Let_def)
  moreover have "missions_loaded (ns @ [n]) (MissionAdd ?ms (q_world st))"
    using assms(1) MissionAdd_inv [OF _ empty_mission_wf [OF e], of "q_world st"] e
      map_insert_set [of "sint n" ?ms "w_missions (q_world st)"]
    by (auto simp: missions_loaded_def MissionAdd_def map_insert_keys)
  moreover have "statics_ready (st\<lparr>q_mission := ?ms, q_world := MissionAdd ?ms (q_world st)\<rparr>)"
    using assms(2) e by (simp add: statics_ready_def)
  ultimately show ?thesis by auto
qed

section \<open>All rows of a table\<close>

lemma exec_rows:
  assumes "cn_open c" and "sq_rows db (q_log st) sql = map row xs" and "Q [] (st\<lparr>q_log := q_log st @ [sql]\<rparr>)"
    and "\<And>xs' x todo s. xs = xs' @ x # todo \<Longrightarrow> Q xs' s \<Longrightarrow> \<exists>s'. cb (row x) s = Some s' \<and> Q (xs' @ [x]) s'"
  shows "\<exists>st'. exec db c cb sql st = Some st' \<and> Q xs st'"
proof -
  have "\<exists>s'. fold (\<lambda>r s. Option.bind s (cb r)) (map row todo) (Some s) = Some s' \<and> Q xs s'"
    if "xs = xs' @ todo" "Q xs' s" for xs' todo s
    using that
  proof (induction todo arbitrary: xs' s)
    case (Cons x todo)
    from assms(4) [OF Cons.prems] obtain s' where s': "cb (row x) s = Some s'" "Q (xs' @ [x]) s'" by blast
    from Cons.IH [of "xs' @ [x]" s'] Cons.prems(1) s' show ?case by simp
  qed simp
  from this [of "[]" xs, OF _ assms(3)] assms(1,2) show ?thesis by (simp add: exec_def)
qed

lemma statics_ready_log [simp]: "statics_ready (st\<lparr>q_log := l\<rparr>) = statics_ready st"
  by (simp add: statics_ready_def)

definition clean_camera :: "SDCcfg \<Rightarrow> bool" where
  "clean_camera cfg \<longleftrightarrow> no_nul (sc_camNum cfg) \<and> no_nul (sc_IP cfg) \<and> no_nul (sc_m_usrName cfg) \<and>
     no_nul (sc_m_pwd cfg) \<and> no_nul (sc_RTSPaddr cfg) \<and> no_nul (sc_brandName cfg) \<and>
     no_nul (sc_productType cfg) \<and> (\<forall>i < unat (sc_presetTotal cfg). ten_points (sc_missionPreset cfg i))"

lemma clean_storable: "reads_back h lc \<Longrightarrow> clean_camera cfg \<Longrightarrow> storable h lc cfg"
  by (simp add: storable_def clean_camera_def reads_back_decimal reads_back_8)

text \<open>
  The statements that change no row: those that create the tables, which fail when the tables exist, and those that read
  them.
\<close>

definition db_tables :: "string list" where
  "db_tables = [''missions'', ''SDCs'', ''capDevs'', ''preset'']"

definition rows_of :: "sqlite \<Rightarrow> string list \<Rightarrow> string \<Rightarrow> row list" where
  "rows_of db log t = sq_rows db log (''SELECT * from '' @ t)"

definition read_only :: "string list" where
  "read_only = [create_SDCs, create_missions, create_capDevs, create_preset] @ map (\<lambda>t. ''SELECT * from '' @ t) db_tables"

text \<open>
  The hypothesis on the database: after the statements \<open>log\<close>, and however often it is read from then on, the tables
  hold the rows of the missions, the cameras and the devices, and the presets \<open>kps\<close>, each with the number of its camera.
\<close>

definition holds_rows ::
  "host \<Rightarrow> sqlite \<Rightarrow> string list \<Rightarrow> u32 list \<Rightarrow> SDCcfg list \<Rightarrow> CCaptureDevice list \<Rightarrow> (string \<times> Preset) list \<Rightarrow> bool" where
  "holds_rows h db log ns cfgs devs kps \<longleftrightarrow> (\<forall>more. set more \<subseteq> set read_only \<longrightarrow>
     (\<forall>sql \<in> {create_SDCs, create_missions, create_capDevs, create_preset}. sq_rows db (log @ more) sql = []) \<and>
     rows_of db (log @ more) ''missions'' = map (mission_row h) ns \<and>
     rows_of db (log @ more) ''SDCs'' = map (SDC_row h) cfgs \<and>
     rows_of db (log @ more) ''capDevs'' = map (CapDev_row h) devs \<and>
     rows_of db (log @ more) ''preset'' = map (\<lambda>(k, p). preset_row h k p) kps)"

text \<open>Loading only reads.\<close>

definition reading :: "string list \<Rightarrow> sql_state \<Rightarrow> bool" where
  "reading log st \<longleftrightarrow> (\<exists>more. set more \<subseteq> set read_only \<and> q_log st = log @ more)"

lemma reading_log:
  assumes "reading log st" and "q_log st' = q_log st @ [sql]" and "sql \<in> set read_only"
  shows "reading log st'"
proof -
  from assms(1) obtain more where "set more \<subseteq> set read_only" "q_log st = log @ more" by (auto simp: reading_def)
  with assms(2,3) show ?thesis unfolding reading_def by (intro exI [of _ "more @ [sql]"]) simp
qed

lemma reading_rows:
  assumes "holds_rows h db log ns cfgs devs kps" and "reading log st"
  shows "sq_rows db (q_log st) ''SELECT * from missions'' = map (mission_row h) ns"
    and "sq_rows db (q_log st) ''SELECT * from SDCs'' = map (SDC_row h) cfgs"
    and "sq_rows db (q_log st) ''SELECT * from capDevs'' = map (CapDev_row h) devs"
    and "sq_rows db (q_log st) ''SELECT * from preset'' = map (\<lambda>(k, p). preset_row h k p) kps"
    and "sql \<in> {create_SDCs, create_missions, create_capDevs, create_preset} \<Longrightarrow> sq_rows db (q_log st) sql = []"
  using assms by (auto simp: holds_rows_def reading_def rows_of_def)

lemma columns_log:
  assumes "q_log s = l"
  shows "yields (\<lambda>s. q_log s = l) (column_SDCs lc raw n v s)" "yields (\<lambda>s. q_log s = l) (column_missions lc n v s)"
    "yields (\<lambda>s. q_log s = l) (column_capDevs lc n v s)" "yields (\<lambda>s. q_log s = l) (column_preset lc n v s)"
  unfolding column_SDCs_def column_missions_def column_capDevs_def column_preset_def add_loaded_SDC_def
    add_loaded_CapDev_def add_loaded_preset_def Let_def
  by (intro yields_any_bind yields_split yields_case yields_rules(1,2) yields_any_map; simp add: assms)+

lemma callback_log: "callback lc raw t r st = Some st' \<Longrightarrow> q_log st' = q_log st"
proof (induction r arbitrary: st)
  case (Cons x r)
  obtain n v where x: "x = (n, v)" by (cases x)
  have "yields (\<lambda>s. q_log s = q_log st)
      (if ''SDCs'' = t then column_SDCs lc raw n w st else if ''missions'' = t then column_missions lc n w st
       else if ''capDevs'' = t then column_capDevs lc n w st else if ''preset'' = t then column_preset lc n w st
       else Some st)" for w
    by (intro yields_rules(1,2) columns_log refl)
  note col = yieldsD [OF this]
  from Cons.prems x obtain w s where "(if ''SDCs'' = t then column_SDCs lc raw n w st
       else if ''missions'' = t then column_missions lc n w st
       else if ''capDevs'' = t then column_capDevs lc n w st else if ''preset'' = t then column_preset lc n w st
       else Some st) = Some s" "callback lc raw t r s = Some st'" by (auto simp: bind_eq_Some_conv)
  with col [OF this(1)] Cons.IH [OF this(2)] show ?case by simp
qed simp

lemma exec_log:
  assumes "exec db c cb sql st = Some st'" and "\<And>r s s'. cb r s = Some s' \<Longrightarrow> q_log s' = q_log s"
  shows "q_log st' = q_log st @ [sql]"
proof -
  have "fold (\<lambda>r s. Option.bind s (cb r)) rows (Some s) = Some s' \<Longrightarrow> q_log s' = q_log s" for rows s s'
  proof (induction rows arbitrary: s)
    case (Cons r rows)
    have none: "fold (\<lambda>r s. Option.bind s (cb r)) rows None = None" by (induction rows) simp_all
    show ?case
    proof (cases "cb r s")
      case None
      with Cons.prems none show ?thesis by simp
    next
      case (Some u)
      with Cons.prems have "fold (\<lambda>r s. Option.bind s (cb r)) rows (Some u) = Some s'" by simp
      from Cons.IH [OF this] assms(2) [OF Some] show ?thesis by simp
    qed
  qed simp
  with assms(1) show ?thesis by (fastforce simp: exec_def split: if_splits)
qed

lemma select_reading:
  assumes "select db lc raw c t st = Some st'" and "reading log st" and "t \<in> set db_tables"
  shows "reading log st'"
proof -
  have "q_log st' = q_log st @ [''SELECT * from '' @ t]"
    using exec_log [OF assms(1) [unfolded select_def]] callback_log by blast
  then show ?thesis by (rule reading_log [OF assms(2)]) (use assms(3) in \<open>auto simp: read_only_def\<close>)
qed

text \<open>The presets a camera has in the table after it was stored\<close>

definition stored_presets :: "SDCcfg \<Rightarrow> (string \<times> Preset) list" where
  "stored_presets cfg =
     map (\<lambda>i. (sc_camNum cfg, fixed_rect (sc_missionPreset cfg i))) [0..<unat (sc_presetTotal cfg)]"

lemma load_missions:
  assumes "holds_rows h db log ns cfgs devs kps" and "reads_back h lc" and "cn_open c"
    and "missions_loaded [] (q_world st)" and "statics_ready st" and "reading log st"
  shows "\<exists>st'. select db lc raw c ''missions'' st = Some st' \<and> missions_loaded ns (q_world st') \<and> statics_ready st'"
  unfolding select_def
  by (rule exec_rows [where row = "mission_row h" and Q = "\<lambda>ns s. missions_loaded ns (q_world s) \<and> statics_ready s",
        OF assms(3)])
    (use assms load_mission [OF _ _ assms(2)] in \<open>auto simp: reading_rows\<close>)

lemma load_SDCs:
  assumes "holds_rows h db log ns cfgs devs kps" and "reads_back h lc" and "cn_open c" and "\<forall>cfg \<in> set cfgs. clean_camera cfg"
    and "length cfgs \<le> MAX_SDC" and "loaded ns [] [] (\<lambda>_. []) (q_world st)" and "statics_ready st" and "reading log st"
  shows "\<exists>st'. select db lc raw c ''SDCs'' st = Some st' \<and> loaded ns cfgs [] (\<lambda>_. []) (q_world st') \<and> statics_ready st'"
  unfolding select_def
proof (rule exec_rows [where row = "SDC_row h" and
      Q = "\<lambda>cfgs s. loaded ns cfgs [] (\<lambda>_. []) (q_world s) \<and> statics_ready s", OF assms(3)])
  fix xs' x todo s
  assume xs: "cfgs = xs' @ x # todo" and Q: "loaded ns xs' [] (\<lambda>_. []) (q_world s) \<and> statics_ready s"
  from xs assms(2,4,5) have "storable h lc x" "length xs' < MAX_SDC" by (auto intro: clean_storable)
  from load_SDC [OF conjunct1 [OF Q] conjunct2 [OF Q] this]
  show "\<exists>s'. callback lc raw ''SDCs'' (SDC_row h x) s = Some s' \<and>
      loaded ns (xs' @ [x]) [] (\<lambda>_. []) (q_world s') \<and> statics_ready s'" .
qed (use assms in \<open>auto simp: reading_rows\<close>)

lemma load_CapDevs:
  assumes "holds_rows h db log ns cfgs devs kps" and "reads_back h lc" and "cn_open c" and "\<forall>d \<in> set devs. clean_device d"
    and "length devs \<le> MAX_CAPDEV" and "loaded ns cfgs [] P (q_world st)" and "statics_ready st" and "reading log st"
  shows "\<exists>st'. select db lc raw c ''capDevs'' st = Some st' \<and> loaded ns cfgs devs P (q_world st') \<and> statics_ready st'"
  unfolding select_def
proof (rule exec_rows [where row = "CapDev_row h" and
      Q = "\<lambda>devs s. loaded ns cfgs devs P (q_world s) \<and> statics_ready s", OF assms(3)])
  fix xs' x todo s
  assume xs: "devs = xs' @ x # todo" and Q: "loaded ns cfgs xs' P (q_world s) \<and> statics_ready s"
  from xs assms(4,5) have "clean_device x" "length xs' < MAX_CAPDEV" by auto
  from load_CapDev [OF conjunct1 [OF Q] conjunct2 [OF Q] assms(2) this]
  show "\<exists>s'. callback lc raw ''capDevs'' (CapDev_row h x) s = Some s' \<and>
      loaded ns cfgs (xs' @ [x]) P (q_world s') \<and> statics_ready s'" .
qed (use assms in \<open>auto simp: reading_rows\<close>)

text \<open>The presets of a camera, among those of all, as they are loaded\<close>

definition presets_for :: "(string \<times> Preset) list \<Rightarrow> string \<Rightarrow> Preset list" where
  "presets_for kps k = map (\<lambda>(k, p). loaded_preset k p) (filter (\<lambda>x. fst x = k) kps)"

lemma presets_for_Nil: "presets_for [] = (\<lambda>_. [])"
  by (simp add: presets_for_def fun_eq_iff)

text \<open>What is needed of the presets: a camera has at most 255, the largest number it can count.\<close>

definition presets_ok :: "(string \<times> Preset) list \<Rightarrow> bool" where
  "presets_ok kps \<longleftrightarrow> (\<forall>(k, p) \<in> set kps. no_nul k \<and> ten_points p \<and>
     ip_fScaleScreen (pr_illparkpara p) = 0x40000000 \<and> length (filter (\<lambda>x. fst x = k) kps) < 256)"

lemma filter_stored:
  assumes "distinct (map sc_camNum cfgs)" and "cfg \<in> set cfgs"
  shows "filter (\<lambda>x. fst x = sc_camNum cfg) (concat (map stored_presets cfgs)) = stored_presets cfg"
  using assms
proof (induction cfgs)
  case (Cons a cfgs)
  have own: "filter (\<lambda>x. fst x = sc_camNum b) (stored_presets b) = stored_presets b" for b
    by (simp add: stored_presets_def)
  have other: "sc_camNum cfg \<noteq> sc_camNum b \<Longrightarrow> filter (\<lambda>x. fst x = sc_camNum cfg) (stored_presets b) = []" for b
    by (simp add: stored_presets_def)
  show ?case
  proof (cases "cfg = a")
    case True
    with Cons.prems(1) have "\<forall>b \<in> set cfgs. sc_camNum cfg \<noteq> sc_camNum b" by auto
    then have "filter (\<lambda>x. fst x = sc_camNum cfg) (concat (map stored_presets cfgs)) = []"
      using other by (auto simp: filter_empty_conv stored_presets_def)
    with True own show ?thesis by simp
  next
    case False
    with Cons.prems(2) have "sc_camNum cfg \<in> set (map sc_camNum cfgs)" by simp
    with Cons.prems(1) have "sc_camNum cfg \<noteq> sc_camNum a" by auto
    with False Cons other show ?thesis by simp
  qed
qed simp

lemma presets_for_stored:
  assumes "distinct (map sc_camNum cfgs)" and "cfg \<in> set cfgs"
  shows "presets_for (concat (map stored_presets cfgs)) (sc_camNum cfg) =
    map (\<lambda>i. loaded_preset (sc_camNum cfg) (fixed_rect (sc_missionPreset cfg i))) [0..<unat (sc_presetTotal cfg)]"
  unfolding presets_for_def filter_stored [OF assms] by (simp add: stored_presets_def)

lemma stored_presets_ok:
  assumes "distinct (map sc_camNum cfgs)" and "\<forall>cfg \<in> set cfgs. clean_camera cfg"
  shows "presets_ok (concat (map stored_presets cfgs))"
  unfolding presets_ok_def
proof (clarify)
  fix k p
  assume "(k, p) \<in> set (concat (map stored_presets cfgs))"
  then obtain cfg i where cfg: "cfg \<in> set cfgs" "k = sc_camNum cfg" "i < unat (sc_presetTotal cfg)"
    "p = fixed_rect (sc_missionPreset cfg i)" by (auto simp: stored_presets_def)
  with assms(2) have "no_nul k" "ten_points p" "ip_fScaleScreen (pr_illparkpara p) = 0x40000000"
    by (auto simp: clean_camera_def fixed_rect_def ten_points_def)
  moreover have "length (filter (\<lambda>x. fst x = k) (concat (map stored_presets cfgs))) < 256"
    using filter_stored [OF assms(1) cfg(1)] unat_byte_less [of "sc_presetTotal cfg"]
    by (simp add: cfg(2) stored_presets_def)
  ultimately show "no_nul k \<and> ten_points p \<and> ip_fScaleScreen (pr_illparkpara p) = 0x40000000 \<and>
    length (filter (\<lambda>x. fst x = k) (concat (map stored_presets cfgs))) < 256" by blast
qed

lemma load_presets:
  assumes "holds_rows h db log ns cfgs devs kps" and "reads_back h lc" and "cn_open c" and "presets_ok kps"
    and "distinct (map sc_camNum cfgs)" and "loaded ns cfgs devs (\<lambda>_. []) (q_world st)" and "statics_ready st" and "reading log st"
  shows "\<exists>st'. select db lc raw c ''preset'' st = Some st' \<and> loaded ns cfgs devs (presets_for kps) (q_world st')"
proof -
  let ?Q = "\<lambda>kps s. loaded ns cfgs devs (presets_for kps) (q_world s) \<and> statics_ready s"
  have "\<exists>st'. exec db c (callback lc raw ''preset'') (''SELECT * from '' @ ''preset'') st = Some st' \<and> ?Q kps st'"
  proof (rule exec_rows [where row = "\<lambda>(k, p). preset_row h k p" and Q = ?Q, OF assms(3)])
    fix xs' x todo s
    assume xs: "kps = xs' @ x # todo" and Q: "?Q xs' s"
    obtain k p where x: "x = (k, p)" by (cases x)
    have "(k, p) \<in> set kps" by (simp add: xs x)
    with assms(4) have p: "no_nul k" "ten_points p" "ip_fScaleScreen (pr_illparkpara p) = 0x40000000"
      and "length (filter (\<lambda>x. fst x = k) kps) < 256" by (auto simp: presets_ok_def)
    then have "length (presets_for xs' k) < 255" by (simp add: xs x presets_for_def)
    from load_preset [OF conjunct1 [OF Q] conjunct2 [OF Q] assms(2) p assms(5) this, of raw] obtain s' where
      s': "callback lc raw ''preset'' (preset_row h k p) s = Some s'" "statics_ready s'"
        "loaded ns cfgs devs ((presets_for xs')(k := presets_for xs' k @ [loaded_preset k p])) (q_world s')" by auto
    moreover have "(presets_for xs')(k := presets_for xs' k @ [loaded_preset k p]) = presets_for (xs' @ [x])"
      by (auto simp: presets_for_def x)
    ultimately show "\<exists>s'. callback lc raw ''preset'' (case x of (k, p) \<Rightarrow> preset_row h k p) s = Some s' \<and> ?Q (xs' @ [x]) s'"
      by (simp add: x)
  qed (use assms in \<open>auto simp: reading_rows presets_for_Nil\<close>)
  then show ?thesis unfolding select_def by blast
qed

section \<open>The whole configuration\<close>

text \<open>
  A group is restored from its cameras and devices: each is back, in order, a camera with the presets \<open>P\<close> of
  its number.
\<close>

definition group_restored ::
  "u32 list \<Rightarrow> SDCcfg list \<Rightarrow> CCaptureDevice list \<Rightarrow> (SDCcfg \<Rightarrow> Preset list) \<Rightarrow> cam_heap \<Rightarrow> CMission \<Rightarrow> bool" where
  "group_restored ns cfgs devs P cams ms \<longleftrightarrow>
     list_all2 (\<lambda>cfg c. camera_back ns cfg c \<and> presets_of (dc_m_sdcCfg c) = P cfg) cfgs (cam_list (cams, ms)) \<and>
     list_all2 (device_back ns) devs (dev_list ms)"

lemma map_filter_index: "map ((!) xs) (filter (\<lambda>r. Q (xs ! r)) [0..<length xs]) = filter Q xs"
proof -
  have "filter Q xs = filter Q (map ((!) xs) [0..<length xs])" by (simp add: map_nth)
  then show ?thesis by (simp add: filter_map comp_def)
qed

lemma loaded_group:
  assumes "loaded ns cfgs devs (presets_for kps) w" and "g \<in> groups w"
    and "\<And>n. find_mission n w = g \<longleftrightarrow> N n"
  shows "group_restored ns (filter (\<lambda>cfg. N (sc_missionNum cfg)) cfgs) (filter (\<lambda>d. N (cd_missionNum d)) devs)
    (\<lambda>cfg. presets_for kps (sc_camNum cfg)) (w_cams w) (group_at g w)"
proof -
  note l = loadedD [OF assms(1)]
  let ?R = "\<lambda>cfg c. camera_back ns cfg c \<and> presets_of (dc_m_sdcCfg c) = presets_for kps (sc_camNum cfg)"
  let ?rs = "filter (\<lambda>r. N (sc_missionNum (cfgs ! r))) [0..<length cfgs]"
  have "?R (cfgs ! r) (w_cams w ! r)" if "r < length cfgs" for r
  proof -
    have b: "camera_back ns (cfgs ! r) (w_cams w ! r)" using l(3) that by (rule list_all2_nthD)
    with l(5) [of "w_cams w ! r"] that l(4) camera_back_num [OF b] show ?thesis by simp
  qed
  then have "list_all2 ?R (map ((!) cfgs) ?rs) (map ((!) (w_cams w)) ?rs)"
    by (auto simp: list.rel_map intro: list.rel_refl_strong)
  moreover have "cam_list (w_cams w, group_at g w) = map ((!) (w_cams w)) ?rs"
    using l(6) [OF assms(2)] by (simp add: cam_list_def assms(3))
  ultimately have "list_all2 ?R (filter (\<lambda>cfg. N (sc_missionNum cfg)) cfgs) (cam_list (w_cams w, group_at g w))"
    using map_filter_index [of cfgs "\<lambda>cfg. N (sc_missionNum cfg)"] by simp
  with l(7) [OF assms(2)] show ?thesis by (simp add: group_restored_def assms(3))
qed

lemma group_restored_cong:
  assumes "\<And>cfg. cfg \<in> set cfgs \<Longrightarrow> P cfg = Q cfg"
  shows "group_restored ns cfgs devs P cams ms = group_restored ns cfgs devs Q cams ms"
  using assms unfolding group_restored_def by (intro arg_cong2 [where f = "(\<and>)"] list.rel_cong refl) simp_all

lemma MissionGet_find:
  assumes "world_inv w" and "find_mission n w = Some i"
  shows "MissionGet (sint n) w = Some (mission_at i w)"
proof -
  from find_mission_Some [OF assms(2)] have i: "i < length (w_missions w)" "ms_missionNum (mission_at i w) = n" by auto
  with mission_at_inv [OF assms(1) i(1)] have "w_missions w ! i = (sint n, mission_at i w)"
    by (simp add: mission_at_def prod_eq_iff)
  with i(1) have "(sint n, mission_at i w) \<in> set (w_missions w)" by (metis nth_mem)
  moreover have "distinct (map fst (w_missions w))"
    using assms(1) by (simp add: world_inv_def strict_sorted_iff)
  ultimately show ?thesis by (simp add: MissionGet_def)
qed

lemma loaded_keys:
  assumes "loaded ns cfgs devs P w"
  shows "fst ` set (w_missions w) = sint ` set ns"
proof -
  note l = loadedD [OF assms]
  have key: "\<exists>n :: u32. k = sint n" if "k \<in> fst ` set (w_missions w)" for k
  proof -
    from that obtain ms where "(k, ms) \<in> set (w_missions w)" by auto
    with l(1) have "k = sint (ms_missionNum ms)" by (auto simp: world_inv_def)
    then show ?thesis ..
  qed
  have known: "sint n \<in> fst ` set (w_missions w) \<longleftrightarrow> n \<in> set ns" for n
    using find_mission_known [OF l(1)] l(2) by blast
  show ?thesis
  proof (intro set_eqI iffI)
    fix k
    assume k: "k \<in> fst ` set (w_missions w)"
    from key [OF k] obtain n :: u32 where n: "k = sint n" ..
    with k known [of n] have "n \<in> set ns" by simp
    with n show "k \<in> sint ` set ns" by simp
  next
    fix k
    assume "k \<in> sint ` set ns"
    then obtain n where "k = sint n" "n \<in> set ns" ..
    with known [of n] show "k \<in> fst ` set (w_missions w)" by simp
  qed
qed

lemma create_tables_silent:
  assumes "holds_rows h db log ns cfgs devs kps" and "cn_open c" and "reading log st"
  shows "\<exists>l. createTable db c st = Some (st\<lparr>q_log := l\<rparr>) \<and> reading log (st\<lparr>q_log := l\<rparr>)"
proof -
  have step: "exec db c null_callback sql s = Some (s\<lparr>q_log := q_log s @ [sql]\<rparr>) \<and> reading log (s\<lparr>q_log := q_log s @ [sql]\<rparr>)"
    if "sql \<in> {create_SDCs, create_missions, create_capDevs, create_preset}" "reading log s" for sql s
  proof
    show "exec db c null_callback sql s = Some (s\<lparr>q_log := q_log s @ [sql]\<rparr>)"
      using reading_rows(5) [OF assms(1) that(2,1)] assms(2) by (simp add: exec_def)
    show "reading log (s\<lparr>q_log := q_log s @ [sql]\<rparr>)"
      by (rule reading_log [OF that(2), where sql = sql]) (use that(1) in \<open>auto simp: read_only_def\<close>)
  qed
  let ?l = "q_log st"
  note 1 = step [of create_SDCs st, simplified, OF assms(3)]
  note 2 = step [of create_missions, simplified, OF conjunct2 [OF 1]]
  note 3 = step [of create_capDevs, simplified, OF conjunct2 [OF 2]]
  note 4 = step [of create_preset, simplified, OF conjunct2 [OF 3]]
  from 1 2 3 4 show ?thesis
    by (intro exI [of _ "q_log st @ [create_SDCs, create_missions, create_capDevs, create_preset]"])
      (simp add: createTable_def)
qed

text \<open>
  The restored configuration: the missions are \<open>ns\<close>, each with its cameras and devices, and what belongs to
  no mission of \<open>ns\<close> is among the ungrouped.
\<close>

definition restored ::
  "u32 list \<Rightarrow> SDCcfg list \<Rightarrow> CCaptureDevice list \<Rightarrow> (SDCcfg \<Rightarrow> Preset list) \<Rightarrow> world \<Rightarrow> bool" where
  "restored ns cfgs devs P w \<longleftrightarrow>
     fst ` set (w_missions w) = sint ` set ns \<and>
     (\<forall>n \<in> set ns. \<exists>ms. MissionGet (sint n) w = Some ms \<and>
        group_restored ns (filter (\<lambda>cfg. sc_missionNum cfg = n) cfgs)
          (filter (\<lambda>d. cd_missionNum d = n) devs) P (w_cams w) ms) \<and>
     group_restored ns (filter (\<lambda>cfg. sc_missionNum cfg \<notin> set ns) cfgs)
       (filter (\<lambda>d. cd_missionNum d \<notin> set ns) devs) P (w_cams w) (w_unstart w)"

lemma loaded_restored:
  assumes "loaded ns cfgs devs (presets_for kps) w"
  shows "restored ns cfgs devs (\<lambda>cfg. presets_for kps (sc_camNum cfg)) w"
  unfolding restored_def
proof (intro conjI ballI)
  note l = loadedD [OF assms]
  show "fst ` set (w_missions w) = sint ` set ns" by (rule loaded_keys [OF assms])
  show "group_restored ns (filter (\<lambda>cfg. sc_missionNum cfg \<notin> set ns) cfgs)
      (filter (\<lambda>d. cd_missionNum d \<notin> set ns) devs) (\<lambda>cfg. presets_for kps (sc_camNum cfg)) (w_cams w) (w_unstart w)"
  proof -
    have "find_mission m w = None \<longleftrightarrow> m \<notin> set ns" for m using l(2) by blast
    with loaded_group [OF assms, of None "\<lambda>m. m \<notin> set ns"] show ?thesis by (simp add: group_at_def groups_def)
  qed
  fix n
  assume "n \<in> set ns"
  with l(2) obtain i where i: "find_mission n w = Some i" by blast
  have "find_mission m w = Some i \<longleftrightarrow> m = n" for m
    using i find_mission_Some [of m w i] find_mission_Some [OF i] by auto
  moreover have "Some i \<in> groups w" by (metis i find_mission_group)
  ultimately show "\<exists>ms. MissionGet (sint n) w = Some ms \<and>
      group_restored ns (filter (\<lambda>cfg. sc_missionNum cfg = n) cfgs) (filter (\<lambda>d. cd_missionNum d = n) devs)
        (\<lambda>cfg. presets_for kps (sc_camNum cfg)) (w_cams w) ms"
    using loaded_group [OF assms, of "Some i" "\<lambda>m. m = n"] MissionGet_find [OF l(1) i] by (simp add: group_at_def)
qed

lemma restored_cong:
  assumes "\<And>cfg. cfg \<in> set cfgs \<Longrightarrow> P cfg = Q cfg"
  shows "restored ns cfgs devs P w = restored ns cfgs devs Q w"
proof -
  have "group_restored ns (filter N cfgs) ds P cams ms = group_restored ns (filter N cfgs) ds Q cams ms" for N ds cams ms
    by (rule group_restored_cong) (simp add: assms)
  then show ?thesis by (simp add: restored_def)
qed

text \<open>The state the program starts in: nothing is loaded, the static objects are zero.\<close>

definition fresh_start :: "sql_state \<Rightarrow> bool" where
  "fresh_start st \<longleftrightarrow> w_missions (q_world st) = [] \<and> w_cams (q_world st) = [] \<and>
     empty_mission (w_unstart (q_world st)) \<and> statics_ready st"

lemma restart_loads:
  assumes "sq_open db f" and "holds_rows h db (q_log st) ns cfgs devs kps" and "reads_back h lc"
    and "\<forall>cfg \<in> set cfgs. clean_camera cfg" and "\<forall>d \<in> set devs. clean_device d" and "presets_ok kps"
    and "distinct (map sc_camNum cfgs)" and "0 \<in> set ns"
    and "length cfgs \<le> 2400" and "length devs \<le> 600" and "fresh_start st"
  shows "\<exists>st'. DBloadConfig db lc raw f st = Some st' \<and> loaded ns cfgs devs (presets_for kps) (q_world st')"
proof -
  define c where "c = snd (initConnection db (setParam f connection0))"
  have c: "initConnection db (setParam f connection0) = (0, c)" "cn_open c"
    using assms(1) by (simp_all add: c_def initConnection_def setParam_def connection0_def)
  have "reading (q_log st) st" by (auto simp: reading_def)
  from create_tables_silent [OF assms(2) c(2) this] obtain lg where
    s0: "createTable db c st = Some (st\<lparr>q_log := lg\<rparr>)" "reading (q_log st) (st\<lparr>q_log := lg\<rparr>)" by blast
  let ?s0 = "st\<lparr>q_log := lg\<rparr>"
  have "missions_loaded [] (q_world ?s0)" "statics_ready ?s0"
    using assms(11) by (simp_all add: fresh_start_def missions_loaded_def world_inv_def empty_mission_wf)
  from load_missions [OF assms(2,3) c(2) this s0(2)] obtain s1 where
    s1: "select db lc raw c ''missions'' ?s0 = Some s1" "missions_loaded ns (q_world s1)" "statics_ready s1" by blast
  note r1 = select_reading [OF s1(1) s0(2)]
  from load_SDCs [OF assms(2,3) c(2) assms(4) _ missions_loaded_loaded [OF s1(2)] s1(3)] r1 assms(9) obtain s2 where
    s2: "select db lc raw c ''SDCs'' s1 = Some s2" "loaded ns cfgs [] (\<lambda>_. []) (q_world s2)" "statics_ready s2"
    by (auto simp: MAX_SDC_def db_tables_def)
  have r2: "reading (q_log st) s2" using select_reading [OF s2(1)] r1 by (simp add: db_tables_def)
  from load_CapDevs [OF assms(2,3) c(2) assms(5) _ s2(2,3) r2] assms(10) obtain s3 where
    s3: "select db lc raw c ''capDevs'' s2 = Some s3" "loaded ns cfgs devs (\<lambda>_. []) (q_world s3)" "statics_ready s3"
    by (auto simp: MAX_CAPDEV_def)
  have r3: "reading (q_log st) s3" using select_reading [OF s3(1) r2] by (simp add: db_tables_def)
  from load_presets [OF assms(2,3) c(2) assms(6,7) s3(2,3) r3] obtain st' where
    st': "select db lc raw c ''preset'' s3 = Some st'" "loaded ns cfgs devs (presets_for kps) (q_world st')" by blast
  from loaded_restored [OF st'(2)] assms(8) obtain ms where "MissionGet 0 (q_world st') = Some ms"
    by (fastforce simp: restored_def)
  with s0 s1(1) s2(1) s3(1) st'(1) c(1) have "DBloadConfig db lc raw f st = Some st'"
    by (simp add: DBloadConfig_def)
  with st'(2) show ?thesis by blast
qed

text \<open>The presets of a camera after a restart, as it was stored\<close>

definition presets_back :: "SDCcfg \<Rightarrow> Preset list" where
  "presets_back cfg =
     map (\<lambda>i. loaded_preset (sc_camNum cfg) (fixed_rect (sc_missionPreset cfg i))) [0..<unat (sc_presetTotal cfg)]"

text \<open>
  C19: the configuration survives a restart. Suppose that the database opens and its tables hold the rows that were
  stored of the missions \<open>ns\<close>, among them 0, of the cameras \<open>cfgs\<close> with different numbers and all their
  presets, and of the devices \<open>devs\<close>, at most 2400 cameras and 600 devices, with no NUL in a string; that printed
  numbers are read back; and that nothing is loaded yet. Then starting the program succeeds. The missions are those of
  \<open>ns\<close>. Each has exactly its cameras and its devices, in the order they were stored, and whatever was stored for a mission
  that is not there is among the ungrouped, with -1 for its mission's number. A camera is free, at its first preset, and
  has its number, address, port, user, password, stream address, brand and product, but not its mode and plate widths, which
  have no column. Its presets are as many as were stored and as they were stored: the same but for the rectangle and the
  scale, which are constants in the table, and for the two thresholds without a column, which are zero. A device has its
  number, name, type and addresses.
\<close>

theorem restart_restores:
  assumes "sq_open db f" and "holds_rows h db (q_log st) ns cfgs devs (concat (map stored_presets cfgs))" and "reads_back h lc"
    and "\<forall>cfg \<in> set cfgs. clean_camera cfg" and "\<forall>d \<in> set devs. clean_device d"
    and "distinct (map sc_camNum cfgs)" and "0 \<in> set ns"
    and "length cfgs \<le> 2400" and "length devs \<le> 600" and "fresh_start st"
  shows "\<exists>st'. DBloadConfig db lc raw f st = Some st' \<and> restored ns cfgs devs presets_back (q_world st')"
proof -
  from restart_loads [OF assms(1-5) stored_presets_ok [OF assms(6,4)] assms(6-10)] obtain st' where
    st': "DBloadConfig db lc raw f st = Some st'"
    and l: "loaded ns cfgs devs (presets_for (concat (map stored_presets cfgs))) (q_world st')" by blast
  have "presets_for (concat (map stored_presets cfgs)) (sc_camNum cfg) = presets_back cfg" if "cfg \<in> set cfgs" for cfg
    using presets_for_stored [OF assms(6) that] by (simp add: presets_back_def)
  with restored_cong [of cfgs "\<lambda>cfg. presets_for (concat (map stored_presets cfgs)) (sc_camNum cfg)" presets_back]
    loaded_restored [OF l] have "restored ns cfgs devs presets_back (q_world st')" by simp
  with st' show ?thesis by blast
qed

section \<open>Witness\<close>

text \<open>Numbers are printed and read in decimal.\<close>

definition undec :: "string \<Rightarrow> nat" where
  "undec s = foldl (\<lambda>n c. 10 * n + (of_char c - 48)) 0 s"

definition signed_dec :: "int \<Rightarrow> string" where
  "signed_dec i = (if i < 0 then CHR 0x2D # dec (nat (- i)) else dec (nat i))"

definition read_dec :: "string \<Rightarrow> int" where
  "read_dec s = (case s of [] \<Rightarrow> 0 | c # cs \<Rightarrow> if c = CHR 0x2D then - int (undec cs) else int (undec s))"

lemma undec_dec: "undec (dec n) = n"
proof (induction n rule: dec.induct)
  case (1 n)
  show ?case
  proof (cases "n < 10")
    case True
    then show ?thesis by (subst dec.simps) (simp add: undec_def)
  next
    case False
    with 1 have "undec (dec (n div 10)) = n div 10" by simp
    with False show ?thesis by (subst dec.simps) (simp add: undec_def)
  qed
qed

lemma dec_digits: "dec n \<noteq> [] \<and> (\<forall>c \<in> set (dec n). 48 \<le> (of_char c :: nat))"
proof (induction n rule: dec.induct)
  case (1 n)
  then show ?case by (subst (1 2) dec.simps) auto
qed

lemma read_signed_dec: "read_dec (signed_dec i) = i"
proof -
  obtain c cs where d: "dec (nat i) = c # cs" using dec_digits [of "nat i"] by (cases "dec (nat i)") auto
  with dec_digits [of "nat i"] have "48 \<le> (of_char c :: nat)" by simp
  then have "c \<noteq> CHR 0x2D" by auto
  with d show ?thesis
    using undec_dec [of "nat i"] undec_dec [of "nat (- i)"] by (simp add: read_dec_def signed_dec_def)
qed

definition host_dec :: host where
  "host_dec = host0\<lparr>h_lexical_cast := signed_dec\<rparr>"

definition lc_dec :: parser where
  "lc_dec = \<lparr>lc_int = \<lambda>s. Some (word_of_int (read_dec s)), lc_uint = \<lambda>s. Some (word_of_int (read_dec s)),
     lc_float = \<lambda>s. if s = ''2.0'' then Some 0x40000000 else None\<rparr>"

lemma reads_back_dec: "reads_back host_dec lc_dec"
  by (simp add: reads_back_def host_dec_def lc_dec_def read_signed_dec)

definition db_full :: "SDCcfg \<Rightarrow> sqlite" where
  "db_full cfg = \<lparr>sq_open = \<lambda>_. True, sq_rows = \<lambda>log sql.
     if sql = ''SELECT * from missions'' then map (mission_row host_dec) [0, 3]
     else if sql = ''SELECT * from SDCs'' then map (SDC_row host_dec) [cfg]
     else if sql = ''SELECT * from capDevs'' then map (CapDev_row host_dec) [dev0]
     else if sql = ''SELECT * from preset'' then
       map (\<lambda>(k, p). preset_row host_dec k p) (concat (map stored_presets [cfg0]))
     else []\<rparr>"

lemma holds_rows_full:
  "holds_rows host_dec (db_full cfg) log [0, 3] [cfg] [dev0] (concat (map stored_presets [cfg0]))"
  unfolding holds_rows_def rows_of_def
  by (simp add: db_full_def create_SDCs_def create_missions_def create_capDevs_def create_preset_def
      del: map_append concat.simps list.map)

definition st_boot :: sql_state where
  "st_boot = st0\<lparr>q_SDC := upd_cfg (\<lambda>c. c\<lparr>sc_presetTotal := 0\<rparr>) cam0\<rparr>"

lemma fresh_boot: "fresh_start st_boot"
  by (simp add: fresh_start_def st_boot_def st0_def empty_mission_def mission0_def statics_ready_def blank_preset_def
      ten_points_def preset0_def ip0_def)

lemma clean0: "clean_camera cfg0" "clean_device dev0"
  by (simp_all add: clean_camera_def clean_device_def ten_points_def cfg0_def dev0_def preset0_def ip0_def ord8_def)

lemma presets_back0: "presets_back cfg0 = replicate 2 (fixed_rect preset0)"
proof -
  have "replicate 2 x = [x, x]" for x :: Preset by (simp add: numeral_2_eq_2)
  then show ?thesis
    by (simp add: presets_back_def cfg0_def loaded_preset_def fixed_rect_def preset0_def ip0_def upt_rec)
qed

corollary restart_restores_witness:
  "\<exists>st' ms c. DBloadConfig (db_full cfg0) lc_dec cam0 ''ms.db'' st_boot = Some st' \<and>
    MissionGet 3 (q_world st') = Some ms \<and> cam_list (w_cams (q_world st'), ms) = [c] \<and>
    same_settings cfg0 (dc_m_sdcCfg c) \<and>
    presets_of (dc_m_sdcCfg c) = replicate 2 (fixed_rect preset0) \<and>
    map cd_devNum (dev_list ms) = [''42''] \<and> cam_list (w_cams (q_world st'), w_unstart (q_world st')) = []"
proof -
  have "\<forall>cfg \<in> set [cfg0]. clean_camera cfg" "\<forall>d \<in> set [dev0]. clean_device d"
    "distinct (map sc_camNum [cfg0])" "0 \<in> set [0, 3 :: u32]" "length [cfg0] \<le> 2400" "length [dev0] \<le> 600"
    "sq_open (db_full cfg0) ''ms.db''"
    using clean0 by (simp_all add: db_full_def)
  from restart_restores [OF this(7) holds_rows_full reads_back_dec this(1-6) fresh_boot, of cam0] obtain st' where
    l: "DBloadConfig (db_full cfg0) lc_dec cam0 ''ms.db'' st_boot = Some st'"
    and r: "restored [0, 3] [cfg0] [dev0] presets_back (q_world st')" by blast
  have n: "sc_missionNum cfg0 = 3" "cd_missionNum dev0 = 3" by (simp_all add: cfg0_def dev0_def)
  from r n obtain ms c d where m: "MissionGet 3 (q_world st') = Some ms"
    and c: "cam_list (w_cams (q_world st'), ms) = [c]" "camera_back [0, 3] cfg0 c"
      "presets_of (dc_m_sdcCfg c) = presets_back cfg0"
    and d: "dev_list ms = [d]" "device_back [0, 3] dev0 d"
    and u: "cam_list (w_cams (q_world st'), w_unstart (q_world st')) = []"
    by (auto simp: restored_def group_restored_def list_all2_Cons1)
  have "same_settings cfg0 (dc_m_sdcCfg c)"
    using c(2) n by (simp add: camera_back_def same_settings_def grouped_def)
  moreover have "cd_devNum d = ''42''" using d(2) by (simp add: device_back_def dev0_def)
  ultimately show ?thesis using l m c(1,3) d(1) u by (simp add: presets_back0)
qed

end
