(* ===== verification/StoredUpdate.thy ===== *)
theory StoredUpdate
  imports Loading
begin

text \<open>
  A change of a camera and a restart after it. The statement the change executes is an UPDATE of the row of the
  camera; what SQLite does with an UPDATE is a hypothesis, from which the rows after the change follow.
\<close>

section \<open>UPDATE statements\<close>

text \<open>Values in a statement: numbers are written as they are, strings in quotation marks.\<close>

datatype sql_value = Num string | Str string

fun literal :: "sql_value \<Rightarrow> string" where
  "literal (Num s) = s"
| "literal (Str s) = quote @ s @ quote"

fun cell :: "sql_value \<Rightarrow> string" where
  "cell (Num s) = s"
| "cell (Str s) = s"

fun plain :: "sql_value \<Rightarrow> bool" where
  "plain (Num s) \<longleftrightarrow> True"
| "plain (Str s) \<longleftrightarrow> CHR 0x27 \<notin> set s"

fun assignments :: "(string \<times> sql_value) list \<Rightarrow> string" where
  "assignments [] = []"
| "assignments [(c, v)] = c @ ''='' @ literal v"
| "assignments ((c, v) # a # as) = c @ ''='' @ literal v @ '','' @ assignments (a # as)"

definition update_sql :: "string \<Rightarrow> (string \<times> sql_value) list \<Rightarrow> string \<times> sql_value \<Rightarrow> string" where
  "update_sql t sets key = ''UPDATE '' @ t @ '' SET '' @ assignments sets @
     '' WHERE '' @ fst key @ ''='' @ literal (snd key) @ ''; ''"

text \<open>A row with other values in some columns\<close>

definition assign :: "(string \<times> sql_value) list \<Rightarrow> row \<Rightarrow> row" where
  "assign sets r = map (\<lambda>(c, x). (c, case map_of sets c of None \<Rightarrow> x | Some v \<Rightarrow> Some (cell v))) r"

text \<open>
  What SQLite does with an UPDATE after the statements \<open>log\<close>: the rows of the table that have the value of the key in
  its column get the new values, all other rows stay as they are, and they are read so from then on.
\<close>

definition obeys_update :: "sqlite \<Rightarrow> string list \<Rightarrow> string \<Rightarrow> (string \<times> sql_value) list \<Rightarrow> string \<times> sql_value \<Rightarrow> bool" where
  "obeys_update db log t sets key \<longleftrightarrow> (list_all plain (snd key # map snd sets) \<longrightarrow>
     (\<forall>more. set more \<subseteq> set read_only \<longrightarrow>
       (\<forall>sql \<in> {create_SDCs, create_missions, create_capDevs, create_preset}.
          sq_rows db (log @ update_sql t sets key # more) sql = []) \<and>
       (\<forall>t' \<in> set db_tables. rows_of db (log @ update_sql t sets key # more) t' =
          (if t' = t then map (\<lambda>r. if (fst key, Some (cell (snd key))) \<in> set r then assign sets r else r) (rows_of db log t')
           else rows_of db log t'))))"

section \<open>The change of a camera\<close>

text \<open>The columns the change of a camera sets: all but the number of the camera, by which its row is found.\<close>

definition SDC_sets :: "host \<Rightarrow> SDCcfg \<Rightarrow> (string \<times> sql_value) list" where
  "SDC_sets h cfg =
     [(''missionID'', Num (decimal h (sc_missionNum cfg))), (''IP'', Str (c_str (sc_IP cfg))),
      (''port'', Num (decimal h (sc_port cfg))), (''usrName'', Str (c_str (sc_m_usrName cfg))),
      (''pwd'', Str (c_str (sc_m_pwd cfg))), (''RTSPaddr'', Str (c_str (sc_RTSPaddr cfg))),
      (''brandName'', Str (c_str (sc_brandName cfg))), (''productType'', Str (c_str (sc_productType cfg))),
      (''presetNum'', Num (h_lexical_cast h (uint (sc_presetTotal cfg))))]"

definition SDC_key :: "SDCcfg \<Rightarrow> string \<times> sql_value" where
  "SDC_key cfg = (''camNum'', Str (c_str (sc_camNum cfg)))"

definition SDC_update :: "host \<Rightarrow> SDCcfg \<Rightarrow> string" where
  "SDC_update h cfg = update_sql ''SDCs'' (SDC_sets h cfg) (SDC_key cfg)"

lemma exec_null:
  assumes "exec db c null_callback sql st = Some st'"
  shows "st' = st\<lparr>q_log := q_log st @ [sql]\<rparr>"
proof -
  have "fold (\<lambda>r s. Option.bind s (null_callback r)) rows x = Some st' \<Longrightarrow> x = Some st'" for rows x
  proof (induction rows arbitrary: x)
    case (Cons r rows)
    then show ?case by (cases r; cases x) auto
  qed simp
  with assms show ?thesis by (auto simp: exec_def split: if_splits)
qed

lemma update_SDC_statement:
  assumes "update_SDC h db c new q = Some q'"
  shows "q' = q\<lparr>q_log := q_log q @ [SDC_update h new]\<rparr>"
proof -
  from assms obtain sql where "exec db c null_callback sql q = Some q'" and sql: "sql = SDC_update h new"
    by (auto simp: update_SDC_def bind_eq_Some_conv sprintf_sql_def Let_def SDC_update_def update_sql_def SDC_sets_def
        SDC_key_def quoted_def split: if_splits)
  with exec_null show ?thesis by blast
qed

lemma SDC_row_key:
  assumes "no_nul (sc_camNum cfg)" and "no_nul (sc_camNum new)"
  shows "(fst (SDC_key new), Some (cell (snd (SDC_key new)))) \<in> set (SDC_row h cfg) \<longleftrightarrow> sc_camNum cfg = sc_camNum new"
  using assms by (auto simp: SDC_row_def SDC_key_def)

lemma SDC_row_assign:
  assumes "sc_camNum new = sc_camNum old"
  shows "assign (SDC_sets h new) (SDC_row h old) = SDC_row h new"
  using assms by (simp add: assign_def SDC_sets_def SDC_row_def)

text \<open>No string of the settings has a quotation mark.\<close>

definition unquoted :: "SDCcfg \<Rightarrow> bool" where
  "unquoted cfg \<longleftrightarrow> (\<forall>s \<in> {sc_camNum cfg, sc_IP cfg, sc_m_usrName cfg, sc_m_pwd cfg, sc_RTSPaddr cfg, sc_brandName cfg,
     sc_productType cfg}. CHR 0x27 \<notin> set s)"

lemma unquoted_plain:
  assumes "unquoted cfg" and "clean_camera cfg"
  shows "list_all plain (snd (SDC_key cfg) # map snd (SDC_sets h cfg))"
  using assms by (simp add: unquoted_def SDC_key_def SDC_sets_def clean_camera_def)

text \<open>The rows after the change\<close>

lemma rows_after_update:
  assumes "holds_rows h db log ns cfgs devs kps" and "obeys_update db log ''SDCs'' (SDC_sets h new) (SDC_key new)"
    and "unquoted new" and "old \<in> set cfgs" and "sc_camNum new = sc_camNum old"
    and "\<forall>cfg \<in> set (new # cfgs). clean_camera cfg" and "distinct (map sc_camNum cfgs)"
  shows "holds_rows h db (log @ [SDC_update h new]) ns (map (\<lambda>c. if c = old then new else c) cfgs) devs kps"
proof -
  have "list_all plain (snd (SDC_key new) # map snd (SDC_sets h new))" using unquoted_plain assms(3,6) by simp
  with assms(2) have u: "\<forall>sql \<in> {create_SDCs, create_missions, create_capDevs, create_preset}.
      sq_rows db (log @ SDC_update h new # more) sql = []"
    "\<forall>t \<in> set db_tables. rows_of db (log @ SDC_update h new # more) t =
      (if t = ''SDCs'' then map (\<lambda>r. if (fst (SDC_key new), Some (cell (snd (SDC_key new)))) \<in> set r
         then assign (SDC_sets h new) r else r) (rows_of db log t) else rows_of db log t)"
    if "set more \<subseteq> set read_only" for more
    using that unfolding obeys_update_def SDC_update_def by blast+
  from assms(1) have now: "rows_of db log ''missions'' = map (mission_row h) ns" "rows_of db log ''SDCs'' = map (SDC_row h) cfgs"
    "rows_of db log ''capDevs'' = map (CapDev_row h) devs"
    "rows_of db log ''preset'' = map (\<lambda>(k, p). preset_row h k p) kps"
    unfolding holds_rows_def by (auto dest: spec [of _ "[]"])
  have row: "(if (fst (SDC_key new), Some (cell (snd (SDC_key new)))) \<in> set (SDC_row h cfg)
      then assign (SDC_sets h new) (SDC_row h cfg) else SDC_row h cfg) = SDC_row h (if cfg = old then new else cfg)"
    if "cfg \<in> set cfgs" for cfg
  proof -
    have "no_nul (sc_camNum cfg)" "no_nul (sc_camNum new)" using assms(6) that by (auto simp: clean_camera_def)
    moreover have "sc_camNum cfg = sc_camNum new \<longleftrightarrow> cfg = old"
      using assms(4,5,7) that by (auto simp: distinct_map inj_on_def)
    ultimately show ?thesis using SDC_row_key [of cfg new h] SDC_row_assign [OF assms(5), of h] by simp
  qed
  show ?thesis
    unfolding holds_rows_def
  proof (intro allI impI)
    fix more assume m: "set more \<subseteq> set read_only"
    from u [OF m] now row show "(\<forall>sql \<in> {create_SDCs, create_missions, create_capDevs, create_preset}.
        sq_rows db ((log @ [SDC_update h new]) @ more) sql = []) \<and>
      rows_of db ((log @ [SDC_update h new]) @ more) ''missions'' = map (mission_row h) ns \<and>
      rows_of db ((log @ [SDC_update h new]) @ more) ''SDCs'' = map (SDC_row h) (map (\<lambda>c. if c = old then new else c) cfgs) \<and>
      rows_of db ((log @ [SDC_update h new]) @ more) ''capDevs'' = map (CapDev_row h) devs \<and>
      rows_of db ((log @ [SDC_update h new]) @ more) ''preset'' = map (\<lambda>(k, p). preset_row h k p) kps"
      by (simp add: db_tables_def)
  qed
qed

text \<open>
  C20: a change of a camera's presets does not survive a restart. The database holds the rows of the missions \<open>ns\<close>, 0 among
  them, of at most 2400 cameras \<open>cfgs\<close> of different numbers with all their presets, and of at most 600 devices \<open>devs\<close>, all
  as the program can store them, when a stored camera \<open>old\<close> is changed into \<open>new\<close>, of the same number and without quotation
  marks in its strings. The change
  executes one statement, an UPDATE that sets every column but the number in the row with that number; no statement
  touches the presets. If SQLite does with this UPDATE what it says, the next start succeeds and restores the
  configuration with \<open>new\<close> in the place of \<open>old\<close>, but with the stored presets of \<open>old\<close>, whatever \<open>new\<close> says about them.
\<close>

theorem update_forgets_presets:
  assumes "update_SDC h db c new q = Some q'"
    and "holds_rows h db (q_log q) ns cfgs devs (concat (map stored_presets cfgs))"
    and "obeys_update db (q_log q) ''SDCs'' (SDC_sets h new) (SDC_key new)"
    and "sq_open db f" and "reads_back h lc" and "fresh_start st" and "q_log st = q_log q'"
    and "old \<in> set cfgs" and "sc_camNum new = sc_camNum old" and "unquoted new"
    and "\<forall>cfg \<in> set (new # cfgs). clean_camera cfg" and "\<forall>d \<in> set devs. clean_device d"
    and "distinct (map sc_camNum cfgs)" and "0 \<in> set ns" and "length cfgs \<le> 2400" and "length devs \<le> 600"
  shows "q' = q\<lparr>q_log := q_log q @ [update_sql ''SDCs'' (SDC_sets h new) (SDC_key new)]\<rparr> \<and>
    (\<exists>st'. DBloadConfig db lc raw f st = Some st' \<and>
      restored ns (map (\<lambda>c. if c = old then new else c) cfgs) devs
        (\<lambda>cfg. if sc_camNum cfg = sc_camNum old then presets_back old else presets_back cfg) (q_world st'))"
proof -
  let ?cfgs = "map (\<lambda>c. if c = old then new else c) cfgs" and ?kps = "concat (map stored_presets cfgs)"
  note q' = update_SDC_statement [OF assms(1)]
  from rows_after_update [OF assms(2,3,10,8,9,11,13)] assms(7)
  have rows: "holds_rows h db (q_log st) ns ?cfgs devs ?kps" by (simp add: q')
  have "map sc_camNum ?cfgs = map sc_camNum cfgs" using assms(9) by simp
  with assms(13) have d: "distinct (map sc_camNum ?cfgs)" by metis
  have clean: "\<forall>cfg \<in> set ?cfgs. clean_camera cfg" "\<forall>cfg \<in> set cfgs. clean_camera cfg" using assms(11) by auto
  from restart_loads [OF assms(4) rows assms(5) clean(1) assms(12) stored_presets_ok [OF assms(13) clean(2)] d assms(14) _
      assms(16,6)] assms(15) obtain st' where st': "DBloadConfig db lc raw f st = Some st'"
    and l: "loaded ns ?cfgs devs (presets_for ?kps) (q_world st')" by auto
  have p: "presets_for ?kps (sc_camNum cfg) = (if sc_camNum cfg = sc_camNum old then presets_back old else presets_back cfg)"
    if "cfg \<in> set ?cfgs" for cfg
  proof (cases "sc_camNum cfg = sc_camNum old")
    case True
    with presets_for_stored [OF assms(13,8)] show ?thesis by (simp add: presets_back_def)
  next
    case False
    with that assms(9) have "cfg \<in> set cfgs" by auto
    with presets_for_stored [OF assms(13) this] False show ?thesis by (simp add: presets_back_def)
  qed
  have eq: "restored ns ?cfgs devs (\<lambda>cfg. presets_for ?kps (sc_camNum cfg)) (q_world st') = restored ns ?cfgs devs
      (\<lambda>cfg. if sc_camNum cfg = sc_camNum old then presets_back old else presets_back cfg) (q_world st')"
    by (rule restored_cong) (rule p)
  note loaded_restored [OF l, unfolded eq]
  with st' show ?thesis by (auto simp: q' SDC_update_def)
qed

section \<open>Witness\<close>

text \<open>Camera 7 with one preset instead of two, and another address\<close>

definition cfg_changed :: SDCcfg where
  "cfg_changed = cfg0\<lparr>sc_IP := ''10.0.0.8'', sc_presetTotal := 1\<rparr>"

text \<open>A database that has the old row until the UPDATE was executed\<close>

definition db_update :: sqlite where
  "db_update = \<lparr>sq_open = \<lambda>_. True, sq_rows = \<lambda>log sql.
     sq_rows (db_full (if SDC_update host_dec cfg_changed \<in> set log then cfg_changed else cfg0)) log sql\<rparr>"

lemma update_not_read: "SDC_update h cfg \<notin> set read_only"
  by (simp add: SDC_update_def update_sql_def read_only_def db_tables_def create_SDCs_def create_missions_def
      create_capDevs_def create_preset_def)

lemma db_update_rows:
  "holds_rows host_dec db_update [] [0, 3] [cfg0] [dev0] (concat (map stored_presets [cfg0]))"
proof -
  have "sq_rows db_update ([] @ more) sql = sq_rows (db_full cfg0) ([] @ more) sql" if "set more \<subseteq> set read_only" for more sql
    using that update_not_read [of host_dec cfg_changed] by (auto simp: db_update_def)
  with holds_rows_full [of cfg0 "[]"] show ?thesis unfolding holds_rows_def rows_of_def by simp
qed

lemma db_update_obeys: "obeys_update db_update [] ''SDCs'' (SDC_sets host_dec cfg_changed) (SDC_key cfg_changed)"
proof -
  have key: "(fst (SDC_key cfg_changed), Some (cell (snd (SDC_key cfg_changed)))) \<in> set (SDC_row host_dec cfg0)"
    by (simp add: SDC_key_def SDC_row_def cfg_changed_def)
  have row: "assign (SDC_sets host_dec cfg_changed) (SDC_row host_dec cfg0) = SDC_row host_dec cfg_changed"
    by (rule SDC_row_assign) (simp add: cfg_changed_def)
  have after: "sq_rows db_update ([] @ SDC_update host_dec cfg_changed # more) sql = sq_rows (db_full cfg_changed) [] sql" for more sql
    by (simp add: db_update_def db_full_def)
  have before: "sq_rows db_update [] sql = sq_rows (db_full cfg0) [] sql" for sql by (simp add: db_update_def)
  show ?thesis
    unfolding obeys_update_def SDC_update_def [symmetric] rows_of_def after before
    using key row
    by (simp add: db_full_def db_tables_def create_SDCs_def create_missions_def create_capDevs_def create_preset_def
        del: map_append concat.simps)
qed

lemma changed_fits:
  "\<exists>q'. update_SDC host_dec db_update \<lparr>cn_dbName = [], cn_open = True\<rparr> cfg_changed (st0\<lparr>q_log := []\<rparr>) = Some q'"
  by (simp add: update_SDC_def sprintf_sql_def Let_def cfg_changed_def cfg0_def decimal_def host_dec_def signed_dec_def
      dec.simps c_str_def ord8_def exec_def db_update_def db_full_def)

corollary update_forgets_presets_witness:
  "\<exists>st' ms c. DBloadConfig db_update lc_dec cam0 ''ms.db'' (st_boot\<lparr>q_log := [SDC_update host_dec cfg_changed]\<rparr>) = Some st' \<and>
    MissionGet 3 (q_world st') = Some ms \<and> cam_list (w_cams (q_world st'), ms) = [c] \<and>
    sc_IP (dc_m_sdcCfg c) = ''10.0.0.8'' \<and> presets_of (dc_m_sdcCfg c) = replicate 2 (fixed_rect preset0)"
proof -
  let ?q = "st0\<lparr>q_log := []\<rparr>" and ?st = "st_boot\<lparr>q_log := [SDC_update host_dec cfg_changed]\<rparr>"
  have c: "clean_camera cfg_changed" "unquoted cfg_changed"
    by (simp_all add: cfg_changed_def clean_camera_def unquoted_def ten_points_def cfg0_def preset0_def ip0_def ord8_def)
  have all: "\<forall>cfg \<in> set [cfg_changed, cfg0]. clean_camera cfg" "\<forall>d \<in> set [dev0]. clean_device d"
    "distinct (map sc_camNum [cfg0])" "0 \<in> set [0, 3 :: u32]" "length [cfg0] \<le> 2400" "length [dev0] \<le> 600"
    "sq_open db_update ''ms.db''" "cfg0 \<in> set [cfg0]" "sc_camNum cfg_changed = sc_camNum cfg0"
    using clean0 c by (simp_all add: db_update_def cfg_changed_def)
  from changed_fits obtain q' where
    q': "update_SDC host_dec db_update \<lparr>cn_dbName = [], cn_open = True\<rparr> cfg_changed ?q = Some q'" by blast
  have log: "q_log ?st = q_log q'" "fresh_start ?st"
    using update_SDC_statement [OF q'] fresh_boot by (simp_all add: fresh_start_def)
  have h: "holds_rows host_dec db_update (q_log ?q) [0, 3] [cfg0] [dev0] (concat (map stored_presets [cfg0]))"
    "obeys_update db_update (q_log ?q) ''SDCs'' (SDC_sets host_dec cfg_changed) (SDC_key cfg_changed)"
    using db_update_rows db_update_obeys by simp_all
  from update_forgets_presets [OF q' h all(7) reads_back_dec log(2,1) all(8,9) c(2) all(1-6), of cam0] obtain st' where
    l: "DBloadConfig db_update lc_dec cam0 ''ms.db'' ?st = Some st'"
    and r: "restored [0, 3] [cfg_changed] [dev0]
      (\<lambda>cfg. if sc_camNum cfg = sc_camNum cfg0 then presets_back cfg0 else presets_back cfg) (q_world st')" by auto
  have n: "sc_missionNum cfg_changed = 3" "sc_camNum cfg_changed = sc_camNum cfg0"
    by (simp_all add: cfg_changed_def cfg0_def)
  from r n obtain ms c where m: "MissionGet 3 (q_world st') = Some ms" "cam_list (w_cams (q_world st'), ms) = [c]"
      "camera_back [0, 3] cfg_changed c" "presets_of (dc_m_sdcCfg c) = presets_back cfg0"
    by (auto simp: restored_def group_restored_def list_all2_Cons1)
  then have "sc_IP (dc_m_sdcCfg c) = ''10.0.0.8''" by (simp add: camera_back_def same_settings_def cfg_changed_def)
  with l m show ?thesis by (simp add: presets_back0)
qed

end
