(* ===== verification/TcpServer.thy ===== *)
theory TcpServer
  imports Machine "HOL-Library.Multiset"
begin

text \<open>
  The server of \<open>src/tcp_server.hpp\<close>, which sends a message to every client that is connected, and its messages
  (\<open>src/tcp_message.hpp\<close>). No file of the program includes it. A session carries the writes that were
  started on its socket, in order, and how many of them have completed. \<open>malloc\<close> is taken to succeed.
\<close>

section \<open>Messages\<close>

record Tcp_message =
  tm_data :: "byte list"
  tm_data_length :: nat

text \<open>The copy reads \<open>len\<close> bytes of the buffer; a negative length becomes a huge one.\<close>

definition Tcp_message_new :: "byte list \<Rightarrow> int \<Rightarrow> Tcp_message option" where
  "Tcp_message_new framebuff len =
     (if 0 \<le> len \<and> nat len \<le> length framebuff
      then Some \<lparr>tm_data = take (nat len) framebuff, tm_data_length = nat len\<rparr> else None)"

text \<open>What a write of the message sends\<close>

definition tm_bytes :: "Tcp_message \<Rightarrow> byte list" where
  "tm_bytes m = take (tm_data_length m) (tm_data m)"

lemma Tcp_message_bytes: "Tcp_message_new b n = Some m \<Longrightarrow> tm_bytes m = take (nat n) b"
  by (auto simp: Tcp_message_new_def tm_bytes_def split: if_splits)

section \<open>Sessions\<close>

record Tcp_session =
  ts_write_msgs :: "Tcp_message list"
  ts_heartbeat :: "byte list"
  ts_closed :: bool
  ts_writes :: "byte list list"
  ts_completed :: nat
  ts_reads :: nat

text \<open>The memory a session is built in holds any bytes and any value of \<open>closed\<close>.\<close>

definition Tcp_session_new :: "byte list \<Rightarrow> bool \<Rightarrow> Tcp_session" where
  "Tcp_session_new raw closed =
     (let hb = str_bytes ''heart beat'' @ [10, 0] in
      \<lparr>ts_write_msgs = [], ts_heartbeat = hb @ drop (length hb) raw, ts_closed = closed, ts_writes = [],
        ts_completed = 0, ts_reads = 0\<rparr>)"

definition ts_async_write :: "byte list \<Rightarrow> Tcp_session \<Rightarrow> Tcp_session" where
  "ts_async_write bs s = s\<lparr>ts_writes := ts_writes s @ [bs]\<rparr>"

definition ts_start :: "Tcp_session \<Rightarrow> Tcp_session" where
  "ts_start s = ts_async_write (take 128 (ts_heartbeat s)) s"

definition ts_Post :: "byte list \<Rightarrow> int \<Rightarrow> Tcp_session \<Rightarrow> Tcp_session option" where
  "ts_Post buff len s = do {
     c \<leftarrow> Tcp_message_new buff len;
     let empty = (ts_write_msgs s = []);
     let s = s\<lparr>ts_write_msgs := c # ts_write_msgs s\<rparr>;
     Some (if empty then ts_async_write (tm_bytes (hd (ts_write_msgs s))) s else s)
   }"

definition ts_CloseSocket :: "Tcp_session \<Rightarrow> Tcp_session" where
  "ts_CloseSocket s = s\<lparr>ts_closed := True\<rparr>"

definition ts_handle_read :: "string option \<Rightarrow> Tcp_session \<Rightarrow> Tcp_session" where
  "ts_handle_read error s = (case error of None \<Rightarrow> s\<lparr>ts_reads := ts_reads s + 1\<rparr> | Some _ \<Rightarrow> s)"

text \<open>An empty queue has no front to remove.\<close>

definition ts_handle_write :: "string option \<Rightarrow> Tcp_session \<Rightarrow> Tcp_session option" where
  "ts_handle_write error s =
     (case error of
        None \<Rightarrow> (case ts_write_msgs s of
            [] \<Rightarrow> None
          | _ # ms \<Rightarrow>
              let s = s\<lparr>ts_write_msgs := ms\<rparr>
              in Some (if ms \<noteq> [] then ts_async_write (tm_bytes (hd ms)) s else s))
      | Some _ \<Rightarrow> Some (ts_CloseSocket s))"

section \<open>What a session sends\<close>

text \<open>A message is posted, or a write that is under way completes.\<close>

datatype tcp_event = Posted "byte list" int | Written "string option"

definition ts_completion :: "string option \<Rightarrow> Tcp_session \<Rightarrow> Tcp_session option" where
  "ts_completion error s =
     (if ts_completed s < length (ts_writes s) then ts_handle_write error (s\<lparr>ts_completed := ts_completed s + 1\<rparr>)
      else Some s)"

fun tcp_step :: "tcp_event \<Rightarrow> Tcp_session \<Rightarrow> Tcp_session option" where
  "tcp_step (Posted buff len) s = ts_Post buff len s"
| "tcp_step (Written error) s = ts_completion error s"

text \<open>One write is under way while messages wait, none otherwise; a closed session waits for ever.\<close>

definition flight_inv :: "Tcp_session \<Rightarrow> bool" where
  "flight_inv s \<longleftrightarrow> ts_completed s + (if ts_write_msgs s = [] \<or> ts_closed s then 0 else 1) = length (ts_writes s) \<and>
     (ts_closed s \<longrightarrow> ts_write_msgs s \<noteq> [])"

abbreviation size_ok :: "byte list \<Rightarrow> int \<Rightarrow> bool" where
  "size_ok buff len \<equiv> 0 \<le> len \<and> nat len \<le> length buff"

fun wf_tcp :: "tcp_event \<Rightarrow> bool" where
  "wf_tcp (Posted buff len) \<longleftrightarrow> size_ok buff len"
| "wf_tcp (Written error) \<longleftrightarrow> True"

text \<open>A session after a post\<close>

definition posted :: "byte list \<Rightarrow> int \<Rightarrow> Tcp_session \<Rightarrow> Tcp_session" where
  "posted b n s =
     (let s' = s\<lparr>ts_write_msgs := \<lparr>tm_data = take (nat n) b, tm_data_length = nat n\<rparr> # ts_write_msgs s\<rparr>
      in if ts_write_msgs s = [] then ts_async_write (take (nat n) b) s' else s')"

lemma ts_Post_ok: "size_ok b n \<Longrightarrow> ts_Post b n s = Some (posted b n s)"
  by (simp add: ts_Post_def Tcp_message_new_def tm_bytes_def posted_def Let_def)

lemma posted_closed [simp]: "ts_closed (posted b n s) = ts_closed s"
  by (simp add: posted_def ts_async_write_def Let_def)

lemma flight_step: "flight_inv s \<Longrightarrow> wf_tcp ev \<Longrightarrow> \<exists>t. tcp_step ev s = Some t \<and> flight_inv t"
proof (cases ev)
  case (Posted b n)
  assume "flight_inv s" "wf_tcp ev"
  with Posted show ?thesis by (auto simp: ts_Post_ok posted_def Let_def flight_inv_def ts_async_write_def split: if_splits)
next
  case (Written error)
  assume "flight_inv s"
  with Written show ?thesis
    by (cases error; cases "ts_write_msgs s")
      (auto simp: ts_completion_def ts_handle_write_def flight_inv_def ts_async_write_def ts_CloseSocket_def Let_def
        split: if_splits)
qed

interpretation tcp: machine tcp_step flight_inv wf_tcp
  using flight_step by unfold_locales fastforce

lemma new_flight: "flight_inv (Tcp_session_new raw False)"
  by (simp add: Tcp_session_new_def flight_inv_def Let_def)

text \<open>Whatever is posted and whatever writes succeed or fail, a session that was not started does not go wrong.\<close>

lemma posts_never_fail: "list_all wf_tcp evs \<Longrightarrow> \<exists>t. runs tcp_step evs (Tcp_session_new raw False) = Some t"
  using tcp.runs_total [OF _ new_flight] flight_step by fastforce

text \<open>
  What the posts make the session send, one message for each: a post to an idle session sends its message, a
  post while a write is under way sends the message at the front once more.
\<close>

fun owed :: "byte list list \<Rightarrow> tcp_event list \<Rightarrow> byte list list" where
  "owed q [] = []"
| "owed q (Posted buff len # evs) =
     (let m = take (nat len) buff in (if q = [] then m else hd q) # owed (m # q) evs)"
| "owed q (Written error # evs) = owed (tl q) evs"

abbreviation waiting :: "Tcp_session \<Rightarrow> byte list list" where
  "waiting s \<equiv> map tm_bytes (ts_write_msgs s)"

fun no_failure :: "tcp_event \<Rightarrow> bool" where
  "no_failure (Posted buff len) \<longleftrightarrow> size_ok buff len"
| "no_failure (Written error) \<longleftrightarrow> error = None"

lemma posted_writes:
  assumes "flight_inv s" and "\<not> ts_closed s" and "list_all no_failure evs"
  shows "\<exists>t. runs tcp_step evs s = Some t \<and>
    mset (ts_writes t) + mset (tl (waiting t)) = mset (ts_writes s) + mset (tl (waiting s)) + mset (owed (waiting s) evs)"
  using assms
proof (induction evs arbitrary: s)
  case (Cons ev evs)
  from Cons.prems have ok: "wf_tcp ev" by (cases ev) simp_all
  from flight_step [OF Cons.prems(1) this] obtain u where u: "tcp_step ev s = Some u" "flight_inv u" by blast
  have "\<not> ts_closed u \<and> mset (ts_writes u) + mset (tl (waiting u)) + mset (owed (waiting u) evs) =
      mset (ts_writes s) + mset (tl (waiting s)) + mset (owed (waiting s) (ev # evs))"
  proof (cases ev)
    case (Posted b n)
    with u(1) Cons.prems show ?thesis
      by (cases "ts_write_msgs s") (auto simp: ts_Post_ok posted_def ts_async_write_def tm_bytes_def Let_def)
  next
    case (Written e)
    with u(1) Cons.prems show ?thesis
      by (cases "ts_write_msgs s"; cases "tl (ts_write_msgs s)")
        (auto simp: ts_completion_def ts_handle_write_def flight_inv_def ts_async_write_def Let_def split: if_splits)
  qed
  with Cons.IH [OF u(2)] Cons.prems(3) u(1) show ?case by auto
qed simp

text \<open>
  While a session is idle it sends what is posted; a message posted while a write is under way is queued in front
  of it, so the completion removes the new message and the one just sent goes out again. What a session without
  failures has sent, with what it still has to send, is one message for each post: the message itself if the session
  was idle, otherwise the message at the front, once more. No post and no completion ever fails.
\<close>

theorem post_sends_front:
  assumes "list_all no_failure evs"
  shows "\<exists>t. runs tcp_step evs (Tcp_session_new raw False) = Some t \<and>
    mset (ts_writes t) + mset (tl (waiting t)) = mset (owed [] evs)"
proof -
  have "\<not> ts_closed (Tcp_session_new raw False)" by (simp add: Tcp_session_new_def Let_def)
  from posted_writes [OF new_flight this assms] show ?thesis by (simp add: Tcp_session_new_def Let_def)
qed

corollary post_sends_front_witness:
  "\<exists>t. runs tcp_step [Posted [1] 1, Posted [2] 1, Written None, Written None] (Tcp_session_new [] False) = Some t \<and>
    mset (ts_writes t) + mset (tl (waiting t)) = {#[1], [1]#}"
  using post_sends_front [of "[Posted [1] 1, Posted [2] 1, Written None, Written None]" "[]"]
  by (simp add: Let_def del: runs.simps)

text \<open>A session that was started would remove the front of an empty queue when its first write completes.\<close>

lemma started_session_fails:
  "tcp_step (Written None) (ts_start (Tcp_session_new raw closed)) = None"
  by (simp add: ts_start_def Tcp_session_new_def ts_completion_def ts_handle_write_def ts_async_write_def Let_def)

section \<open>The server\<close>

text \<open>
  The sessions the server has made, the list of those that were accepted, and the one whose accept is pending.
\<close>

record Tcp_server =
  tv_heap :: "Tcp_session list"
  tv_list :: "nat list"
  tv_pending :: nat

definition tv_start_accept :: "byte list \<Rightarrow> bool \<Rightarrow> Tcp_server \<Rightarrow> Tcp_server" where
  "tv_start_accept raw closed v =
     v\<lparr>tv_heap := tv_heap v @ [(Tcp_session_new raw closed)\<lparr>ts_closed := False\<rparr>], tv_pending := length (tv_heap v)\<rparr>"

definition Tcp_server_new :: "byte list \<Rightarrow> bool \<Rightarrow> Tcp_server" where
  "Tcp_server_new raw closed = tv_start_accept raw closed \<lparr>tv_heap = [], tv_list = [], tv_pending = 0\<rparr>"

definition tv_handle_accept :: "string option \<Rightarrow> byte list \<Rightarrow> bool \<Rightarrow> Tcp_server \<Rightarrow> Tcp_server" where
  "tv_handle_accept error raw closed v =
     tv_start_accept raw closed
       (case error of None \<Rightarrow> v\<lparr>tv_list := tv_list v @ [tv_pending v]\<rparr> | Some _ \<Rightarrow> v)"

text \<open>
  The loop over the list from the iterator's position on: \<open>erase\<close> moves the iterator to the next session, and the
  loop moves it once more; an iterator at the end cannot be moved.
\<close>

function tv_Post_loop :: "byte list \<Rightarrow> int \<Rightarrow> nat \<Rightarrow> Tcp_server \<Rightarrow> Tcp_server option" where
  "tv_Post_loop buff len i v =
     (if i < length (tv_list v) then
        (let it = tv_list v ! i in
         if ts_closed (tv_heap v ! it) then
           (let l = take i (tv_list v) @ drop (Suc i) (tv_list v) in
            if i < length l then tv_Post_loop buff len (Suc i) (v\<lparr>tv_list := l\<rparr>) else None)
         else
           (case ts_Post buff len (tv_heap v ! it) of
              None \<Rightarrow> None
            | Some s \<Rightarrow> tv_Post_loop buff len (Suc i) (v\<lparr>tv_heap := (tv_heap v)[it := s]\<rparr>)))
      else Some v)"
  by pat_completeness auto
termination by (relation "measure (\<lambda>(b, n, i, v). length (tv_list v) - i)") auto

definition tv_Post :: "byte list \<Rightarrow> int \<Rightarrow> Tcp_server \<Rightarrow> Tcp_server option" where
  "tv_Post buff len v = (if tv_list v = [] then Some v else tv_Post_loop buff len 0 v)"

section \<open>Whom a message reaches\<close>

text \<open>The list that remains and the sessions the message is posted to\<close>

fun walk :: "('a \<Rightarrow> bool) \<Rightarrow> 'a list \<Rightarrow> ('a list \<times> 'a list) option" where
  "walk closed [] = Some ([], [])"
| "walk closed (x # xs) =
     (if closed x then
        (case xs of [] \<Rightarrow> None | y # ys \<Rightarrow> map_option (\<lambda>(kept, to). (y # kept, to)) (walk closed ys))
      else map_option (\<lambda>(kept, to). (x # kept, x # to)) (walk closed xs))"

lemma walk_cong [fundef_cong]: "xs = ys \<Longrightarrow> (\<And>x. x \<in> set ys \<Longrightarrow> p x = q x) \<Longrightarrow> walk p xs = walk q ys"
proof (induction p xs arbitrary: ys rule: walk.induct)
  case (2 closed x xs)
  then show ?case by (cases xs) auto
qed simp

lemma walk_subset: "walk p xs = Some (kept, to) \<Longrightarrow> set to \<subseteq> set kept \<and> set kept \<subseteq> set xs \<and> (distinct xs \<longrightarrow> distinct kept)"
proof (induction p xs arbitrary: kept to rule: walk.induct)
  case (2 closed x xs)
  then show ?case by (cases xs) (fastforce split: if_splits)+
qed simp

lemma walk_all_open: "\<forall>x \<in> set xs. \<not> p x \<Longrightarrow> walk p xs = Some (xs, xs)"
  by (induction xs) simp_all

lemma takeWhile_rev_all: "\<forall>x \<in> set xs. p x \<Longrightarrow> takeWhile p (rev xs) = rev xs"
  by (simp add: takeWhile_eq_all_conv)

text \<open>The loop fails exactly if the list ends in an odd number of closed sessions.\<close>

lemma walk_None: "walk p xs = None \<longleftrightarrow> odd (length (takeWhile p (rev xs)))"
proof (induction p xs rule: walk.induct)
  case (2 closed x xs)
  show ?case
  proof (cases xs)
    case Nil
    then show ?thesis by simp
  next
    case (Cons y ys)
    show ?thesis
    proof (cases "closed x")
      case False
      then have "takeWhile closed (rev xs @ [x]) = takeWhile closed (rev xs)"
        by (simp add: takeWhile_append takeWhile_rev_all)
      with 2 False show ?thesis by simp
    next
      case True
      with 2(1) [OF this Cons] Cons show ?thesis by (auto simp: takeWhile_append takeWhile_rev_all)
    qed
  qed
qed simp

text \<open>The sessions after the message was posted to some of them\<close>

definition deliver :: "byte list \<Rightarrow> int \<Rightarrow> nat list \<Rightarrow> Tcp_session list \<Rightarrow> Tcp_session list" where
  "deliver b n to h = map (\<lambda>r. if r \<in> set to then posted b n (h ! r) else h ! r) [0..<length h]"

lemma deliver_Nil [simp]: "deliver b n [] h = h"
  by (simp add: deliver_def map_nth)

lemma deliver_Cons:
  "r < length h \<Longrightarrow> r \<notin> set to \<Longrightarrow> deliver b n to (h[r := posted b n (h ! r)]) = deliver b n (r # to) h"
  by (rule nth_equalityI) (auto simp: deliver_def nth_list_update)

definition list_ok :: "Tcp_server \<Rightarrow> bool" where
  "list_ok v \<longleftrightarrow> distinct (tv_list v) \<and> set (tv_list v) \<subseteq> {..<length (tv_heap v)}"

abbreviation closed_in :: "Tcp_session list \<Rightarrow> nat \<Rightarrow> bool" where
  "closed_in h r \<equiv> ts_closed (h ! r)"

declare tv_Post_loop.simps [simp del]

lemma Post_loop_walk:
  assumes "list_ok v" and "i \<le> length (tv_list v)" and "size_ok b n"
  shows "tv_Post_loop b n i v = map_option (\<lambda>(kept, to). v\<lparr>tv_list := take i (tv_list v) @ kept,
      tv_heap := deliver b n to (tv_heap v)\<rparr>) (walk (closed_in (tv_heap v)) (drop i (tv_list v)))"
  using assms
proof (induction b n i v rule: tv_Post_loop.induct)
  case (1 b n i v)
  let ?h = "tv_heap v" and ?l = "tv_list v"
  show ?case
  proof (cases "i < length ?l")
    case False
    with 1(4) show ?thesis by (subst tv_Post_loop.simps) simp
  next
    case True
    let ?x = "?l ! i" and ?xs = "drop (Suc i) ?l"
    have d: "drop i ?l = ?x # ?xs" using True by (simp add: Cons_nth_drop_Suc)
    have x: "?x < length ?h" "?x \<notin> set ?xs"
      using 1(3) True subsetD [OF _ nth_mem [OF True]]
      by (simp add: list_ok_def) (use 1(3) True in \<open>auto simp: list_ok_def in_set_conv_nth nth_eq_iff_index_eq\<close>)
    show ?thesis
    proof (cases "closed_in ?h ?x")
      case closed: True
      let ?k = "take i ?l @ ?xs"
      show ?thesis
      proof (cases ?xs)
        case Nil
        with closed d True show ?thesis by (simp add: tv_Post_loop.simps [of b n i v] Let_def)
      next
        case (Cons y ys)
        have ys: "take (Suc i) ?k = take i ?l @ [y]" "drop (Suc i) ?k = ys" using True Cons by simp_all
        have "distinct (take i ?l @ ?x # ?xs) \<and> set (take i ?l @ ?x # ?xs) \<subseteq> {..<length ?h}"
          unfolding id_take_nth_drop [OF True, symmetric] using 1(3) by (simp add: list_ok_def)
        then have ok: "list_ok (v\<lparr>tv_list := ?k\<rparr>)" by (simp add: list_ok_def)
        have "i < length ?k" "Suc i \<le> length ?k" using True Cons by simp_all
        with 1(1) [OF True refl closed refl _ ok] 1(5) ys d closed Cons True show ?thesis
          by (simp add: tv_Post_loop.simps [of b n i v] Let_def option.map_comp comp_def split_def)
      qed
    next
      case opened: False
      let ?v = "v\<lparr>tv_heap := ?h[?x := posted b n (?h ! ?x)]\<rparr>"
      have p: "ts_Post b n (?h ! ?x) = Some (posted b n (?h ! ?x))" using 1(5) by (rule ts_Post_ok)
      have "walk (closed_in (tv_heap ?v)) ?xs = walk (closed_in ?h) ?xs"
        using x(1) by (intro walk_cong) (auto simp: nth_list_update)
      moreover have "list_ok ?v" using 1(3) by (simp add: list_ok_def)
      moreover have "deliver b n to (tv_heap ?v) = deliver b n (?x # to) ?h"
        if "walk (closed_in ?h) ?xs = Some (kept, to)" for kept to
        using walk_subset [OF that] x by (auto intro: deliver_Cons)
      moreover have "take (Suc i) ?l = take i ?l @ [?x]" using True by (simp add: take_Suc_conv_app_nth)
      ultimately show ?thesis
        using 1(2) [OF True refl opened p] 1(5) True opened d p
        by (cases "walk (closed_in ?h) ?xs") (auto simp: tv_Post_loop.simps [of b n i v] Let_def)
    qed
  qed
qed

lemma broadcast:
  assumes "list_ok v" and "size_ok b n"
  shows "tv_Post b n v = map_option (\<lambda>(kept, to). v\<lparr>tv_list := kept, tv_heap := deliver b n to (tv_heap v)\<rparr>)
    (walk (closed_in (tv_heap v)) (tv_list v))"
  using Post_loop_walk [OF assms(1) _ assms(2), of 0] by (simp add: tv_Post_def)

text \<open>
  C39: a broadcast, of a message whose length is within its buffer and what a message may hold. The post walks the list of
  sessions, each of which is there once: to an open session the message is posted, that is, put in front of its queue,
  and written at once if the queue was empty; a closed one is taken off the list, and the session after it, open or
  closed, is kept but passed over, so that nothing is posted to it. When a closed session is the last one the walk meets,
  the loop steps beyond the end of the list.
\<close>

theorem broadcast_walk:
  assumes "list_ok v" and "size_ok b n"
  shows "tv_Post b n v = map_option (\<lambda>(kept, to). v\<lparr>tv_list := kept, tv_heap := deliver b n to (tv_heap v)\<rparr>)
    (walk (closed_in (tv_heap v)) (tv_list v))"
  using assms by (rule broadcast)

definition tcp0 :: Tcp_session where
  "tcp0 = Tcp_session_new [] False"

corollary broadcast_walk_witness:
  "map_option tv_list (tv_Post [7] 1 \<lparr>tv_heap = [tcp0, tcp0\<lparr>ts_closed := True\<rparr>, tcp0, tcp0], tv_list = [0, 1, 2], tv_pending = 3\<rparr>)
    = Some [0, 2] \<and>
   map_option (\<lambda>v. map ts_writes (tv_heap v))
     (tv_Post [7] 1 \<lparr>tv_heap = [tcp0, tcp0\<lparr>ts_closed := True\<rparr>, tcp0, tcp0], tv_list = [0, 1, 2], tv_pending = 3\<rparr>)
    = Some [[[7]], [], [], []]"
proof -
  let ?v = "\<lparr>tv_heap = [tcp0, tcp0\<lparr>ts_closed := True\<rparr>, tcp0, tcp0], tv_list = [0, 1, 2], tv_pending = 3\<rparr>"
  have "list_ok ?v" by (auto simp: list_ok_def)
  from broadcast_walk [OF this, of 1 "[7]"] show ?thesis
    by (simp add: deliver_def posted_def ts_async_write_def tcp0_def Tcp_session_new_def Let_def upt_rec)
qed

section \<open>The server at work\<close>

text \<open>Accepts complete, messages are posted, and the writes of the sessions complete.\<close>

datatype tv_event = TvAccept "string option" "byte list" bool | TvPost "byte list" int | TvWritten nat "string option"

fun tv_step :: "tv_event \<Rightarrow> Tcp_server \<Rightarrow> Tcp_server option" where
  "tv_step (TvAccept error raw closed) v = Some (tv_handle_accept error raw closed v)"
| "tv_step (TvPost buff len) v = tv_Post buff len v"
| "tv_step (TvWritten r error) v =
     (if r < length (tv_heap v) then
        map_option (\<lambda>s. v\<lparr>tv_heap := (tv_heap v)[r := s]\<rparr>) (ts_completion error (tv_heap v ! r))
      else Some v)"

fun wf_tv :: "tv_event \<Rightarrow> bool" where
  "wf_tv (TvPost buff len) \<longleftrightarrow> size_ok buff len"
| "wf_tv _ \<longleftrightarrow> True"

definition tv_inv :: "Tcp_server \<Rightarrow> bool" where
  "tv_inv v \<longleftrightarrow> list_ok v \<and> tv_pending v < length (tv_heap v) \<and> tv_pending v \<notin> set (tv_list v) \<and>
     list_all flight_inv (tv_heap v)"

lemma flight_new: "flight_inv ((Tcp_session_new raw closed)\<lparr>ts_closed := False\<rparr>)"
  by (simp add: Tcp_session_new_def flight_inv_def Let_def)

lemma flight_posted: "flight_inv s \<Longrightarrow> size_ok b n \<Longrightarrow> flight_inv (posted b n s)"
  using flight_step [of s "Posted b n"] by (simp add: ts_Post_ok)

lemma tv_inv_accept: "tv_inv v \<Longrightarrow> tv_inv (tv_handle_accept error raw closed v)"
  by (cases error) (auto simp: tv_inv_def list_ok_def tv_handle_accept_def tv_start_accept_def flight_new)

lemma tv_inv_new: "tv_inv (Tcp_server_new raw closed)"
  by (simp add: tv_inv_def list_ok_def Tcp_server_new_def tv_start_accept_def flight_new)

lemma tv_inv_deliver:
  assumes "tv_inv v" and "size_ok b n" and "walk p (tv_list v) = Some (kept, to)"
  shows "tv_inv (v\<lparr>tv_list := kept, tv_heap := deliver b n to (tv_heap v)\<rparr>)"
  using assms(1,2) walk_subset [OF assms(3)]
  by (auto simp: tv_inv_def list_ok_def deliver_def list_all_length flight_posted)

lemma tv_step_inv:
  assumes "tv_inv v" and "wf_tv ev" and "tv_step ev v = Some v'"
  shows "tv_inv v'"
proof (cases ev)
  case (TvAccept error raw closed)
  with assms tv_inv_accept show ?thesis by auto
next
  case (TvPost b n)
  from assms(1) have "list_ok v" by (simp add: tv_inv_def)
  with assms(2,3) TvPost broadcast [where v = v and b = b and n = n] obtain kept to where
    "walk (closed_in (tv_heap v)) (tv_list v) = Some (kept, to)"
    "v' = v\<lparr>tv_list := kept, tv_heap := deliver b n to (tv_heap v)\<rparr>" by auto
  with tv_inv_deliver [OF assms(1), where b = b and n = n] assms(2) TvPost show ?thesis by simp
next
  case (TvWritten r error)
  have "flight_inv t" if "ts_completion error (tv_heap v ! r) = Some t" "r < length (tv_heap v)" for t
    using flight_step [of "tv_heap v ! r" "Written error"] assms(1) that by (auto simp: tv_inv_def list_all_length)
  with assms(1,3) TvWritten show ?thesis
    by (auto simp: tv_inv_def list_ok_def list_all_length nth_list_update split: if_splits)
qed

interpretation tv: machine tv_step tv_inv wf_tv
  by unfold_locales (rule tv_step_inv)

text \<open>
  The server fails in one way only. Whatever is accepted, posted and completed, in whatever order, every completion
  finds the message it removes; a next event fails exactly if it is a post and the list ends in an odd number of closed
  sessions.
\<close>

theorem server_fails_iff:
  assumes "runs tv_step evs (Tcp_server_new raw closed) = Some v" and "list_all wf_tv evs" and "wf_tv ev"
  shows "tv_step ev v = None \<longleftrightarrow>
    (\<exists>b n. ev = TvPost b n) \<and> odd (length (takeWhile (closed_in (tv_heap v)) (rev (tv_list v))))"
proof -
  have inv: "tv_inv v" by (rule tv.runs_inv [OF tv_inv_new assms(2,1)])
  then have l: "list_ok v" by (simp add: tv_inv_def)
  show ?thesis
  proof (cases ev)
    case (TvPost b n)
    with assms(3) broadcast [OF l, where b = b and n = n] show ?thesis by (simp add: walk_None)
  next
    case (TvWritten r error)
    show ?thesis
    proof (cases "r < length (tv_heap v)")
      case True
      with inv flight_step [of "tv_heap v ! r" "Written error"] TvWritten show ?thesis
        by (auto simp: tv_inv_def list_all_length)
    qed (simp add: TvWritten)
  qed simp
qed

corollary server_fails_iff_witness:
  "\<exists>v. runs tv_step [TvAccept None [] False, TvPost [7] 1, TvWritten 0 (Some ''broken pipe'')] (Tcp_server_new [] False) = Some v \<and>
    tv_step (TvPost [8] 1) v = None"
proof -
  let ?evs = "[TvAccept None [] False, TvPost [7] 1, TvWritten 0 (Some ''broken pipe'')]"
  obtain v where v: "runs tv_step ?evs (Tcp_server_new [] False) = Some v" "tv_list v = [0]" "ts_closed (tv_heap v ! 0)"
    by (simp add: tv_Post_def tv_Post_loop.simps Tcp_server_new_def tv_handle_accept_def tv_start_accept_def ts_Post_ok
        posted_def ts_completion_def ts_handle_write_def ts_CloseSocket_def ts_async_write_def Tcp_session_new_def Let_def)
  from server_fails_iff [OF v(1), of "TvPost [8] 1"] v show ?thesis by (auto simp del: runs.simps tv_step.simps)
qed

section \<open>The servers of the program\<close>

text \<open>
  The global list of servers. \<open>bound\<close> tells whether the acceptor got its port; if not, the exception is printed and
  the list stays as it is.
\<close>

definition Tcp_server_init :: "bool \<Rightarrow> byte list \<Rightarrow> bool \<Rightarrow> Tcp_server list \<Rightarrow> Tcp_server list" where
  "Tcp_server_init bound raw closed servers = (if bound then servers @ [Tcp_server_new raw closed] else servers)"

definition tcp_heartbeat :: "byte list" where
  "tcp_heartbeat = str_bytes ''hello'' @ [10] @ replicate 122 0"

text \<open>The handler of the timer signal, with the flag it keeps; there is no first server before one was made.\<close>

definition sgn_sys :: "bool \<times> Tcp_server list \<Rightarrow> (bool \<times> Tcp_server list) option" where
  "sgn_sys st = (case st of (initted, servers) \<Rightarrow>
     (case servers of [] \<Rightarrow> None | v # vs \<Rightarrow> map_option (\<lambda>v. (True, v # vs)) (tv_Post tcp_heartbeat 8 v)))"

lemma sgn_sys_new:
  "sgn_sys (initted, Tcp_server_init True raw closed []) = Some (True, [Tcp_server_new raw closed])"
  by (simp add: sgn_sys_def Tcp_server_init_def tv_Post_def Tcp_server_new_def tv_start_accept_def)

end
