(* ===== verification/Client.thy ===== *)
theory Client
  imports SessionFacts
begin

text \<open>
  The test client \<open>src/client.cpp\<close>: its handlers as functions on its buffers, with the calls they make, and what the
  server makes of the line it sends. The errors of its reads and writes are ignored in the code.
\<close>

section \<open>The client\<close>

record client =
  cl_buf :: "byte list"
  cl_sbuf :: "byte list"

datatype client_io =
    Connect
  | CloseClient
  | NoDelay
  | ClientError string
  | ClientWrite "byte list"
  | ReadUntil byte
  | Shown "byte list"

definition hello_text :: string where
  "hello_text = ''Hello World!'' @ [CHR 0x0A]"

definition client_start :: "client \<Rightarrow> client \<times> client_io list" where
  "client_start c = (c, [Connect])"

text \<open>An error is its text and whether it is a cancellation.\<close>

definition client_handle_connect :: "(string \<times> bool) option \<Rightarrow> client \<Rightarrow> (client \<times> client_io list) option" where
  "client_handle_connect error c =
     (case error of
        Some (what, cancelled) \<Rightarrow> Some (c, (if cancelled then [] else [ClientError what]) @ [CloseClient])
      | None \<Rightarrow> do {
          buf \<leftarrow> patch 0 (str_bytes hello_text @ [0]) (cl_buf c);
          let c = c\<lparr>cl_buf := buf\<rparr>;
          msg \<leftarrow> cstr (cl_buf c);
          Some (c, [NoDelay, ClientWrite (str_bytes msg)])
        })"

text \<open>\<open>memset(dst, value, n)\<close>\<close>

definition memset :: "byte \<Rightarrow> nat \<Rightarrow> byte list \<Rightarrow> byte list option" where
  "memset v n dst = patch 0 (replicate n v) dst"

text \<open>The arguments of \<open>memset\<close> are in the wrong order: it sets no byte.\<close>

definition client_handle_write :: "string option \<Rightarrow> client \<Rightarrow> (client \<times> client_io list) option" where
  "client_handle_write error c = do {
     buf \<leftarrow> memset (of_nat (length (cl_buf c))) 0 (cl_buf c);
     Some (c\<lparr>cl_buf := buf\<rparr>, [ReadUntil 10])
   }"

text \<open>The completion prints what has arrived, which empties the buffer.\<close>

definition client_handle_read :: "string option \<Rightarrow> client \<Rightarrow> client \<times> client_io list" where
  "client_handle_read error c = (c\<lparr>cl_sbuf := []\<rparr>, [Shown (cl_sbuf c)])"

section \<open>The client and the server\<close>

text \<open>A frame of a type that the handler does not know changes nothing but the buffer.\<close>

definition known_types :: "byte list" where
  "known_types = [1, 3, 5, 7, 9, 11, 17, 21, 101]"

lemma unknown_type_ignored:
  assumes "session_inv s e" and "se_alive s" and "\<not> se_recvCaprure s"
    and "4 < length bs" and "length bs \<le> MAX_PACKET_LEN" and "bs ! 4 \<notin> set known_types"
  shows "handle_read h sdk un now (Transferred bs) s e = Some (arrived bs s, emit [ReadMore] e)"
proof -
  obtain w where "ParseFrameHead (Some (bs @ drop (length bs) (se_data s))) (int (length bs)) (un_head un) =
    Some (0, (un_head un)\<lparr>ph_frameSize := w, ph_type := bs ! 4\<rparr>)" using frame_head [OF assms(4)] by blast
  with assms(6) show ?thesis
    by (simp add: read_frame [OF assms(1-3,5)] handle_frame_def known_types_def Let_def)
qed

definition hello :: "byte list" where
  "hello = str_bytes hello_text"

lemma hello_simps: "length hello = 13" "hello ! 4 = 111" "cstr (hello @ 0 # bs) = Some hello_text"
proof -
  have "no_nul hello_text" by (simp add: hello_text_def ord8_def)
  then show "cstr (hello @ 0 # bs) = Some hello_text" unfolding hello_def by (rule cstr_str_bytes)
qed (simp_all add: hello_def hello_text_def ord8_def)

lemma memset_nothing: "memset v 0 dst = Some dst"
  by (simp add: memset_def patch_def)

text \<open>
  The client of the repository is never answered. It writes a line of text and waits for a line; the server takes
  the fifth character of the text for the type of a frame, knows no such type, sends nothing and reads on. The
  buffer of the client, which \<open>memset\<close> should clear, still holds the text.
\<close>

theorem client_gets_no_answer:
  assumes "session_inv s e" and "se_alive s" and "\<not> se_recvCaprure s" and "length (cl_buf c) = 1024"
  shows "\<exists>c'. client_handle_connect None c = Some (c', [NoDelay, ClientWrite hello]) \<and>
    client_handle_write error c' = Some (c', [ReadUntil 10]) \<and> take 13 (cl_buf c') = hello \<and>
    handle_read h sdk un now (Transferred hello) s e = Some (arrived hello s, emit [ReadMore] e)"
proof -
  have "patch 0 (hello @ [0]) (cl_buf c) = Some (hello @ 0 # drop 14 (cl_buf c))"
    using assms(4) by (simp add: patch_def hello_simps)
  moreover have "handle_read h sdk un now (Transferred hello) s e = Some (arrived hello s, emit [ReadMore] e)"
    by (rule unknown_type_ignored [OF assms(1-3)]) (simp_all add: hello_simps known_types_def MAX_PACKET_LEN_def)
  ultimately show ?thesis
    by (simp add: client_handle_connect_def client_handle_write_def memset_nothing hello_simps hello_def [symmetric] Let_def)
qed

corollary client_gets_no_answer_witness:
  "handle_read host0 sdk_ok uninit0 0 (Transferred hello) session1 env1 = Some (arrived hello session1, emit [ReadMore] env1)"
  using client_gets_no_answer [OF session1_inv, where c = "\<lparr>cl_buf = replicate 1024 0, cl_sbuf = []\<rparr>" and h = host0
      and sdk = sdk_ok and un = uninit0 and now = 0] by auto

end
