(* ===== verification/Spec2Isabelle.thy ===== *)
theory Spec2Isabelle
  imports Rounds Concurrency UpdateContents StoredUpdate TcpServer Client
begin

text \<open>
  A model of the server ipc-server, which schedules speed-dome cameras over capture devices, and
  the theorems that make it correct. Paths are those of the repository.

  \<^bold>\<open>The program.\<close> A capture device connects to port 6061, logs in, and is given a free camera of the
  mission it is listed in; a timer then turns the camera from preset to preset and sends the device
  the schedule of the snapshots to take there. The device answers with heartbeats and snapshots, which the
  server keeps. A configuration client connects to port 6062, adds and changes cameras, missions
  and their grouping, and is sent the whole state every three seconds. Missions, cameras and
  presets are kept in an SQLite file that is loaded at the start.

  \<^bold>\<open>Theories and sources.\<close>
  \<^item> \<open>Prelude\<close>: counting loops, lists updated by index, C strings and their bytes, and \<open>yields\<close> (what holds of
    the result of a computation, if it has one). \<open>Buffer\<close>: reading and
    writing integers and strings at an offset of a byte buffer, with the interface \<open>wire_field\<close> (what is
    written is read back, nothing else changes), interpreted for each kind of field. \<open>Machine\<close>: runs of a step
    function, with the interfaces \<open>machine\<close> (an invariant of every run) and \<open>simulation\<close> (a specification every run
    implements). \<open>Slots\<close>: the array with a counter
    that missions use; its interface \<open>slots\<close> and the specification \<open>key_step\<close> on lists of numbers.
  \<^item> \<open>ProtocolTypes\<close>, \<open>Protocol\<close>, \<open>ProtocolFacts\<close>: \<open>inc/protocol.h\<close> and \<open>src/protocol.cpp\<close>, the frames
    of the capture devices. Each packager is proved equal to the byte string of its frame, each
    parser to invert the documented layout, and the inputs on which a parser leaves its arrays are characterised.
  \<^item> \<open>Crc16\<close>, \<open>CfgProtocol\<close>, \<open>CfgFacts\<close>: \<open>src/protocol_CfgClient.cpp\<close>, the frames of the clients. The
    table-driven checksum equals the bitwise reference.
  \<^item> \<open>DeviceTypes\<close>, \<open>DomeCam\<close>: \<open>inc/SpeedDomeCam.h\<close>, \<open>src/HIKCam.cpp\<close>, a camera over the vendor's library.
  \<^item> \<open>Mission\<close>, \<open>MissionFacts\<close>: the class \<open>CMission\<close> of \<open>src/mission.cpp\<close>. \<open>MissionMap\<close>,
    \<open>MissionMapFacts\<close>: the functions on the map of all missions, as the operations of a transition relation
    whose reachable states are well-formed.
  \<^item> \<open>CaptureDevice\<close>, \<open>CaptureDeviceFacts\<close>: \<open>src/CaptureDevice.cpp\<close>, one step for each expiry of the
    timer, and the tour over the presets, which ends whatever the camera answers.
  \<^item> \<open>Session\<close>, \<open>SessionFacts\<close>: \<open>inc/session.h\<close>, the completion handlers of a device's connection.
  \<^item> \<open>Sql\<close>, \<open>MissionConfig\<close>, \<open>SqlFacts\<close>: \<open>src/sql_conn.cpp\<close> and \<open>src/mission_config.cpp\<close>, the statements as
    text and the callback that rebuilds missions, cameras, devices and presets from the rows.
  \<^item> \<open>Rows\<close>, \<open>MissionGroups\<close>, \<open>Loading\<close>, \<open>StoredUpdate\<close>: the way back from the tables. From the rows of what was stored the start of
    the program rebuilds the missions with their cameras, devices and the part of the presets the tables keep; after a change
    of a camera, whose UPDATE is read as SQL, it rebuilds the new settings with the old presets.
  \<^item> \<open>ConfigSession\<close>, \<open>ConfigUpdateFacts\<close>, \<open>ConfigRequestFacts\<close>: \<open>inc/config_session.h\<close>, the requests
    of a client and the periodic update with its timer. \<open>UpdateContents\<close>: the specification \<open>update_text\<close> of what an
    update tells a client, and that it does.
  \<^item> \<open>Server\<close>: \<open>inc/service_pool.h\<close>, \<open>inc/server.h\<close> and \<open>src/ipc-server.cpp\<close>.
  \<^item> \<open>System\<close>: all of these together. An event is an accepted connection, a completed read or write, or a timer
    that expires; the invariants of the components hold together after every sequence of events.
  \<^item> \<open>Allocation\<close>, \<open>Exclusive\<close>: who has which camera. The specification \<open>alloc\<close> has six moves on the flags of the
    cameras and the cameras the devices tour with (nothing happens, a free camera is taken, a camera is given back, a device
    stops touring, a device connects, cameras are installed); every step of the program is one of them, except the lapses
    that are named and shown. As long as no lapse does harm, no two devices
    ever tour with one camera. \<open>Tours\<close>: a tour goes on among the other devices as it does alone. \<open>Journey\<close>: the
    way of a device from its login to the end of its tour. \<open>Rounds\<close>: the heartbeat after a tour starts the next one.
  \<^item> \<open>Threads\<close>, \<open>Locks\<close>, \<open>Concurrency\<close>: the handlers as programs of lock, unlock and atomic actions on the
    shared missions, run by any number of threads in any interleaving. The order of the mutexes excludes deadlock; a call
    of the functions on the missions is atomic; two searches for a camera never find the same one; and the places where
    the code uses two different mutexes for one object are shown as races.
  \<^item> \<open>TcpServer\<close>: \<open>src/tcp_server.hpp\<close> and \<open>src/tcp_message.hpp\<close>, a server that sends a message to all who are
    connected: the queue of a session and the loop over the sessions. \<open>Client\<close>: \<open>src/client.cpp\<close>, whose line of text the
    server does not answer.

  \<^bold>\<open>Conventions.\<close> A structure is a record whose fields are the members behind a short prefix; an
  integer keeps its width. \<open>None\<close> as the result of an operation means that the code leaves defined
  behaviour there: an access outside an array, a null pointer, a division by zero, a conversion that
  throws. The code's own error codes are values inside \<open>Some\<close>. Members and locals the code does not initialise are
  arguments (\<open>raw\<close>, \<open>uninit\<close>, \<open>cfg_uninit\<close>), so that no theorem depends on their values. The host's byte order is that of
  the x86 target, little endian.

  \<^bold>\<open>Parameters.\<close> What is not under the sources is an argument: the vendor's camera library (record \<open>sdk\<close>),
  the conversions between character sets, number parsing and printing of the C++ library (\<open>host\<close>,
  \<open>parser\<close>), SQLite as the rows a statement yields after the statements before it (\<open>sqlite\<close>), the file system (\<open>rfile\<close>).
  Where a theorem needs something of them it is a named hypothesis, and its witness gives an instance.

  \<^bold>\<open>Time and interleaving.\<close> In \<open>System\<close> a completion handler runs to its end as one step, and which handler runs
  next is open: \<open>system_run\<close> takes any sequence of events. What two handlers do that run at the same time in two threads is
  the subject of \<open>Locks\<close> and \<open>Concurrency\<close>, where a handler is a sequence of accesses under the mutexes \<open>mu\<close>, \<open>mu_SDC\<close>
  and \<open>cfg_mtx\<close>; one access there is a whole member of a mission, a look at a camera or a loop of the update, so a
  torn read of one field is not modelled. The timers count seconds; a cancelled wait still runs its handler, as the code
  binds it without the error code.

  \<^bold>\<open>Bounds.\<close> No definition uses fuel: every loop of the code counts to a bound that is known when it
  begins (\<open>for_loop\<close>) or follows a list (\<open>tv_Post_loop\<close>, with the sessions left as its measure), and a timer's rounds are
  steps of a run.

  \<^bold>\<open>Not modelled.\<close> The headers of the vendor's libraries (\<open>inc/HCNetSDK.h\<close>, \<open>inc/DataType.h\<close>,
  \<open>inc/DecodeCardSdk.h\<close>, \<open>inc/LinuxPlayM4.h\<close>, \<open>inc/PlayM4.h\<close>) and the database templates \<open>inc/otlv4.h\<close>
  hold declarations and foreign code. \<open>inc/db_conn_pool.h\<close> is a template that is not valid C++ (an alias stands between the
  parameters and the class) and that no file includes; \<open>src/main.cpp\<close>, \<open>src/server.cpp\<close>, \<open>src/service_pool.cpp\<close>, \<open>src/session.cpp\<close> and
  \<open>src/config_session.cpp\<close> are empty. Code under \<open>#if 0\<close>, console output and the counting of
  messages per second are left out.
\<close>

end
